(* ===== verification/Prelude.thy ===== *)
theory Prelude
  imports Main "HOL-Library.Sublist"
begin

text \<open>
  Shared vocabulary of the development: Go errors as values, HTTP status codes, Go's
  \<^verbatim>\<open>time.Time\<close> and the Linux view of the file system the server reads, the named collections
  of rewrite rules, the generic lemmas on lists and maps that the components share, and two
  generic locales (a transition system with an invariant, and a state shared by users)
  that the stateful components interpret.
\<close>

section \<open>Rule collections\<close>

named_theorems go_simps \<open>unfolding rules for the modelled parts of the Go standard library\<close>
named_theorems handler_defs \<open>definitions of request handlers and the operations they call\<close>

section \<open>Errors, results and responses\<close>

text \<open>
  A Go \<^verbatim>\<open>error\<close> is a value. The sentinels that the source tests with \<^verbatim>\<open>errors.Is\<close> are
  constructors of their own; every other error carries its text.
\<close>

datatype goerror =
    ErrText string
  | ErrNotExist string
  | ErrExist string
  | ErrSymlink string
  | ErrTimeDockAccountRequired
  | ErrTimeDockPathDenied
  | ErrArgon2Busy
  | ErrUserBusy
  | ErrLastAdmin
  | ErrNoRows

type_synonym 'a res = "goerror + 'a"

text \<open>\<^verbatim>\<open>err.Error()\<close>; the errors of the operating system carry their own text.\<close>

fun errText :: "goerror \<Rightarrow> string" where
  "errText (ErrText t) = t"
| "errText (ErrNotExist t) = t"
| "errText (ErrExist t) = t"
| "errText (ErrSymlink p) = p @ '': symbolic links are not allowed''"
| "errText ErrTimeDockAccountRequired = ''Please set your TimeDock account''"
| "errText ErrTimeDockPathDenied = ''path is outside the current TimeDock account''"
| "errText ErrArgon2Busy = ''password processing is busy; try again later''"
| "errText ErrUserBusy = ''user has an active scan''"
| "errText ErrLastAdmin = ''the last active administrator cannot be deleted''"
| "errText ErrNoRows = ''sql: no rows in result set''"

definition errString :: "goerror option \<Rightarrow> string" where
  "errString err = (case err of None \<Rightarrow> [] | Some e \<Rightarrow> errText e)"

text \<open>Decoded JSON values (\<^verbatim>\<open>any\<close> after \<^verbatim>\<open>json.Unmarshal\<close>).\<close>

datatype json = JNull | JBool bool | JNumber int | JString string | JArray "json list"
  | JObject "(string \<times> json) list"

type_synonym jobject = "(string \<times> json) list"

text \<open>\<^verbatim>\<open>v, ok := m[key].(string)\<close>.\<close>

definition stringField :: "jobject \<Rightarrow> string \<Rightarrow> string option" where
  "stringField m key = (case map_of m key of Some (JString t) \<Rightarrow> Some t | _ \<Rightarrow> None)"

text \<open>A step of a fallible computation: the early return \<^verbatim>\<open>if err != nil\<close>.\<close>

definition bind_res :: "'a res \<Rightarrow> ('a \<Rightarrow> 'b res) \<Rightarrow> 'b res" where
  "bind_res r f = (case r of Inl e \<Rightarrow> Inl e | Inr x \<Rightarrow> f x)"

lemma bind_res_Inl [simp]: "bind_res (Inl e) f = Inl e"
  by (simp add: bind_res_def)

lemma bind_res_Inr [simp]: "bind_res (Inr x) f = f x"
  by (simp add: bind_res_def)

lemma bind_res_eq_Inr [simp]:
  "bind_res r f = Inr y \<longleftrightarrow> (\<exists>x. r = Inr x \<and> f x = Inr y)"
  by (cases r) (auto simp: bind_res_def)

text \<open>The status codes the handlers answer with (\<^verbatim>\<open>net/http\<close>).\<close>

abbreviation StatusOK :: nat where "StatusOK \<equiv> 200"
abbreviation StatusCreated :: nat where "StatusCreated \<equiv> 201"
abbreviation StatusAccepted :: nat where "StatusAccepted \<equiv> 202"
abbreviation StatusBadRequest :: nat where "StatusBadRequest \<equiv> 400"
abbreviation StatusUnauthorized :: nat where "StatusUnauthorized \<equiv> 401"
abbreviation StatusForbidden :: nat where "StatusForbidden \<equiv> 403"
abbreviation StatusNotFound :: nat where "StatusNotFound \<equiv> 404"
abbreviation StatusMethodNotAllowed :: nat where "StatusMethodNotAllowed \<equiv> 405"
abbreviation StatusConflict :: nat where "StatusConflict \<equiv> 409"
abbreviation StatusTooManyRequests :: nat where "StatusTooManyRequests \<equiv> 429"
abbreviation StatusInternalServerError :: nat where "StatusInternalServerError \<equiv> 500"

text \<open>
  A response: the status and the JSON value \<^verbatim>\<open>writeJSON\<close> encodes. \<^verbatim>\<open>http.NotFound\<close> answers with
  plain text, the value \<open>JString\<close> here.
\<close>

record response =
  rsp_status :: nat
  rsp_body :: json

definition writeJSON :: "nat \<Rightarrow> json \<Rightarrow> response" where
  "writeJSON status value = \<lparr> rsp_status = status, rsp_body = value \<rparr>"

definition writeError :: "nat \<Rightarrow> goerror \<Rightarrow> response" where
  "writeError status err = writeJSON status (JObject [(''error'', JString (errText err))])"

definition methodNotAllowed :: response where
  "methodNotAllowed = writeError StatusMethodNotAllowed (ErrText ''method not allowed'')"

definition httpNotFound :: response where
  "httpNotFound = writeJSON StatusNotFound (JString ''404 page not found'')"

datatype httpMethod = MethodGet | MethodPost | MethodPut | MethodPatch | MethodDelete | MethodOther

lemma writeJSON_simps [simp]:
  "rsp_status (writeJSON st v) = st" "rsp_body (writeJSON st v) = v"
  "rsp_status (writeError st e) = st"
  by (simp_all add: writeJSON_def writeError_def)

lemma methodNotAllowed_status [simp]: "rsp_status methodNotAllowed = StatusMethodNotAllowed"
  by (simp add: methodNotAllowed_def)

text \<open>\<^verbatim>\<open>fmt.Errorf("prefix: %w", err)\<close>.\<close>

definition wrapErr :: "string \<Rightarrow> goerror \<Rightarrow> goerror" where
  "wrapErr what err = ErrText (what @ '': '' @ errText err)"

section \<open>Time\<close>

text \<open>
  \<^verbatim>\<open>time.Time\<close> and \<^verbatim>\<open>time.Duration\<close> are counted in nanoseconds; an instant counts them from
  Go's zero time (January 1, year 1), so \<^verbatim>\<open>IsZero\<close> is equality with 0.
\<close>

type_synonym gotime = int
type_synonym duration = int

definition Second :: duration where "Second = 1000000000"
definition Minute :: duration where "Minute = 60 * Second"

definition IsZero :: "gotime \<Rightarrow> bool" where "IsZero t \<longleftrightarrow> t = 0"

lemma Second_pos [simp]: "0 < Second"
  by (simp add: Second_def)

section \<open>The file system as the server reads it\<close>

text \<open>
  The kernel's answers to \<^verbatim>\<open>lstat\<close>, \<^verbatim>\<open>stat\<close> and \<^verbatim>\<open>readdir\<close>. The operating system is not part of
  the repository, so an \<open>osview\<close> is an argument of every definition that asks it.
\<close>

datatype filemode = ModeDir | ModeSymlink | ModeRegular | ModeOther

record fileinfo =
  fi_mode :: filemode
  fi_size :: int
  fi_mtime :: gotime

record direntry =
  de_name :: string
  de_mode :: filemode

record osview =
  os_Lstat :: "string \<Rightarrow> fileinfo res"
  os_Stat :: "string \<Rightarrow> fileinfo res"
  os_ReadDir :: "string \<Rightarrow> direntry list res"

fun is_not_exist :: "goerror \<Rightarrow> bool" where
  "is_not_exist (ErrNotExist _) = True"
| "is_not_exist _ = False"

text \<open>
  A file system for worked examples: every path is a directory, and every directory holds the
  one entry \<^verbatim>\<open>usb1\<close>.
\<close>

definition dirInfo :: fileinfo where
  "dirInfo = \<lparr> fi_mode = ModeDir, fi_size = 0, fi_mtime = 1 \<rparr>"

definition plainView :: osview where
  "plainView = \<lparr> os_Lstat = (\<lambda>_. Inr dirInfo), os_Stat = (\<lambda>_. Inr dirInfo),
                 os_ReadDir = (\<lambda>_. Inr [\<lparr> de_name = ''usb1'', de_mode = ModeDir \<rparr>]) \<rparr>"

section \<open>Lists and maps\<close>

lemma filter_remove1_other: "\<not> P x \<Longrightarrow> filter P (remove1 x xs) = filter P xs"
  by (induction xs) auto

lemma filter_remove1_same: "P x \<Longrightarrow> filter P (remove1 x xs) = remove1 x (filter P xs)"
  by (induction xs) auto

lemma distinct_remove1_set: "distinct xs \<Longrightarrow> set (remove1 x xs) = set xs - {x}"
  by (induction xs) auto

lemma dom_map_upd_insert: "dom (m(k \<mapsto> v)) = insert k (dom m)"
  by auto

section \<open>Transition systems with an invariant\<close>

text \<open>
  A component whose operations interleave is a step relation. Its safety properties are
  invariants; the induction over runs is done once, here.
\<close>

locale transition_invariant =
  fixes init :: "'s \<Rightarrow> bool"
    and step :: "'s \<Rightarrow> 's \<Rightarrow> bool"
    and inv :: "'s \<Rightarrow> bool"
  assumes init_inv: "init s \<Longrightarrow> inv s"
    and step_inv: "step s t \<Longrightarrow> inv s \<Longrightarrow> inv t"
begin

lemma run_inv: "rtranclp step s t \<Longrightarrow> inv s \<Longrightarrow> inv t"
  by (induction rule: rtranclp_induct) (auto intro: step_inv)

lemma reachable_inv: "init s \<Longrightarrow> rtranclp step s t \<Longrightarrow> inv t"
  using run_inv init_inv by blast

end

section \<open>State that is shared by users\<close>

text \<open>
  Operations by one user keep the invariant and every other user's view. A run of such
  operations then cannot be seen by a user that takes no part in it.
\<close>

fun runOps :: "('u \<Rightarrow> 'op \<Rightarrow> 's \<Rightarrow> 's) \<Rightarrow> 's \<Rightarrow> ('u \<times> 'op) list \<Rightarrow> 's" where
  "runOps f s [] = s"
| "runOps f s ((u, op) # ops) = runOps f (f u op s) ops"

fun runAdmissible ::
    "('u \<Rightarrow> 'op \<Rightarrow> 's \<Rightarrow> bool) \<Rightarrow> ('u \<Rightarrow> 'op \<Rightarrow> 's \<Rightarrow> 's) \<Rightarrow> 's \<Rightarrow> ('u \<times> 'op) list \<Rightarrow> bool" where
  "runAdmissible ok f s [] = True"
| "runAdmissible ok f s ((u, op) # ops) = (ok u op s \<and> runAdmissible ok f (f u op s) ops)"

locale user_views =
  fixes inv :: "'s \<Rightarrow> bool"
    and ok :: "'u \<Rightarrow> 'op \<Rightarrow> 's \<Rightarrow> bool"
    and perform :: "'u \<Rightarrow> 'op \<Rightarrow> 's \<Rightarrow> 's"
    and view :: "'s \<Rightarrow> 'u \<Rightarrow> 'v"
  assumes perform_inv: "inv s \<Longrightarrow> ok u op s \<Longrightarrow> inv (perform u op s)"
    and perform_frame: "inv s \<Longrightarrow> ok u op s \<Longrightarrow> v \<noteq> u \<Longrightarrow> view (perform u op s) v = view s v"
begin

lemma run_invariant: "inv s \<Longrightarrow> runAdmissible ok perform s ops \<Longrightarrow> inv (runOps perform s ops)"
proof (induction ops arbitrary: s)
  case (Cons x ops)
  obtain u op where x: "x = (u, op)" by (cases x)
  with Cons.prems have "inv (perform u op s)" by (auto intro: perform_inv)
  with Cons x show ?case by simp
qed simp

lemma run_frame:
  "inv s \<Longrightarrow> runAdmissible ok perform s ops \<Longrightarrow> v \<notin> fst ` set ops \<Longrightarrow>
     view (runOps perform s ops) v = view s v"
proof (induction ops arbitrary: s)
  case (Cons x ops)
  obtain u op where x: "x = (u, op)" by (cases x)
  with Cons.prems have "view (perform u op s) v = view s v" "inv (perform u op s)"
    by (auto intro: perform_frame perform_inv)
  with Cons x show ?case by simp
qed simp

end

end
