(* ===== verification/Go_Strings.thy ===== *)
theory Go_Strings
  imports Prelude
begin

text \<open>
  The parts of Go's \<^verbatim>\<open>strings\<close> and \<^verbatim>\<open>strconv\<close> packages that the server uses, on byte strings
  (a HOL \<open>char\<close> is a byte). Arguments keep the Go order. White space is
  \<^verbatim>\<open>unicode.IsSpace\<close> on the UTF-8 decoding, which the model reads off the bytes: the lead
  bytes of the multi-byte spaces are never continuation bytes, so a space rune stands exactly
  where one of these byte sequences occurs.
\<close>

section \<open>Bytes\<close>

abbreviation byte :: "char \<Rightarrow> nat" where "byte c \<equiv> of_char c"

definition isDigit :: "char \<Rightarrow> bool" where
  "isDigit c \<longleftrightarrow> 48 \<le> byte c \<and> byte c \<le> 57"

definition isLower :: "char \<Rightarrow> bool" where
  "isLower c \<longleftrightarrow> 97 \<le> byte c \<and> byte c \<le> 122"

definition isUpper :: "char \<Rightarrow> bool" where
  "isUpper c \<longleftrightarrow> 65 \<le> byte c \<and> byte c \<le> 90"

definition isAlnum :: "char \<Rightarrow> bool" where
  "isAlnum c \<longleftrightarrow> isLower c \<or> isUpper c \<or> isDigit c"

section \<open>Prefixes, suffixes and search\<close>

definition HasPrefix :: "string \<Rightarrow> string \<Rightarrow> bool" where
  "HasPrefix s p \<longleftrightarrow> take (length p) s = p"

definition TrimPrefix :: "string \<Rightarrow> string \<Rightarrow> string" where
  "TrimPrefix s p = (if HasPrefix s p then drop (length p) s else s)"

definition HasSuffix :: "string \<Rightarrow> string \<Rightarrow> bool" where
  "HasSuffix s p \<longleftrightarrow> length p \<le> length s \<and> drop (length s - length p) s = p"

definition TrimSuffix :: "string \<Rightarrow> string \<Rightarrow> string" where
  "TrimSuffix s p = (if HasSuffix s p then take (length s - length p) s else s)"

text \<open>\<^verbatim>\<open>strings.Contains\<close> of a substring.\<close>

fun Contains :: "string \<Rightarrow> string \<Rightarrow> bool" where
  "Contains [] p = (p = [])"
| "Contains (c # cs) p = (HasPrefix (c # cs) p \<or> Contains cs p)"

text \<open>
  \<^verbatim>\<open>strings.Index\<close>, \<^verbatim>\<open>strings.IndexByte\<close> and \<^verbatim>\<open>strings.LastIndex\<close> of one byte; \<open>None\<close> is Go's -1.
\<close>

fun IndexByte :: "string \<Rightarrow> char \<Rightarrow> nat option" where
  "IndexByte [] c = None"
| "IndexByte (x # xs) c = (if x = c then Some 0 else map_option Suc (IndexByte xs c))"

fun LastIndexByte :: "string \<Rightarrow> char \<Rightarrow> nat option" where
  "LastIndexByte [] c = None"
| "LastIndexByte (x # xs) c =
     (case LastIndexByte xs c of
        Some i \<Rightarrow> Some (Suc i)
      | None \<Rightarrow> if x = c then Some 0 else None)"

text \<open>\<^verbatim>\<open>strings.IndexAny(s, " \t")\<close> and \<^verbatim>\<open>strings.ContainsAny\<close> with an ASCII character set.\<close>

fun IndexAny :: "string \<Rightarrow> string \<Rightarrow> nat option" where
  "IndexAny [] cs = None"
| "IndexAny (x # xs) cs = (if x \<in> set cs then Some 0 else map_option Suc (IndexAny xs cs))"

definition ContainsAny :: "string \<Rightarrow> string \<Rightarrow> bool" where
  "ContainsAny s cs \<longleftrightarrow> list_ex (\<lambda>c. c \<in> set cs) s"

text \<open>\<^verbatim>\<open>strings.Cut\<close> around the first occurrence of a one-byte separator.\<close>

fun Cut :: "string \<Rightarrow> char \<Rightarrow> string \<times> string \<times> bool" where
  "Cut [] sep = ([], [], False)"
| "Cut (x # xs) sep =
     (if x = sep then ([], xs, True)
      else (case Cut xs sep of (a, b, ok) \<Rightarrow> (x # a, b, ok)))"

text \<open>\<^verbatim>\<open>strings.Split\<close> and \<^verbatim>\<open>strings.Join\<close> for a one-byte separator.\<close>

fun Split :: "string \<Rightarrow> char \<Rightarrow> string list" where
  "Split [] sep = [[]]"
| "Split (x # xs) sep =
     (if x = sep then [] # Split xs sep
      else (case Split xs sep of [] \<Rightarrow> [[x]] | f # fs \<Rightarrow> (x # f) # fs))"

fun Join :: "string list \<Rightarrow> string \<Rightarrow> string" where
  "Join [] sep = []"
| "Join [x] sep = x"
| "Join (x # y # ys) sep = x @ sep @ Join (y # ys) sep"

text \<open>\<^verbatim>\<open>strings.ReplaceAll(s, "\r\n", "\n")\<close>.\<close>

abbreviation CR :: char where "CR \<equiv> CHR 0x0D"
abbreviation LF :: char where "LF \<equiv> CHR 0x0A"
abbreviation TAB :: char where "TAB \<equiv> CHR 0x09"
abbreviation SP :: char where "SP \<equiv> CHR '' ''"
abbreviation DQ :: char where "DQ \<equiv> CHR 0x22"

fun ReplaceCRLF :: "string \<Rightarrow> string" where
  "ReplaceCRLF [] = []"
| "ReplaceCRLF [c] = [c]"
| "ReplaceCRLF (c # d # cs) =
     (if c = CR \<and> d = LF then LF # ReplaceCRLF cs else c # ReplaceCRLF (d # cs))"

section \<open>White space\<close>

text \<open>
  The length in bytes of the white-space rune at the head of a string, 0 when there is none:
  the ASCII spaces, U+0085 and U+00A0 (two bytes), U+1680, U+2000 to U+200A, U+2028, U+2029,
  U+202F, U+205F and U+3000 (three bytes).
\<close>

definition asciiSpace :: "char \<Rightarrow> bool" where
  "asciiSpace c \<longleftrightarrow> (9 \<le> byte c \<and> byte c \<le> 13) \<or> byte c = 32"

definition space2 :: "char \<Rightarrow> char \<Rightarrow> bool" where
  "space2 c d \<longleftrightarrow> byte c = 0xC2 \<and> (byte d = 0x85 \<or> byte d = 0xA0)"

definition space3 :: "char \<Rightarrow> char \<Rightarrow> char \<Rightarrow> bool" where
  "space3 c d e \<longleftrightarrow>
     (byte c = 0xE1 \<and> byte d = 0x9A \<and> byte e = 0x80)
   \<or> (byte c = 0xE2 \<and> byte d = 0x80 \<and>
        ((0x80 \<le> byte e \<and> byte e \<le> 0x8A) \<or> byte e = 0xA8 \<or> byte e = 0xA9 \<or> byte e = 0xAF))
   \<or> (byte c = 0xE2 \<and> byte d = 0x81 \<and> byte e = 0x9F)
   \<or> (byte c = 0xE3 \<and> byte d = 0x80 \<and> byte e = 0x80)"

definition spaceLen :: "string \<Rightarrow> nat" where
  "spaceLen s =
     (case s of
        [] \<Rightarrow> 0
      | c # s1 \<Rightarrow>
          if asciiSpace c then 1
          else (case s1 of
                  [] \<Rightarrow> 0
                | d # s2 \<Rightarrow>
                    if space2 c d then 2
                    else (case s2 of [] \<Rightarrow> 0 | e # _ \<Rightarrow> if space3 c d e then 3 else 0)))"

lemma spaceLen_le_length: "spaceLen s \<le> length s"
  by (auto simp: spaceLen_def split: list.splits)

lemma spaceLen_shrinks: "0 < spaceLen s \<Longrightarrow> length s - spaceLen s < length s"
  using spaceLen_le_length [of s] by (cases s) auto

lemma spaceLen_Nil [simp]: "spaceLen [] = 0"
  by (simp add: spaceLen_def)

text \<open>\<^verbatim>\<open>strings.TrimSpace\<close>: leading spaces, then trailing ones.\<close>

function TrimLeftSpace :: "string \<Rightarrow> string" where
  "TrimLeftSpace s = (if spaceLen s = 0 then s else TrimLeftSpace (drop (spaceLen s) s))"
  by pat_completeness auto
termination
  by (relation "measure length") (auto simp: spaceLen_shrinks)

declare TrimLeftSpace.simps [simp del]

text \<open>
  The space rune that ends a string is found by \<^verbatim>\<open>utf8.DecodeLastRuneInString\<close>, which reads
  at most the last three bytes of a space; \<open>spaceEnd\<close> gives its length.
\<close>

definition spaceEnd :: "string \<Rightarrow> nat" where
  "spaceEnd s =
     (let n = length s in
      if 1 \<le> n \<and> spaceLen (drop (n - 1) s) = 1 then 1
      else if 2 \<le> n \<and> spaceLen (drop (n - 2) s) = 2 then 2
      else if 3 \<le> n \<and> spaceLen (drop (n - 3) s) = 3 then 3
      else 0)"

lemma spaceEnd_le_length: "spaceEnd s \<le> length s"
  by (auto simp: spaceEnd_def Let_def)

lemma spaceEnd_shrinks: "0 < spaceEnd s \<Longrightarrow> length s - spaceEnd s < length s"
  using spaceEnd_le_length [of s] by (cases s) auto

function TrimRightSpace :: "string \<Rightarrow> string" where
  "TrimRightSpace s =
     (if spaceEnd s = 0 then s else TrimRightSpace (take (length s - spaceEnd s) s))"
  by pat_completeness auto
termination
  by (relation "measure length") (auto simp: spaceEnd_shrinks)

declare TrimRightSpace.simps [simp del]

definition TrimSpace :: "string \<Rightarrow> string" where
  "TrimSpace s = TrimRightSpace (TrimLeftSpace s)"

text \<open>\<^verbatim>\<open>strings.TrimLeft\<close> with an ASCII cutset.\<close>

definition TrimLeft :: "string \<Rightarrow> string \<Rightarrow> string" where
  "TrimLeft s cs = dropWhile (\<lambda>c. c \<in> set cs) s"

text \<open>\<^verbatim>\<open>strings.Fields\<close>: the maximal runs of bytes that hold no space rune.\<close>

function fieldsFrom :: "string \<Rightarrow> string \<Rightarrow> string list" where
  "fieldsFrom cur [] = (if cur = [] then [] else [cur])"
| "fieldsFrom cur (c # cs) =
     (let n = spaceLen (c # cs) in
      if n = 0 then fieldsFrom (cur @ [c]) cs
      else if cur = [] then fieldsFrom [] (drop n (c # cs))
      else cur # fieldsFrom [] (drop n (c # cs)))"
  by pat_completeness auto
termination
  by (relation "measure (\<lambda>(cur, s). length s)") (auto simp: Let_def)

declare fieldsFrom.simps [simp del]

definition Fields :: "string \<Rightarrow> string list" where
  "Fields s = fieldsFrom [] s"

section \<open>Decimal numbers\<close>

definition digitVal :: "char \<Rightarrow> int" where
  "digitVal c = int (byte c) - 48"

fun digitsVal :: "int \<Rightarrow> string \<Rightarrow> int option" where
  "digitsVal acc [] = Some acc"
| "digitsVal acc (c # cs) =
     (if isDigit c then digitsVal (10 * acc + digitVal c) cs else None)"

text \<open>
  \<^verbatim>\<open>strconv.Atoi\<close> on a 64-bit platform: an optional sign, at least one digit, nothing else,
  and the value in the range of \<^verbatim>\<open>int64\<close>; \<open>None\<close> is any error.
\<close>

definition Atoi :: "string \<Rightarrow> int option" where
  "Atoi s =
     (let (sign, ds) =
        (case s of
           [] \<Rightarrow> (1, [])
         | c # cs \<Rightarrow> if c = CHR ''-'' then (- 1, cs) else if c = CHR ''+'' then (1, cs) else (1, s))
      in if ds = [] then None
         else (case digitsVal 0 ds of
                 None \<Rightarrow> None
               | Some v \<Rightarrow>
                   if - (2 ^ 63) \<le> sign * v \<and> sign * v < 2 ^ 63 then Some (sign * v) else None))"

text \<open>\<^verbatim>\<open>strconv.Itoa\<close>.\<close>

definition digitChar :: "nat \<Rightarrow> char" where
  "digitChar d = char_of (48 + d)"

fun natDigits :: "nat \<Rightarrow> string" where
  "natDigits n = (if n < 10 then [digitChar n] else natDigits (n div 10) @ [digitChar (n mod 10)])"

declare natDigits.simps [simp del]

definition Itoa :: "int \<Rightarrow> string" where
  "Itoa i = (if i < 0 then CHR ''-'' # natDigits (nat (- i)) else natDigits (nat i))"

text \<open>The comparison \<^verbatim>\<open><\<close> of strings, byte by byte, and sorting by such a key.\<close>

fun strLess :: "string \<Rightarrow> string \<Rightarrow> bool" where
  "strLess _ [] = False"
| "strLess [] (_ # _) = True"
| "strLess (x # xs) (y # ys) =
     ((of_char x :: nat) < of_char y \<or> x = y \<and> strLess xs ys)"

fun insertSorted :: "('a \<Rightarrow> 'a \<Rightarrow> bool) \<Rightarrow> 'a \<Rightarrow> 'a list \<Rightarrow> 'a list" where
  "insertSorted lt x [] = [x]"
| "insertSorted lt x (y # ys) = (if lt y x then y # insertSorted lt x ys else x # y # ys)"

definition sortSlice :: "('a \<Rightarrow> 'a \<Rightarrow> bool) \<Rightarrow> 'a list \<Rightarrow> 'a list" where
  "sortSlice lt xs = foldr (insertSorted lt) xs []"

lemma strLess_irrefl [simp]: "\<not> strLess x x"
  by (induction x) auto

lemma strLess_trans: "strLess x y \<Longrightarrow> strLess y z \<Longrightarrow> strLess x z"
proof (induction x y arbitrary: z rule: strLess.induct)
  case (2 y ys)
  then show ?case by (cases z) auto
next
  case (3 x xs y ys)
  then show ?case by (cases z) auto
qed simp

lemma strLess_total: "strLess x y \<or> x = y \<or> strLess y x"
proof (induction x y rule: strLess.induct)
  case (1 x)
  then show ?case by (cases x) auto
next
  case (3 x xs y ys)
  have "(of_char x :: nat) < of_char y \<or> x = y \<or> (of_char y :: nat) < of_char x"
    using linorder_less_linear [of "of_char x :: nat" "of_char y"] by simp
  then show ?case using 3 by auto
qed simp

lemma insertSorted_set [simp]: "set (insertSorted lt x ys) = insert x (set ys)"
  "length (insertSorted lt x ys) = Suc (length ys)"
  by (induction ys) auto

lemma sortSlice_set [simp]: "set (sortSlice lt xs) = set xs" "length (sortSlice lt xs) = length xs"
  by (induction xs) (auto simp: sortSlice_def)

end
