(* ===== verification/Go_Paths.thy ===== *)
theory Go_Paths
  imports Go_Strings
begin

text \<open>
  Go's \<^verbatim>\<open>path/filepath\<close> on Linux, where the volume name is empty and the separator is a slash:
  \<open>Clean\<close>, \<open>filepath_Join\<close> and \<open>Rel_root\<close>, with the algebra of clean absolute paths that
  the path checks rest on: a clean absolute path is a slash followed by the components it is
  made of, none of them empty, dot or dot-dot, and containment between such paths is the
  prefix order on component lists.
\<close>

section \<open>Definitions\<close>

abbreviation SEP :: char where "SEP \<equiv> CHR ''/''"

fun cleanComps :: "bool \<Rightarrow> string list \<Rightarrow> string list \<Rightarrow> string list" where
  "cleanComps rooted acc [] = rev acc"
| "cleanComps rooted acc (c # cs) =
     (if c = [] \<or> c = ''.'' then cleanComps rooted acc cs
      else if c = ''..'' then
        (case acc of
           [] \<Rightarrow> if rooted then cleanComps rooted [] cs else cleanComps rooted [c] cs
         | a # as \<Rightarrow> if a = ''..'' then cleanComps rooted (c # a # as) cs
                     else cleanComps rooted as cs)
      else cleanComps rooted (c # acc) cs)"

definition Clean :: "string \<Rightarrow> string" where
  "Clean path =
     (if path = [] then ''.''
      else let rooted = HasPrefix path ''/'';
               out = cleanComps rooted [] (Split path SEP)
           in if rooted then SEP # Join out ''/''
              else if out = [] then ''.'' else Join out ''/'')"

text \<open>\<^verbatim>\<open>filepath.Join(a, b)\<close>: empty elements are ignored.\<close>

definition filepath_Join :: "string \<Rightarrow> string \<Rightarrow> string" where
  "filepath_Join a b =
     (if a = [] then (if b = [] then [] else Clean b) else Clean (a @ ''/'' @ b))"

text \<open>\<^verbatim>\<open>filepath.Rel("/", target)\<close>.\<close>

definition Rel_root :: "string \<Rightarrow> string res" where
  "Rel_root target =
     (let targ = Clean target in
      if targ = ''/'' then Inr ''.''
      else if HasPrefix targ ''/'' then Inr (tl targ)
      else Inl (ErrText ''Rel: can't make target relative''))"

text \<open>\<^verbatim>\<open>filepath.Dir\<close>: everything up to and including the last separator, cleaned.\<close>

definition Dir :: "string \<Rightarrow> string" where
  "Dir path =
     (case LastIndexByte path SEP of
        None \<Rightarrow> Clean []
      | Some i \<Rightarrow> Clean (take (Suc i) path))"

text \<open>\<^verbatim>\<open>filepath.Base\<close>: trailing separators removed, then the last component.\<close>

definition Base :: "string \<Rightarrow> string" where
  "Base path =
     (if path = [] then ''.''
      else let p = rev (dropWhile (\<lambda>c. c = SEP) (rev path));
               b = (case LastIndexByte p SEP of None \<Rightarrow> p | Some i \<Rightarrow> drop (Suc i) p)
           in if b = [] then ''/'' else b)"

section \<open>Components\<close>

text \<open>
  \<open>goodComp\<close>: a path component that \<open>Clean\<close> keeps. \<open>absPath\<close>: the clean absolute path
  made of a list of components.
\<close>

definition goodComp :: "string \<Rightarrow> bool" where
  "goodComp c \<longleftrightarrow> c \<noteq> [] \<and> c \<noteq> ''.'' \<and> c \<noteq> ''..'' \<and> SEP \<notin> set c"

definition absPath :: "string list \<Rightarrow> string" where
  "absPath cs = SEP # Join cs ''/''"

lemma goodComp_simps [simp]:
  "\<not> goodComp []" "\<not> goodComp ''.''" "\<not> goodComp ''..''"
  by (simp_all add: goodComp_def)

lemma goodCompI: "c \<noteq> [] \<Longrightarrow> c \<noteq> ''.'' \<Longrightarrow> c \<noteq> ''..'' \<Longrightarrow> SEP \<notin> set c \<Longrightarrow> goodComp c"
  by (simp add: goodComp_def)

lemma goodComp_noSEP: "goodComp c \<Longrightarrow> SEP \<notin> set c"
  by (simp add: goodComp_def)

lemma HasPrefix_append [simp]: "HasPrefix (p @ s) p"
  by (simp add: HasPrefix_def)

lemma HasPrefix_iff: "HasPrefix s p \<longleftrightarrow> (\<exists>t. s = p @ t)"
  by (metis HasPrefix_append HasPrefix_def append_take_drop_id)

lemma HasPrefix_slash: "HasPrefix s ''/'' \<longleftrightarrow> (\<exists>t. s = SEP # t)"
  by (simp add: HasPrefix_iff)

lemma Split_nonempty [simp]: "Split s sep \<noteq> []"
  by (induction s) (auto split: list.splits)

lemma Split_no_sep: "sep \<notin> set s \<Longrightarrow> Split s sep = [s]"
  by (induction s) auto

lemma Split_append_sep: "Split (a @ sep # b) sep = Split a sep @ Split b sep"
  by (induction a) (auto split: list.splits)

lemma Split_comps_no_sep: "c \<in> set (Split s sep) \<Longrightarrow> sep \<notin> set c"
  by (induction s arbitrary: c) (auto split: if_splits list.splits)

lemma Split_Join:
  "cs \<noteq> [] \<Longrightarrow> (\<And>c. c \<in> set cs \<Longrightarrow> SEP \<notin> set c) \<Longrightarrow> Split (Join cs ''/'') SEP = cs"
  by (induction cs "''/''" rule: Join.induct)
     (auto simp: Split_no_sep Split_append_sep)

lemma Split_Join_good: "list_all goodComp cs \<Longrightarrow> cs \<noteq> [] \<Longrightarrow> Split (Join cs ''/'') SEP = cs"
  by (rule Split_Join) (auto simp: list_all_iff goodComp_def)

lemma Join_append:
  "xs \<noteq> [] \<Longrightarrow> ys \<noteq> [] \<Longrightarrow> Join (xs @ ys) sep = Join xs sep @ sep @ Join ys sep"
proof (induction xs sep rule: Join.induct)
  case (2 x sep)
  then show ?case by (cases ys) auto
qed auto

lemma Join_eq_Nil: "list_all goodComp cs \<Longrightarrow> Join cs sep = [] \<longleftrightarrow> cs = []"
  by (induction cs sep rule: Join.induct) auto

section \<open>Clean absolute paths\<close>

lemma cleanComps_good:
  "list_all goodComp acc \<Longrightarrow> (\<And>c. c \<in> set cs \<Longrightarrow> SEP \<notin> set c) \<Longrightarrow>
     list_all goodComp (cleanComps True acc cs)"
proof (induction cs arbitrary: acc)
  case Nil
  then show ?case by simp
next
  case (Cons c cs)
  have noSEP: "SEP \<notin> set c" and rest: "\<And>d. d \<in> set cs \<Longrightarrow> SEP \<notin> set d"
    using Cons.prems(2) by auto
  have IH: "\<And>acc. list_all goodComp acc \<Longrightarrow> list_all goodComp (cleanComps True acc cs)"
    using Cons.IH rest by blast
  show ?case
    using Cons.prems(1) noSEP
    by (auto simp: IH goodCompI split: list.splits)
qed

lemma cleanComps_keeps_good:
  "list_all goodComp cs \<Longrightarrow> cleanComps rooted acc cs = rev acc @ cs"
  by (induction cs arbitrary: acc) (auto simp: goodComp_def)

lemma cleanComps_append_good:
  "list_all goodComp cs \<Longrightarrow>
     cleanComps rooted acc (cs @ ds) = cleanComps rooted (rev cs @ acc) ds"
  by (induction cs arbitrary: acc) (auto simp: goodComp_def)

lemma Clean_absolute:
  assumes "HasPrefix p ''/''"
  obtains cs where "Clean p = absPath cs" and "list_all goodComp cs"
proof -
  let ?cs = "cleanComps True [] (Split p SEP)"
  have "list_all goodComp ?cs"
    by (rule cleanComps_good) (auto dest: Split_comps_no_sep)
  moreover have "p \<noteq> []" using assms by (auto simp: HasPrefix_def)
  then have "Clean p = absPath ?cs"
    using assms by (simp add: Clean_def absPath_def)
  ultimately show thesis using that by blast
qed

text \<open>\<open>Clean\<close> makes no relative path absolute.\<close>

lemma cleanComps_subset: "set (cleanComps rooted acc cs) \<subseteq> set acc \<union> (set cs - {[]})"
proof (induction cs arbitrary: acc)
  case (Cons c cs)
  show ?case
    using Cons.IH [of acc] Cons.IH [of "[]"] Cons.IH [of "[c]"] Cons.IH [of "tl acc"]
      Cons.IH [of "c # acc"]
    by (cases acc) auto
qed simp

lemma Join_head_no_sep:
  "[] \<notin> set cs \<Longrightarrow> (\<forall>c \<in> set cs. SEP \<notin> set c) \<Longrightarrow> \<not> HasPrefix (Join cs ''/'') ''/''"
proof (induction cs "''/''" rule: Join.induct)
  case (2 x)
  then show ?case by (cases x) (auto simp: HasPrefix_def)
next
  case (3 x y ys)
  then show ?case by (cases x) (auto simp: HasPrefix_def)
qed (simp add: HasPrefix_def)

lemma Clean_HasPrefix_slash [simp]: "HasPrefix (Clean p) ''/'' \<longleftrightarrow> HasPrefix p ''/''"
proof (cases "HasPrefix p ''/''")
  case True
  then have "p \<noteq> []" by (auto simp: HasPrefix_def)
  with True have "Clean p = SEP # Join (cleanComps True [] (Split p SEP)) ''/''"
    by (simp add: Clean_def)
  then show ?thesis using True by (simp add: HasPrefix_def)
next
  case False
  let ?out = "cleanComps False [] (Split p SEP)"
  have "[] \<notin> set ?out \<and> (\<forall>c \<in> set ?out. SEP \<notin> set c)"
    using cleanComps_subset [of False "[]" "Split p SEP"] by (auto dest: Split_comps_no_sep)
  then have "\<not> HasPrefix (Join ?out ''/'') ''/''" by (simp add: Join_head_no_sep)
  then have "\<not> HasPrefix (Clean p) ''/''"
    using False by (simp add: Clean_def Let_def) (simp add: HasPrefix_def)
  with False show ?thesis by simp
qed

lemma Clean_absPath [simp]: "list_all goodComp cs \<Longrightarrow> Clean (absPath cs) = absPath cs"
proof (cases "cs = []")
  case True
  then show ?thesis by (simp add: Clean_def absPath_def HasPrefix_def)
next
  case False
  assume good: "list_all goodComp cs"
  then have "Split (absPath cs) SEP = [] # cs"
    using False by (simp add: absPath_def Split_Join_good)
  with good show ?thesis
    by (simp add: Clean_def HasPrefix_def cleanComps_keeps_good)
       (simp add: absPath_def HasPrefix_def)
qed

lemma absPath_HasPrefix [simp]: "HasPrefix (absPath cs) ''/''"
  by (simp add: absPath_def HasPrefix_def)

lemma absPath_inject:
  assumes "list_all goodComp cs" and "list_all goodComp ds"
  shows "absPath cs = absPath ds \<longleftrightarrow> cs = ds"
proof
  assume "absPath cs = absPath ds"
  then have J: "Join cs ''/'' = Join ds ''/''" by (simp add: absPath_def)
  show "cs = ds"
  proof (cases "cs = []")
    case True
    with J have "Join ds ''/'' = []" by simp
    with True assms(2) show ?thesis by (simp add: Join_eq_Nil)
  next
    case False
    with assms(1) have "Join cs ''/'' \<noteq> []" by (simp add: Join_eq_Nil)
    with J have "ds \<noteq> []" by auto
    then show ?thesis
      by (metis J Split_Join_good assms False)
  qed
qed simp

lemma filepath_Join_absPath:
  assumes "list_all goodComp cs" and "goodComp c"
  shows "filepath_Join (absPath cs) c = absPath (cs @ [c])"
proof -
  let ?p = "absPath cs @ ''/'' @ c"
  have c: "Split c SEP = [c]" using assms(2) by (simp add: Split_no_sep goodComp_def)
  have split: "Split ?p SEP = Split (absPath cs) SEP @ [c]"
    using c by (simp add: Split_append_sep)
  have "cleanComps True [] (Split ?p SEP) = cs @ [c]"
  proof (cases "cs = []")
    case True
    then show ?thesis using assms(2) split by (simp add: absPath_def goodComp_def)
  next
    case False
    then have "Split (absPath cs) SEP = [] # cs"
      using assms(1) by (simp add: absPath_def Split_Join_good)
    then show ?thesis using split assms by (simp add: cleanComps_keeps_good)
  qed
  moreover have "HasPrefix ?p ''/''" by (simp add: absPath_def HasPrefix_def)
  ultimately have "Clean ?p = absPath (cs @ [c])"
    by (simp add: Clean_def) (simp add: absPath_def)
  then show ?thesis by (simp add: filepath_Join_def) (simp add: absPath_def)
qed

text \<open>The parent of a clean absolute path.\<close>

lemma LastIndexByte_append: "c \<notin> set v \<Longrightarrow> LastIndexByte (u @ c # v) c = Some (length u)"
proof -
  have none: "c \<notin> set v \<Longrightarrow> LastIndexByte v c = None" for v by (induction v) auto
  show "c \<notin> set v \<Longrightarrow> LastIndexByte (u @ c # v) c = Some (length u)"
    by (induction u) (auto simp: none)
qed

lemma Clean_trailing_sep:
  assumes "list_all goodComp cs" and "cs \<noteq> []"
  shows "Clean (absPath cs @ [SEP]) = absPath cs"
proof -
  have "Split (absPath cs) SEP = [] # cs" using assms by (simp add: absPath_def Split_Join_good)
  then have "Split (absPath cs @ [SEP]) SEP = ([] # cs) @ [[]]" using Split_append_sep [of "absPath cs" SEP "[]"] by simp
  then have "cleanComps True [] (Split (absPath cs @ [SEP]) SEP) = cs" using assms(1) by (simp add: cleanComps_append_good)
  moreover have "HasPrefix (absPath cs @ [SEP]) ''/''" by (simp add: absPath_def HasPrefix_def)
  ultimately show ?thesis by (simp add: Clean_def) (simp add: absPath_def)
qed

lemma Dir_absPath:
  assumes "list_all goodComp cs" and "goodComp n"
  shows "Dir (absPath (cs @ [n])) = absPath cs"
proof -
  have n: "SEP \<notin> set n" using assms(2) by (simp add: goodComp_def)
  show ?thesis
  proof (cases "cs = []")
    case True
    have "LastIndexByte (SEP # n) SEP = Some 0" using LastIndexByte_append [OF n, of "[]"] by simp
    then show ?thesis using True Clean_absPath [of "[]"] by (simp add: Dir_def absPath_def)
  next
    case False
    then have "absPath (cs @ [n]) = absPath cs @ SEP # n"
      using Join_append [of cs "[n]" "''/''"] by (simp add: absPath_def)
    then show ?thesis
      using LastIndexByte_append [OF n, of "absPath cs"] Clean_trailing_sep [OF assms(1) False] by (simp add: Dir_def)
  qed
qed

text \<open>Containment of clean absolute paths is the prefix order on their components.\<close>

lemma absPath_contained:
  assumes ps: "list_all goodComp ps" and rs: "list_all goodComp rs" and ne: "rs \<noteq> []"
  shows "absPath ps = absPath rs \<or> HasPrefix (absPath ps) (absPath rs @ ''/'') \<longleftrightarrow> prefix rs ps"
proof
  assume "prefix rs ps"
  then obtain t where t: "ps = rs @ t" by (auto simp: prefix_def)
  show "absPath ps = absPath rs \<or> HasPrefix (absPath ps) (absPath rs @ ''/'')"
  proof (cases "t = []")
    case False
    then have "absPath ps = (absPath rs @ ''/'') @ Join t ''/''"
      using t ne by (simp add: absPath_def Join_append)
    then show ?thesis by (metis HasPrefix_append)
  qed (simp add: t)
next
  assume "absPath ps = absPath rs \<or> HasPrefix (absPath ps) (absPath rs @ ''/'')"
  then show "prefix rs ps"
  proof
    assume "absPath ps = absPath rs"
    then show ?thesis using absPath_inject ps rs by auto
  next
    assume "HasPrefix (absPath ps) (absPath rs @ ''/'')"
    then obtain t where "absPath ps = (absPath rs @ ''/'') @ t" by (auto simp: HasPrefix_iff)
    then have J: "Join ps ''/'' = Join rs ''/'' @ SEP # t" by (simp add: absPath_def)
    then have "ps \<noteq> []" by auto
    then have "ps = Split (Join ps ''/'') SEP"
      using ps by (simp add: Split_Join_good)
    also have "\<dots> = rs @ Split t SEP"
      using rs ne by (simp add: J Split_append_sep Split_Join_good)
    finally show ?thesis by (metis prefixI)
  qed
qed

end
