(* ===== verification/Go_Fields.thy ===== *)
theory Go_Fields
  imports Go_Strings
begin

text \<open>
  Words and white space: what \<^verbatim>\<open>strings.Fields\<close>, \<^verbatim>\<open>strings.TrimSpace\<close>, \<^verbatim>\<open>strings.TrimLeft\<close> and
  \<^verbatim>\<open>strings.IndexAny\<close> do on texts that are built from words without white space. The line formats
  of the configuration files are read back with these lemmas.
\<close>

section \<open>Words\<close>

text \<open>No white-space rune starts anywhere in the string.\<close>

fun spaceFree :: "string \<Rightarrow> bool" where
  "spaceFree [] = True"
| "spaceFree (c # cs) = (spaceLen (c # cs) = 0 \<and> spaceFree cs)"

definition word :: "string \<Rightarrow> bool" where
  "word w \<longleftrightarrow> w \<noteq> [] \<and> spaceFree w"

definition ascii :: "char \<Rightarrow> bool" where
  "ascii c \<longleftrightarrow> byte c < 128"

definition graphic :: "char \<Rightarrow> bool" where
  "graphic c \<longleftrightarrow> 33 \<le> byte c \<and> byte c \<le> 126"

lemma space_ascii:
  "ascii d \<Longrightarrow> \<not> space2 c d" "ascii d \<Longrightarrow> \<not> space3 c d e" "ascii e \<Longrightarrow> \<not> space3 c d e"
  by (auto simp: ascii_def space2_def space3_def)

lemma spaceLen_Cons:
  "spaceLen [c] = (if asciiSpace c then 1 else 0)"
  "spaceLen [c, d] = (if asciiSpace c then 1 else if space2 c d then 2 else 0)"
  "spaceLen (c # d # e # s) =
     (if asciiSpace c then 1 else if space2 c d then 2 else if space3 c d e then 3 else 0)"
  by (simp_all add: spaceLen_def)

lemma spaceLen_append:
  assumes "v \<noteq> []" and "spaceLen v = 0" and "rest = [] \<or> ascii (hd rest)"
  shows "spaceLen (v @ rest) = 0"
proof (cases rest)
  case (Cons x xs)
  then have x: "ascii x" using assms(3) by simp
  consider (1) c where "v = [c]" | (2) c d where "v = [c, d]" | (3) c d e u where "v = c # d # e # u"
    using assms(1) by (metis list.exhaust)
  then show ?thesis
  proof cases
    case 1
    then show ?thesis using assms(2) x Cons by (cases xs) (auto simp: spaceLen_Cons space_ascii split: if_splits)
  next
    case 2
    then show ?thesis using assms(2) x Cons by (auto simp: spaceLen_Cons space_ascii split: if_splits)
  next
    case 3
    then show ?thesis using assms(2) by (auto simp: spaceLen_Cons split: if_splits)
  qed
qed (use assms in simp)

lemma spaceFree_graphic: "list_all graphic w \<Longrightarrow> spaceFree w"
proof (induction w)
  case (Cons c w)
  then have "spaceLen (c # w) = 0"
    by (auto simp: spaceLen_def asciiSpace_def space2_def space3_def graphic_def split: list.splits)
  with Cons show ?case by simp
qed simp

lemma spaceFree_no_ascii: "spaceFree w \<Longrightarrow> c \<in> set w \<Longrightarrow> \<not> asciiSpace c"
  by (induction w) (auto simp: spaceLen_def split: if_splits)

lemma spaceFree_no_blank: "spaceFree w \<Longrightarrow> SP \<notin> set w \<and> TAB \<notin> set w \<and> LF \<notin> set w \<and> CR \<notin> set w"
  using spaceFree_no_ascii [of w] by (fastforce simp: asciiSpace_def)

lemma ascii_SP [simp]: "ascii SP" "asciiSpace SP"
  by (simp_all add: ascii_def asciiSpace_def)

lemma spaceLen_SP [simp]: "spaceLen (SP # s) = 1"
  by (simp add: spaceLen_def)

section \<open>Fields\<close>

lemma fieldsFrom_word:
  "spaceFree w \<Longrightarrow> rest = [] \<or> ascii (hd rest) \<Longrightarrow> fieldsFrom cur (w @ rest) = fieldsFrom (cur @ w) rest"
proof (induction w arbitrary: cur)
  case (Cons c w)
  have "spaceLen ((c # w) @ rest) = 0" using Cons.prems by (intro spaceLen_append) auto
  then show ?case using Cons by (simp add: fieldsFrom.simps Let_def)
qed simp

lemma Fields_Nil [simp]: "Fields [] = []"
  by (simp add: Fields_def fieldsFrom.simps)

lemma Fields_word [simp]: "word w \<Longrightarrow> Fields w = [w]"
  using fieldsFrom_word [of w "[]" "[]"] by (simp add: Fields_def word_def fieldsFrom.simps)

lemma Fields_word_SP [simp]: "word w \<Longrightarrow> Fields (w @ SP # rest) = w # Fields rest"
  using fieldsFrom_word [of w "SP # rest" "[]"]
  by (simp add: Fields_def word_def fieldsFrom.simps Let_def)

lemma Fields_SP [simp]: "Fields (SP # rest) = Fields rest"
  by (simp add: Fields_def fieldsFrom.simps Let_def)

text \<open>Whatever stands before it, the last words of a text are its last fields.\<close>

lemma fieldsFrom_append_SP:
  "\<exists>fs. fieldsFrom cur (s @ SP # rest) = fs @ Fields rest \<and> (cur \<noteq> [] \<longrightarrow> fs \<noteq> [])"
proof (induction cur s rule: fieldsFrom.induct)
  case (1 cur)
  show ?case
    by (cases "cur = []") (auto simp: fieldsFrom.simps Let_def Fields_def)
next
  case (2 cur c cs)
  let ?n = "spaceLen (c # cs)"
  show ?case
  proof (cases "?n = 0")
    case True
    then have "spaceLen ((c # cs) @ SP # rest) = 0" by (intro spaceLen_append) auto
    then have eq: "fieldsFrom cur ((c # cs) @ SP # rest) = fieldsFrom (cur @ [c]) (cs @ SP # rest)"
      by (simp add: fieldsFrom.simps Let_def)
    obtain fs where "fieldsFrom (cur @ [c]) (cs @ SP # rest) = fs @ Fields rest" "fs \<noteq> []"
      using 2(1) [OF refl True] by auto
    then show ?thesis unfolding eq by blast
  next
    case False
    have n: "?n \<le> length (c # cs)" by (rule spaceLen_le_length)
    have same: "spaceLen ((c # cs) @ SP # rest) = ?n"
      using False by (auto simp: spaceLen_def split: list.splits if_splits)
    have drop: "drop ?n ((c # cs) @ SP # rest) = drop ?n (c # cs) @ SP # rest"
      using n by (simp only: drop_append) simp
    have eq: "fieldsFrom cur ((c # cs) @ SP # rest) =
        (if cur = [] then fieldsFrom [] (drop ?n (c # cs) @ SP # rest)
         else cur # fieldsFrom [] (drop ?n (c # cs) @ SP # rest))"
      using False same drop by (simp add: fieldsFrom.simps Let_def del: drop_append)
    show ?thesis
    proof (cases "cur = []")
      case True
      obtain fs where "fieldsFrom [] (drop ?n (c # cs) @ SP # rest) = fs @ Fields rest"
        using 2(2) [OF refl False True] by auto
      then show ?thesis unfolding eq using True by auto
    next
      case ne: False
      obtain fs where "fieldsFrom [] (drop ?n (c # cs) @ SP # rest) = fs @ Fields rest"
        using 2(3) [OF refl False ne] by auto
      then have "fieldsFrom cur ((c # cs) @ SP # rest) = (cur # fs) @ Fields rest" using eq ne by simp
      then show ?thesis by blast
    qed
  qed
qed

lemma Fields_append_SP:
  assumes "s \<noteq> []" and "spaceLen s = 0"
  shows "\<exists>f fs. Fields (s @ SP # rest) = f # fs @ Fields rest"
proof -
  obtain c cs where s: "s = c # cs" using assms(1) by (cases s) auto
  have "spaceLen (s @ SP # rest) = 0" using assms by (intro spaceLen_append) auto
  then have "fieldsFrom [] (s @ SP # rest) = fieldsFrom [c] (cs @ SP # rest)"
    by (simp add: s fieldsFrom.simps Let_def)
  then show ?thesis
    using fieldsFrom_append_SP [of "[c]" cs rest] unfolding Fields_def
    by (metis append_Cons list.exhaust not_Cons_self)
qed

section \<open>Trimming\<close>

lemma spaceEnd_ascii:
  assumes "s \<noteq> []" and "ascii (last s)" and "\<not> asciiSpace (last s)"
  shows "spaceEnd s = 0"
proof -
  obtain t c where s: "s = t @ [c]" using assms(1) by (metis append_butlast_last_id)
  then have c: "ascii c" "\<not> asciiSpace c" using assms by auto
  have one: "spaceLen [c] = 0" using c by (simp add: spaceLen_def)
  have two: "spaceLen [x, c] \<noteq> 2" for x
    using c by (auto simp: spaceLen_def space2_def ascii_def)
  have three: "spaceLen [x, y, c] \<noteq> 3" for x y
    using c by (auto simp: spaceLen_def space3_def ascii_def)
  have d2: "\<exists>x. drop (length s - 2) s = [x, c]" if "2 \<le> length s"
    using that by (cases t rule: rev_cases) (auto simp: s)
  have d3: "\<exists>x y. drop (length s - 3) s = [x, y, c]" if "3 \<le> length s"
  proof -
    have t2: "2 \<le> length t" using that by (simp add: s)
    obtain u y where "t = u @ [y]" using t2 by (cases t rule: rev_cases) auto
    moreover then obtain v x where "u = v @ [x]" using t2 by (cases u rule: rev_cases) auto
    ultimately show ?thesis by (simp add: s)
  qed
  show ?thesis
    unfolding spaceEnd_def Let_def using one two three d2 d3 by (auto simp: s)
qed

lemma TrimLeftSpace_id: "spaceLen s = 0 \<Longrightarrow> TrimLeftSpace s = s"
  by (simp add: TrimLeftSpace.simps)

lemma TrimRightSpace_id: "spaceEnd s = 0 \<Longrightarrow> TrimRightSpace s = s"
  by (simp add: TrimRightSpace.simps)

lemma TrimSpace_id: "spaceLen s = 0 \<Longrightarrow> spaceEnd s = 0 \<Longrightarrow> TrimSpace s = s"
  by (simp add: TrimSpace_def TrimLeftSpace_id TrimRightSpace_id)

lemma TrimSpace_SP [simp]: "TrimSpace (SP # s) = TrimSpace s"
  by (simp add: TrimSpace_def TrimLeftSpace.simps [of "SP # s"])

lemma TrimSpace_text:
  assumes "s \<noteq> []" and "spaceLen s = 0" and "ascii (last s)" and "\<not> asciiSpace (last s)"
  shows "TrimSpace s = s"
  using assms by (intro TrimSpace_id spaceEnd_ascii) auto

lemma TrimLeft_word: "word w \<Longrightarrow> TrimLeft (w @ rest) [SP, TAB] = w @ rest"
proof -
  assume w: "word w"
  then obtain c cs where "w = c # cs" by (cases w) (auto simp: word_def)
  moreover have "c \<noteq> SP" "c \<noteq> TAB" using w spaceFree_no_blank [of w] calculation by (auto simp: word_def)
  ultimately show ?thesis by (simp add: TrimLeft_def)
qed

lemma IndexAny_word: "SP \<notin> set w \<Longrightarrow> TAB \<notin> set w \<Longrightarrow> IndexAny (w @ SP # rest) [SP, TAB] = Some (length w)"
  by (induction w) auto

section \<open>Decimal numbers\<close>

lemma digitChar_props: "d < 10 \<Longrightarrow> isDigit (digitChar d) \<and> digitVal (digitChar d) = int d"
  by (simp add: digitChar_def isDigit_def digitVal_def)

lemma digitsVal_append:
  "digitsVal acc (a @ b) = (case digitsVal acc a of None \<Rightarrow> None | Some v \<Rightarrow> digitsVal v b)"
  by (induction a arbitrary: acc) auto

lemma digitsVal_natDigits: "digitsVal 0 (natDigits n) = Some (int n)"
proof (induction n rule: natDigits.induct)
  case (1 n)
  show ?case
  proof (cases "n < 10")
    case True
    then show ?thesis using digitChar_props [of n] by (subst natDigits.simps) simp
  next
    case False
    have m: "n mod 10 < 10" by simp
    have "digitsVal 0 (natDigits n) = Some (10 * int (n div 10) + int (n mod 10))"
      using 1 False digitChar_props [OF m] by (subst natDigits.simps) (simp add: digitsVal_append)
    then show ?thesis by (simp add: zdiv_int zmod_int)
  qed
qed

lemma natDigits_nonempty: "natDigits n \<noteq> []"
  by (subst natDigits.simps) simp

lemma natDigits_hd: "isDigit (hd (natDigits n))"
proof (induction n rule: natDigits.induct)
  case (1 n)
  then show ?case
    using digitChar_props [of n] by (subst natDigits.simps) (simp add: natDigits_nonempty)
qed

lemma Atoi_Itoa: "- (2 ^ 63) \<le> n \<Longrightarrow> n < 2 ^ 63 \<Longrightarrow> Atoi (Itoa n) = Some n"
proof -
  assume n: "- (2 ^ 63) \<le> n" "n < 2 ^ 63"
  have hd: "natDigits k = c # cs \<Longrightarrow> c \<noteq> CHR ''-'' \<and> c \<noteq> CHR ''+''" for k c cs
    using natDigits_hd [of k] by (auto simp: isDigit_def)
  show ?thesis
  proof (cases "n < 0")
    case True
    then show ?thesis
      using n digitsVal_natDigits [of "nat (- n)"] natDigits_nonempty
      by (simp add: Itoa_def Atoi_def)
  next
    case False
    obtain c cs where c: "natDigits (nat n) = c # cs" using natDigits_nonempty by (cases "natDigits (nat n)") auto
    have "digitsVal 0 (c # cs) = Some n" using digitsVal_natDigits [of "nat n"] False by (simp add: c)
    then show ?thesis using n False hd [OF c] unfolding Itoa_def Atoi_def by (simp add: c Let_def)
  qed
qed

lemma natDigits_digits: "list_all isDigit (natDigits n)"
proof (induction n rule: natDigits.induct)
  case (1 n)
  then show ?case
    using digitChar_props [of n] digitChar_props [of "n mod 10"] by (subst natDigits.simps) simp
qed

end
