(* ===== verification/Net_IP.thy ===== *)
theory Net_IP
  imports Go_Strings
begin

text \<open>
  \<^verbatim>\<open>net.ParseIP\<close> and \<^verbatim>\<open>IP.String\<close> of the Go standard library. An address is the list of its
  eight 16-bit groups; an IPv4 address is its IPv4-mapped form, as \<^verbatim>\<open>net.ParseIP\<close> returns it.
\<close>

type_synonym ip = "nat list"

section \<open>Parsing\<close>

definition octet :: "string \<Rightarrow> nat option" where
  "octet f =
     (if f = [] \<or> 3 < length f \<or> (1 < length f \<and> hd f = CHR ''0'') then None
      else case digitsVal 0 f of
        None \<Rightarrow> None
      | Some v \<Rightarrow> if v \<le> 255 then Some (nat v) else None)"

definition parseIPv4Fields :: "string \<Rightarrow> (nat \<times> nat \<times> nat \<times> nat) option" where
  "parseIPv4Fields s =
     (case map octet (Split s CHR ''.'') of
        [Some a, Some b, Some c, Some d] \<Rightarrow> Some (a, b, c, d)
      | _ \<Rightarrow> None)"

definition mapped4 :: "nat \<times> nat \<times> nat \<times> nat \<Rightarrow> ip" where
  "mapped4 q = (case q of (a, b, c, d) \<Rightarrow> [0, 0, 0, 0, 0, 0xFFFF, 256 * a + b, 256 * c + d])"

definition hexVal :: "char \<Rightarrow> nat option" where
  "hexVal c =
     (if isDigit c then Some (byte c - 48)
      else if 97 \<le> byte c \<and> byte c \<le> 102 then Some (byte c - 87)
      else if 65 \<le> byte c \<and> byte c \<le> 70 then Some (byte c - 55)
      else None)"

text \<open>The hexadecimal digits at the head of a string: their number, their value, the rest.\<close>

fun hexGroup :: "nat \<Rightarrow> nat \<Rightarrow> string \<Rightarrow> nat \<times> nat \<times> string" where
  "hexGroup off acc [] = (off, acc, [])"
| "hexGroup off acc (c # cs) =
     (case hexVal c of
        None \<Rightarrow> (off, acc, c # cs)
      | Some v \<Rightarrow> hexGroup (Suc off) (16 * acc + v) cs)"

lemma hexGroup_length:
  "hexGroup off acc s = (n, v, rest) \<Longrightarrow> off \<le> n \<and> length rest + n = length s + off"
proof (induction off acc s rule: hexGroup.induct)
  case (2 off acc c cs)
  show ?case
  proof (cases "hexVal c")
    case (Some w)
    then have "Suc off \<le> n \<and> length rest + n = length cs + Suc off"
      using 2 by simp
    then show ?thesis by simp
  qed (use 2(2) in auto)
qed simp

text \<open>
  The main loop of \<^verbatim>\<open>netip.parseIPv6\<close>: the groups read so far, the position of the ellipsis, the
  rest of the string. The result holds the groups and the ellipsis at the end of the loop.
\<close>

function ipv6Loop :: "nat list \<Rightarrow> nat option \<Rightarrow> string \<Rightarrow> (nat list \<times> nat option) option" where
  "ipv6Loop gs ell s =
     (if 8 \<le> length gs then (if s = [] then Some (gs, ell) else None)
      else case hexGroup 0 0 s of (off, acc, rest) \<Rightarrow>
        if off = 0 \<or> 4 < off then None
        else if rest \<noteq> [] \<and> hd rest = CHR ''.'' then
          (if (ell = None \<and> length gs \<noteq> 6) \<or> 8 < length gs + 2 then None
           else case parseIPv4Fields s of
             None \<Rightarrow> None
           | Some (a, b, c, d) \<Rightarrow> Some (gs @ [256 * a + b, 256 * c + d], ell))
        else if rest = [] then Some (gs @ [acc], ell)
        else if hd rest \<noteq> CHR '':'' \<or> tl rest = [] then None
        else if hd (tl rest) = CHR '':'' then
          (if ell \<noteq> None then None
           else if tl (tl rest) = [] then Some (gs @ [acc], Some (Suc (length gs)))
           else ipv6Loop (gs @ [acc]) (Some (Suc (length gs))) (tl (tl rest)))
        else ipv6Loop (gs @ [acc]) ell (tl rest))"
  by pat_completeness auto
termination
  by (relation "measure (\<lambda>(gs, ell, s). 8 - length gs)") auto

declare ipv6Loop.simps [simp del]

definition expandEllipsis :: "nat list \<times> nat option \<Rightarrow> ip option" where
  "expandEllipsis r =
     (case r of (gs, ell) \<Rightarrow>
        if length gs < 8 then
          (case ell of
             None \<Rightarrow> None
           | Some e \<Rightarrow> Some (take e gs @ replicate (8 - length gs) 0 @ drop e gs))
        else if ell \<noteq> None then None else Some gs)"

definition parseIPv6 :: "string \<Rightarrow> ip option" where
  "parseIPv6 s =
     (if HasPrefix s ''::'' then
        (if drop 2 s = [] then Some (replicate 8 0)
         else Option.bind (ipv6Loop [] (Some 0) (drop 2 s)) expandEllipsis)
      else Option.bind (ipv6Loop [] None s) expandEllipsis)"

text \<open>
  The first of the characters \<^verbatim>\<open>.\<close>, \<^verbatim>\<open>:\<close> and \<^verbatim>\<open>%\<close> decides; \<^verbatim>\<open>net.ParseIP\<close> accepts no zone, so an
  address with a \<^verbatim>\<open>%\<close> is refused in any case.
\<close>

definition ParseIP :: "string \<Rightarrow> ip option" where
  "ParseIP s =
     (if CHR ''%'' \<in> set s then None
      else case filter (\<lambda>c. c = CHR ''.'' \<or> c = CHR '':'') s of
        [] \<Rightarrow> None
      | c # _ \<Rightarrow> if c = CHR ''.'' then map_option mapped4 (parseIPv4Fields s) else parseIPv6 s)"

section \<open>Printing\<close>

definition isIPv4 :: "ip \<Rightarrow> bool" where
  "isIPv4 gs \<longleftrightarrow> take 6 gs = [0, 0, 0, 0, 0, 0xFFFF]"

definition lowerHex :: "nat \<Rightarrow> char" where
  "lowerHex n = (if n < 10 then char_of (48 + n) else char_of (87 + n))"

fun hexDigits :: "nat \<Rightarrow> string" where
  "hexDigits n = (if n < 16 then [lowerHex n] else hexDigits (n div 16) @ [lowerHex (n mod 16)])"

declare hexDigits.simps [simp del]

definition zeroRun :: "nat list \<Rightarrow> nat" where
  "zeroRun gs = length (takeWhile (\<lambda>g. g = 0) gs)"

text \<open>The first longest run of at least two zero groups: its start and its end.\<close>

fun longestZeros :: "nat \<Rightarrow> nat list \<Rightarrow> (nat \<times> nat) option \<Rightarrow> (nat \<times> nat) option" where
  "longestZeros i [] best = best"
| "longestZeros i (g # gs) best =
     (let l = zeroRun (g # gs);
          len = (case best of None \<Rightarrow> 0 | Some (a, b) \<Rightarrow> b - a)
      in longestZeros (Suc i) gs (if 2 \<le> l \<and> len < l then Some (i, i + l) else best))"

definition ipv6String :: "ip \<Rightarrow> string" where
  "ipv6String gs =
     (case longestZeros 0 gs None of
        None \<Rightarrow> Join (map hexDigits gs) '':''
      | Some (a, b) \<Rightarrow>
          Join (map hexDigits (take a gs)) '':'' @ ''::'' @ Join (map hexDigits (drop b gs)) '':'')"

definition ipString :: "ip \<Rightarrow> string" where
  "ipString gs =
     (if isIPv4 gs then
        Join (map (\<lambda>n. Itoa (int n))
          [gs ! 6 div 256, gs ! 6 mod 256, gs ! 7 div 256, gs ! 7 mod 256]) ''.''
      else ipv6String gs)"

section \<open>Shape of parsed addresses\<close>

lemma expandEllipsis_length: "expandEllipsis r = Some gs \<Longrightarrow> length (fst r) \<le> 8 \<Longrightarrow> length gs = 8"
  by (auto simp: expandEllipsis_def split: if_splits option.splits prod.splits)

lemma ipv6Loop_length: "ipv6Loop gs ell s = Some r \<Longrightarrow> length gs \<le> 8 \<Longrightarrow> length (fst r) \<le> 8"
proof (induction gs ell s rule: ipv6Loop.induct)
  case (1 gs ell s)
  show ?case
  proof (cases "8 \<le> length gs")
    case True
    then show ?thesis using 1(3,4) by (subst (asm) ipv6Loop.simps) (auto split: if_splits)
  next
    case False
    obtain off acc rest where h: "hexGroup 0 0 s = (off, acc, rest)" by (cases "hexGroup 0 0 s")
    show ?thesis
      using 1(3) False h 1(1) [OF False h [symmetric] refl] 1(2) [OF False h [symmetric] refl]
      by (subst (asm) ipv6Loop.simps) (auto split: if_splits option.splits)
  qed
qed

lemma ParseIP_length: "ParseIP s = Some gs \<Longrightarrow> length gs = 8"
  by (auto simp: ParseIP_def parseIPv6_def mapped4_def bind_eq_Some_conv
      dest!: ipv6Loop_length expandEllipsis_length split: if_splits list.splits)

end
