(* ===== verification/Server_Config.thy ===== *)
theory Server_Config
  imports Go_Paths
begin

text \<open>
  The process configuration of \<^verbatim>\<open>config.go\<close>: the record the server is built from and the
  helpers that read it from the environment. The environment is an argument,
  \<open>getenv name\<close>, with the empty string for an unset variable as \<^verbatim>\<open>os.Getenv\<close> returns it.
\<close>

record config =
  ListenAddrs :: "string list"
  StatusFile :: string
  JobsDir :: string
  ScanLockDir :: string
  SleepLockDir :: string
  LogDir :: string
  QuarantineDir :: string
  ScanScript :: string
  StartupScript :: string
  CronConfigFile :: string
  CronScript :: string
  ExcludeConfig :: string
  ExcludeScript :: string
  ClamdConf :: string
  ClamdSocket :: string
  BrowseRoots :: "string list"
  MaxLogBytes :: int
  CommandTimout :: duration
  WakeTimeout :: duration
  DataDir :: string
  UserDatabaseFile :: string
  HistoryDatabaseFile :: string
  AppConfigFile :: string
  IsTimeDock :: bool
  AdminRegisterToken :: string

definition parseYNFlag :: "string \<Rightarrow> string \<Rightarrow> bool res" where
  "parseYNFlag name value =
     (if TrimSpace value = [] \<or> TrimSpace value = ''N'' then Inr False
      else if TrimSpace value = ''Y'' then Inr True
      else Inl (ErrText (name @ '' must be Y or N'')))"

definition env :: "(string \<Rightarrow> string) \<Rightarrow> string \<Rightarrow> string \<Rightarrow> string" where
  "env getenv name fallback =
     (let value = TrimSpace (getenv name) in if value \<noteq> [] then value else fallback)"

text \<open>
  \<open>loadConfig\<close> with the listen addresses as an argument, since their parser belongs to
  \<^verbatim>\<open>net/netip\<close>: \<open>parseAddrs value port\<close> is \<^verbatim>\<open>parseListenAddresses\<close>.
\<close>

definition loadConfig ::
    "(string \<Rightarrow> string \<Rightarrow> string list res) \<Rightarrow> (string \<Rightarrow> string) \<Rightarrow> config res" where
  "loadConfig parseAddrs getenv =
     (let statusDir = env getenv ''STATUS_DIR'' ''/state'';
          dataDir = env getenv ''DATA_DIR'' ''/data''
      in bind_res (parseYNFlag ''IS_TIMEDOCK'' (getenv ''IS_TIMEDOCK'')) (\<lambda>isTimeDock.
         bind_res (parseAddrs (env getenv ''SCANNER_ADDR'' []) (env getenv ''SCANNER_PORT'' ''8080''))
           (\<lambda>addrs.
         Inr \<lparr> ListenAddrs = addrs,
               StatusFile = env getenv ''STATUS_FILE'' (filepath_Join statusDir ''status.json''),
               JobsDir = env getenv ''JOBS_DIR'' (filepath_Join statusDir ''jobs''),
               ScanLockDir = env getenv ''SCAN_LOCK_DIR'' (filepath_Join statusDir ''scan.lock''),
               SleepLockDir = env getenv ''SLEEP_LOCK_DIR'' (filepath_Join statusDir ''sleep.lock''),
               LogDir = env getenv ''SCAN_LOG_DIR'' ''/log'',
               QuarantineDir = env getenv ''QUARANTINE_DIR'' ''/quarantine'',
               ScanScript = env getenv ''SCAN_ONCE_SCRIPT'' ''/scan_once.sh'',
               StartupScript = env getenv ''STARTUP_SCRIPT'' ''/startup.sh'',
               CronConfigFile = env getenv ''CRON_CONFIG_FILE'' ''/config/cron_scan.conf'',
               CronScript = env getenv ''CRON_SCRIPT'' ''/cron.sh'',
               ExcludeConfig = env getenv ''EXCLUDE_CONFIG_FILE'' ''/config/exclude.conf'',
               ExcludeScript = env getenv ''EXCLUDE_SCRIPT'' ''/exclude.sh'',
               ClamdConf = env getenv ''CLAMD_CONF'' ''/etc/clamav/clamd.conf'',
               ClamdSocket = env getenv ''CLAMD_SOCKET'' ''/tmp/clamd.sock'',
               BrowseRoots = [''/scan''],
               MaxLogBytes = 64 * 1024,
               CommandTimout = 3 * Second,
               WakeTimeout = 21 * Minute,
               DataDir = dataDir,
               UserDatabaseFile = env getenv ''USER_DATABASE_FILE'' (filepath_Join dataDir ''users.db''),
               HistoryDatabaseFile =
                 env getenv ''HISTORY_DATABASE_FILE'' (filepath_Join dataDir ''history.db''),
               AppConfigFile = env getenv ''CLAMAVWEB_CONFIG_FILE'' ''/config/clamavweb.conf'',
               IsTimeDock = isTimeDock,
               AdminRegisterToken = getenv ''ADMIN_REGISTER_TOKEN'' \<rparr>)))"

text \<open>Whatever the environment says, the only browse root is \<^verbatim>\<open>/scan\<close>.\<close>

lemma loadConfig_BrowseRoots:
  "loadConfig parseAddrs getenv = Inr cfg \<Longrightarrow> BrowseRoots cfg = [''/scan'']"
  by (auto simp: loadConfig_def Let_def)

text \<open>The configuration of an environment that sets nothing, for worked examples.\<close>

definition sampleConfig :: "bool \<Rightarrow> config" where
  "sampleConfig timedock =
     \<lparr> ListenAddrs = ['':8080''], StatusFile = ''/state/status.json'', JobsDir = ''/state/jobs'',
       ScanLockDir = ''/state/scan.lock'', SleepLockDir = ''/state/sleep.lock'', LogDir = ''/log'',
       QuarantineDir = ''/quarantine'', ScanScript = ''/scan_once.sh'',
       StartupScript = ''/startup.sh'', CronConfigFile = ''/config/cron_scan.conf'',
       CronScript = ''/cron.sh'', ExcludeConfig = ''/config/exclude.conf'',
       ExcludeScript = ''/exclude.sh'', ClamdConf = ''/etc/clamav/clamd.conf'',
       ClamdSocket = ''/tmp/clamd.sock'', BrowseRoots = [''/scan''], MaxLogBytes = 65536,
       CommandTimout = 3 * Second, WakeTimeout = 21 * Minute, DataDir = ''/data'',
       UserDatabaseFile = ''/data/users.db'', HistoryDatabaseFile = ''/data/history.db'',
       AppConfigFile = ''/config/clamavweb.conf'', IsTimeDock = timedock,
       AdminRegisterToken = [] \<rparr>"

end
