(* ===== verification/Identity.thy ===== *)
theory Identity
  imports Go_Strings
begin

text \<open>
  Who is acting: the \<^verbatim>\<open>actor\<close> of \<^verbatim>\<open>auth.go\<close> that a request carries, the shape of user
  identifiers and their generation from random bytes. \<^verbatim>\<open>crypto/rand\<close> is modelled as the list
  of bytes it will deliver; a read past its end is the read error.
\<close>

section \<open>Actors and user identifiers\<close>

record actor =
  ID :: string
  Username :: string
  Role :: string
  TimeDockAccount :: string

definition emptyActor :: actor where
  "emptyActor = \<lparr> ID = [], Username = [], Role = [], TimeDockAccount = [] \<rparr>"

definition validUserID :: "string \<Rightarrow> bool" where
  "validUserID value \<longleftrightarrow>
     length value = 8 \<and> list_all (\<lambda>ch. isLower ch \<or> isDigit ch) value \<and>
     list_ex isLower value \<and> list_ex isDigit value"

text \<open>
  \<^verbatim>\<open>actorFromRequest\<close>: the context value, when there is one, the user name is not empty and
  the identifier is well formed.
\<close>

definition actorFromRequest :: "actor option \<Rightarrow> actor res" where
  "actorFromRequest ctx =
     (case ctx of
        None \<Rightarrow> Inl (ErrText ''authenticated user is unavailable'')
      | Some who \<Rightarrow>
          if Username who = [] \<or> \<not> validUserID (ID who)
          then Inl (ErrText ''authenticated user is unavailable'')
          else Inr who)"

definition requireAdminActor :: "actor option \<Rightarrow> actor res" where
  "requireAdminActor ctx =
     bind_res (actorFromRequest ctx) (\<lambda>who.
       if Role who \<noteq> ''admin'' then Inl (ErrText ''administrator access required'') else Inr who)"

text \<open>The idiom \<^verbatim>\<open>who, _ := actorFromRequest(r)\<close>: the zero actor on error.\<close>

definition actorOrZero :: "actor option \<Rightarrow> actor" where
  "actorOrZero ctx = (case actorFromRequest ctx of Inl _ \<Rightarrow> emptyActor | Inr who \<Rightarrow> who)"

section \<open>Generating user identifiers\<close>

definition userIDAlphabet :: string where
  "userIDAlphabet = ''abcdefghijklmnopqrstuvwxyz0123456789''"

text \<open>The inner loop: bytes from 252 on are rejected, the others pick a letter modulo 36.\<close>

fun nextIDChar :: "nat list \<Rightarrow> (char \<times> nat list) option" where
  "nextIDChar [] = None"
| "nextIDChar (b # bs) =
     (if 252 \<le> b then nextIDChar bs
      else Some (userIDAlphabet ! (b mod length userIDAlphabet), bs))"

fun genIDChars :: "nat \<Rightarrow> nat list \<Rightarrow> (string \<times> nat list) option" where
  "genIDChars 0 bs = Some ([], bs)"
| "genIDChars (Suc n) bs =
     (case nextIDChar bs of
        None \<Rightarrow> None
      | Some (c, bs1) \<Rightarrow>
          (case genIDChars n bs1 of None \<Rightarrow> None | Some (cs, bs2) \<Rightarrow> Some (c # cs, bs2)))"

lemma nextIDChar_shorter: "nextIDChar bs = Some (c, bs1) \<Longrightarrow> length bs1 < length bs"
  by (induction bs) (auto split: if_splits)

lemma genIDChars_shorter: "genIDChars (Suc n) bs = Some (cs, bs1) \<Longrightarrow> length bs1 < length bs"
proof (induction n arbitrary: bs cs)
  case 0
  then show ?case by (auto split: option.splits dest: nextIDChar_shorter)
next
  case (Suc n)
  then obtain c b1 cs' where "nextIDChar bs = Some (c, b1)" and "genIDChars (Suc n) b1 = Some (cs', bs1)"
    by (auto simp del: genIDChars.simps simp: genIDChars.simps(2) [of "Suc n"] split: option.splits)
  then show ?case using Suc.IH nextIDChar_shorter by fastforce
qed

text \<open>The outer loop retries until both character classes occur.\<close>

function newUserID :: "nat list \<Rightarrow> (string \<times> nat list) option" where
  "newUserID bs =
     (case genIDChars 8 bs of
        None \<Rightarrow> None
      | Some (generated, rest) \<Rightarrow>
          if list_ex isLower generated \<and> list_ex isDigit generated
          then Some (generated, rest) else newUserID rest)"
  by pat_completeness auto
termination
  by (relation "measure length")
     (auto dest: genIDChars_shorter simp del: genIDChars.simps simp: numeral_eq_Suc)

declare newUserID.simps [simp del]

section \<open>Generated identifiers are valid\<close>

lemma userIDAlphabet_chars: "c \<in> set userIDAlphabet \<Longrightarrow> isLower c \<or> isDigit c"
  by (auto simp: userIDAlphabet_def isLower_def isDigit_def)

lemma nextIDChar_alphabet: "nextIDChar bs = Some (c, bs1) \<Longrightarrow> c \<in> set userIDAlphabet"
proof (induction bs)
  case (Cons b bs)
  have "b mod length userIDAlphabet < length userIDAlphabet"
    by (simp add: userIDAlphabet_def)
  then have "userIDAlphabet ! (b mod length userIDAlphabet) \<in> set userIDAlphabet"
    by (rule nth_mem)
  then show ?case using Cons by (auto split: if_splits)
qed simp

lemma genIDChars_alphabet:
  "genIDChars n bs = Some (cs, bs1) \<Longrightarrow> length cs = n \<and> set cs \<subseteq> set userIDAlphabet"
proof (induction n arbitrary: bs cs)
  case (Suc n)
  then show ?case by (fastforce split: option.splits dest: nextIDChar_alphabet)
qed simp

lemma newUserID_valid: "newUserID bs = Some (uid, rest) \<Longrightarrow> validUserID uid"
proof (induction bs rule: newUserID.induct)
  case (1 bs)
  show ?case
  proof (cases "genIDChars 8 bs")
    case None
    then show ?thesis using "1.prems" by (simp add: newUserID.simps [of bs])
  next
    case (Some r)
    then obtain cs b1 where r: "genIDChars 8 bs = Some (cs, b1)" by (cases r) auto
    show ?thesis
    proof (cases "list_ex isLower cs \<and> list_ex isDigit cs")
      case True
      then have "uid = cs" using "1.prems" r by (simp add: newUserID.simps [of bs])
      then show ?thesis
        using True genIDChars_alphabet [OF r] userIDAlphabet_chars
        by (auto simp: validUserID_def list_all_iff)
    next
      case False
      then have "newUserID b1 = Some (uid, rest)"
        using "1.prems" r by (auto simp: newUserID.simps [of bs] split: if_splits)
      then show ?thesis using "1.IH" [OF r refl] False by blast
    qed
  qed
qed

lemma actorFromRequest_valid:
  "actorFromRequest ctx = Inr who \<Longrightarrow> ctx = Some who \<and> Username who \<noteq> [] \<and> validUserID (ID who)"
  by (auto simp: actorFromRequest_def split: option.splits if_splits)

end
