(* ===== verification/Path_Guard.thy ===== *)
theory Path_Guard
  imports Server_Config Identity "HOL-Library.AList"
begin

text \<open>
  The path checks of \<^verbatim>\<open>browse.go\<close>: every API that takes a path goes through \<open>validatePath\<close>
  (below a browse root, no symbolic link on the way) and, in TimeDock mode, through the account
  boundary. The definitions follow the source; the lemmas state what an accepted path is in
  terms of components, and the locale \<open>path_boundary\<close> packages that as the contract the
  path-taking components rely on.
\<close>

section \<open>Definitions\<close>

definition pathWithin :: "string \<Rightarrow> string \<Rightarrow> bool" where
  "pathWithin path root =
     (let p = Clean path; r = Clean root in p = r \<or> HasPrefix p (r @ ''/''))"

fun rejectComponents :: "osview \<Rightarrow> bool \<Rightarrow> string \<Rightarrow> string list \<Rightarrow> unit res" where
  "rejectComponents os allowMissing current [] = Inr ()"
| "rejectComponents os allowMissing current (component # rest) =
     (let current' = filepath_Join current component in
      case os_Lstat os current' of
        Inl e \<Rightarrow> if allowMissing \<and> is_not_exist e then Inr () else Inl e
      | Inr info \<Rightarrow>
          if fi_mode info = ModeSymlink then Inl (ErrSymlink current')
          else rejectComponents os allowMissing current' rest)"

definition rejectSymlinkComponents :: "osview \<Rightarrow> string \<Rightarrow> bool \<Rightarrow> unit res" where
  "rejectSymlinkComponents os path allowMissing =
     bind_res (Rel_root path) (\<lambda>relative.
       if relative = ''.'' then Inr ()
       else rejectComponents os allowMissing ''/'' (Split relative SEP))"

fun validateUnderRoots :: "osview \<Rightarrow> bool \<Rightarrow> string \<Rightarrow> string list \<Rightarrow> string list \<Rightarrow> string res" where
  "validateUnderRoots os allowMissing clean allRoots [] =
     Inl (ErrText (''path must be under one of: '' @ Join allRoots '', ''))"
| "validateUnderRoots os allowMissing clean allRoots (root # roots) =
     (if \<not> pathWithin clean root then validateUnderRoots os allowMissing clean allRoots roots
      else bind_res (rejectSymlinkComponents os clean allowMissing) (\<lambda>_. Inr clean))"

definition validatePath :: "osview \<Rightarrow> config \<Rightarrow> string \<Rightarrow> bool \<Rightarrow> string res" where
  "validatePath os cfg input allowMissing =
     (if Contains input [CHR 0x00] then Inl (ErrText ''path contains null byte'')
      else let clean = Clean input in
        if \<not> HasPrefix clean ''/'' then Inl (ErrText ''path must be absolute'')
        else validateUnderRoots os allowMissing clean (BrowseRoots cfg) (BrowseRoots cfg))"

definition safePath :: "osview \<Rightarrow> config \<Rightarrow> string \<Rightarrow> string res" where
  "safePath os cfg input = validatePath os cfg input False"

definition safePathAllowMissing :: "osview \<Rightarrow> config \<Rightarrow> string \<Rightarrow> string res" where
  "safePathAllowMissing os cfg input = validatePath os cfg input True"

definition isTimeDockDeviceName :: "string \<Rightarrow> bool" where
  "isTimeDockDeviceName name =
     (if name = ''extdev'' then True
      else if \<not> HasPrefix name ''usb'' \<or> length name = 3 then False
      else list_all isDigit (drop 3 name))"

text \<open>
  \<^verbatim>\<open>timeDockDeviceAccounts\<close> builds a Go map from device path to account path; it is an
  association list here, written with \<open>AList.update\<close> and read with \<open>map_of\<close>. The source
  indexes \<^verbatim>\<open>BrowseRoots[0]\<close>, so an empty list panics: the model reads the head of a list
  that \<open>loadConfig\<close> makes a singleton.
\<close>

fun collectDevices ::
    "osview \<Rightarrow> string \<Rightarrow> string \<Rightarrow> direntry list \<Rightarrow> (string \<times> string) list \<Rightarrow> (string \<times> string) list" where
  "collectDevices os root account [] devices = devices"
| "collectDevices os root account (entry # entries) devices =
     (if de_mode entry \<noteq> ModeDir \<or> \<not> isTimeDockDeviceName (de_name entry)
      then collectDevices os root account entries devices
      else let devicePath = filepath_Join root (de_name entry);
               accountPath = filepath_Join devicePath account
           in case os_Lstat os accountPath of
                Inl _ \<Rightarrow> collectDevices os root account entries devices
              | Inr info \<Rightarrow>
                  if fi_mode info \<noteq> ModeDir
                  then collectDevices os root account entries devices
                  else collectDevices os root account entries
                         (AList.update devicePath accountPath devices))"

definition timeDockDeviceAccounts :: "osview \<Rightarrow> config \<Rightarrow> string \<Rightarrow> (string \<times> string) list res" where
  "timeDockDeviceAccounts os cfg account =
     (let root = Clean (hd (BrowseRoots cfg)) in
      bind_res (os_ReadDir os root) (\<lambda>entries. Inr (collectDevices os root account entries [])))"

definition authorizeTimeDockPath :: "string \<Rightarrow> (string \<times> string) list \<Rightarrow> unit res" where
  "authorizeTimeDockPath path devices =
     (if list_ex (\<lambda>(_, accountRoot). pathWithin path accountRoot) devices
      then Inr () else Inl ErrTimeDockPathDenied)"

definition safePathForActor :: "osview \<Rightarrow> config \<Rightarrow> string \<Rightarrow> actor \<Rightarrow> string res" where
  "safePathForActor os cfg input who =
     (if IsTimeDock cfg \<and> TimeDockAccount who = [] then Inl ErrTimeDockAccountRequired
      else bind_res (safePath os cfg input) (\<lambda>path.
        if \<not> IsTimeDock cfg then Inr path
        else bind_res (timeDockDeviceAccounts os cfg (TimeDockAccount who)) (\<lambda>devices.
          bind_res (authorizeTimeDockPath path devices) (\<lambda>_. Inr path))))"

text \<open>\<^verbatim>\<open>devices[path] != ""\<close>: the key is present with a value that is not empty.\<close>

definition deviceAccount :: "(string \<times> string) list \<Rightarrow> string \<Rightarrow> string" where
  "deviceAccount devices path = (case map_of devices path of None \<Rightarrow> [] | Some a \<Rightarrow> a)"

definition safeBrowsePath ::
    "osview \<Rightarrow> config \<Rightarrow> string \<Rightarrow> actor \<Rightarrow> (string \<times> (string \<times> string) list) res" where
  "safeBrowsePath os cfg input who =
     (if IsTimeDock cfg \<and> TimeDockAccount who = [] then Inl ErrTimeDockAccountRequired
      else bind_res (safePath os cfg input) (\<lambda>path.
        if \<not> IsTimeDock cfg then Inr (path, [])
        else bind_res (timeDockDeviceAccounts os cfg (TimeDockAccount who)) (\<lambda>devices.
          let root = Clean (hd (BrowseRoots cfg)) in
          if path = root \<or> deviceAccount devices path \<noteq> [] then Inr (path, devices)
          else bind_res (authorizeTimeDockPath path devices) (\<lambda>_. Inr (path, devices)))))"

definition authorizeRestorePath :: "osview \<Rightarrow> config \<Rightarrow> string \<Rightarrow> actor \<Rightarrow> unit res" where
  "authorizeRestorePath os cfg input who =
     bind_res (safePathAllowMissing os cfg input) (\<lambda>path.
       if \<not> IsTimeDock cfg then Inr ()
       else if TimeDockAccount who = [] then Inl ErrTimeDockAccountRequired
       else bind_res (timeDockDeviceAccounts os cfg (TimeDockAccount who)) (\<lambda>devices.
         authorizeTimeDockPath path devices))"

text \<open>
  The loop of \<^verbatim>\<open>handleBrowse\<close> that selects the directory entries to show: symbolic links are
  hidden and, in TimeDock mode, the root shows the account's devices and a device shows the
  account's directory only. \<^verbatim>\<open>entry.Info()\<close> is an \<^verbatim>\<open>lstat\<close> of the entry.
\<close>

definition browseShows ::
    "osview \<Rightarrow> config \<Rightarrow> (string \<times> string) list \<Rightarrow> string \<Rightarrow> direntry \<Rightarrow> bool" where
  "browseShows os cfg devices path entry =
     (let full = filepath_Join path (de_name entry) in
      de_mode entry \<noteq> ModeSymlink
    \<and> (IsTimeDock cfg \<longrightarrow>
         (if path = Clean (hd (BrowseRoots cfg)) then map_of devices full \<noteq> None
          else if deviceAccount devices path \<noteq> [] then full = deviceAccount devices path
          else True))
    \<and> (case os_Lstat os full of Inl _ \<Rightarrow> False | Inr info \<Rightarrow> fi_mode info \<noteq> ModeSymlink))"

definition browseEntries ::
    "osview \<Rightarrow> config \<Rightarrow> (string \<times> string) list \<Rightarrow> string \<Rightarrow> direntry list \<Rightarrow> string list" where
  "browseEntries os cfg devices path entries =
     map (\<lambda>e. filepath_Join path (de_name e)) (filter (browseShows os cfg devices path) entries)"

section \<open>What an accepted path is\<close>

lemma pathWithin_absPath:
  "list_all goodComp ps \<Longrightarrow> list_all goodComp rs \<Longrightarrow> rs \<noteq> [] \<Longrightarrow>
     pathWithin (absPath ps) (absPath rs) \<longleftrightarrow> prefix rs ps"
  by (simp add: pathWithin_def absPath_contained)

text \<open>Every non-empty prefix of the component list exists and is no symbolic link.\<close>

definition noSymlinkOn :: "osview \<Rightarrow> string list \<Rightarrow> bool" where
  "noSymlinkOn os cs \<longleftrightarrow>
     (\<forall>k. 0 < k \<and> k \<le> length cs \<longrightarrow>
        (\<exists>info. os_Lstat os (absPath (take k cs)) = Inr info \<and> fi_mode info \<noteq> ModeSymlink))"

definition plainAt :: "osview \<Rightarrow> string \<Rightarrow> bool" where
  "plainAt os p = (case os_Lstat os p of Inl _ \<Rightarrow> False | Inr info \<Rightarrow> fi_mode info \<noteq> ModeSymlink)"

lemma plainAt_iff:
  "plainAt os p \<longleftrightarrow> (\<exists>info. os_Lstat os p = Inr info \<and> fi_mode info \<noteq> ModeSymlink)"
  by (cases "os_Lstat os p") (auto simp: plainAt_def)

lemma noSymlinkOn_plainAt:
  "noSymlinkOn os cs \<longleftrightarrow> (\<forall>k. 0 < k \<and> k \<le> length cs \<longrightarrow> plainAt os (absPath (take k cs)))"
  by (simp add: noSymlinkOn_def plainAt_iff)

lemma rejectComponents_strict:
  assumes "list_all goodComp cs" and "list_all goodComp ds"
  shows "rejectComponents os False (absPath cs) ds = Inr () \<longleftrightarrow>
           (\<forall>k. 0 < k \<and> k \<le> length ds \<longrightarrow> plainAt os (absPath (cs @ take k ds)))"
  using assms
proof (induction ds arbitrary: cs)
  case Nil
  then show ?case by simp
next
  case (Cons d ds)
  have good: "list_all goodComp (cs @ [d])" using Cons.prems by simp
  have step: "filepath_Join (absPath cs) d = absPath (cs @ [d])"
    using Cons.prems by (simp add: filepath_Join_absPath)
  have "rejectComponents os False (absPath cs) (d # ds) = Inr () \<longleftrightarrow>
          plainAt os (absPath (cs @ [d])) \<and>
          rejectComponents os False (absPath (cs @ [d])) ds = Inr ()"
    by (auto simp: step Let_def plainAt_def split: sum.splits)
  also have "\<dots> \<longleftrightarrow> plainAt os (absPath (cs @ [d])) \<and>
          (\<forall>k. 0 < k \<and> k \<le> length ds \<longrightarrow> plainAt os (absPath ((cs @ [d]) @ take k ds)))"
    using Cons.IH [OF good] Cons.prems by simp
  also have "\<dots> \<longleftrightarrow>
          (\<forall>k. 0 < k \<and> k \<le> length (d # ds) \<longrightarrow> plainAt os (absPath (cs @ take k (d # ds))))"
    (is "?A \<and> (\<forall>k. ?B k) \<longleftrightarrow> (\<forall>k. ?C k)")
  proof
    assume "?A \<and> (\<forall>k. ?B k)"
    then show "\<forall>k. ?C k"
      by (auto simp: take_Cons split: nat.splits) (metis gr0I take0)
  next
    assume C: "\<forall>k. ?C k"
    have "?A" using C [rule_format, of 1] by simp
    moreover have "?B k" for k using C [rule_format, of "Suc k"] by simp
    ultimately show "?A \<and> (\<forall>k. ?B k)" by blast
  qed
  finally show ?case .
qed

lemma absPath_Nil: "absPath [] = ''/''"
  by (simp add: absPath_def)

lemma absPath_eq_slash: "list_all goodComp cs \<Longrightarrow> absPath cs = ''/'' \<longleftrightarrow> cs = []"
  using absPath_inject [of cs "[]"] by (simp add: absPath_Nil)

lemma rejectSymlinkComponents_strict:
  assumes good: "list_all goodComp cs"
  shows "rejectSymlinkComponents os (absPath cs) False = Inr () \<longleftrightarrow> noSymlinkOn os cs"
proof (cases "cs = []")
  case True
  then show ?thesis
    by (simp add: rejectSymlinkComponents_def Rel_root_def noSymlinkOn_def absPath_def Clean_def
                  HasPrefix_def)
next
  case False
  then have rel: "Rel_root (absPath cs) = Inr (Join cs ''/'')"
    using good absPath_eq_slash [OF good] by (simp add: Rel_root_def) (simp add: absPath_def)
  have "hd cs \<noteq> ''.''" using good False by (cases cs) (auto simp: goodComp_def)
  moreover have "hd (Split (Join cs ''/'') SEP) = hd cs"
    using good False by (simp add: Split_Join_good)
  ultimately have ndot: "Join cs ''/'' \<noteq> ''.''" by auto
  have "rejectSymlinkComponents os (absPath cs) False = rejectComponents os False (absPath []) cs"
    using False good ndot by (simp add: rejectSymlinkComponents_def rel Split_Join_good absPath_Nil)
  then show ?thesis
    using rejectComponents_strict [of "[]" cs os] good by (simp add: noSymlinkOn_plainAt)
qed

lemma Contains_byte: "Contains s [c] \<longleftrightarrow> c \<in> set s"
  by (induction s) (auto simp: HasPrefix_def)

lemma Clean_scan: "Clean ''/scan'' = absPath [''scan'']"
  using Clean_absPath [of "[''scan'']"] by (simp add: absPath_def goodComp_def)

text \<open>
  The paths an actor may name: below \<^verbatim>\<open>/scan\<close>, free of symbolic links, and in TimeDock mode
  inside the account's directory on some device.
\<close>

definition actorZone :: "osview \<Rightarrow> config \<Rightarrow> actor \<Rightarrow> string set" where
  "actorZone os cfg who =
     {absPath (''scan'' # cs) | cs.
        list_all goodComp cs \<and> noSymlinkOn os (''scan'' # cs) \<and>
        (IsTimeDock cfg \<longrightarrow>
           (\<exists>dev rest. cs = dev # TimeDockAccount who # rest \<and> isTimeDockDeviceName dev))}"

lemma safePath_iff:
  assumes roots: "BrowseRoots cfg = [''/scan'']"
  shows "safePath os cfg input = Inr p \<longleftrightarrow>
     CHR 0x00 \<notin> set input \<and> Clean input = p \<and>
     (\<exists>cs. p = absPath (''scan'' # cs) \<and> list_all goodComp cs \<and> noSymlinkOn os (''scan'' # cs))"
    (is "?L \<longleftrightarrow> ?R")
proof -
  have scan: "list_all goodComp [''scan'']" by (simp add: goodComp_def)
  have within: "pathWithin (absPath qs) ''/scan'' \<longleftrightarrow> prefix [''scan''] qs"
    if "list_all goodComp qs" for qs
    using that pathWithin_absPath [OF that scan] Clean_scan scan by (simp add: pathWithin_def)
  show ?thesis
  proof
    assume ?L
    then have nul: "CHR 0x00 \<notin> set input" and abs: "HasPrefix (Clean input) ''/''"
      and w: "pathWithin (Clean input) ''/scan''" and p: "p = Clean input"
      and sym: "rejectSymlinkComponents os (Clean input) False = Inr ()"
      by (auto simp: safePath_def validatePath_def roots Let_def Contains_byte split: if_splits)
    obtain qs where qs: "Clean input = absPath qs" "list_all goodComp qs"
      using abs by (auto elim: Clean_absolute)
    then obtain cs where "qs = ''scan'' # cs" using w within by (auto simp: prefix_def)
    then show ?R using nul p qs sym rejectSymlinkComponents_strict by auto
  next
    assume ?R
    then obtain cs where nul: "CHR 0x00 \<notin> set input" and p: "Clean input = p"
      "p = absPath (''scan'' # cs)" "list_all goodComp (''scan'' # cs)" "noSymlinkOn os (''scan'' # cs)"
      using scan by auto
    moreover have "pathWithin p ''/scan''" using p within by simp
    ultimately show ?L
      using rejectSymlinkComponents_strict [OF p(3), of os]
      by (auto simp: safePath_def validatePath_def roots Let_def Contains_byte)
  qed
qed

section \<open>The TimeDock boundary\<close>

lemma isTimeDockDeviceName_good: "isTimeDockDeviceName name \<Longrightarrow> goodComp name"
proof -
  assume dev: "isTimeDockDeviceName name"
  show "goodComp name"
  proof (cases "name = ''extdev''")
    case False
    with dev have pre: "HasPrefix name ''usb''" and digits: "list_all isDigit (drop 3 name)"
      by (auto simp: isTimeDockDeviceName_def split: if_splits)
    from pre obtain t where name: "name = ''usb'' @ t" by (auto simp: HasPrefix_iff)
    with digits have "SEP \<notin> set t" by (auto simp: list_all_iff isDigit_def)
    with name show ?thesis by (auto simp: goodComp_def)
  qed (simp add: goodComp_def)
qed

lemma set_AList_update: "set (AList.update k v al) \<subseteq> insert (k, v) (set al)"
  by (induction al) auto

definition accountDirOf :: "osview \<Rightarrow> string \<Rightarrow> string \<times> string \<Rightarrow> bool" where
  "accountDirOf os account da \<longleftrightarrow>
     (\<exists>dev. isTimeDockDeviceName dev \<and> fst da = absPath [''scan'', dev] \<and>
            snd da = absPath [''scan'', dev, account])"

lemma collectDevices_accounts:
  assumes "goodComp account" and "\<forall>da \<in> set devices. accountDirOf os account da"
  shows "\<forall>da \<in> set (collectDevices os (absPath [''scan'']) account entries devices).
           accountDirOf os account da"
  using assms(2)
proof (induction entries arbitrary: devices)
  case (Cons e entries)
  let ?dev = "filepath_Join (absPath [''scan'']) (de_name e)"
  have new: "accountDirOf os account (?dev, filepath_Join ?dev account)"
    if "isTimeDockDeviceName (de_name e)"
    using that assms(1) isTimeDockDeviceName_good [OF that]
    by (auto simp: accountDirOf_def filepath_Join_absPath goodComp_def)
  have upd: "\<forall>da \<in> set (AList.update ?dev (filepath_Join ?dev account) devices).
               accountDirOf os account da" if "isTimeDockDeviceName (de_name e)"
    using set_AList_update [of ?dev "filepath_Join ?dev account" devices] new [OF that] Cons.prems
    by blast
  show ?case
    using Cons.prems upd by (auto simp: Let_def Cons.IH split: sum.splits)
qed simp

lemma timeDockDeviceAccounts_dirs:
  assumes "BrowseRoots cfg = [''/scan'']" and "goodComp account"
    and "timeDockDeviceAccounts os cfg account = Inr devices"
  shows "\<forall>da \<in> set devices. accountDirOf os account da"
  using assms collectDevices_accounts [of account "[]" os]
  by (auto simp: timeDockDeviceAccounts_def Clean_scan Let_def)

lemma authorizeTimeDockPath_zone:
  assumes good: "list_all goodComp cs" "goodComp account"
    and dirs: "\<forall>da \<in> set devices. accountDirOf os account da"
    and ok: "authorizeTimeDockPath (absPath (''scan'' # cs)) devices = Inr ()"
  shows "\<exists>dev rest. cs = dev # account # rest \<and> isTimeDockDeviceName dev"
proof -
  obtain da where "da \<in> set devices" and w: "pathWithin (absPath (''scan'' # cs)) (snd da)"
    using ok by (auto simp: authorizeTimeDockPath_def list_ex_iff split: if_splits)
  then obtain dev where dev: "isTimeDockDeviceName dev" "snd da = absPath [''scan'', dev, account]"
    using dirs by (auto simp: accountDirOf_def)
  have "prefix [''scan'', dev, account] (''scan'' # cs)"
    using w dev good isTimeDockDeviceName_good
    by (subst (asm) dev(2), subst (asm) pathWithin_absPath) (auto simp: goodComp_def)
  then show ?thesis using dev(1) by (auto simp: prefix_def)
qed

lemma safePathForActor_zone:
  assumes roots: "BrowseRoots cfg = [''/scan'']"
    and acct: "IsTimeDock cfg \<longrightarrow> goodComp (TimeDockAccount who)"
    and ok: "safePathForActor os cfg input who = Inr p"
  shows "p \<in> actorZone os cfg who"
proof -
  from ok have safe: "safePath os cfg input = Inr p"
    by (auto simp: safePathForActor_def split: if_splits)
  then obtain cs where cs: "p = absPath (''scan'' # cs)" "list_all goodComp cs"
    "noSymlinkOn os (''scan'' # cs)"
    using safePath_iff [OF roots] by auto
  show ?thesis
  proof (cases "IsTimeDock cfg")
    case False
    with cs show ?thesis by (auto simp: actorZone_def)
  next
    case True
    with ok safe obtain devices where
      dev: "timeDockDeviceAccounts os cfg (TimeDockAccount who) = Inr devices"
      and auth: "authorizeTimeDockPath p devices = Inr ()"
      by (auto simp: safePathForActor_def split: if_splits)
    have "\<exists>dev rest. cs = dev # TimeDockAccount who # rest \<and> isTimeDockDeviceName dev"
      using authorizeTimeDockPath_zone [OF cs(2), of "TimeDockAccount who" devices os]
        timeDockDeviceAccounts_dirs [OF roots _ dev] acct True auth cs(1) by simp
    with cs True show ?thesis by (auto simp: actorZone_def)
  qed
qed

section \<open>The contract of the path checks\<close>

text \<open>
  What the path-taking components rely on: whatever an \<open>accept\<close> function returns lies in
  the zone of the actor, and is the cleaned form of what was asked for.
\<close>

locale path_boundary =
  fixes accept :: "string \<Rightarrow> 'who \<Rightarrow> string res"
    and zone :: "'who \<Rightarrow> string set"
    and admitted :: "'who \<Rightarrow> bool"
  assumes accept_zone: "admitted who \<Longrightarrow> accept input who = Inr p \<Longrightarrow> p \<in> zone who"
    and accept_clean: "accept input who = Inr p \<Longrightarrow> p = Clean input"
begin

text \<open>A list of inputs that are all accepted yields paths of the zone only.\<close>

lemma accepted_all_in_zone:
  assumes "admitted who" and "list_all2 (\<lambda>input p. accept input who = Inr p) inputs ps"
  shows "set ps \<subseteq> zone who"
  using assms(2)
  by (induction rule: list_all2_induct) (auto intro: accept_zone [OF assms(1)])

lemma accepted_all_clean:
  "list_all2 (\<lambda>input p. accept input who = Inr p) inputs ps \<Longrightarrow> ps = map Clean inputs"
  by (induction rule: list_all2_induct) (auto dest: accept_clean)

end

lemma safePathForActor_clean: "safePathForActor os cfg input who = Inr p \<Longrightarrow> p = Clean input"
proof -
  have under: "validateUnderRoots os am clean all roots = Inr q \<Longrightarrow> q = clean"
    for am clean all roots q by (induction roots) (auto split: if_splits)
  assume "safePathForActor os cfg input who = Inr p"
  then have "safePath os cfg input = Inr p"
    by (auto simp: safePathForActor_def split: if_splits)
  then show ?thesis by (auto simp: safePath_def validatePath_def Let_def split: if_splits dest: under)
qed

definition admittedActor :: "config \<Rightarrow> actor \<Rightarrow> bool" where
  "admittedActor cfg who \<longleftrightarrow>
     BrowseRoots cfg = [''/scan''] \<and> (IsTimeDock cfg \<longrightarrow> goodComp (TimeDockAccount who))"

interpretation guard: path_boundary "safePathForActor os cfg" "actorZone os cfg" "admittedActor cfg"
  for os cfg
  by unfold_locales
     (auto simp: admittedActor_def intro: safePathForActor_zone dest: safePathForActor_clean)

section \<open>Properties\<close>

text \<open>
  C1: for the browse root the server is configured with, \<open>safePath\<close> accepts an input exactly
  when it holds no NUL byte and cleans to a path below \<^verbatim>\<open>/scan\<close> (or \<^verbatim>\<open>/scan\<close> itself) all of
  whose components are proper names and none of whose prefixes is missing or a symbolic link;
  it returns that cleaned path.
\<close>

theorem safePath_exact:
  assumes "BrowseRoots cfg = [''/scan'']"
  shows "safePath os cfg input = Inr p \<longleftrightarrow>
     CHR 0x00 \<notin> set input \<and> Clean input = p \<and>
     (\<exists>cs. p = absPath (''scan'' # cs) \<and> list_all goodComp cs \<and> noSymlinkOn os (''scan'' # cs))"
  using assms by (rule safePath_iff)

theorem safePath_exact_witness:
  "BrowseRoots (sampleConfig False) = [''/scan''] \<and>
   safePath plainView (sampleConfig False) ''/scan/a/../b'' = Inr ''/scan/b''"
proof -
  have roots: "BrowseRoots (sampleConfig False) = [''/scan'']" by (simp add: sampleConfig_def)
  have "noSymlinkOn plainView cs" for cs
    by (simp add: noSymlinkOn_def plainView_def dirInfo_def)
  moreover have "Clean ''/scan/a/../b'' = ''/scan/b''" by code_simp
  moreover have "''/scan/b'' = absPath [''scan'', ''b'']" by code_simp
  ultimately show ?thesis
    using roots safePath_exact [OF roots, of plainView "''/scan/a/../b''" "''/scan/b''"]
    by (auto simp: goodComp_def intro!: exI [of _ "[''b'']"])
qed

text \<open>
  C2: in TimeDock mode no path is accepted for two accounts: when two actors with account
  names that are single path components are both granted the same path, at whatever times
  their requests are served, they belong to the same account.
\<close>

theorem timedock_isolation:
  assumes "BrowseRoots cfg = [''/scan'']" and "IsTimeDock cfg"
    and "goodComp (TimeDockAccount a)" and "goodComp (TimeDockAccount b)"
    and "safePathForActor os cfg i a = Inr p" and "safePathForActor os' cfg j b = Inr p"
  shows "TimeDockAccount a = TimeDockAccount b"
proof -
  have "p \<in> actorZone os cfg a" and "p \<in> actorZone os' cfg b"
    using assms by (auto intro: guard.accept_zone simp: admittedActor_def)
  then obtain d e r s where
    "p = absPath (''scan'' # d # TimeDockAccount a # r)" "list_all goodComp (d # TimeDockAccount a # r)"
    "p = absPath (''scan'' # e # TimeDockAccount b # s)" "list_all goodComp (e # TimeDockAccount b # s)"
    using assms(2) by (fastforce simp: actorZone_def)
  then show ?thesis
    using absPath_inject [of "''scan'' # d # TimeDockAccount a # r" "''scan'' # e # TimeDockAccount b # s"]
    by (simp add: goodComp_def)
qed

theorem timedock_isolation_witness:
  "let cfg = sampleConfig True;
       a = \<lparr> ID = ''alice001'', Username = ''alice'', Role = ''user'', TimeDockAccount = ''amy'' \<rparr>;
       b = \<lparr> ID = ''boris002'', Username = ''boris'', Role = ''admin'', TimeDockAccount = ''amy'' \<rparr>
   in safePathForActor plainView cfg ''/scan/usb1/amy/x'' a = Inr ''/scan/usb1/amy/x'' \<and>
      safePathForActor plainView cfg ''/scan//usb1/amy/x'' b = Inr ''/scan/usb1/amy/x'' \<and>
      TimeDockAccount a = TimeDockAccount b"
proof -
  let ?cfg = "sampleConfig True"
  let ?a = "\<lparr> ID = ''alice001'', Username = ''alice'', Role = ''user'', TimeDockAccount = ''amy'' \<rparr>"
  let ?b = "\<lparr> ID = ''boris002'', Username = ''boris'', Role = ''admin'', TimeDockAccount = ''amy'' \<rparr>"
  have cfg: "BrowseRoots ?cfg = [''/scan'']" "IsTimeDock ?cfg" by (simp_all add: sampleConfig_def)
  have good: "goodComp (TimeDockAccount ?a)" "goodComp (TimeDockAccount ?b)"
    by (simp_all add: goodComp_def)
  have pa: "safePathForActor plainView ?cfg ''/scan/usb1/amy/x'' ?a = Inr ''/scan/usb1/amy/x''"
    by code_simp
  have pb: "safePathForActor plainView ?cfg ''/scan//usb1/amy/x'' ?b = Inr ''/scan/usb1/amy/x''"
    by code_simp
  show ?thesis
    using pa pb timedock_isolation [OF cfg good pa pb] by (simp only: Let_def)
qed

end
