(* ===== verification/Scan_Queue.thy ===== *)
theory Scan_Queue
  imports Path_Guard "HOL-Library.Word"
begin

text \<open>
  The in-memory scan queue of \<^verbatim>\<open>scans.go\<close>: batches, the queue operations the HTTP handlers and
  the queue runner perform under the server's mutex, and the handlers. A batch is held in the
  server's map by pointer, but every access goes through the map under the mutex and snapshots
  are deep copies (\<^verbatim>\<open>cloneBatch\<close>), so the model keeps the batches by value.
\<close>

section \<open>Batches and the queue state\<close>

record scanBatch =
  batch_ID :: string
  batch_Status :: string
  batch_Action :: string
  batch_Targets :: "string list"
  batch_JobIDs :: "string list"
  batch_StartedAt :: "gotime option"
  batch_FinishedAt :: "gotime option"
  batch_Current :: string
  batch_Message :: string
  batch_Completed :: int
  batch_Failed :: int
  batch_Threats :: int
  batch_LastError :: string
  batch_UserID :: string
  batch_Username :: string

record scanQueueItem =
  item_ID :: string
  item_Status :: string
  item_JobIDs :: "string list"
  item_Targets :: "string list"
  item_Action :: string
  item_StartedAt :: "gotime option"
  item_QueueNumber :: int

text \<open>The fields of \<^verbatim>\<open>server\<close> that \<^verbatim>\<open>server.mu\<close> protects.\<close>

record queueState =
  activeBatchID :: string
  queuedBatchIDs :: "string list"
  queueRunnerActive :: bool
  batches :: "string \<rightharpoonup> scanBatch"

definition emptyQueue :: queueState where
  "emptyQueue = \<lparr> activeBatchID = [], queuedBatchIDs = [], queueRunnerActive = False,
                  batches = Map.empty \<rparr>"

section \<open>Operations under the mutex\<close>

definition cloneBatchLocked :: "queueState \<Rightarrow> string \<Rightarrow> scanBatch option" where
  "cloneBatchLocked s i = (if i = [] then None else batches s i)"

definition batchSnapshot :: "queueState \<Rightarrow> string \<Rightarrow> scanBatch option" where
  "batchSnapshot s i = cloneBatchLocked s i"

definition updateBatch :: "string \<Rightarrow> (scanBatch \<Rightarrow> scanBatch) \<Rightarrow> queueState \<Rightarrow> queueState" where
  "updateBatch i fn s =
     (case batches s i of
        None \<Rightarrow> s
      | Some batch \<Rightarrow> s\<lparr>batches := (batches s)(i \<mapsto> fn batch)\<rparr>)"

fun indexFrom :: "int \<Rightarrow> string list \<Rightarrow> string \<Rightarrow> int" where
  "indexFrom i [] needle = - 1"
| "indexFrom i (value # values) needle =
     (if value = needle then i else indexFrom (i + 1) values needle)"

definition indexOfString :: "string list \<Rightarrow> string \<Rightarrow> int" where
  "indexOfString values needle = indexFrom 0 values needle"

text \<open>\<^verbatim>\<open>append(xs[:i], xs[i+1:]...)\<close>: the list without position \<^verbatim>\<open>i\<close>.\<close>

definition removeAt :: "nat \<Rightarrow> 'a list \<Rightarrow> 'a list" where
  "removeAt i xs = take i xs @ drop (Suc i) xs"

text \<open>
  \<^verbatim>\<open>startQueueRunnerLocked\<close>: the boolean says that a runner goroutine was started.
\<close>

definition startQueueRunnerLocked :: "queueState \<Rightarrow> bool \<times> queueState" where
  "startQueueRunnerLocked s =
     (if queueRunnerActive s then (False, s) else (True, s\<lparr>queueRunnerActive := True\<rparr>))"

definition enqueueBatch :: "scanBatch \<Rightarrow> queueState \<Rightarrow> (string \<times> string) \<times> bool \<times> queueState" where
  "enqueueBatch batch s =
     (let s1 = s\<lparr>batches := (batches s)(batch_ID batch \<mapsto> batch)\<rparr>;
          s2 = s1\<lparr>queuedBatchIDs := queuedBatchIDs s1 @ [batch_ID batch]\<rparr>;
          (started, s3) = startQueueRunnerLocked s2
      in (case cloneBatchLocked s3 (batch_ID batch) of
            None \<Rightarrow> ((''queued'', ''Queued''), started, s3)
          | Some snapshot \<Rightarrow> ((batch_Status snapshot, batch_Message snapshot), started, s3)))"

text \<open>
  \<^verbatim>\<open>nextQueuedBatchID\<close>: dangling identifiers are dropped in place, the users that have queued
  batches are listed in queue order, one is picked at random (\<open>pick n\<close> is \<^verbatim>\<open>randomIndex(n)\<close>)
  and its first batch is returned. The runner is marked inactive when nothing is left to do.
\<close>

fun queuedUsers :: "(string \<rightharpoonup> scanBatch) \<Rightarrow> string list \<Rightarrow> string list \<Rightarrow> string list" where
  "queuedUsers m [] seen = []"
| "queuedUsers m (i # is) seen =
     (case m i of
        None \<Rightarrow> queuedUsers m is seen
      | Some batch \<Rightarrow>
          if batch_UserID batch \<in> set seen then queuedUsers m is seen
          else batch_UserID batch # queuedUsers m is (batch_UserID batch # seen))"

definition ownedBy :: "queueState \<Rightarrow> string \<Rightarrow> string \<Rightarrow> bool" where
  "ownedBy s userID i = (case batches s i of None \<Rightarrow> False | Some batch \<Rightarrow> batch_UserID batch = userID)"

definition nextQueuedBatchID :: "(nat \<Rightarrow> nat) \<Rightarrow> queueState \<Rightarrow> string option \<times> queueState" where
  "nextQueuedBatchID pick s =
     (let users = queuedUsers (batches s) (queuedBatchIDs s) [];
          s1 = s\<lparr>queuedBatchIDs := filter (\<lambda>i. batches s i \<noteq> None) (queuedBatchIDs s)\<rparr>;
          idle = (None, if activeBatchID s1 = [] then s1\<lparr>queueRunnerActive := False\<rparr> else s1)
      in if users \<noteq> [] then
           let selected = users ! pick (length users) in
           (case find (ownedBy s1 selected) (queuedBatchIDs s1) of
              Some i \<Rightarrow> (Some i, s1)
            | None \<Rightarrow> idle)
         else idle)"

text \<open>
  \<^verbatim>\<open>randomIndex\<close>: eight random bytes read as a big-endian 64-bit number modulo the length, or
  the clock when the random source fails. \<open>nowNano\<close> is \<^verbatim>\<open>time.Now().UnixNano()\<close>.
\<close>

definition randomIndex :: "8 word list option \<Rightarrow> int \<Rightarrow> nat \<Rightarrow> nat" where
  "randomIndex bytes nowNano n =
     (if n \<le> 1 then 0
      else case bytes of
        None \<Rightarrow> nat (nowNano mod int n)
      | Some b \<Rightarrow>
          unat (foldl (\<lambda>value part. or (push_bit 8 value) (ucast part)) (0 :: 64 word) b
                mod word_of_nat n))"

definition activateQueuedBatch :: "gotime \<Rightarrow> string \<Rightarrow> queueState \<Rightarrow> bool \<times> queueState" where
  "activateQueuedBatch now i s =
     (if activeBatchID s \<noteq> [] then (False, s)
      else case batches s i of
        None \<Rightarrow> (False, s)
      | Some batch \<Rightarrow>
          let index = indexOfString (queuedBatchIDs s) i in
          if index < 0 then (False, s)
          else (True, s\<lparr>queuedBatchIDs := removeAt (nat index) (queuedBatchIDs s),
                        batches := (batches s)(i \<mapsto> batch\<lparr>batch_StartedAt := Some now,
                                       batch_Status := ''running'', batch_Message := ''Running''\<rparr>),
                        activeBatchID := i\<rparr>))"

definition updateQueuedBatchMessage :: "string \<Rightarrow> string \<Rightarrow> queueState \<Rightarrow> queueState" where
  "updateQueuedBatchMessage i message s =
     (if activeBatchID s \<noteq> [] \<or> indexOfString (queuedBatchIDs s) i < 0 then s
      else case batches s i of
        None \<Rightarrow> s
      | Some batch \<Rightarrow>
          if batch_Status batch = ''queued''
          then s\<lparr>batches := (batches s)(i \<mapsto> batch\<lparr>batch_Message := message\<rparr>)\<rparr> else s)"

definition finishBatch :: "string \<Rightarrow> queueState \<Rightarrow> queueState" where
  "finishBatch i s =
     (let s1 = (if activeBatchID s = i then s\<lparr>activeBatchID := []\<rparr> else s)
      in s1\<lparr>batches := (batches s1)(i := None)\<rparr>)"

text \<open>
  \<^verbatim>\<open>reorderQueuedBatch\<close>: the caller's batch moves inside the caller's own sub-queue; the slots
  of the queue that belong to the caller are then rewritten in order.
\<close>

fun rewriteOwned :: "(string \<Rightarrow> bool) \<Rightarrow> string list \<Rightarrow> string list \<Rightarrow> string list" where
  "rewriteOwned own [] owned = []"
| "rewriteOwned own (i # is) owned =
     (if own i then (case owned of
                       [] \<Rightarrow> i # rewriteOwned own is []
                     | o1 # os \<Rightarrow> o1 # rewriteOwned own is os)
      else i # rewriteOwned own is owned)"

definition insertAt :: "nat \<Rightarrow> 'a \<Rightarrow> 'a list \<Rightarrow> 'a list" where
  "insertAt n x xs = take n xs @ x # drop n xs"

definition reorderQueuedBatch ::
    "string \<Rightarrow> int \<Rightarrow> string \<Rightarrow> queueState \<Rightarrow> queueState res" where
  "reorderQueuedBatch i targetNumber userID s =
     (if i = [] then Inl (ErrText ''id is required'')
      else if targetNumber < 1
        then Inl (ErrText ''queue_number must be greater than or equal to 1'')
      else if \<not> validUserID userID then Inl (ErrText ''queued scan not found'')
      else if \<not> ownedBy s userID i then Inl (ErrText ''queued scan not found'')
      else if i = activeBatchID s then Inl (ErrText ''running scan cannot be reordered'')
      else if indexOfString (queuedBatchIDs s) i < 0
        then Inl (ErrText ''queued scan not found'')
      else let owned = filter (ownedBy s userID) (queuedBatchIDs s);
               number = (if targetNumber > int (length owned) then int (length owned)
                         else targetNumber);
               owned1 = removeAt (nat (indexOfString owned i)) owned;
               owned2 = insertAt (nat (number - 1)) i owned1
           in Inr (s\<lparr>queuedBatchIDs := rewriteOwned (ownedBy s userID) (queuedBatchIDs s) owned2\<rparr>))"

definition cancelQueuedBatch :: "string \<Rightarrow> string \<Rightarrow> string \<Rightarrow> queueState \<Rightarrow> queueState res" where
  "cancelQueuedBatch i confirm userID s =
     (if i = [] then Inl (ErrText ''id is required'')
      else if confirm \<noteq> ''Y'' then Inl (ErrText ''cancel must be Y'')
      else if \<not> validUserID userID then Inl (ErrText ''queued scan not found'')
      else if \<not> ownedBy s userID i then Inl (ErrText ''queued scan not found'')
      else if i = activeBatchID s then Inl (ErrText ''running scan cannot be canceled'')
      else let index = indexOfString (queuedBatchIDs s) i in
        if index < 0 then Inl (ErrText ''queued scan not found'')
        else Inr (s\<lparr>queuedBatchIDs := removeAt (nat index) (queuedBatchIDs s),
                     batches := (batches s)(i := None)\<rparr>))"

text \<open>
  The part of \<^verbatim>\<open>cleanDeleteUser\<close> that runs under the mutex: a user with the active batch is
  busy; otherwise the queued batches of the user are dropped.
\<close>

fun dropOwned ::
    "string \<Rightarrow> string list \<Rightarrow> (string \<rightharpoonup> scanBatch) \<Rightarrow> string list \<times> (string \<rightharpoonup> scanBatch)" where
  "dropOwned userID [] m = ([], m)"
| "dropOwned userID (i # is) m =
     (case m i of
        None \<Rightarrow> (let (kept, m') = dropOwned userID is m in (i # kept, m'))
      | Some batch \<Rightarrow>
          if batch_UserID batch = userID then dropOwned userID is (m(i := None))
          else (let (kept, m') = dropOwned userID is m in (i # kept, m')))"

definition dropUserBatches :: "string \<Rightarrow> queueState \<Rightarrow> queueState option" where
  "dropUserBatches userID s =
     (if ownedBy s userID (activeBatchID s) then None
      else let (kept, m) = dropOwned userID (queuedBatchIDs s) (batches s)
           in Some (s\<lparr>queuedBatchIDs := kept, batches := m\<rparr>))"

definition manualScanPendingOrActive :: "queueState \<Rightarrow> bool" where
  "manualScanPendingOrActive s \<longleftrightarrow> activeBatchID s \<noteq> [] \<or> queuedBatchIDs s \<noteq> []"

section \<open>Listing\<close>

definition queueItem :: "scanBatch \<Rightarrow> int \<Rightarrow> scanQueueItem" where
  "queueItem batch queueNumber =
     \<lparr> item_ID = batch_ID batch, item_Status = batch_Status batch,
       item_JobIDs = batch_JobIDs batch, item_Targets = batch_Targets batch,
       item_Action = batch_Action batch, item_StartedAt = batch_StartedAt batch,
       item_QueueNumber = queueNumber \<rparr>"

definition parseScanScope :: "string \<Rightarrow> (int \<times> int \<times> bool) res" where
  "parseScanScope scope0 =
     (let scope = TrimSpace scope0 in
      if scope = [] \<or> scope = ''all'' then Inr (0, 0, True)
      else let (startText, endText, ok) = Cut scope CHR ''-'' in
        if \<not> ok then Inl (ErrText ''scope must be all or a numeric range like 1-10'')
        else case Atoi (TrimSpace startText) of
          None \<Rightarrow> Inl (ErrText ''scope start must be a positive number'')
        | Some start \<Rightarrow>
            if start < 1 then Inl (ErrText ''scope start must be a positive number'')
            else case Atoi (TrimSpace endText) of
              None \<Rightarrow> Inl (ErrText ''scope end must be greater than or equal to start'')
            | Some end' \<Rightarrow>
                if end' < start
                then Inl (ErrText ''scope end must be greater than or equal to start'')
                else Inr (start, end', False))"

fun listQueued ::
    "queueState \<Rightarrow> string \<Rightarrow> (int \<Rightarrow> bool) \<Rightarrow> int \<Rightarrow> string list \<Rightarrow> scanQueueItem list" where
  "listQueued s userID inRange queueNumber [] = []"
| "listQueued s userID inRange queueNumber (i # is) =
     (case cloneBatchLocked s i of
        None \<Rightarrow> listQueued s userID inRange queueNumber is
      | Some batch \<Rightarrow>
          if userID \<noteq> [] \<and> batch_UserID batch \<noteq> userID
          then listQueued s userID inRange queueNumber is
          else if \<not> inRange (queueNumber + 1)
          then listQueued s userID inRange (queueNumber + 1) is
          else queueItem batch (queueNumber + 1) # listQueued s userID inRange (queueNumber + 1) is)"

definition listQueueItems :: "string \<Rightarrow> string \<Rightarrow> queueState \<Rightarrow> scanQueueItem list res" where
  "listQueueItems scope userID s =
     bind_res (parseScanScope scope) (\<lambda>(start, end', all).
       Inr ((if all \<or> start = 1 then
               (case cloneBatchLocked s (activeBatchID s) of
                  None \<Rightarrow> []
                | Some active \<Rightarrow>
                    if userID = [] \<or> batch_UserID active = userID then [queueItem active 0] else [])
             else [])
            @ listQueued s userID (\<lambda>n. all \<or> (start \<le> n \<and> n \<le> end')) 0 (queuedBatchIDs s)))"

section \<open>Index arithmetic\<close>

lemma indexFrom_neg: "0 \<le> n \<Longrightarrow> indexFrom n xs x < 0 \<longleftrightarrow> x \<notin> set xs"
  by (induction xs arbitrary: n) auto

lemma indexOfString_neg [simp]: "indexOfString xs x < 0 \<longleftrightarrow> x \<notin> set xs"
  by (simp add: indexOfString_def indexFrom_neg)

lemma removeAt_indexFrom:
  "x \<in> set xs \<Longrightarrow> \<exists>k. indexFrom n xs x = n + int k \<and> removeAt k xs = remove1 x xs"
proof (induction xs arbitrary: n)
  case (Cons y ys)
  show ?case
  proof (cases "y = x")
    case False
    with Cons obtain k where k: "indexFrom (n + 1) ys x = n + 1 + int k" "removeAt k ys = remove1 x ys"
      by fastforce
    then have "indexFrom n (y # ys) x = n + int (Suc k) \<and> removeAt (Suc k) (y # ys) = remove1 x (y # ys)"
      using False by (simp add: removeAt_def)
    then show ?thesis by blast
  qed (auto simp: removeAt_def intro: exI [of _ 0])
qed simp

lemma removeAt_indexOfString [simp]:
  "x \<in> set xs \<Longrightarrow> removeAt (nat (indexOfString xs x)) xs = remove1 x xs"
  using removeAt_indexFrom [of x xs 0] by (auto simp: indexOfString_def)

section \<open>The queue invariant\<close>

text \<open>
  The queue names every batch at most once, never the active one, and the batches held are
  exactly the queued and the active ones, each under its own identifier; a queued batch has
  the status \<^verbatim>\<open>queued\<close>.
\<close>

definition heldIDs :: "queueState \<Rightarrow> string set" where
  "heldIDs s = set (queuedBatchIDs s) \<union> (if activeBatchID s = [] then {} else {activeBatchID s})"

definition queueInv :: "queueState \<Rightarrow> bool" where
  "queueInv s \<longleftrightarrow>
     distinct (queuedBatchIDs s) \<and> [] \<notin> set (queuedBatchIDs s) \<and>
     activeBatchID s \<notin> set (queuedBatchIDs s) \<and>
     dom (batches s) = heldIDs s \<and>
     (\<forall>i b. batches s i = Some b \<longrightarrow> batch_ID b = i) \<and>
     (\<forall>i b. i \<in> set (queuedBatchIDs s) \<longrightarrow> batches s i = Some b \<longrightarrow> batch_Status b = ''queued'')"

definition freshBatch :: "scanBatch \<Rightarrow> queueState \<Rightarrow> bool" where
  "freshBatch b s \<longleftrightarrow> batch_ID b \<noteq> [] \<and> batches s (batch_ID b) = None \<and> batch_Status b = ''queued''"

text \<open>The queue of one user, in order.\<close>

definition pending :: "queueState \<Rightarrow> string \<Rightarrow> string list" where
  "pending s u = filter (ownedBy s u) (queuedBatchIDs s)"

lemma queueInv_empty: "queueInv emptyQueue"
  by (simp add: queueInv_def emptyQueue_def heldIDs_def)

lemma ownedBy_dom: "ownedBy s u i \<Longrightarrow> i \<in> dom (batches s)"
  by (auto simp: ownedBy_def split: option.splits)

lemma queueInv_queued_Some:
  "queueInv s \<Longrightarrow> i \<in> set (queuedBatchIDs s) \<Longrightarrow>
     \<exists>b. batches s i = Some b \<and> batch_ID b = i \<and> batch_Status b = ''queued''"
  unfolding queueInv_def heldIDs_def by (metis UnI1 domD)

lemma queueInv_active_Some:
  "queueInv s \<Longrightarrow> activeBatchID s \<noteq> [] \<Longrightarrow> \<exists>b. batches s (activeBatchID s) = Some b"
proof -
  assume "queueInv s" and "activeBatchID s \<noteq> []"
  then have "activeBatchID s \<in> dom (batches s)" by (simp add: queueInv_def heldIDs_def)
  then show ?thesis by auto
qed

lemma queueInv_held:
  assumes "queueInv s" and "batches s i = Some b"
  shows "i \<noteq> [] \<and> (i \<in> set (queuedBatchIDs s) \<or> i = activeBatchID s)"
proof -
  have "i \<in> dom (batches s)" using assms(2) by auto
  with assms(1) show ?thesis by (auto simp: queueInv_def heldIDs_def split: if_splits)
qed

lemma freshBatch_notin:
  "queueInv s \<Longrightarrow> freshBatch b s \<Longrightarrow>
     batch_ID b \<notin> set (queuedBatchIDs s) \<and> batch_ID b \<noteq> activeBatchID s"
  by (metis freshBatch_def option.distinct(1) queueInv_active_Some queueInv_queued_Some)

lemma enqueueBatch_state:
  "snd (snd (enqueueBatch b s)) =
     s\<lparr>batches := (batches s)(batch_ID b \<mapsto> b), queuedBatchIDs := queuedBatchIDs s @ [batch_ID b],
       queueRunnerActive := True\<rparr>"
  by (auto simp: enqueueBatch_def startQueueRunnerLocked_def Let_def split: option.splits)

lemma enqueueBatch_started: "fst (snd (enqueueBatch b s)) \<longleftrightarrow> \<not> queueRunnerActive s"
  by (auto simp: enqueueBatch_def startQueueRunnerLocked_def Let_def split: option.splits)

lemma enqueueBatch_reply:
  "batch_ID b \<noteq> [] \<Longrightarrow> fst (enqueueBatch b s) = (batch_Status b, batch_Message b)"
  by (auto simp: enqueueBatch_def startQueueRunnerLocked_def cloneBatchLocked_def Let_def)

lemma enqueueBatch_inv:
  assumes "queueInv s" and "freshBatch b s"
  shows "queueInv (snd (snd (enqueueBatch b s)))"
proof -
  have fresh: "batch_ID b \<notin> set (queuedBatchIDs s)" "batch_ID b \<noteq> activeBatchID s"
    using freshBatch_notin [OF assms] by auto
  then show ?thesis
    using assms unfolding enqueueBatch_state queueInv_def heldIDs_def freshBatch_def
    by (auto split: if_splits)
qed

lemma enqueueBatch_pending:
  assumes "queueInv s" and "freshBatch b s"
  shows "pending (snd (snd (enqueueBatch b s))) =
           (pending s)(batch_UserID b := pending s (batch_UserID b) @ [batch_ID b])"
proof
  fix u
  have fresh: "batch_ID b \<notin> set (queuedBatchIDs s)"
    using freshBatch_notin [OF assms] by auto
  then have "filter (ownedBy (snd (snd (enqueueBatch b s))) u) (queuedBatchIDs s) = pending s u"
    unfolding pending_def
    by (intro filter_cong) (auto simp: enqueueBatch_state ownedBy_def)
  then show "pending (snd (snd (enqueueBatch b s))) u =
        ((pending s)(batch_UserID b := pending s (batch_UserID b) @ [batch_ID b])) u"
    by (auto simp: pending_def enqueueBatch_state ownedBy_def)
qed

text \<open>Removing a queued batch, which cancelling and deleting a user do.\<close>

lemma ownedBy_cong: "batches s i = batches t i \<Longrightarrow> ownedBy s u i = ownedBy t u i"
  by (simp add: ownedBy_def)

lemma cancelQueuedBatch_Inr:
  "cancelQueuedBatch i confirm u s = Inr t \<longleftrightarrow>
     i \<noteq> [] \<and> confirm = ''Y'' \<and> validUserID u \<and> ownedBy s u i \<and> i \<noteq> activeBatchID s \<and>
     i \<in> set (queuedBatchIDs s) \<and>
     t = s\<lparr>queuedBatchIDs := remove1 i (queuedBatchIDs s), batches := (batches s)(i := None)\<rparr>"
  by (auto simp: cancelQueuedBatch_def Let_def split: if_splits)

lemma cancelQueuedBatch_inv:
  assumes "queueInv s" and "cancelQueuedBatch i confirm u s = Inr t"
  shows "queueInv t"
  using assms unfolding cancelQueuedBatch_Inr queueInv_def heldIDs_def
  by (auto simp: distinct_remove1_set split: if_splits)

lemma cancelQueuedBatch_pending:
  assumes "queueInv s" and "cancelQueuedBatch i confirm u s = Inr t"
  shows "pending t = (pending s)(u := remove1 i (pending s u))"
proof
  fix v
  from assms(2) have own: "ownedBy s u i" and q: "queuedBatchIDs t = remove1 i (queuedBatchIDs s)"
    and b: "batches t = (batches s)(i := None)"
    unfolding cancelQueuedBatch_Inr by auto
  have dist: "distinct (queuedBatchIDs s)" using assms(1) by (simp add: queueInv_def)
  then have "pending t v = filter (ownedBy s v) (remove1 i (queuedBatchIDs s))"
    unfolding pending_def q
    by (intro filter_cong) (auto simp: b ownedBy_def distinct_remove1_set)
  also have "\<dots> = (if v = u then remove1 i (pending s u) else pending s v)"
    using own unfolding pending_def
    by (auto simp: filter_remove1_same filter_remove1_other ownedBy_def split: option.splits)
  finally show "pending t v = ((pending s)(u := remove1 i (pending s u))) v" by simp
qed

text \<open>Moving a batch inside its owner's queue.\<close>

lemma rewriteOwned_length: "length (rewriteOwned P xs ys) = length xs"
  by (induction P xs ys rule: rewriteOwned.induct) (auto split: list.splits)

lemma rewriteOwned_filter:
  "length ys = length (filter P xs) \<Longrightarrow> list_all P ys \<Longrightarrow>
     filter P (rewriteOwned P xs ys) = ys \<and>
     filter (\<lambda>x. \<not> P x) (rewriteOwned P xs ys) = filter (\<lambda>x. \<not> P x) xs"
proof (induction xs arbitrary: ys)
  case (Cons x xs)
  then show ?case by (cases ys) auto
qed simp

lemma rewriteOwned_nth:
  "k < length xs \<Longrightarrow> \<not> P (xs ! k) \<Longrightarrow> rewriteOwned P xs ys ! k = xs ! k"
proof (induction xs arbitrary: k ys)
  case (Cons x xs)
  then show ?case by (cases k) (auto split: list.splits)
qed simp

lemma set_filter_split: "set xs = set (filter P xs) \<union> set (filter (\<lambda>x. \<not> P x) xs)"
  by auto

lemma distinct_filter_split:
  "distinct xs \<longleftrightarrow> distinct (filter P xs) \<and> distinct (filter (\<lambda>x. \<not> P x) xs)"
  by (induction xs) (auto simp del: distinct_filter)

lemma insertAt_set [simp]: "set (insertAt n x xs) = insert x (set xs)"
proof -
  obtain a b where ab: "take n xs = a" "drop n xs = b" by blast
  have "xs = a @ b" unfolding ab [symmetric] by simp
  then show ?thesis unfolding insertAt_def ab by auto
qed

lemma insertAt_length [simp]: "length (insertAt n x xs) = Suc (length xs)"
  by (simp add: insertAt_def)

lemma insertAt_distinct [simp]: "distinct (insertAt n x xs) \<longleftrightarrow> x \<notin> set xs \<and> distinct xs"
proof -
  obtain a b where ab: "take n xs = a" "drop n xs = b" by blast
  have "xs = a @ b" unfolding ab [symmetric] by simp
  then show ?thesis unfolding insertAt_def ab by auto
qed

text \<open>The abstract move: to position \<open>n\<close>, counted from 1, of the list.\<close>

definition moveTo :: "int \<Rightarrow> 'a \<Rightarrow> 'a list \<Rightarrow> 'a list" where
  "moveTo n x xs = insertAt (nat (min n (int (length xs)) - 1)) x (remove1 x xs)"

lemma moveTo_set: "x \<in> set xs \<Longrightarrow> distinct xs \<Longrightarrow> set (moveTo n x xs) = set xs"
  by (auto simp: moveTo_def distinct_remove1_set)

lemma moveTo_length: "x \<in> set xs \<Longrightarrow> length (moveTo n x xs) = length xs"
  by (auto simp: moveTo_def length_remove1) (metis Suc_pred length_pos_if_in_set)

lemma moveTo_distinct: "distinct xs \<Longrightarrow> distinct (moveTo n x xs)"
  by (simp add: moveTo_def distinct_remove1_set)

lemma moveTo_nth:
  assumes "x \<in> set xs" "1 \<le> n" "n \<le> int (length xs)"
  shows "moveTo n x xs ! nat (n - 1) = x"
proof -
  have "nat (n - 1) \<le> length (remove1 x xs)"
    using assms by (auto simp: length_remove1)
  then show ?thesis using assms by (simp add: moveTo_def insertAt_def nth_append min_def)
qed

lemma reorderQueuedBatch_Inr:
  "reorderQueuedBatch i n u s = Inr t \<longleftrightarrow>
     i \<noteq> [] \<and> 1 \<le> n \<and> validUserID u \<and> ownedBy s u i \<and> i \<noteq> activeBatchID s \<and>
     i \<in> set (queuedBatchIDs s) \<and>
     t = s\<lparr>queuedBatchIDs :=
            rewriteOwned (ownedBy s u) (queuedBatchIDs s) (moveTo n i (pending s u))\<rparr>"
  by (auto simp: reorderQueuedBatch_def Let_def moveTo_def pending_def min_def split: if_splits)

lemma reorderQueuedBatch_queue:
  assumes "queueInv s" and "reorderQueuedBatch i n u s = Inr t"
  shows "filter (ownedBy s u) (queuedBatchIDs t) = moveTo n i (pending s u)"
    and "filter (\<lambda>j. \<not> ownedBy s u j) (queuedBatchIDs t) =
           filter (\<lambda>j. \<not> ownedBy s u j) (queuedBatchIDs s)"
    and "batches t = batches s" and "activeBatchID t = activeBatchID s"
    and "queueRunnerActive t = queueRunnerActive s"
proof -
  from assms(2) have mem: "i \<in> set (pending s u)"
    and t: "t = s\<lparr>queuedBatchIDs :=
              rewriteOwned (ownedBy s u) (queuedBatchIDs s) (moveTo n i (pending s u))\<rparr>"
    unfolding reorderQueuedBatch_Inr by (auto simp: pending_def)
  have dist: "distinct (pending s u)" using assms(1) by (simp add: pending_def queueInv_def)
  have "list_all (ownedBy s u) (moveTo n i (pending s u))"
    using moveTo_set [OF mem dist] by (auto simp: list_all_iff pending_def)
  moreover have "length (moveTo n i (pending s u)) = length (filter (ownedBy s u) (queuedBatchIDs s))"
    using moveTo_length [OF mem] by (simp add: pending_def)
  ultimately show "filter (ownedBy s u) (queuedBatchIDs t) = moveTo n i (pending s u)"
    and "filter (\<lambda>j. \<not> ownedBy s u j) (queuedBatchIDs t) =
           filter (\<lambda>j. \<not> ownedBy s u j) (queuedBatchIDs s)"
    using rewriteOwned_filter by (auto simp: t)
qed (use assms(2) in \<open>auto simp: reorderQueuedBatch_Inr\<close>)

lemma reorderQueuedBatch_set:
  assumes "queueInv s" and "reorderQueuedBatch i n u s = Inr t"
  shows "set (queuedBatchIDs t) = set (queuedBatchIDs s)" "distinct (queuedBatchIDs t)"
proof -
  note q = reorderQueuedBatch_queue [OF assms]
  have dist: "distinct (queuedBatchIDs s)" "distinct (pending s u)"
    using assms(1) by (simp_all add: pending_def queueInv_def)
  have mem: "i \<in> set (pending s u)"
    using assms(2) unfolding reorderQueuedBatch_Inr by (auto simp: pending_def)
  show "set (queuedBatchIDs t) = set (queuedBatchIDs s)"
    unfolding set_filter_split [of "queuedBatchIDs t" "ownedBy s u"]
      set_filter_split [of "queuedBatchIDs s" "ownedBy s u"] q(1,2) moveTo_set [OF mem dist(2)]
    by (simp only: pending_def)
  show "distinct (queuedBatchIDs t)"
    unfolding distinct_filter_split [of "queuedBatchIDs t" "ownedBy s u"] q(1,2)
    using moveTo_distinct [OF dist(2), of n i] dist(1) by simp
qed

lemma reorderQueuedBatch_inv:
  assumes "queueInv s" and "reorderQueuedBatch i n u s = Inr t"
  shows "queueInv t"
  using assms(1) reorderQueuedBatch_set [OF assms] reorderQueuedBatch_queue [OF assms]
  by (simp add: queueInv_def heldIDs_def)

lemma reorderQueuedBatch_pending:
  assumes "queueInv s" and "reorderQueuedBatch i n u s = Inr t"
  shows "pending t = (pending s)(u := moveTo n i (pending s u))"
proof
  fix v
  note q = reorderQueuedBatch_queue [OF assms]
  have same: "ownedBy t = ownedBy s" using q(3) by (simp add: ownedBy_def fun_eq_iff)
  show "pending t v = ((pending s)(u := moveTo n i (pending s u))) v"
  proof (cases "v = u")
    case True
    then show ?thesis using q(1) same by (simp add: pending_def)
  next
    case False
    have imp: "ownedBy s v j \<Longrightarrow> \<not> ownedBy s u j" for j
      using False by (auto simp: ownedBy_def split: option.splits)
    have sub: "filter (ownedBy s v) xs = filter (ownedBy s v) (filter (\<lambda>j. \<not> ownedBy s u j) xs)"
      for xs using imp by (induction xs) auto
    have "pending t v = pending s v"
      unfolding pending_def same by (subst (1 2) sub) (simp only: q(2))
    with False show ?thesis by simp
  qed
qed

text \<open>Choosing and activating the next batch.\<close>

lemma randomIndex_less: "0 < n \<Longrightarrow> n < 2 ^ 64 \<Longrightarrow> randomIndex bytes nowNano n < n"
proof -
  assume n: "0 < n" "n < 2 ^ 64"
  have "unat (v mod word_of_nat n) < n" for v :: "64 word"
    using n by (simp add: unat_mod unat_of_nat take_bit_nat_eq_self)
  moreover have "nat (nowNano mod int n) < n" using n(1) by (simp add: nat_less_iff)
  ultimately show ?thesis using n(1) by (auto simp: randomIndex_def split: option.splits)
qed

lemma queuedUsers_set:
  "set (queuedUsers m is seen) = {batch_UserID b | i b. i \<in> set is \<and> m i = Some b} - set seen"
proof (induction "is" arbitrary: seen)
  case (Cons i "is")
  show ?case by (cases "m i") (auto simp: Cons.IH)
qed simp

lemma queuedUsers_distinct: "distinct (queuedUsers m is seen)"
proof (induction "is" arbitrary: seen)
  case (Cons i "is")
  then show ?case by (auto simp: queuedUsers_set split: option.splits)
qed simp

lemma queuedUsers_pending:
  "set (queuedUsers (batches s) (queuedBatchIDs s) []) = {u. pending s u \<noteq> []}"
proof -
  have "pending s u \<noteq> [] \<longleftrightarrow> (\<exists>i b. i \<in> set (queuedBatchIDs s) \<and> batches s i = Some b \<and> batch_UserID b = u)"
    for u by (auto simp: pending_def filter_empty_conv ownedBy_def split: option.splits)
  then show ?thesis by (auto simp: queuedUsers_set)
qed

lemma find_filter: "find P xs = (case filter P xs of [] \<Rightarrow> None | x # _ \<Rightarrow> Some x)"
  by (induction xs) auto

lemma queueInv_filter_id:
  "queueInv s \<Longrightarrow> filter (\<lambda>i. batches s i \<noteq> None) (queuedBatchIDs s) = queuedBatchIDs s"
  by (rule filter_True) (auto dest: queueInv_queued_Some)

lemma nextQueuedBatchID_selected:
  assumes inv: "queueInv s" and pick: "\<And>n. 0 < n \<Longrightarrow> pick n < n"
    and ne: "queuedBatchIDs s \<noteq> []"
  shows "\<exists>u. pending s u \<noteq> [] \<and>
           u = queuedUsers (batches s) (queuedBatchIDs s) [] !
                 pick (length (queuedUsers (batches s) (queuedBatchIDs s) [])) \<and>
           nextQueuedBatchID pick s = (Some (hd (pending s u)), s)"
proof -
  let ?users = "queuedUsers (batches s) (queuedBatchIDs s) []"
  obtain b where "batches s (hd (queuedBatchIDs s)) = Some b"
    using ne queueInv_queued_Some [OF inv] by (meson hd_in_set)
  then have "batch_UserID b \<in> set ?users"
    using ne by (auto simp: queuedUsers_set intro!: exI [of _ "hd (queuedBatchIDs s)"])
  then have users: "?users \<noteq> []" by auto
  let ?u = "?users ! pick (length ?users)"
  have "?u \<in> set ?users" using users pick by (simp add: nth_mem)
  then have pend: "pending s ?u \<noteq> []" using queuedUsers_pending by blast
  then have "find (ownedBy s ?u) (queuedBatchIDs s) = Some (hd (pending s ?u))"
    unfolding find_filter pending_def by (auto split: list.splits)
  then have "nextQueuedBatchID pick s = (Some (hd (pending s ?u)), s)"
    using users unfolding nextQueuedBatchID_def Let_def queueInv_filter_id [OF inv] by simp
  with pend show ?thesis by blast
qed

lemma nextQueuedBatchID_idle:
  assumes "queueInv s" and "queuedBatchIDs s = []"
  shows "nextQueuedBatchID pick s =
           (None, if activeBatchID s = [] then s\<lparr>queueRunnerActive := False\<rparr> else s)"
  using assms by (simp add: nextQueuedBatchID_def Let_def)

lemma activateQueuedBatch_True:
  "activateQueuedBatch now i s = (True, t) \<longleftrightarrow>
     activeBatchID s = [] \<and> i \<in> set (queuedBatchIDs s) \<and>
     (\<exists>b. batches s i = Some b \<and>
        t = s\<lparr>queuedBatchIDs := remove1 i (queuedBatchIDs s),
              batches := (batches s)(i \<mapsto> b\<lparr>batch_StartedAt := Some now,
                             batch_Status := ''running'', batch_Message := ''Running''\<rparr>),
              activeBatchID := i\<rparr>)"
  by (auto simp: activateQueuedBatch_def Let_def split: if_splits option.splits)

lemma activateQueuedBatch_False: "activateQueuedBatch now i s = (False, t) \<Longrightarrow> t = s"
  by (auto simp: activateQueuedBatch_def Let_def split: if_splits option.splits)

lemma activateQueuedBatch_inv:
  assumes inv: "queueInv s" and act: "activateQueuedBatch now i s = (True, t)"
  shows "queueInv t \<and> activeBatchID t = i \<and> i \<noteq> []"
proof -
  let ?q = "queuedBatchIDs s"
  obtain b where free: "activeBatchID s = []" and i: "i \<in> set ?q" and b: "batches s i = Some b"
    and t: "t = s\<lparr>queuedBatchIDs := remove1 i ?q,
              batches := (batches s)(i \<mapsto> b\<lparr>batch_StartedAt := Some now,
                             batch_Status := ''running'', batch_Message := ''Running''\<rparr>),
              activeBatchID := i\<rparr>"
    using act unfolding activateQueuedBatch_True by auto
  have ne: "i \<noteq> []" using inv i by (auto simp: queueInv_def)
  have dist: "distinct ?q" and dom: "dom (batches s) = set ?q"
    using inv free by (simp_all add: queueInv_def heldIDs_def)
  have rm: "set (remove1 i ?q) = set ?q - {i}" using dist by (rule distinct_remove1_set)
  have "dom (batches t) = heldIDs t"
    unfolding heldIDs_def t using ne i by (simp add: dom rm)
  moreover have "\<forall>j c. batches t j = Some c \<longrightarrow> batch_ID c = j"
    using inv b by (simp add: t queueInv_def)
  moreover have "\<forall>j c. j \<in> set (queuedBatchIDs t) \<longrightarrow> batches t j = Some c \<longrightarrow> batch_Status c = ''queued''"
    using inv by (simp add: t rm queueInv_def) blast
  moreover have "distinct (queuedBatchIDs t)" "[] \<notin> set (queuedBatchIDs t)"
      "activeBatchID t \<notin> set (queuedBatchIDs t)"
    using inv by (simp_all add: t rm queueInv_def)
  ultimately show ?thesis using ne unfolding queueInv_def by (simp add: t)
qed

lemma activateQueuedBatch_pending:
  assumes "queueInv s" and "activateQueuedBatch now i s = (True, t)" and "ownedBy s u i"
  shows "pending t = (pending s)(u := remove1 i (pending s u))"
proof
  fix v
  from assms(2) have q: "queuedBatchIDs t = remove1 i (queuedBatchIDs s)"
    and own: "ownedBy t = ownedBy s"
    unfolding activateQueuedBatch_True
    by (auto simp: ownedBy_def fun_eq_iff split: if_splits option.splits)
  show "pending t v = ((pending s)(u := remove1 i (pending s u))) v"
    using assms(3) unfolding pending_def own q
    by (auto simp: filter_remove1_same filter_remove1_other ownedBy_def split: option.splits)
qed

text \<open>Updates that keep a batch's identity, owner and status, and the end of a batch.\<close>

lemma updateBatch_active_inv:
  assumes "queueInv s" and "\<And>b. batch_ID (fn b) = batch_ID b" and "i \<notin> set (queuedBatchIDs s)"
  shows "queueInv (updateBatch i fn s)"
proof (cases "batches s i")
  case (Some b)
  then have "i \<in> dom (batches s)" by auto
  with Some assms show ?thesis
    by (auto simp: queueInv_def heldIDs_def updateBatch_def insert_absorb)
qed (simp add: assms(1) updateBatch_def)

lemma updateQueuedBatchMessage_inv:
  assumes "queueInv s"
  shows "queueInv (updateQueuedBatchMessage i msg s)"
proof (cases "batches s i")
  case (Some b)
  then have "i \<in> dom (batches s)" by auto
  with Some assms show ?thesis
    by (auto simp: queueInv_def heldIDs_def updateQueuedBatchMessage_def insert_absorb)
qed (simp add: assms updateQueuedBatchMessage_def)

lemma finishBatch_inv:
  "queueInv s \<Longrightarrow> activeBatchID s = i \<Longrightarrow> i \<noteq> [] \<Longrightarrow>
     queueInv (finishBatch i s) \<and> activeBatchID (finishBatch i s) = []"
  by (auto simp: queueInv_def heldIDs_def finishBatch_def Let_def)

text \<open>Dropping the batches of a user that is being deleted.\<close>

definition ownedIn :: "(string \<rightharpoonup> scanBatch) \<Rightarrow> string \<Rightarrow> string \<Rightarrow> bool" where
  "ownedIn m u i = (case m i of None \<Rightarrow> False | Some b \<Rightarrow> batch_UserID b = u)"

lemma ownedIn_delete: "ownedIn (m(i := None)) u j \<longleftrightarrow> j \<noteq> i \<and> ownedIn m u j"
  by (simp add: ownedIn_def)

lemma dropOwned_Cons:
  "dropOwned u (i # is) m =
     (if ownedIn m u i then dropOwned u is (m(i := None))
      else (i # fst (dropOwned u is m), snd (dropOwned u is m)))"
  by (auto simp: ownedIn_def case_prod_unfold Let_def split: option.splits)

lemma dropOwned_distinct:
  "distinct is \<Longrightarrow>
     fst (dropOwned u is m) = filter (\<lambda>i. \<not> ownedIn m u i) is \<and>
     snd (dropOwned u is m) i = (if i \<in> set is \<and> ownedIn m u i then None else m i)"
proof (induction "is" arbitrary: m)
  case (Cons j "is")
  obtain m' where m': "m' = m(j := None)" by blast
  have own: "ownedIn m' u i \<longleftrightarrow> i \<noteq> j \<and> ownedIn m u i" for i
    unfolding m' by (rule ownedIn_delete)
  have filt: "filter (\<lambda>i. \<not> ownedIn m' u i) is = filter (\<lambda>i. \<not> ownedIn m u i) is"
    using Cons.prems by (intro filter_cong) (auto simp: own)
  have cons: "dropOwned u (j # is) m =
      (if ownedIn m u j then dropOwned u is m' else (j # fst (dropOwned u is m), snd (dropOwned u is m)))"
    unfolding m' by (rule dropOwned_Cons)
  have "m' i = (if i = j then None else m i)" by (simp add: m')
  then show ?case
    unfolding cons using Cons.IH [of m'] Cons.IH [of m] Cons.prems filt by (auto simp: own)
qed simp

lemma dropUserBatches_Some:
  assumes "queueInv s" and "dropUserBatches u s = Some t"
  shows "\<not> ownedBy s u (activeBatchID s)"
    and "t = s\<lparr>queuedBatchIDs := filter (\<lambda>i. \<not> ownedBy s u i) (queuedBatchIDs s),
                batches := (\<lambda>i. if ownedBy s u i then None else batches s i)\<rparr>"
proof -
  have own: "ownedBy s u = ownedIn (batches s) u"
    by (simp add: ownedBy_def ownedIn_def fun_eq_iff)
  show na: "\<not> ownedBy s u (activeBatchID s)"
    using assms(2) by (auto simp: dropUserBatches_def split: if_splits)
  have d: "distinct (queuedBatchIDs s)" using assms(1) by (simp add: queueInv_def)
  have "i \<in> set (queuedBatchIDs s)" if mine: "ownedBy s u i" for i
  proof -
    obtain b where "batches s i = Some b" using ownedBy_dom [OF mine] by auto
    moreover have "i \<noteq> activeBatchID s" using mine na by auto
    ultimately show ?thesis using queueInv_held [OF assms(1)] by blast
  qed
  then have "snd (dropOwned u (queuedBatchIDs s) (batches s)) =
      (\<lambda>i. if ownedBy s u i then None else batches s i)"
    using dropOwned_distinct [OF d, of u "batches s"] by (auto simp: fun_eq_iff own)
  then show "t = s\<lparr>queuedBatchIDs := filter (\<lambda>i. \<not> ownedBy s u i) (queuedBatchIDs s),
                batches := (\<lambda>i. if ownedBy s u i then None else batches s i)\<rparr>"
    using assms(2) na dropOwned_distinct [OF d, of u "batches s"]
    by (simp add: dropUserBatches_def case_prod_unfold Let_def own)
qed

lemma dropUserBatches_inv:
  assumes "queueInv s" and "dropUserBatches u s = Some t"
  shows "queueInv t"
proof -
  note d = dropUserBatches_Some [OF assms]
  have "dom (\<lambda>i. if ownedBy s u i then None else batches s i) = dom (batches s) - Collect (ownedBy s u)"
    by (auto simp: dom_def split: if_splits)
  with assms(1) d(1) show ?thesis unfolding d(2) queueInv_def heldIDs_def
    by (auto split: if_splits)
qed

section \<open>Per-user queues as an abstract specification\<close>

text \<open>
  The requests a user can make of the queue. A request that the server rejects leaves the
  state as it is.
\<close>

datatype userOp = Enqueue scanBatch | Cancel string string | Reorder string int

definition orKeep :: "queueState \<Rightarrow> queueState res \<Rightarrow> queueState" where
  "orKeep s r = (case r of Inl _ \<Rightarrow> s | Inr t \<Rightarrow> t)"

fun userStep :: "string \<Rightarrow> userOp \<Rightarrow> queueState \<Rightarrow> queueState" where
  "userStep u (Enqueue b) s = snd (snd (enqueueBatch (b\<lparr>batch_UserID := u\<rparr>) s))"
| "userStep u (Cancel i confirm) s = orKeep s (cancelQueuedBatch i confirm u s)"
| "userStep u (Reorder i n) s = orKeep s (reorderQueuedBatch i n u s)"

text \<open>A new batch carries an identifier that is not in use.\<close>

fun admissible :: "string \<Rightarrow> userOp \<Rightarrow> queueState \<Rightarrow> bool" where
  "admissible u (Enqueue b) s = freshBatch (b\<lparr>batch_UserID := u\<rparr>) s"
| "admissible u _ s = True"

text \<open>What the queue promises: one list per user.\<close>

fun specStep :: "string \<Rightarrow> userOp \<Rightarrow> (string \<Rightarrow> string list) \<Rightarrow> (string \<Rightarrow> string list)" where
  "specStep u (Enqueue b) Q = Q(u := Q u @ [batch_ID b])"
| "specStep u (Cancel i confirm) Q =
     (if confirm = ''Y'' \<and> validUserID u \<and> i \<in> set (Q u) then Q(u := remove1 i (Q u)) else Q)"
| "specStep u (Reorder i n) Q =
     (if 1 \<le> n \<and> validUserID u \<and> i \<in> set (Q u) then Q(u := moveTo n i (Q u)) else Q)"

lemma pending_mem: "i \<in> set (pending s u) \<longleftrightarrow> i \<in> set (queuedBatchIDs s) \<and> ownedBy s u i"
  by (auto simp: pending_def)

lemma cancelQueuedBatch_succeeds:
  assumes "queueInv s"
  shows "(\<exists>t. cancelQueuedBatch i confirm u s = Inr t) \<longleftrightarrow>
           confirm = ''Y'' \<and> validUserID u \<and> i \<in> set (pending s u)"
  using assms unfolding cancelQueuedBatch_Inr by (auto simp: pending_mem queueInv_def)

lemma reorderQueuedBatch_succeeds:
  assumes "queueInv s"
  shows "(\<exists>t. reorderQueuedBatch i n u s = Inr t) \<longleftrightarrow>
           1 \<le> n \<and> validUserID u \<and> i \<in> set (pending s u)"
  using assms unfolding reorderQueuedBatch_Inr by (auto simp: pending_mem queueInv_def)

lemma userStep_inv: "queueInv s \<Longrightarrow> admissible u op s \<Longrightarrow> queueInv (userStep u op s)"
  by (cases op)
     (auto simp: orKeep_def split: sum.splits
           intro: enqueueBatch_inv cancelQueuedBatch_inv reorderQueuedBatch_inv)

lemma userStep_refines:
  assumes inv: "queueInv s" and adm: "admissible u op s"
  shows "pending (userStep u op s) = specStep u op (pending s)"
proof (cases op)
  case (Enqueue b)
  then show ?thesis using enqueueBatch_pending [OF inv, of "b\<lparr>batch_UserID := u\<rparr>"] adm by simp
next
  case (Cancel i confirm)
  show ?thesis
  proof (cases "cancelQueuedBatch i confirm u s")
    case (Inl e)
    then have "\<not> (confirm = ''Y'' \<and> validUserID u \<and> i \<in> set (pending s u))"
      using cancelQueuedBatch_succeeds [OF inv, of i confirm u] by simp
    with Inl Cancel show ?thesis by (auto simp: orKeep_def)
  next
    case (Inr t)
    then have "confirm = ''Y'' \<and> validUserID u \<and> i \<in> set (pending s u)"
      using cancelQueuedBatch_succeeds [OF inv, of i confirm u] by simp
    with Inr Cancel show ?thesis
      using cancelQueuedBatch_pending [OF inv Inr] by (simp add: orKeep_def)
  qed
next
  case (Reorder i n)
  show ?thesis
  proof (cases "reorderQueuedBatch i n u s")
    case (Inl e)
    then have "\<not> (1 \<le> n \<and> validUserID u \<and> i \<in> set (pending s u))"
      using reorderQueuedBatch_succeeds [OF inv, of i n u] by simp
    with Inl Reorder show ?thesis by (auto simp: orKeep_def)
  next
    case (Inr t)
    then have "1 \<le> n \<and> validUserID u \<and> i \<in> set (pending s u)"
      using reorderQueuedBatch_succeeds [OF inv, of i n u] by simp
    with Inr Reorder show ?thesis
      using reorderQueuedBatch_pending [OF inv Inr] by (simp add: orKeep_def)
  qed
qed

section \<open>The contract of per-user queues\<close>

lemma specStep_other: "v \<noteq> u \<Longrightarrow> specStep u op Q v = Q v"
  by (cases op) auto

interpretation scanViews: user_views queueInv admissible userStep pending
  by unfold_locales (auto intro: userStep_inv simp: userStep_refines specStep_other)

section \<open>Listing\<close>

fun numberFrom :: "int \<Rightarrow> 'a list \<Rightarrow> (int \<times> 'a) list" where
  "numberFrom n [] = []"
| "numberFrom n (x # xs) = (n, x) # numberFrom (n + 1) xs"

lemma listQueued_numbered:
  assumes "[] \<notin> set is" and "\<And>i. i \<in> set is \<Longrightarrow> batches s i \<noteq> None" and "u \<noteq> []"
  shows "listQueued s u inRange n is =
           map (\<lambda>(k, i). queueItem (the (batches s i)) k)
             (filter (\<lambda>(k, i). inRange k) (numberFrom (n + 1) (filter (ownedBy s u) is)))"
  using assms
proof (induction "is" arbitrary: n)
  case (Cons i "is")
  then obtain b where "batches s i = Some b" "i \<noteq> []" by fastforce
  then show ?case using Cons by (auto simp: cloneBatchLocked_def ownedBy_def)
qed simp

lemma listQueueItems_numbered:
  assumes "queueInv s" and "u \<noteq> []" and "parseScanScope scope = Inr (start, end', all)"
  shows "listQueueItems scope u s =
     Inr ((if (all \<or> start = 1) \<and> activeBatchID s \<noteq> [] \<and> ownedBy s u (activeBatchID s)
           then [queueItem (the (batches s (activeBatchID s))) 0] else [])
          @ map (\<lambda>(k, i). queueItem (the (batches s i)) k)
              (filter (\<lambda>(k, i). all \<or> (start \<le> k \<and> k \<le> end')) (numberFrom 1 (pending s u))))"
proof -
  have q: "[] \<notin> set (queuedBatchIDs s)" "\<And>i. i \<in> set (queuedBatchIDs s) \<Longrightarrow> batches s i \<noteq> None"
    using assms(1) queueInv_queued_Some by (auto simp: queueInv_def)
  show ?thesis
    using assms(2) listQueued_numbered [OF q assms(2), of "\<lambda>n. all \<or> (start \<le> n \<and> n \<le> end')" 0]
    by (auto simp: listQueueItems_def assms(3) cloneBatchLocked_def ownedBy_def pending_def
             split: option.splits)
qed

end
