(* ===== verification/Queue_Runner.thy ===== *)
theory Queue_Runner
  imports Scan_Queue
begin

text \<open>
  The queue runner of \<^verbatim>\<open>scans.go\<close>: running one batch through the scan script
  (\<open>startScanScript\<close>, \<open>runBatch\<close>), the cross-process scan lock, and the runner goroutine
  \<^verbatim>\<open>runQueue\<close> interleaved with the requests of users. The scan script, the job files it writes
  and the clock are arguments.
\<close>

section \<open>The scan script\<close>

text \<open>
  What one run of the script does as far as the server can tell: errors of creating the pipe
  and of starting, the lines of its standard output, the error that ended their reading, its
  standard error and its exit status.
\<close>

record scanProcess =
  proc_pipeErr :: "goerror option"
  proc_startErr :: "goerror option"
  proc_stdout :: "string list"
  proc_scanErr :: "goerror option"
  proc_stderr :: string
  proc_exitErr :: "goerror option"

text \<open>
  \<^verbatim>\<open>startScanScript\<close>: the job identifier, the result that \<^verbatim>\<open>waitScan\<close> will deliver, or the
  error; the last component says that the ClamAV sleep timer was notified.
\<close>

definition startScanScript ::
    "scanProcess \<Rightarrow> string \<times> ((string \<times> goerror option) + goerror) \<times> bool" where
  "startScanScript p =
     (case proc_pipeErr p of
        Some e \<Rightarrow> ([], Inr e, False)
      | None \<Rightarrow>
     (case proc_startErr p of
        Some e \<Rightarrow> ([], Inr e, False)
      | None \<Rightarrow>
     (case proc_stdout p of
        [] \<Rightarrow> ([], Inr (case proc_scanErr p of
                         Some e \<Rightarrow> e
                       | None \<Rightarrow> (case proc_exitErr p of
                           Some e \<Rightarrow> e
                         | None \<Rightarrow> ErrText ''scan script did not return a job id'')), True)
      | first # rest \<Rightarrow>
          (let line = TrimSpace first;
               jobID = (if HasPrefix line ''JOB_ID='' then TrimPrefix line ''JOB_ID='' else []);
               stdoutRest = (if HasPrefix line ''JOB_ID='' then [] else line @ [LF]) @
                            concat (map (\<lambda>l. l @ [LF]) rest);
               output = TrimSpace (stdoutRest @ proc_stderr p);
               err = (case proc_scanErr p of
                        Some e \<Rightarrow> Some e
                      | None \<Rightarrow> if jobID = [] \<and> proc_exitErr p = None
                                then Some (ErrText ''scan script did not return a job id'')
                                else proc_exitErr p)
           in (jobID, Inl (output, err), True)))))"

text \<open>
  \<^verbatim>\<open>jobState\<close>: what reading and decoding a job file gives. \<open>JobMissing\<close> is a read error,
  \<open>JobGarbled\<close> a file that is no JSON object.
\<close>

datatype jobRead = JobMissing goerror | JobGarbled string | JobDecoded jobject

datatype jobValue = StateMap jobject | StateText string

definition jobState :: "config \<Rightarrow> (string \<Rightarrow> jobRead) \<Rightarrow> string \<Rightarrow> jobValue" where
  "jobState cfg files jobID =
     (case files (filepath_Join (JobsDir cfg) (jobID @ ''.json'')) of
        JobMissing e \<Rightarrow> StateMap [(''status'', JString ''pending''), (''message'', JString (errText e))]
      | JobGarbled t \<Rightarrow> StateText t
      | JobDecoded m \<Rightarrow> StateMap m)"

fun jobResult :: "jobValue \<Rightarrow> string" where
  "jobResult (StateText t) = ''unknown''"
| "jobResult (StateMap m) =
     (case stringField m ''result'' of
        Some result \<Rightarrow> result
      | None \<Rightarrow> if stringField m ''status'' = Some ''failed'' then ''error'' else ''unknown'')"

section \<open>Running a batch\<close>

text \<open>The updates \<^verbatim>\<open>runBatch\<close> applies to its batch.\<close>

definition beginTarget :: "nat \<Rightarrow> nat \<Rightarrow> string \<Rightarrow> scanBatch \<Rightarrow> scanBatch" where
  "beginTarget i count target batch =
     batch\<lparr>batch_Current := target,
           batch_Message := ''Scanning '' @ Itoa (int i + 1) @ '' of '' @ Itoa (int count)\<rparr>"

definition appendJob :: "string \<Rightarrow> scanBatch \<Rightarrow> scanBatch" where
  "appendJob jobID batch = batch\<lparr>batch_JobIDs := batch_JobIDs batch @ [jobID]\<rparr>"

definition targetFailed :: "goerror option \<Rightarrow> string \<Rightarrow> bool" where
  "targetFailed err result \<longleftrightarrow> err \<noteq> None \<or> result = ''error''"

definition recordOutcome :: "goerror option \<Rightarrow> string \<Rightarrow> string \<Rightarrow> scanBatch \<Rightarrow> scanBatch" where
  "recordOutcome err result output batch =
     (let b1 = batch\<lparr>batch_Completed := batch_Completed batch + 1\<rparr>;
          b2 = (if result = ''found'' then b1\<lparr>batch_Threats := batch_Threats b1 + 1\<rparr> else b1)
      in if targetFailed err result
         then b2\<lparr>batch_Failed := batch_Failed b2 + 1,
                 batch_LastError := (if output \<noteq> [] then output else errString err)\<rparr>
         else b2)"

definition finalizeBatch :: "gotime \<Rightarrow> scanBatch \<Rightarrow> scanBatch" where
  "finalizeBatch now batch =
     (let b = batch\<lparr>batch_FinishedAt := Some now, batch_Current := []\<rparr> in
      if batch_Failed b > 0
        then b\<lparr>batch_Status := ''failed'', batch_Message := ''Finished with errors''\<rparr>
      else if batch_Threats b > 0
        then b\<lparr>batch_Status := ''finished'', batch_Message := ''Threats found''\<rparr>
      else b\<lparr>batch_Status := ''finished'', batch_Message := ''All scans finished cleanly''\<rparr>)"

definition scanArgs :: "string \<Rightarrow> string \<Rightarrow> string \<Rightarrow> string list" where
  "scanArgs userID target action =
     [''--type'', ''manual'', ''--user'', userID, ''--target'', target, ''--action'', action]"

text \<open>
  The surroundings of one target: the process that running the script with some arguments is,
  and the job files as they are read after it ended.
\<close>

record targetWorld =
  exec_script :: "string list \<Rightarrow> scanProcess"
  job_files :: "string \<Rightarrow> jobRead"

record targetOutcome =
  out_jobID :: string
  out_err :: "goerror option"
  out_output :: string
  out_result :: string

definition scanTarget :: "config \<Rightarrow> targetWorld \<Rightarrow> string list \<Rightarrow> targetOutcome" where
  "scanTarget cfg w args =
     (case startScanScript (exec_script w args) of
        (jobID, started, _) \<Rightarrow>
          (let (output, err) = (case started of Inl (output, err) \<Rightarrow> (output, err)
                                              | Inr e \<Rightarrow> ([], Some e))
           in \<lparr> out_jobID = jobID, out_err = err, out_output = output,
                out_result = jobResult (jobState cfg (job_files w) jobID) \<rparr>))"

fun runTargets ::
    "config \<Rightarrow> (nat \<Rightarrow> targetWorld) \<Rightarrow> string \<Rightarrow> string \<Rightarrow> string \<Rightarrow> nat \<Rightarrow> nat \<Rightarrow> string list \<Rightarrow>
     queueState \<Rightarrow> queueState" where
  "runTargets cfg world i userID action count n [] s = s"
| "runTargets cfg world i userID action count n (target # targets) s =
     (let s1 = updateBatch i (beginTarget n count target) s;
          out = scanTarget cfg (world n) (scanArgs userID target action);
          s2 = (if out_jobID out \<noteq> [] then updateBatch i (appendJob (out_jobID out)) s1 else s1);
          s3 = updateBatch i (recordOutcome (out_err out) (out_result out) (out_output out)) s2
      in runTargets cfg world i userID action count (Suc n) targets s3)"

definition runBatch ::
    "config \<Rightarrow> (nat \<Rightarrow> targetWorld) \<Rightarrow> gotime \<Rightarrow> string \<Rightarrow> queueState \<Rightarrow> queueState" where
  "runBatch cfg world now i s =
     (case batchSnapshot s i of
        None \<Rightarrow> s
      | Some batch \<Rightarrow>
          finishBatch i
            (updateBatch i (finalizeBatch now)
              (runTargets cfg world i (batch_UserID batch) (batch_Action batch)
                 (length (batch_Targets batch)) 0 (batch_Targets batch) s)))"

section \<open>The scan lock\<close>

datatype signalResult = SignalDelivered | SignalEPERM | SignalFailed

text \<open>
  \<^verbatim>\<open>scanLockBlocksManualStart\<close> and \<^verbatim>\<open>scanLockActive\<close>. \<open>readFile\<close> is \<^verbatim>\<open>os.ReadFile\<close>, \<open>probe\<close> the
  delivery of signal 0; \<^verbatim>\<open>os.FindProcess\<close> never fails on Linux.
\<close>

definition scanLockBlocksManualStart ::
    "osview \<Rightarrow> (string \<Rightarrow> string res) \<Rightarrow> (int \<Rightarrow> signalResult) \<Rightarrow> config \<Rightarrow> bool \<times> goerror option" where
  "scanLockBlocksManualStart os readFile probe cfg =
     (case os_Stat os (ScanLockDir cfg) of
        Inl e \<Rightarrow> if is_not_exist e then (False, None) else (True, Some e)
      | Inr info \<Rightarrow>
          if fi_mode info \<noteq> ModeDir then (True, None)
          else case readFile (filepath_Join (ScanLockDir cfg) ''pid'') of
            Inl e \<Rightarrow> if is_not_exist e then (False, None) else (True, Some e)
          | Inr pidData \<Rightarrow>
              if TrimSpace pidData = [] then (False, None)
              else case Atoi (TrimSpace pidData) of
                None \<Rightarrow> (False, None)
              | Some pid \<Rightarrow>
                  if pid \<le> 0 then (False, None)
                  else case probe pid of
                    SignalDelivered \<Rightarrow> (True, None)
                  | SignalEPERM \<Rightarrow> (True, None)
                  | SignalFailed \<Rightarrow> (False, None))"

definition scanLockActive :: "osview \<Rightarrow> config \<Rightarrow> bool res" where
  "scanLockActive os cfg =
     (case os_Stat os (ScanLockDir cfg) of
        Inr info \<Rightarrow> Inr (fi_mode info = ModeDir)
      | Inl e \<Rightarrow> if is_not_exist e then Inr False else Inl e)"

section \<open>The runner goroutine\<close>

text \<open>
  \<^verbatim>\<open>runQueue\<close> run alone. Every iteration of the loop meets surroundings of its own: the random
  choice, the state of the scan lock, the clock and the processes; the loop is bounded by the
  list of the surroundings it meets, so \<open>None\<close> is a runner that is still in its loop when they
  are used up. The result lists the batches that were run, in order.
\<close>

record iteration =
  it_pick :: "nat \<Rightarrow> nat"
  it_lock :: "bool \<times> goerror option"
  it_started :: gotime
  it_world :: "nat \<Rightarrow> targetWorld"
  it_finished :: gotime

definition lockBlocks :: "bool \<times> goerror option \<Rightarrow> bool" where
  "lockBlocks lock \<longleftrightarrow> snd lock \<noteq> None \<or> fst lock"

fun runQueue :: "config \<Rightarrow> iteration list \<Rightarrow> queueState \<Rightarrow> (string list \<times> queueState) option" where
  "runQueue cfg [] s = None"
| "runQueue cfg (it # its) s =
     (case nextQueuedBatchID (it_pick it) s of
        (None, s1) \<Rightarrow> Some ([], s1)
      | (Some i, s1) \<Rightarrow>
          if lockBlocks (it_lock it)
          then runQueue cfg its (updateQueuedBatchMessage i ''Queued; waiting for active scan lock'' s1)
          else (case activateQueuedBatch (it_started it) i s1 of
                  (False, s2) \<Rightarrow> runQueue cfg its s2
                | (True, s2) \<Rightarrow>
                    (case runQueue cfg its (runBatch cfg (it_world it) (it_finished it) i s2) of
                       None \<Rightarrow> None
                     | Some (others, t) \<Rightarrow> Some (i # others, t))))"

section \<open>What running a batch does\<close>

text \<open>The outcomes of the targets of a batch, and their effect on the batch's counters.\<close>

fun targetOutcomes ::
    "config \<Rightarrow> (nat \<Rightarrow> targetWorld) \<Rightarrow> string \<Rightarrow> string \<Rightarrow> nat \<Rightarrow> string list \<Rightarrow> targetOutcome list" where
  "targetOutcomes cfg world userID action n [] = []"
| "targetOutcomes cfg world userID action n (target # targets) =
     scanTarget cfg (world n) (scanArgs userID target action)
       # targetOutcomes cfg world userID action (Suc n) targets"

definition outcomeFailed :: "targetOutcome \<Rightarrow> bool" where
  "outcomeFailed out \<longleftrightarrow> targetFailed (out_err out) (out_result out)"

definition outcomeFound :: "targetOutcome \<Rightarrow> bool" where
  "outcomeFound out \<longleftrightarrow> out_result out = ''found''"

definition summarises :: "targetOutcome list \<Rightarrow> scanBatch \<Rightarrow> scanBatch \<Rightarrow> bool" where
  "summarises outs b b' \<longleftrightarrow>
     batch_Completed b' = batch_Completed b + int (length outs) \<and>
     batch_Failed b' = batch_Failed b + int (length (filter outcomeFailed outs)) \<and>
     batch_Threats b' = batch_Threats b + int (length (filter outcomeFound outs)) \<and>
     batch_JobIDs b' = batch_JobIDs b @ filter (\<lambda>j. j \<noteq> []) (map out_jobID outs) \<and>
     batch_ID b' = batch_ID b \<and> batch_UserID b' = batch_UserID b \<and>
     batch_Targets b' = batch_Targets b \<and> batch_Action b' = batch_Action b \<and>
     batch_Status b' = batch_Status b"

lemma targetOutcomes_length [simp]:
  "length (targetOutcomes cfg world u a n targets) = length targets"
  by (induction targets arbitrary: n) auto

lemma updateBatch_Some:
  "batches s i = Some b \<Longrightarrow> updateBatch i fn s = s\<lparr>batches := (batches s)(i \<mapsto> fn b)\<rparr>"
  by (simp add: updateBatch_def)

lemma recordOutcome_summarises:
  "summarises [out] b
     (recordOutcome (out_err out) (out_result out) (out_output out)
       (if out_jobID out \<noteq> [] then appendJob (out_jobID out) (beginTarget n c target b)
        else beginTarget n c target b))"
  by (simp add: summarises_def recordOutcome_def beginTarget_def appendJob_def Let_def
        outcomeFailed_def outcomeFound_def)

lemma summarises_append:
  "summarises xs a b \<Longrightarrow> summarises ys b c \<Longrightarrow> summarises (xs @ ys) a c"
  by (simp add: summarises_def)

lemma runTargets_Some:
  assumes "batches s i = Some b"
  shows "\<exists>b'. runTargets cfg world i u a c n targets s = s\<lparr>batches := (batches s)(i \<mapsto> b')\<rparr> \<and>
              summarises (targetOutcomes cfg world u a n targets) b b'"
  using assms
proof (induction targets arbitrary: n s b)
  case Nil
  then have "(batches s)(i \<mapsto> b) = batches s" by auto
  then show ?case by (intro exI [of _ b]) (simp add: summarises_def)
next
  case (Cons target targets)
  obtain out where out: "out = scanTarget cfg (world n) (scanArgs u target a)" by blast
  define b1 where "b1 = recordOutcome (out_err out) (out_result out) (out_output out)
       (if out_jobID out \<noteq> [] then appendJob (out_jobID out) (beginTarget n c target b)
        else beginTarget n c target b)"
  have head: "summarises [out] b b1"
    unfolding b1_def by (rule recordOutcome_summarises)
  have step: "runTargets cfg world i u a c n (target # targets) s =
      runTargets cfg world i u a c (Suc n) targets (s\<lparr>batches := (batches s)(i \<mapsto> b1)\<rparr>)"
    using Cons.prems by (simp add: updateBatch_Some Let_def out [symmetric] b1_def)
  obtain s1 where s1: "s1 = s\<lparr>batches := (batches s)(i \<mapsto> b1)\<rparr>" by blast
  then have "batches s1 i = Some b1" by simp
  then obtain b' where "runTargets cfg world i u a c (Suc n) targets s1 = s1\<lparr>batches := (batches s1)(i \<mapsto> b')\<rparr>"
      "summarises (targetOutcomes cfg world u a (Suc n) targets) b1 b'"
    using Cons.IH [of s1 b1 "Suc n"] by blast
  moreover have "s1\<lparr>batches := (batches s1)(i \<mapsto> x)\<rparr> = s\<lparr>batches := (batches s)(i \<mapsto> x)\<rparr>" for x
    by (simp add: s1 fun_upd_def fun_eq_iff cong: if_cong)
  ultimately have "runTargets cfg world i u a c n (target # targets) s = s\<lparr>batches := (batches s)(i \<mapsto> b')\<rparr>"
      "summarises (targetOutcomes cfg world u a n (target # targets)) b b'"
    using step summarises_append [OF head] by (simp_all only: s1 [symmetric] out [symmetric]
        targetOutcomes.simps append_Cons append_Nil)
  then show ?case by blast
qed

lemma runBatch_effect:
  assumes "queueInv s" and "activeBatchID s = i" and "i \<noteq> []"
  shows "runBatch cfg world now i s = s\<lparr>activeBatchID := [], batches := (batches s)(i := None)\<rparr>"
proof -
  obtain b where b: "batches s i = Some b"
    using queueInv_active_Some [OF assms(1)] assms(2,3) by auto
  obtain b' where "runTargets cfg world i (batch_UserID b) (batch_Action b) (length (batch_Targets b)) 0
      (batch_Targets b) s = s\<lparr>batches := (batches s)(i \<mapsto> b')\<rparr>"
    using runTargets_Some [OF b] by blast
  then show ?thesis
    using assms b
    by (simp add: runBatch_def batchSnapshot_def cloneBatchLocked_def updateBatch_Some finishBatch_def Let_def)
qed

text \<open>Activating a batch and running it takes it out of the queue and of the map.\<close>

definition withoutBatch :: "string \<Rightarrow> queueState \<Rightarrow> queueState" where
  "withoutBatch i s = s\<lparr>queuedBatchIDs := remove1 i (queuedBatchIDs s), batches := (batches s)(i := None)\<rparr>"

lemma activate_runBatch:
  assumes "queueInv s" and "activateQueuedBatch now i s = (True, t)"
  shows "runBatch cfg world fin i t = withoutBatch i s"
proof -
  have "activeBatchID t = i" "i \<noteq> []" "queueInv t"
    using activateQueuedBatch_inv [OF assms] by auto
  then have "runBatch cfg world fin i t = t\<lparr>activeBatchID := [], batches := (batches t)(i := None)\<rparr>"
    by (intro runBatch_effect) auto
  then show ?thesis
    using assms(2) unfolding activateQueuedBatch_True withoutBatch_def by auto
qed

lemma withoutBatch_inv:
  assumes "queueInv s" and "activeBatchID s = []" and "i \<in> set (queuedBatchIDs s)"
  shows "queueInv (withoutBatch i s)"
  using assms unfolding queueInv_def heldIDs_def withoutBatch_def
  by (auto simp: distinct_remove1_set split: if_splits)

lemma withoutBatch_pending:
  assumes "queueInv s" and "ownedBy s u i"
  shows "pending (withoutBatch i s) = (pending s)(u := remove1 i (pending s u))"
proof
  fix v
  have dist: "distinct (queuedBatchIDs s)" using assms(1) by (simp add: queueInv_def)
  then have "pending (withoutBatch i s) v = filter (ownedBy s v) (remove1 i (queuedBatchIDs s))"
    unfolding pending_def withoutBatch_def
    by (auto simp: ownedBy_def distinct_remove1_set intro!: filter_cong)
  also have "\<dots> = (if v = u then remove1 i (pending s u) else pending s v)"
    using assms(2) unfolding pending_def
    by (auto simp: filter_remove1_same filter_remove1_other ownedBy_def split: option.splits)
  finally show "pending (withoutBatch i s) v = ((pending s)(u := remove1 i (pending s u))) v" by simp
qed

lemma withoutBatch_owned: "j \<noteq> i \<Longrightarrow> ownedBy (withoutBatch i s) u j = ownedBy s u j"
  by (simp add: withoutBatch_def ownedBy_def)

lemma updateQueuedBatchMessage_frame:
  "queuedBatchIDs (updateQueuedBatchMessage i m s) = queuedBatchIDs s"
  "activeBatchID (updateQueuedBatchMessage i m s) = activeBatchID s"
  "queueRunnerActive (updateQueuedBatchMessage i m s) = queueRunnerActive s"
  "ownedBy (updateQueuedBatchMessage i m s) = ownedBy s"
  "pending (updateQueuedBatchMessage i m s) = pending s"
proof -
  show own: "ownedBy (updateQueuedBatchMessage i m s) = ownedBy s"
    by (auto simp: updateQueuedBatchMessage_def ownedBy_def fun_eq_iff split: option.splits)
  show q: "queuedBatchIDs (updateQueuedBatchMessage i m s) = queuedBatchIDs s"
    and "activeBatchID (updateQueuedBatchMessage i m s) = activeBatchID s"
    and "queueRunnerActive (updateQueuedBatchMessage i m s) = queueRunnerActive s"
    by (auto simp: updateQueuedBatchMessage_def split: option.splits)
  show "pending (updateQueuedBatchMessage i m s) = pending s"
    by (intro ext) (simp add: pending_def own q)
qed

text \<open>
  The runner alone: it drains the queue, and every user's batches run in the order of that
  user's queue.
\<close>

definition drained :: "queueState \<Rightarrow> string list \<Rightarrow> queueState \<Rightarrow> bool" where
  "drained s order t \<longleftrightarrow>
     (\<forall>u. filter (ownedBy s u) order = pending s u) \<and>
     distinct order \<and> set order = set (queuedBatchIDs s) \<and>
     queuedBatchIDs t = [] \<and> activeBatchID t = [] \<and> \<not> queueRunnerActive t \<and> batches t = Map.empty"

lemma drained_empty:
  assumes "queueInv s" and "activeBatchID s = []" and "queuedBatchIDs s = []"
  shows "drained s [] (s\<lparr>queueRunnerActive := False\<rparr>)"
  using assms by (simp add: drained_def pending_def queueInv_def heldIDs_def)

lemma drained_Cons:
  assumes inv: "queueInv s" and own: "pending s u \<noteq> []" and i: "i = hd (pending s u)"
    and rest: "drained (withoutBatch i s) order t"
  shows "drained s (i # order) t"
proof -
  have mem: "i \<in> set (queuedBatchIDs s)" and mine: "ownedBy s u i"
    using own i by (metis hd_in_set pending_mem)+
  have dist: "distinct (queuedBatchIDs s)" using inv by (simp add: queueInv_def)
  have set': "set order = set (queuedBatchIDs s) - {i}"
    using rest dist by (simp add: drained_def withoutBatch_def distinct_remove1_set)
  have "filter (ownedBy s v) (i # order) = pending s v" for v
  proof -
    have "filter (ownedBy s v) order = filter (ownedBy (withoutBatch i s) v) order"
      using set' by (intro filter_cong) (auto simp: withoutBatch_owned)
    also have "\<dots> = ((pending s)(u := remove1 i (pending s u))) v"
      using rest withoutBatch_pending [OF inv mine] by (simp add: drained_def)
    finally have "filter (ownedBy s v) order = (if v = u then tl (pending s u) else pending s v)"
      using own i by (cases "pending s u") auto
    moreover have "ownedBy s v i \<longleftrightarrow> v = u"
      using mine by (auto simp: ownedBy_def split: option.splits)
    ultimately show ?thesis using own i by auto
  qed
  with rest set' mem show ?thesis by (auto simp: drained_def)
qed

lemma runQueue_drains:
  assumes "queueInv s" and "activeBatchID s = []"
    and "\<And>it n. it \<in> set its \<Longrightarrow> 0 < n \<Longrightarrow> it_pick it n < n"
    and "length (queuedBatchIDs s) < length (filter (\<lambda>it. \<not> lockBlocks (it_lock it)) its)"
  shows "\<exists>order t. runQueue cfg its s = Some (order, t) \<and> drained s order t"
  using assms
proof (induction its arbitrary: s)
  case (Cons it its)
  show ?case
  proof (cases "queuedBatchIDs s = []")
    case True
    then show ?thesis
      using Cons.prems drained_empty nextQueuedBatchID_idle [OF Cons.prems(1) True, of "it_pick it"]
      by auto
  next
    case False
    obtain u where u: "pending s u \<noteq> []"
      and sel: "nextQueuedBatchID (it_pick it) s = (Some (hd (pending s u)), s)"
      using nextQueuedBatchID_selected [OF Cons.prems(1) _ False, of "it_pick it"] Cons.prems(3) by auto
    let ?i = "hd (pending s u)"
    have mem: "?i \<in> set (queuedBatchIDs s)" using u by (metis hd_in_set pending_mem)
    show ?thesis
    proof (cases "lockBlocks (it_lock it)")
      case True
      let ?s = "updateQueuedBatchMessage ?i ''Queued; waiting for active scan lock'' s"
      have "\<exists>order t. runQueue cfg its ?s = Some (order, t) \<and> drained ?s order t"
        using Cons.prems True
        by (intro Cons.IH) (auto simp: updateQueuedBatchMessage_frame updateQueuedBatchMessage_inv)
      moreover have "drained ?s = drained s"
        by (simp add: drained_def fun_eq_iff updateQueuedBatchMessage_frame)
      ultimately show ?thesis using True sel by simp
    next
      case False
      obtain t1 where act: "activateQueuedBatch (it_started it) ?i s = (True, t1)"
        using activateQueuedBatch_True Cons.prems(2) mem queueInv_queued_Some [OF Cons.prems(1) mem]
        by blast
      let ?s = "withoutBatch ?i s"
      have less: "length (queuedBatchIDs s) - Suc 0 < length (filter (\<lambda>it. \<not> lockBlocks (it_lock it)) its)"
        using Cons.prems(4) False length_pos_if_in_set [OF mem]
        by (cases "length (queuedBatchIDs s)") simp_all
      have "\<exists>order t. runQueue cfg its ?s = Some (order, t) \<and> drained ?s order t"
        using less Cons.prems False withoutBatch_inv [OF Cons.prems(1,2) mem]
        by (intro Cons.IH) (auto simp: withoutBatch_def length_remove1 mem)
      then obtain order t where "runQueue cfg its ?s = Some (order, t)" "drained ?s order t" by blast
      then show ?thesis
        using False sel act activate_runBatch [OF Cons.prems(1) act]
          drained_Cons [OF Cons.prems(1) u refl] by auto
    qed
  qed
qed simp

end
