(* ===== verification/Queue_System.thy ===== *)
theory Queue_System
  imports Queue_Runner
begin

text \<open>
  The scan queue as a concurrent system: the runner goroutine \<^verbatim>\<open>runQueue\<close> (with the \<^verbatim>\<open>runBatch\<close>
  it calls) and the requests of users interleave at the critical sections of \<^verbatim>\<open>server.mu\<close>. A
  runner is its program counter; the random choice, the scan lock, the clock and the scan
  script may answer anything. The theory proves that at most one runner ever lives, that it
  scans one batch at a time, and that no queued batch is left without a runner.
\<close>

section \<open>States and steps\<close>

datatype runnerPC =
    AtNext
  | AtLockCheck string
  | AtMessage string
  | AtActivate string
  | AtRunBatch string
  | AtTargets string string string nat nat "string list"
  | AtScript string string string nat nat string "string list"
  | AtWait string string string nat nat targetOutcome "string list"
  | AtFinish string

text \<open>The batch a runner is scanning, if any.\<close>

fun scanning :: "runnerPC \<Rightarrow> string option" where
  "scanning (AtRunBatch i) = Some i"
| "scanning (AtTargets i _ _ _ _ _) = Some i"
| "scanning (AtScript i _ _ _ _ _ _) = Some i"
| "scanning (AtWait i _ _ _ _ _ _) = Some i"
| "scanning (AtFinish i) = Some i"
| "scanning _ = None"

text \<open>
  One step of the goroutine; \<open>None\<close> after the step is its return. Every step holds the mutex at
  most once.
\<close>

inductive runnerStep :: "config \<Rightarrow> queueState \<times> runnerPC \<Rightarrow> queueState \<times> runnerPC option \<Rightarrow> bool"
  for cfg where
  next_some: "(\<And>n. 0 < n \<Longrightarrow> pick n < n) \<Longrightarrow> nextQueuedBatchID pick q = (Some i, q') \<Longrightarrow>
     runnerStep cfg (q, AtNext) (q', Some (AtLockCheck i))"
| next_none: "(\<And>n. 0 < n \<Longrightarrow> pick n < n) \<Longrightarrow> nextQueuedBatchID pick q = (None, q') \<Longrightarrow>
     runnerStep cfg (q, AtNext) (q', None)"
| lock_blocked: "lockBlocks lock \<Longrightarrow> runnerStep cfg (q, AtLockCheck i) (q, Some (AtMessage i))"
| lock_free: "\<not> lockBlocks lock \<Longrightarrow> runnerStep cfg (q, AtLockCheck i) (q, Some (AtActivate i))"
| waiting: "runnerStep cfg (q, AtMessage i)
     (updateQueuedBatchMessage i ''Queued; waiting for active scan lock'' q, Some AtNext)"
| activated: "activateQueuedBatch now i q = (True, q') \<Longrightarrow>
     runnerStep cfg (q, AtActivate i) (q', Some (AtRunBatch i))"
| not_activated: "activateQueuedBatch now i q = (False, q') \<Longrightarrow>
     runnerStep cfg (q, AtActivate i) (q', Some AtNext)"
| batch_gone: "batchSnapshot q i = None \<Longrightarrow> runnerStep cfg (q, AtRunBatch i) (q, Some AtNext)"
| batch_here: "batchSnapshot q i = Some b \<Longrightarrow>
     runnerStep cfg (q, AtRunBatch i)
       (q, Some (AtTargets i (batch_UserID b) (batch_Action b) (length (batch_Targets b)) 0 (batch_Targets b)))"
| target_begin: "runnerStep cfg (q, AtTargets i u a c n (target # rest))
     (updateBatch i (beginTarget n c target) q, Some (AtScript i u a c n target rest))"
| script: "out = scanTarget cfg w (scanArgs u target a) \<Longrightarrow>
     q' = (if out_jobID out \<noteq> [] then updateBatch i (appendJob (out_jobID out)) q else q) \<Longrightarrow>
     runnerStep cfg (q, AtScript i u a c n target rest) (q', Some (AtWait i u a c n out rest))"
| outcome: "runnerStep cfg (q, AtWait i u a c n out rest)
     (updateBatch i (recordOutcome (out_err out) (out_result out) (out_output out)) q,
      Some (AtTargets i u a c (Suc n) rest))"
| finalize: "runnerStep cfg (q, AtTargets i u a c n [])
     (updateBatch i (finalizeBatch now) q, Some (AtFinish i))"
| finish: "runnerStep cfg (q, AtFinish i) (finishBatch i q, Some AtNext)"

inductive_cases runnerStepE: "runnerStep cfg (q, pc) (q', pc')"

type_synonym system = "queueState \<times> runnerPC list"

definition replaceRunner :: "nat \<Rightarrow> runnerPC option \<Rightarrow> runnerPC list \<Rightarrow> runnerPC list" where
  "replaceRunner k pc rs = (case pc of None \<Rightarrow> removeAt k rs | Some p \<Rightarrow> rs[k := p])"

text \<open>\<^verbatim>\<open>go s.runQueue()\<close> is part of queueing a batch when no runner is active.\<close>

fun spawned :: "userOp \<Rightarrow> queueState \<Rightarrow> runnerPC list" where
  "spawned (Enqueue b) q = (if fst (snd (enqueueBatch b q)) then [AtNext] else [])"
| "spawned _ q = []"

inductive systemStep :: "config \<Rightarrow> system \<Rightarrow> system \<Rightarrow> bool" for cfg where
  request: "admissible u op q \<Longrightarrow>
     systemStep cfg (q, rs) (userStep u op q, rs @ spawned op q)"
| deleteUser: "dropUserBatches u q = Some q' \<Longrightarrow> systemStep cfg (q, rs) (q', rs)"
| runner: "k < length rs \<Longrightarrow> runnerStep cfg (q, rs ! k) (q', pc') \<Longrightarrow>
     systemStep cfg (q, rs) (q', replaceRunner k pc' rs)"

definition systemInit :: "system \<Rightarrow> bool" where
  "systemInit s \<longleftrightarrow> s = (emptyQueue, [])"

section \<open>The invariant\<close>

definition activeOf :: "runnerPC \<Rightarrow> string" where
  "activeOf pc = (case scanning pc of None \<Rightarrow> [] | Some i \<Rightarrow> i)"

definition runnerInv :: "queueState \<Rightarrow> runnerPC \<Rightarrow> bool" where
  "runnerInv q pc \<longleftrightarrow> queueRunnerActive q \<and> activeBatchID q = activeOf pc \<and> scanning pc \<noteq> Some []"

definition systemInv :: "system \<Rightarrow> bool" where
  "systemInv s \<longleftrightarrow> (case s of (q, rs) \<Rightarrow>
     queueInv q \<and>
     ((rs = [] \<and> \<not> queueRunnerActive q \<and> activeBatchID q = [] \<and> queuedBatchIDs q = []) \<or>
      (\<exists>pc. rs = [pc] \<and> runnerInv q pc)))"

lemma systemInv_Nil:
  "systemInv (q, []) \<longleftrightarrow>
     queueInv q \<and> \<not> queueRunnerActive q \<and> activeBatchID q = [] \<and> queuedBatchIDs q = []"
  by (auto simp: systemInv_def)

lemma systemInv_one: "systemInv (q, [pc]) \<longleftrightarrow> queueInv q \<and> runnerInv q pc"
  by (auto simp: systemInv_def)

lemma systemInv_cases:
  assumes "systemInv (q, rs)"
  obtains (idle) "rs = []" "queueInv q" "\<not> queueRunnerActive q" "activeBatchID q = []"
      "queuedBatchIDs q = []"
    | (busy) pc where "rs = [pc]" "queueInv q" "runnerInv q pc"
  using assms by (auto simp: systemInv_def)

lemma updateBatch_frame:
  "queueRunnerActive (updateBatch i f q) = queueRunnerActive q"
  "activeBatchID (updateBatch i f q) = activeBatchID q"
  "queuedBatchIDs (updateBatch i f q) = queuedBatchIDs q"
  by (simp_all add: updateBatch_def split: option.splits)

lemma batchUpdates_ID:
  "batch_ID (beginTarget n c target b) = batch_ID b"
  "batch_ID (appendJob j b) = batch_ID b"
  "batch_ID (recordOutcome e r out b) = batch_ID b"
  "batch_ID (finalizeBatch now b) = batch_ID b"
  by (simp_all add: beginTarget_def appendJob_def recordOutcome_def finalizeBatch_def Let_def)

lemma scanning_update:
  assumes "queueInv q" and "runnerInv q pc" and "scanning pc = Some i" and "scanning pc' = Some i"
    and "\<And>b. batch_ID (f b) = batch_ID b"
  shows "systemInv (updateBatch i f q, [pc'])"
proof -
  have "i = activeBatchID q" using assms(2,3) by (simp add: runnerInv_def activeOf_def)
  with assms(1) have "i \<notin> set (queuedBatchIDs q)" by (simp add: queueInv_def)
  then have "queueInv (updateBatch i f q)" by (intro updateBatch_active_inv) (use assms in auto)
  moreover have "runnerInv (updateBatch i f q) pc'"
    using assms(2-4) by (simp add: runnerInv_def activeOf_def updateBatch_frame)
  ultimately show ?thesis by (simp add: systemInv_one)
qed

lemma nextQueuedBatchID_Some:
  assumes "queueInv q" and "\<And>n. 0 < n \<Longrightarrow> pick n < n" and "nextQueuedBatchID pick q = (Some i, q')"
  shows "q' = q" and "i \<in> set (queuedBatchIDs q)"
proof -
  have "queuedBatchIDs q \<noteq> []"
    using assms(3) nextQueuedBatchID_idle [OF assms(1)] by fastforce
  then obtain u where "pending q u \<noteq> []" "nextQueuedBatchID pick q = (Some (hd (pending q u)), q)"
    using nextQueuedBatchID_selected [OF assms(1,2)] by blast
  with assms(3) show "q' = q" "i \<in> set (queuedBatchIDs q)"
    by (auto, metis hd_in_set pending_mem)
qed

lemma nextQueuedBatchID_None:
  assumes "queueInv q" and "\<And>n. 0 < n \<Longrightarrow> pick n < n" and "nextQueuedBatchID pick q = (None, q')"
  shows "queuedBatchIDs q = []"
    and "q' = (if activeBatchID q = [] then q\<lparr>queueRunnerActive := False\<rparr> else q)"
proof -
  show e: "queuedBatchIDs q = []"
    using assms(3) nextQueuedBatchID_selected [OF assms(1,2)] by fastforce
  show "q' = (if activeBatchID q = [] then q\<lparr>queueRunnerActive := False\<rparr> else q)"
    using assms(3) nextQueuedBatchID_idle [OF assms(1) e] by simp
qed

lemma activateQueuedBatch_runner:
  "activateQueuedBatch now i q = (b, q') \<Longrightarrow> queueRunnerActive q' = queueRunnerActive q"
  by (auto simp: activateQueuedBatch_def Let_def split: if_splits option.splits)

lemma runnerStep_inv:
  assumes step: "runnerStep cfg (q, pc) (q', pc')" and q: "queueInv q" and r: "runnerInv q pc"
  shows "systemInv (q', case pc' of None \<Rightarrow> [] | Some p \<Rightarrow> [p])"
  using step
proof cases
  case (next_some pick i)
  then show ?thesis using nextQueuedBatchID_Some [OF q] r q
    by (auto simp: systemInv_one runnerInv_def activeOf_def)
next
  case (next_none pick)
  have "activeBatchID q = []" using r next_none(1) by (simp add: runnerInv_def activeOf_def)
  with next_none nextQueuedBatchID_None [OF q next_none(3,4)] q show ?thesis
    by (simp add: systemInv_Nil queueInv_def heldIDs_def)
next
  case (waiting i)
  then show ?thesis using q r
    by (simp add: systemInv_one updateQueuedBatchMessage_inv runnerInv_def activeOf_def
        updateQueuedBatchMessage_frame)
next
  case (activated now i)
  have "queueInv q'" "activeBatchID q' = i" "i \<noteq> []"
    using activateQueuedBatch_inv [OF q activated(3)] by auto
  moreover have "queueRunnerActive q' = queueRunnerActive q"
    by (rule activateQueuedBatch_runner [OF activated(3)])
  ultimately show ?thesis using r activated by (simp add: systemInv_one runnerInv_def activeOf_def)
next
  case (not_activated now i)
  then show ?thesis using activateQueuedBatch_False q r
    by (auto simp: systemInv_one runnerInv_def activeOf_def)
next
  case (batch_gone i)
  then have "i = activeBatchID q" "i \<noteq> []" using r by (auto simp: runnerInv_def activeOf_def)
  with batch_gone queueInv_active_Some [OF q] show ?thesis
    by (auto simp: batchSnapshot_def cloneBatchLocked_def)
next
  case (target_begin i u a c n target rest)
  then show ?thesis using scanning_update [OF q r, of i] by (simp add: batchUpdates_ID)
next
  case (script out w u target a i c n rest)
  moreover have "systemInv (updateBatch i (appendJob j) q, [AtWait i u a c n out rest])" for j
    using script scanning_update [OF q r, of i] by (simp add: batchUpdates_ID)
  moreover have "systemInv (q, [AtWait i u a c n out rest])"
    using script q r by (simp add: systemInv_one runnerInv_def activeOf_def)
  ultimately show ?thesis by simp
next
  case (outcome i u a c n out rest)
  then show ?thesis using scanning_update [OF q r, of i] by (simp add: batchUpdates_ID)
next
  case (finalize i u a c n now)
  then show ?thesis using scanning_update [OF q r, of i] by (simp add: batchUpdates_ID)
next
  case (finish i)
  then have "activeBatchID q = i" "i \<noteq> []" using r by (auto simp: runnerInv_def activeOf_def)
  with finish finishBatch_inv [OF q] r show ?thesis
    by (auto simp: systemInv_one runnerInv_def activeOf_def finishBatch_def Let_def)
qed (use q r in \<open>auto simp: systemInv_one runnerInv_def activeOf_def\<close>)


lemma userStep_frame:
  "queueInv q \<Longrightarrow> admissible u op q \<Longrightarrow> activeBatchID (userStep u op q) = activeBatchID q"
  by (cases op)
     (auto simp: enqueueBatch_state orKeep_def cancelQueuedBatch_Inr reorderQueuedBatch_Inr split: sum.splits)

lemma userStep_idle:
  assumes "queueInv q" and "admissible u op q" and "queuedBatchIDs q = []"
  shows "spawned op q = [] \<longrightarrow> \<not> queueRunnerActive q \<longrightarrow> userStep u op q = q"
  using assms
  by (cases op) (auto simp: enqueueBatch_started orKeep_def cancelQueuedBatch_Inr reorderQueuedBatch_Inr
      split: sum.splits)

lemma userStep_runner:
  assumes "queueInv q" and "admissible u op q"
  shows "queueRunnerActive (userStep u op q) \<longleftrightarrow> queueRunnerActive q \<or> spawned op q \<noteq> []"
  using assms
  by (cases op) (auto simp: enqueueBatch_state enqueueBatch_started orKeep_def cancelQueuedBatch_Inr
      reorderQueuedBatch_Inr split: sum.splits)

lemma spawned_cases: "spawned op q = [] \<or> (spawned op q = [AtNext] \<and> \<not> queueRunnerActive q)"
  by (cases op) (auto simp: enqueueBatch_started)

lemma request_inv:
  assumes "systemInv (q, rs)" and adm: "admissible u op q"
  shows "systemInv (userStep u op q, rs @ spawned op q)"
  using assms(1)
proof (cases rule: systemInv_cases)
  case idle
  note facts = userStep_inv [OF idle(2) adm] userStep_frame [OF idle(2) adm]
    userStep_idle [OF idle(2) adm idle(5)] userStep_runner [OF idle(2) adm]
  from spawned_cases [of op q] show ?thesis
    using idle facts by (auto simp: systemInv_Nil systemInv_one runnerInv_def activeOf_def)
next
  case (busy pc)
  note facts = userStep_inv [OF busy(2) adm] userStep_frame [OF busy(2) adm]
    userStep_runner [OF busy(2) adm]
  from spawned_cases [of op q] show ?thesis
    using busy facts by (auto simp: systemInv_one runnerInv_def)
qed

lemma deleteUser_inv:
  assumes "systemInv (q, rs)" and drop: "dropUserBatches u q = Some q'"
  shows "systemInv (q', rs)"
  using assms(1)
proof (cases rule: systemInv_cases)
  case idle
  then show ?thesis
    using dropUserBatches_inv [OF _ drop] dropUserBatches_Some(2) [OF _ drop] by (simp add: systemInv_Nil)
next
  case (busy pc)
  then show ?thesis
    using dropUserBatches_inv [OF _ drop] dropUserBatches_Some(2) [OF _ drop]
    by (simp add: systemInv_one runnerInv_def)
qed

lemma systemStep_inv:
  assumes "systemStep cfg s t" and "systemInv s"
  shows "systemInv t"
  using assms
proof (induction rule: systemStep.induct)
  case (runner k rs q q' pc')
  from runner.prems show ?case
  proof (cases rule: systemInv_cases)
    case (busy pc)
    with runner.hyps have "systemInv (q', case pc' of None \<Rightarrow> [] | Some p \<Rightarrow> [p])"
      by (intro runnerStep_inv [of cfg q pc]) auto
    moreover have "replaceRunner k pc' rs = (case pc' of None \<Rightarrow> [] | Some p \<Rightarrow> [p])"
      using runner.hyps(1) busy(1) by (auto simp: replaceRunner_def removeAt_def split: option.splits)
    ultimately show ?thesis by simp
  qed (use runner.hyps in simp)
qed (auto intro: request_inv deleteUser_inv)

interpretation scanSystem: transition_invariant systemInit "systemStep cfg" systemInv for cfg
  by unfold_locales
     (auto simp: systemInit_def systemInv_Nil emptyQueue_def queueInv_def heldIDs_def intro: systemStep_inv)


section \<open>Progress\<close>

lemma runnerStep_enabled: "\<exists>q' pc'. runnerStep cfg (q, pc) (q', pc')"
proof (cases pc)
  case AtNext
  obtain o' q' where "nextQueuedBatchID (\<lambda>_. 0) q = (o', q')" by fastforce
  then show ?thesis unfolding AtNext
    using runnerStep.next_some [of "\<lambda>_. 0" q _ _ cfg] runnerStep.next_none [of "\<lambda>_. 0" q _ cfg]
    by (cases o') auto
next
  case (AtLockCheck i)
  have "\<not> lockBlocks (False, None)" by (simp add: lockBlocks_def)
  then show ?thesis unfolding AtLockCheck by (blast intro: runnerStep.lock_free)
next
  case (AtActivate i)
  obtain b q' where "activateQueuedBatch 0 i q = (b, q')" by fastforce
  then show ?thesis unfolding AtActivate
    by (cases b) (auto intro: runnerStep.activated runnerStep.not_activated)
next
  case (AtRunBatch i)
  then show ?thesis
    by (cases "batchSnapshot q i") (auto intro: runnerStep.batch_gone runnerStep.batch_here)
next
  case (AtTargets i u a c n rest)
  then show ?thesis
    by (cases rest) (auto intro: runnerStep.target_begin runnerStep.finalize)
qed (blast intro: runnerStep.waiting runnerStep.script runnerStep.outcome runnerStep.finish)+

section \<open>Properties of the scan queue\<close>

text \<open>Worked examples: two users, three batches.\<close>

definition alice :: string where "alice = ''alice001''"
definition bob :: string where "bob = ''bob00002''"

definition sampleBatch :: "string \<Rightarrow> scanBatch" where
  "sampleBatch i =
     \<lparr> batch_ID = i, batch_Status = ''queued'', batch_Action = ''warn'',
       batch_Targets = [''/scan/usb1''], batch_JobIDs = [], batch_StartedAt = None,
       batch_FinishedAt = None, batch_Current = [], batch_Message = ''Queued'',
       batch_Completed = 0, batch_Failed = 0, batch_Threats = 0, batch_LastError = [],
       batch_UserID = [], batch_Username = ''user'' \<rparr>"

definition sampleOps :: "(string \<times> userOp) list" where
  "sampleOps = [(alice, Enqueue (sampleBatch ''web-1'')), (bob, Enqueue (sampleBatch ''web-2'')),
                (alice, Enqueue (sampleBatch ''web-3''))]"

definition sampleQueue :: queueState where
  "sampleQueue = runOps userStep emptyQueue sampleOps"

lemma sampleOps_admissible: "runAdmissible admissible userStep emptyQueue sampleOps"
  by code_simp

lemma sampleQueue_inv: "queueInv sampleQueue"
  unfolding sampleQueue_def
  by (rule scanViews.run_invariant [OF queueInv_empty sampleOps_admissible])

text \<open>
  C3: the scan queue implements one list per user. Under the queue invariant every request
  (queueing a batch with a new identifier, cancelling, moving) keeps the invariant and acts on
  the users' lists exactly as the specification says: the new batch goes to the end of its
  owner's list, a confirmed cancellation removes a batch of the caller's own list, a move puts
  a batch of the caller's own list at the requested position, and everything else is refused
  without any effect.
\<close>

theorem queue_refines_user_lists:
  assumes "queueInv s" and "admissible u op s"
  shows "queueInv (userStep u op s) \<and> pending (userStep u op s) = specStep u op (pending s)"
  using userStep_inv [OF assms] userStep_refines [OF assms] by blast

theorem queue_refines_user_lists_witness:
  "pending (userStep alice (Reorder ''web-3'' 1) sampleQueue) alice = [''web-3'', ''web-1'']"
proof -
  have "admissible alice (Reorder ''web-3'' 1) sampleQueue" by simp
  from queue_refines_user_lists [OF sampleQueue_inv this]
  have "pending (userStep alice (Reorder ''web-3'' 1) sampleQueue) alice =
      specStep alice (Reorder ''web-3'' 1) (pending sampleQueue) alice" by simp
  also have "\<dots> = [''web-3'', ''web-1'']" by code_simp
  finally show ?thesis .
qed

text \<open>
  requests never change another user's queue: whatever sequence of requests other users
  make, the queue of a user that makes none of them keeps its batches and their order.
\<close>

lemma other_users_queue_unchanged:
  assumes "queueInv s" and "runAdmissible admissible userStep s ops" and "v \<notin> fst ` set ops"
  shows "pending (runOps userStep s ops) v = pending s v"
  using assms by (rule scanViews.run_frame)

text \<open>
  a successful move puts the batch at the requested position of its owner's queue (the last
  one when the request is beyond it), keeps the set of queued batches, and leaves every slot
  of the common queue that holds somebody else's batch as it was.
\<close>

lemma reorder_moves_only_own_slots:
  assumes "queueInv s" and "reorderQueuedBatch i n u s = Inr t"
  shows "pending t u ! nat (min n (int (length (pending s u))) - 1) = i \<and>
         set (queuedBatchIDs t) = set (queuedBatchIDs s) \<and>
         (\<forall>k < length (queuedBatchIDs s). \<not> ownedBy s u (queuedBatchIDs s ! k) \<longrightarrow>
           queuedBatchIDs t ! k = queuedBatchIDs s ! k)"
proof (intro conjI)
  have mem: "i \<in> set (pending s u)" and n: "1 \<le> n"
    using assms(2) unfolding reorderQueuedBatch_Inr by (auto simp: pending_mem)
  let ?n = "min n (int (length (pending s u)))"
  have "1 \<le> int (length (pending s u))" using length_pos_if_in_set [OF mem] by linarith
  then have "moveTo ?n i (pending s u) ! nat (?n - 1) = i"
    using n by (intro moveTo_nth [OF mem]) linarith+
  then show "pending t u ! nat (?n - 1) = i"
    using reorderQueuedBatch_pending [OF assms] by (simp add: moveTo_def)
  show "set (queuedBatchIDs t) = set (queuedBatchIDs s)" by (rule reorderQueuedBatch_set(1) [OF assms])
  show "\<forall>k < length (queuedBatchIDs s). \<not> ownedBy s u (queuedBatchIDs s ! k) \<longrightarrow>
           queuedBatchIDs t ! k = queuedBatchIDs s ! k"
    using assms(2) unfolding reorderQueuedBatch_Inr by (auto simp: rewriteOwned_nth)
qed

text \<open>
  C4: in every state the server can reach, however the requests, the deletion of users and the
  runner interleave and whatever the scan lock, the random choice and the scan script do, the
  queue invariant holds, at most one queue runner lives, a runner lives exactly when the
  server believes so, and the batch a runner is scanning is the active one and is still there.
\<close>

theorem single_runner:
  assumes "rtranclp (systemStep cfg) (emptyQueue, []) (q, rs)"
  shows "queueInv q \<and> length rs \<le> 1 \<and> (queueRunnerActive q \<longleftrightarrow> rs \<noteq> []) \<and>
         (\<forall>pc i. pc \<in> set rs \<longrightarrow> scanning pc = Some i \<longrightarrow> activeBatchID q = i \<and> batches q i \<noteq> None)"
proof -
  have "systemInv (q, rs)"
    by (rule scanSystem.reachable_inv [OF _ assms]) (simp add: systemInit_def)
  then show ?thesis
  proof (cases rule: systemInv_cases)
    case (busy pc)
    then show ?thesis
      using queueInv_active_Some [OF busy(2)] by (auto simp: runnerInv_def activeOf_def)
  qed auto
qed

lemma sample_reachable:
  "rtranclp (systemStep cfg) (emptyQueue, [])
     (userStep alice (Enqueue (sampleBatch ''web-1'')) emptyQueue, [AtNext])"
proof -
  have "admissible alice (Enqueue (sampleBatch ''web-1'')) emptyQueue" by code_simp
  from systemStep.request [OF this, of cfg "[]"] show ?thesis
    by (simp add: enqueueBatch_started emptyQueue_def r_into_rtranclp)
qed

theorem single_runner_witness:
  "queueRunnerActive (userStep alice (Enqueue (sampleBatch ''web-1'')) emptyQueue)"
  using single_runner [OF sample_reachable] by simp

text \<open>
  C5: no batch is stranded. In every reachable state with a queued batch there is a runner,
  and it is never stuck: it has a next step.
\<close>

theorem queued_batches_have_a_runner:
  assumes "rtranclp (systemStep cfg) (emptyQueue, []) (q, rs)" and "queuedBatchIDs q \<noteq> []"
  shows "\<exists>pc. rs = [pc] \<and> (\<exists>q' pc'. runnerStep cfg (q, pc) (q', pc'))"
proof -
  have "systemInv (q, rs)"
    by (rule scanSystem.reachable_inv [OF _ assms(1)]) (simp add: systemInit_def)
  with assms(2) show ?thesis by (auto simp: systemInv_def runnerStep_enabled)
qed

theorem queued_batches_have_a_runner_witness:
  "\<exists>q' pc'. runnerStep (sampleConfig False)
     (userStep alice (Enqueue (sampleBatch ''web-1'')) emptyQueue, AtNext) (q', pc')"
proof -
  have "queuedBatchIDs (userStep alice (Enqueue (sampleBatch ''web-1'')) emptyQueue) \<noteq> []"
    by (simp add: enqueueBatch_state)
  from queued_batches_have_a_runner [OF sample_reachable [of "sampleConfig False"] this]
  show ?thesis by auto
qed

text \<open>
  C6: the runner drains the queue. Started on a queue with no active batch, and met by a free
  scan lock more often than there are batches, \<open>runQueue\<close> returns: it has run every queued
  batch exactly once, the batches of each user in the order of that user's queue, and it
  leaves no batch, no active batch and no active runner behind.
\<close>

theorem runQueue_serves_all:
  assumes "queueInv s" and "activeBatchID s = []"
    and "\<And>it n. it \<in> set its \<Longrightarrow> 0 < n \<Longrightarrow> it_pick it n < n"
    and "length (queuedBatchIDs s) < length (filter (\<lambda>it. \<not> lockBlocks (it_lock it)) its)"
  shows "\<exists>order t. runQueue cfg its s = Some (order, t) \<and>
           (\<forall>u. filter (ownedBy s u) order = pending s u) \<and>
           distinct order \<and> set order = set (queuedBatchIDs s) \<and>
           queuedBatchIDs t = [] \<and> activeBatchID t = [] \<and> \<not> queueRunnerActive t \<and>
           batches t = Map.empty"
  using runQueue_drains [OF assms] unfolding drained_def .

definition sampleProcess :: scanProcess where
  "sampleProcess = \<lparr> proc_pipeErr = None, proc_startErr = None, proc_stdout = [''JOB_ID=web-1-001''],
                     proc_scanErr = None, proc_stderr = [], proc_exitErr = None \<rparr>"

definition sampleWorld :: targetWorld where
  "sampleWorld = \<lparr> exec_script = (\<lambda>_. sampleProcess),
                   job_files = (\<lambda>_. JobDecoded [(''result'', JString ''found'')]) \<rparr>"

definition sampleIteration :: "bool \<Rightarrow> iteration" where
  "sampleIteration blocked =
     \<lparr> it_pick = (\<lambda>n. n - 1), it_lock = (blocked, None), it_started = 1, it_world = (\<lambda>_. sampleWorld),
       it_finished = 2 \<rparr>"

theorem runQueue_serves_all_witness:
  "\<exists>order t. runQueue (sampleConfig False)
       (map sampleIteration [False, True, False, False, False]) sampleQueue = Some (order, t) \<and>
     filter (ownedBy sampleQueue alice) order = [''web-1'', ''web-3'']"
proof -
  let ?its = "map sampleIteration [False, True, False, False, False]"
  have 1: "activeBatchID sampleQueue = []" by code_simp
  have 2: "length (queuedBatchIDs sampleQueue) < length (filter (\<lambda>it. \<not> lockBlocks (it_lock it)) ?its)"
    by code_simp
  have 3: "it_pick it n < n" if "it \<in> set ?its" and "0 < n" for it n
    using that by (auto simp: sampleIteration_def)
  have 4: "pending sampleQueue alice = [''web-1'', ''web-3'']" by code_simp
  from runQueue_serves_all [OF sampleQueue_inv 1 3 2, of "sampleConfig False"] show ?thesis
    unfolding 4 [symmetric] by blast
qed

text \<open>
  running a batch reports what happened. While a batch with fresh counters is run, its
  counters end as the number of targets, of failed targets and of targets with threats, its job
  identifiers are those the script printed, in order, and its final status is \<^verbatim>\<open>failed\<close>
  exactly when some target failed; afterwards the batch is gone and nothing is active.
\<close>

theorem runBatch_reports:
  assumes "queueInv s" and "activeBatchID s = i" and "i \<noteq> []" and "batches s i = Some b"
    and "batch_Completed b = 0 \<and> batch_Failed b = 0 \<and> batch_Threats b = 0 \<and> batch_JobIDs b = []"
    and "outs = targetOutcomes cfg world (batch_UserID b) (batch_Action b) 0 (batch_Targets b)"
  shows "(\<exists>b'. batches (updateBatch i (finalizeBatch now)
                 (runTargets cfg world i (batch_UserID b) (batch_Action b) (length (batch_Targets b)) 0
                    (batch_Targets b) s)) i = Some b' \<and>
            batch_Completed b' = int (length (batch_Targets b)) \<and>
            batch_Failed b' = int (length (filter outcomeFailed outs)) \<and>
            batch_Threats b' = int (length (filter outcomeFound outs)) \<and>
            batch_JobIDs b' = filter (\<lambda>j. j \<noteq> []) (map out_jobID outs) \<and>
            batch_Status b' = (if list_ex outcomeFailed outs then ''failed'' else ''finished'') \<and>
            batch_FinishedAt b' = Some now) \<and>
         runBatch cfg world now i s = s\<lparr>activeBatchID := [], batches := (batches s)(i := None)\<rparr>"
proof
  obtain b' where run: "runTargets cfg world i (batch_UserID b) (batch_Action b) (length (batch_Targets b)) 0
      (batch_Targets b) s = s\<lparr>batches := (batches s)(i \<mapsto> b')\<rparr>" and sum: "summarises outs b b'"
    using runTargets_Some [OF assms(4)] assms(6) by blast
  have len: "length outs = length (batch_Targets b)" using assms(6) by simp
  have failed: "list_ex outcomeFailed outs \<longleftrightarrow> 0 < length (filter outcomeFailed outs)"
    by (simp add: list_ex_iff filter_empty_conv)
  show "\<exists>b'. batches (updateBatch i (finalizeBatch now)
                 (runTargets cfg world i (batch_UserID b) (batch_Action b) (length (batch_Targets b)) 0
                    (batch_Targets b) s)) i = Some b' \<and>
            batch_Completed b' = int (length (batch_Targets b)) \<and>
            batch_Failed b' = int (length (filter outcomeFailed outs)) \<and>
            batch_Threats b' = int (length (filter outcomeFound outs)) \<and>
            batch_JobIDs b' = filter (\<lambda>j. j \<noteq> []) (map out_jobID outs) \<and>
            batch_Status b' = (if list_ex outcomeFailed outs then ''failed'' else ''finished'') \<and>
            batch_FinishedAt b' = Some now"
    unfolding run using sum assms(5)
    by (intro exI [of _ "finalizeBatch now b'"])
       (simp add: updateBatch_Some summarises_def finalizeBatch_def Let_def len failed)
  show "runBatch cfg world now i s = s\<lparr>activeBatchID := [], batches := (batches s)(i := None)\<rparr>"
    by (rule runBatch_effect [OF assms(1-3)])
qed

definition sampleRunning :: queueState where
  "sampleRunning = snd (activateQueuedBatch 1 ''web-1'' sampleQueue)"

theorem runBatch_reports_witness:
  "activeBatchID (runBatch (sampleConfig False) (\<lambda>_. sampleWorld) 2 ''web-1'' sampleRunning) = []"
proof -
  have "activateQueuedBatch 1 ''web-1'' sampleQueue = (True, sampleRunning)"
    unfolding sampleRunning_def
    by (rule prod_eqI) (code_simp, simp)
  from activateQueuedBatch_inv [OF sampleQueue_inv this]
  have 1: "queueInv sampleRunning" "activeBatchID sampleRunning = ''web-1''" "''web-1'' \<noteq> []" by auto
  obtain b where b: "batches sampleRunning ''web-1'' = Some b"
    using queueInv_active_Some [OF 1(1)] 1(2) by auto
  have "batch_Completed (the (batches sampleRunning ''web-1'')) = 0 \<and>
      batch_Failed (the (batches sampleRunning ''web-1'')) = 0 \<and>
      batch_Threats (the (batches sampleRunning ''web-1'')) = 0 \<and>
      batch_JobIDs (the (batches sampleRunning ''web-1'')) = []" by code_simp
  then have 2: "batch_Completed b = 0 \<and> batch_Failed b = 0 \<and> batch_Threats b = 0 \<and> batch_JobIDs b = []"
    using b by simp
  from runBatch_reports [OF 1 b 2 refl] show ?thesis by simp
qed

end
