(* ===== verification/Scan_Handlers.thy ===== *)
theory Scan_Handlers
  imports Queue_System
begin

text \<open>
  The HTTP handlers of \<^verbatim>\<open>scans.go\<close> and the dispatch of \<^verbatim>\<open>handleScans\<close> (\<^verbatim>\<open>cron.go\<close>). A handler takes
  the actor of the request context, the result of decoding the request body, the file system
  it looks at, and the queue; it returns the response and the new queue.
\<close>

section \<open>Requests\<close>

record startScanRequest =
  start_Targets :: "string list"
  start_Action :: string
  start_Wait :: bool

record reorderScanRequest =
  reorder_ID :: string
  reorder_QueueNumber :: int

record cancelScanRequest =
  cancel_ID :: string
  cancel_Cancel :: string

definition directoryLockExists :: "osview \<Rightarrow> string \<Rightarrow> bool res" where
  "directoryLockExists os path =
     (case os_Stat os path of
        Inr info \<Rightarrow> if fi_mode info \<noteq> ModeDir
                     then Inl (ErrText (''lock path is not a directory: '' @ path)) else Inr True
      | Inl e \<Rightarrow> if is_not_exist e then Inr False else Inl e)"

text \<open>\<^verbatim>\<open>randomHex\<close>: hexadecimal digits of random bytes, or the clock in decimal.\<close>

definition hexDigit :: "nat \<Rightarrow> char" where
  "hexDigit n = ''0123456789abcdef'' ! n"

definition hexByte :: "8 word \<Rightarrow> string" where
  "hexByte b = [hexDigit (unat b div 16), hexDigit (unat b mod 16)]"

definition randomHex :: "8 word list option \<Rightarrow> int \<Rightarrow> string" where
  "randomHex bytes nowNano =
     (case bytes of None \<Rightarrow> Itoa nowNano | Some buf \<Rightarrow> concat (map hexByte buf))"

section \<open>Starting a scan\<close>

text \<open>The loop over the requested targets; a target that was seen is not listed again.\<close>

fun collectTargets ::
    "osview \<Rightarrow> config \<Rightarrow> actor \<Rightarrow> string list \<Rightarrow> string list \<Rightarrow> string list res" where
  "collectTargets os cfg who targets [] = Inr targets"
| "collectTargets os cfg who targets (target # rest) =
     (case safePathForActor os cfg target who of
        Inl e \<Rightarrow> Inl (wrapErr target e)
      | Inr path \<Rightarrow>
          (case os_Stat os path of
             Inl e \<Rightarrow> Inl (wrapErr path e)
           | Inr _ \<Rightarrow>
               collectTargets os cfg who
                 (if path \<in> set targets then targets else targets @ [path]) rest))"

definition newScanBatch :: "string \<Rightarrow> string \<Rightarrow> string list \<Rightarrow> actor \<Rightarrow> scanBatch" where
  "newScanBatch i action targets who =
     \<lparr> batch_ID = i, batch_Status = ''queued'', batch_Action = action, batch_Targets = targets,
       batch_JobIDs = [], batch_StartedAt = None, batch_FinishedAt = None, batch_Current = [],
       batch_Message = ''Queued'', batch_Completed = 0, batch_Failed = 0, batch_Threats = 0,
       batch_LastError = [], batch_UserID = ID who, batch_Username = Username who \<rparr>"

definition startScanResponse :: "string \<Rightarrow> string \<Rightarrow> string \<Rightarrow> json" where
  "startScanResponse i status message =
     JObject [(''id'', JString i), (''status'', JString status), (''message'', JString message)]"

definition startScan ::
    "osview \<Rightarrow> config \<Rightarrow> actor option \<Rightarrow> startScanRequest res \<Rightarrow> string \<Rightarrow> queueState \<Rightarrow>
     response \<times> queueState" where
  "startScan os cfg ctx body hex s =
     (case directoryLockExists os (SleepLockDir cfg) of
        Inl e \<Rightarrow> (writeError StatusInternalServerError (wrapErr ''check ClamAV sleep lock'' e), s)
      | Inr True \<Rightarrow>
          (writeJSON StatusConflict (startScanResponse [] ''failed'' ''ClamAV is sleeping.''), s)
      | Inr False \<Rightarrow>
     (case body of
        Inl e \<Rightarrow> (writeError StatusBadRequest e, s)
      | Inr req \<Rightarrow>
          (let trimmed = TrimSpace (start_Action req);
               action = (if trimmed = [] then ''warn'' else trimmed)
           in if action \<notin> {''warn'', ''move'', ''remove''}
              then (writeError StatusBadRequest (ErrText ''action must be warn, move, or remove''), s)
              else
                (let who = actorOrZero ctx in
                 case collectTargets os cfg who [] (start_Targets req) of
                   Inl e \<Rightarrow> (writeError StatusBadRequest e, s)
                 | Inr targets \<Rightarrow>
                     if targets = []
                     then (writeError StatusBadRequest (ErrText ''at least one target is required''), s)
                     else
                       (let batch = newScanBatch (''web-'' @ hex) action targets who;
                            ((status, message), _, s') = enqueueBatch batch s
                        in (writeJSON StatusAccepted
                              (startScanResponse (batch_ID batch) status message), s'))))))"

definition queueItemJSON :: "scanQueueItem \<Rightarrow> json" where
  "queueItemJSON item =
     JObject [(''id'', JString (item_ID item)), (''status'', JString (item_Status item)),
       (''job_ids'', JArray (map JString (item_JobIDs item))),
       (''targets'', JArray (map JString (item_Targets item))),
       (''action'', JString (item_Action item)),
       (''started_at'', case item_StartedAt item of None \<Rightarrow> JNull | Some t \<Rightarrow> JNumber t),
       (''queue_number'', JNumber (item_QueueNumber item))]"

definition listScans :: "actor option \<Rightarrow> string \<Rightarrow> queueState \<Rightarrow> response \<times> queueState" where
  "listScans ctx scope s =
     (case listQueueItems scope (ID (actorOrZero ctx)) s of
        Inl e \<Rightarrow> (writeError StatusBadRequest e, s)
      | Inr items \<Rightarrow> (writeJSON StatusOK (JArray (map queueItemJSON items)), s))"

definition handleScans ::
    "httpMethod \<Rightarrow> osview \<Rightarrow> config \<Rightarrow> actor option \<Rightarrow> startScanRequest res \<Rightarrow> string \<Rightarrow> string \<Rightarrow>
     queueState \<Rightarrow> response \<times> queueState" where
  "handleScans method os cfg ctx body hex scope s =
     (case method of
        MethodPost \<Rightarrow> startScan os cfg ctx body hex s
      | MethodGet \<Rightarrow> listScans ctx scope s
      | _ \<Rightarrow> (methodNotAllowed, s))"

section \<open>Moving and cancelling\<close>

definition scanActionResponse :: "string \<Rightarrow> string \<Rightarrow> json" where
  "scanActionResponse status message =
     JObject ((''status'', JString status) # (if message = [] then [] else [(''message'', JString message)]))"

definition handleScanReorder ::
    "httpMethod \<Rightarrow> actor option \<Rightarrow> reorderScanRequest res \<Rightarrow> queueState \<Rightarrow> response \<times> queueState" where
  "handleScanReorder method ctx body s =
     (if method \<noteq> MethodPost then (methodNotAllowed, s)
      else case body of
        Inl e \<Rightarrow> (writeError StatusBadRequest e, s)
      | Inr req \<Rightarrow>
          (case reorderQueuedBatch (TrimSpace (reorder_ID req)) (reorder_QueueNumber req)
                  (ID (actorOrZero ctx)) s of
             Inl e \<Rightarrow> (writeJSON StatusBadRequest (scanActionResponse ''failed'' (errText e)), s)
           | Inr s' \<Rightarrow> (writeJSON StatusOK (scanActionResponse ''success'' ''Queue reordered''), s')))"

definition handleScanCancel ::
    "httpMethod \<Rightarrow> actor option \<Rightarrow> cancelScanRequest res \<Rightarrow> queueState \<Rightarrow> response \<times> queueState" where
  "handleScanCancel method ctx body s =
     (if method \<noteq> MethodPost then (methodNotAllowed, s)
      else case body of
        Inl e \<Rightarrow> (writeError StatusBadRequest e, s)
      | Inr req \<Rightarrow>
          (case cancelQueuedBatch (TrimSpace (cancel_ID req)) (TrimSpace (cancel_Cancel req))
                  (ID (actorOrZero ctx)) s of
             Inl e \<Rightarrow> (writeJSON StatusBadRequest (scanActionResponse ''failed'' (errText e)), s)
           | Inr s' \<Rightarrow> (writeJSON StatusOK (scanActionResponse ''success'' ''Queued scan canceled''), s')))"

section \<open>What the handlers admit\<close>

lemma collectTargets_Inr:
  "collectTargets os cfg who ts rest = Inr targets \<Longrightarrow> distinct ts \<Longrightarrow>
     distinct targets \<and> set ts \<subseteq> set targets \<and>
     (\<forall>p \<in> set targets - set ts. \<exists>i \<in> set rest. safePathForActor os cfg i who = Inr p \<and>
        (\<exists>info. os_Stat os p = Inr info))"
proof (induction os cfg who ts rest rule: collectTargets.induct)
  case (2 os cfg who ts target rest)
  then obtain path info where p: "safePathForActor os cfg target who = Inr path"
      "os_Stat os path = Inr info"
    by (auto split: sum.splits)
  let ?ts = "if path \<in> set ts then ts else ts @ [path]"
  have "collectTargets os cfg who ?ts rest = Inr targets" using 2(2) p by simp
  moreover have "distinct ?ts" using 2(3) by simp
  ultimately have IH: "distinct targets \<and> set ?ts \<subseteq> set targets \<and>
     (\<forall>p \<in> set targets - set ?ts. \<exists>i \<in> set rest. safePathForActor os cfg i who = Inr p \<and>
        (\<exists>info. os_Stat os p = Inr info))"
    using 2(1) [OF p] by blast
  have "\<exists>i \<in> set (target # rest). safePathForActor os cfg i who = Inr q \<and>
        (\<exists>info. os_Stat os q = Inr info)" if q: "q \<in> set targets - set ts" for q
  proof (cases "q = path")
    case False
    then have "q \<in> set targets - set ?ts" using q by auto
    then show ?thesis using IH by fastforce
  qed (use p in auto)
  with IH show ?case by (auto split: if_splits)
qed simp

lemma startScan_rejected:
  assumes "startScan os cfg ctx body hex s = (r, t)" and "rsp_status r \<noteq> StatusAccepted"
  shows "t = s"
  using assms unfolding startScan_def
  by (auto simp: Let_def split: sum.splits bool.splits if_splits prod.splits)

lemma startScan_accepted:
  assumes "startScan os cfg ctx body hex s = (r, t)" and "rsp_status r = StatusAccepted"
  obtains req targets action where "body = Inr req"
    and "directoryLockExists os (SleepLockDir cfg) = Inr False"
    and "action \<in> {''warn'', ''move'', ''remove''}" and "targets \<noteq> []"
    and "collectTargets os cfg (actorOrZero ctx) [] (start_Targets req) = Inr targets"
    and "t = snd (snd (enqueueBatch (newScanBatch (''web-'' @ hex) action targets (actorOrZero ctx)) s))"
  using assms unfolding startScan_def Let_def
  by (auto simp: case_prod_unfold split: sum.splits bool.splits if_splits)

section \<open>Properties\<close>

text \<open>
  C36: a scan request that is accepted (202) adds exactly one batch, at the end of the caller's
  queue. Its action is warn, move or remove; its targets are distinct, there is at least one,
  and each lies in the part of the scan tree that belongs to the caller, free of symbolic
  links; ClamAV was not asleep. A request that is not accepted leaves the queue as it was.
\<close>

theorem startScan_admits:
  assumes "queueInv s" and "batches s (''web-'' @ hex) = None" and "admittedActor cfg (actorOrZero ctx)"
    and "startScan os cfg ctx body hex s = (r, t)"
  shows "if rsp_status r = StatusAccepted
         then \<exists>b. t = snd (snd (enqueueBatch b s)) \<and> batch_ID b = ''web-'' @ hex \<and>
                batch_UserID b = ID (actorOrZero ctx) \<and>
                batch_Action b \<in> {''warn'', ''move'', ''remove''} \<and>
                batch_Targets b \<noteq> [] \<and> distinct (batch_Targets b) \<and>
                set (batch_Targets b) \<subseteq> actorZone os cfg (actorOrZero ctx) \<and>
                directoryLockExists os (SleepLockDir cfg) = Inr False \<and>
                queueInv t \<and>
                pending t (batch_UserID b) = pending s (batch_UserID b) @ [batch_ID b]
         else t = s"
proof (cases "rsp_status r = StatusAccepted")
  case True
  obtain req targets action where "body = Inr req" and
    lock: "directoryLockExists os (SleepLockDir cfg) = Inr False" and
    act: "action \<in> {''warn'', ''move'', ''remove''}" and ne: "targets \<noteq> []" and
    coll: "collectTargets os cfg (actorOrZero ctx) [] (start_Targets req) = Inr targets" and
    t: "t = snd (snd (enqueueBatch (newScanBatch (''web-'' @ hex) action targets (actorOrZero ctx)) s))"
    by (rule startScan_accepted [OF assms(4) True])
  let ?b = "newScanBatch (''web-'' @ hex) action targets (actorOrZero ctx)"
  have fresh: "freshBatch ?b s" using assms(2) by (simp add: freshBatch_def newScanBatch_def)
  have dist: "distinct targets" and acc: "\<forall>p \<in> set targets. \<exists>i. safePathForActor os cfg i (actorOrZero ctx) = Inr p"
    using collectTargets_Inr [OF coll] by (simp, fastforce)
  have "set targets \<subseteq> actorZone os cfg (actorOrZero ctx)"
    using acc guard.accept_zone [OF assms(3)] by blast
  with dist lock act ne t fresh enqueueBatch_inv [OF assms(1) fresh] enqueueBatch_pending [OF assms(1) fresh]
  have "t = snd (snd (enqueueBatch ?b s)) \<and> batch_ID ?b = ''web-'' @ hex \<and>
                batch_UserID ?b = ID (actorOrZero ctx) \<and>
                batch_Action ?b \<in> {''warn'', ''move'', ''remove''} \<and>
                batch_Targets ?b \<noteq> [] \<and> distinct (batch_Targets ?b) \<and>
                set (batch_Targets ?b) \<subseteq> actorZone os cfg (actorOrZero ctx) \<and>
                directoryLockExists os (SleepLockDir cfg) = Inr False \<and>
                queueInv t \<and>
                pending t (batch_UserID ?b) = pending s (batch_UserID ?b) @ [batch_ID ?b]"
    by (simp add: newScanBatch_def)
  with True show ?thesis by auto
next
  case False
  then show ?thesis using startScan_rejected [OF assms(4)] by simp
qed

text \<open>A file system with a scan tree and no lock directories.\<close>

definition wakeView :: osview where
  "wakeView = plainView\<lparr>os_Stat := (\<lambda>p. if HasPrefix p ''/scan'' then Inr dirInfo
                                          else Inl (ErrNotExist p))\<rparr>"

definition aliceActor :: actor where
  "aliceActor = \<lparr> ID = alice, Username = ''alice'', Role = ''user'', TimeDockAccount = ''acct'' \<rparr>"

definition sampleRequest :: startScanRequest where
  "sampleRequest = \<lparr> start_Targets = [''/scan/usb1'', ''/scan//usb1/'', ''/scan/usb2''],
                     start_Action = '' '', start_Wait = False \<rparr>"

theorem startScan_admits_witness:
  "\<exists>r t. startScan wakeView (sampleConfig False) (Some aliceActor) (Inr sampleRequest) ''ff'' sampleQueue
           = (r, t) \<and> rsp_status r = StatusAccepted \<and> queueInv t"
proof -
  obtain r t where rt: "startScan wakeView (sampleConfig False) (Some aliceActor)
      (Inr sampleRequest) ''ff'' sampleQueue = (r, t)" by fastforce
  have "rsp_status (fst (startScan wakeView (sampleConfig False) (Some aliceActor)
      (Inr sampleRequest) ''ff'' sampleQueue)) = StatusAccepted" by code_simp
  then have ok: "rsp_status r = StatusAccepted" by (simp add: rt)
  have 1: "admittedActor (sampleConfig False) (actorOrZero (Some aliceActor))"
    by (simp add: admittedActor_def sampleConfig_def)
  have "Option.is_none (batches sampleQueue (''web-'' @ ''ff''))" by code_simp
  then have 2: "batches sampleQueue (''web-'' @ ''ff'') = None" by (simp add: Option.is_none_def)
  from startScan_admits [OF sampleQueue_inv 2 1 rt] ok rt show ?thesis by auto
qed

text \<open>
  the handlers for moving and cancelling are safe for everyone: whatever the method, the
  body and the caller, afterwards the queue invariant still holds, the queue of every other
  user is what it was, and an answer other than 200 means that nothing was changed.
\<close>

theorem queue_handlers_safe:
  assumes "queueInv s"
    and "handleScanReorder method ctx body s = (r, t) \<or> handleScanCancel method ctx body' s = (r, t)"
  shows "queueInv t \<and> (\<forall>v. v \<noteq> ID (actorOrZero ctx) \<longrightarrow> pending t v = pending s v) \<and>
         (rsp_status r \<noteq> StatusOK \<longrightarrow> t = s)"
  using assms(2)
proof
  assume "handleScanReorder method ctx body s = (r, t)"
  then show ?thesis
    using reorderQueuedBatch_inv [OF assms(1)] reorderQueuedBatch_pending [OF assms(1)] assms(1)
    by (auto simp: handleScanReorder_def split: if_splits sum.splits)
next
  assume "handleScanCancel method ctx body' s = (r, t)"
  then show ?thesis
    using cancelQueuedBatch_inv [OF assms(1)] cancelQueuedBatch_pending [OF assms(1)] assms(1)
    by (auto simp: handleScanCancel_def split: if_splits sum.splits)
qed

theorem queue_handlers_safe_witness:
  "snd (handleScanCancel MethodPost (Some aliceActor)
         (Inr \<lparr> cancel_ID = ''web-2'', cancel_Cancel = ''Y'' \<rparr>) sampleQueue) = sampleQueue"
proof -
  let ?h = "handleScanCancel MethodPost (Some aliceActor)
         (Inr \<lparr> cancel_ID = ''web-2'', cancel_Cancel = ''Y'' \<rparr>) sampleQueue"
  have "rsp_status (fst ?h) = StatusBadRequest" by code_simp
  then show ?thesis
    using queue_handlers_safe [OF sampleQueue_inv, of MethodPost "Some aliceActor" "Inl ErrTimeDockPathDenied"
        "fst ?h" "snd ?h" "Inr \<lparr> cancel_ID = ''web-2'', cancel_Cancel = ''Y'' \<rparr>"] by simp
qed

text \<open>
  a listing shows a user exactly the batches that are the user's own: the running one,
  when it is the user's, under number 0, then the queued ones numbered from 1 in the order of
  the user's queue, restricted to the requested range of numbers.
\<close>

lemma listing_is_the_users_queue:
  assumes "queueInv s" and "u \<noteq> []" and "parseScanScope scope = Inr (start, end', all)"
  shows "listQueueItems scope u s =
     Inr ((if (all \<or> start = 1) \<and> activeBatchID s \<noteq> [] \<and> ownedBy s u (activeBatchID s)
           then [queueItem (the (batches s (activeBatchID s))) 0] else [])
          @ map (\<lambda>(k, i). queueItem (the (batches s i)) k)
              (filter (\<lambda>(k, i). all \<or> (start \<le> k \<and> k \<le> end')) (numberFrom 1 (pending s u))))"
  using assms by (rule listQueueItems_numbered)

end
