(* ===== verification/App_Config.thy ===== *)
theory App_Config
  imports Net_IP Go_Paths
begin

text \<open>
  The application configuration of \<^verbatim>\<open>app_config.go\<close>: its fields and limits, the file format
  (\<^verbatim>\<open>KEY=value\<close> lines and comments), the merge that keeps the administrator's text, and the
  store that keeps the file and the configuration in memory together. The file is an optional
  string; errors of reading and writing it are arguments.
\<close>

section \<open>Fields, defaults and limits\<close>

record appConfig =
  HistoryIndexRefreshInterval :: int
  ClamAVSleepTimer :: int
  WebFirstRunCompleted :: int
  WebLoginMaxTries :: int
  WebLoginMaxTriesOverall :: int
  WebLoginCooldownInterval :: int
  ServerTrustedReverseProxy :: string
  LogFileMaxSize :: int
  LogFileNum :: int
  LogLevel :: string

definition defaultAppConfig :: appConfig where
  "defaultAppConfig =
     \<lparr> HistoryIndexRefreshInterval = 60, ClamAVSleepTimer = 3600, WebFirstRunCompleted = 0,
       WebLoginMaxTries = 10, WebLoginMaxTriesOverall = 100, WebLoginCooldownInterval = 600,
       ServerTrustedReverseProxy = [], LogFileMaxSize = 5 * 1024 * 1024, LogFileNum = 5,
       LogLevel = ''warn'' \<rparr>"

text \<open>The loop over the comma-separated proxies.\<close>

fun normalizeProxies :: "string list \<Rightarrow> string list res" where
  "normalizeProxies [] = Inr []"
| "normalizeProxies (part0 # parts) =
     (let part = TrimSpace part0 in
      case ParseIP part of
        None \<Rightarrow> Inl (ErrText (''SERVER_TRUSTED_REVERSEPROXY must be empty or a comma-separated list '' @
                              ''of valid IPv4/IPv6 addresses''))
      | Some ip \<Rightarrow>
          if part = [] then Inl (ErrText (''SERVER_TRUSTED_REVERSEPROXY must be empty or a comma-separated list '' @
                              ''of valid IPv4/IPv6 addresses''))
          else bind_res (normalizeProxies parts) (\<lambda>rest. Inr (ipString ip # rest)))"

definition normalizeTrustedReverseProxyList :: "string \<Rightarrow> string res" where
  "normalizeTrustedReverseProxyList value0 =
     (let value = TrimSpace value0 in
      if value = [] then Inr []
      else bind_res (normalizeProxies (Split value CHR '','')) (\<lambda>parts. Inr (Join parts '','')))"

definition validateAppConfig :: "appConfig \<Rightarrow> goerror option" where
  "validateAppConfig cfg =
     (if HistoryIndexRefreshInterval cfg < 5 \<or> HistoryIndexRefreshInterval cfg > 86400
        then Some (ErrText ''HISTORY_INDEX_REFRESH_INTERVAL must be between 5 and 86400'')
      else if ClamAVSleepTimer cfg \<noteq> 0 \<and> ClamAVSleepTimer cfg < 600
        then Some (ErrText ''CLAMAV_SLEEP_TIMER must be 0 or at least 600 seconds'')
      else if ClamAVSleepTimer cfg > 9223372036
        then Some (ErrText ''CLAMAV_SLEEP_TIMER is too large'')
      else if WebFirstRunCompleted cfg \<noteq> 0 \<and> WebFirstRunCompleted cfg \<noteq> 2
        then Some (ErrText ''WEB_FIRSTRUN_COMPLETED must be 0 or 2'')
      else if WebLoginMaxTries cfg < 1 \<or> WebLoginMaxTries cfg > 10000
        then Some (ErrText ''WEB_LOGIN_MAX_TRIES must be between 1 and 10000'')
      else if WebLoginMaxTriesOverall cfg < WebLoginMaxTries cfg \<or> WebLoginMaxTriesOverall cfg > 1000000
        then Some (ErrText ''WEB_LOGIN_MAX_TRIES_OVERALL must be between WEB_LOGIN_MAX_TRIES and 1000000'')
      else if WebLoginCooldownInterval cfg < 1 \<or> WebLoginCooldownInterval cfg > 86400
        then Some (ErrText ''WEB_LOGIN_COOLDOWN_INTERVAL must be between 1 and 86400 seconds'')
      else case normalizeTrustedReverseProxyList (ServerTrustedReverseProxy cfg) of
        Inl e \<Rightarrow> Some e
      | Inr _ \<Rightarrow>
          if LogFileMaxSize cfg < 64 * 1024 \<or> LogFileMaxSize cfg > 1024 * 1024 * 1024
            then Some (ErrText ''LOG_FILE_MAX_SIZE must be between 65536 and 1073741824 bytes'')
          else if LogFileNum cfg < 1 \<or> LogFileNum cfg > 100
            then Some (ErrText ''LOG_FILE_NUM must be between 1 and 100'')
          else if LogLevel cfg \<notin> {''debug'', ''info'', ''warn'', ''error''}
            then Some (ErrText ''LOG_LEVEL must be debug, info, warn, or error'')
          else None)"

section \<open>The file format\<close>

text \<open>
  The lines a \<^verbatim>\<open>bufio.Scanner\<close> delivers: split at line feeds, one trailing carriage return
  removed, no last line when the text ends in a line feed. A line that does not fit the
  scanner's buffer of 64 KiB ends the scan with an error.
\<close>

fun scanRaw :: "string \<Rightarrow> string list" where
  "scanRaw text = (case Split text LF of
                     [] \<Rightarrow> []
                   | ls \<Rightarrow> if last ls = [] then butlast ls else ls)"

text \<open>
  Both \<^verbatim>\<open>parseAppConfigInt\<close> and \<^verbatim>\<open>parseAppConfigInt64\<close> (\<^verbatim>\<open>int\<close> has 64 bits); the text of
  \<^verbatim>\<open>strconv\<close>'s own error is left out.
\<close>

definition parseAppConfigInt :: "string \<Rightarrow> string \<Rightarrow> int res" where
  "parseAppConfigInt key value =
     (if value = [] then Inl (ErrText (''invalid value for '' @ key @ '': value is empty''))
      else case Atoi value of
        None \<Rightarrow> Inl (ErrText (''invalid value for '' @ key))
      | Some n \<Rightarrow> Inr n)"

text \<open>
  \<^verbatim>\<open>strings.ToLower\<close>. Beside the ASCII letters two runes have an ASCII lower case, the Kelvin
  sign and the dotted capital I; the other runes stay outside ASCII and are left as they are.
\<close>

fun ToLower :: "string \<Rightarrow> string" where
  "ToLower [] = []"
| "ToLower (c # cs) =
     (if isUpper c then char_of (byte c + 32) # ToLower cs
      else if byte c = 0xC4 \<and> cs \<noteq> [] \<and> byte (hd cs) = 0xB0 then CHR ''i'' # ToLower (tl cs)
      else if byte c = 0xE2 \<and> take 2 cs = [char_of (0x84 :: nat), char_of (0xAA :: nat)]
        then CHR ''k'' # ToLower (drop 2 cs)
      else c # ToLower cs)"

text \<open>The \<^verbatim>\<open>switch\<close> on the key.\<close>

definition applyEntry :: "string \<Rightarrow> string \<Rightarrow> appConfig \<Rightarrow> appConfig res" where
  "applyEntry key value cfg =
     (if key = ''HISTORY_INDEX_REFRESH_INTERVAL'' then
        bind_res (parseAppConfigInt key value) (\<lambda>n. Inr (cfg\<lparr>HistoryIndexRefreshInterval := n\<rparr>))
      else if key = ''CLAMAV_SLEEP_TIMER'' then
        bind_res (parseAppConfigInt key value) (\<lambda>n. Inr (cfg\<lparr>ClamAVSleepTimer := n\<rparr>))
      else if key = ''WEB_FIRSTRUN_COMPLETED'' then
        bind_res (parseAppConfigInt key value) (\<lambda>n. Inr (cfg\<lparr>WebFirstRunCompleted := n\<rparr>))
      else if key = ''WEB_LOGIN_MAX_TRIES'' then
        bind_res (parseAppConfigInt key value) (\<lambda>n. Inr (cfg\<lparr>WebLoginMaxTries := n\<rparr>))
      else if key = ''WEB_LOGIN_MAX_TRIES_OVERALL'' then
        bind_res (parseAppConfigInt key value) (\<lambda>n. Inr (cfg\<lparr>WebLoginMaxTriesOverall := n\<rparr>))
      else if key = ''WEB_LOGIN_COOLDOWN_INTERVAL'' then
        bind_res (parseAppConfigInt key value) (\<lambda>n. Inr (cfg\<lparr>WebLoginCooldownInterval := n\<rparr>))
      else if key = ''SERVER_TRUSTED_REVERSEPROXY'' then
        bind_res (normalizeTrustedReverseProxyList value)
          (\<lambda>v. Inr (cfg\<lparr>ServerTrustedReverseProxy := v\<rparr>))
      else if key = ''LOG_FILE_MAX_SIZE'' then
        bind_res (parseAppConfigInt key value) (\<lambda>n. Inr (cfg\<lparr>LogFileMaxSize := n\<rparr>))
      else if key = ''LOG_FILE_NUM'' then
        bind_res (parseAppConfigInt key value) (\<lambda>n. Inr (cfg\<lparr>LogFileNum := n\<rparr>))
      else if key = ''LOG_LEVEL'' then Inr (cfg\<lparr>LogLevel := ToLower value\<rparr>)
      else Inl (ErrText (''unsupported clamavweb config key '' @ [DQ] @ key @ [DQ])))"

fun parseConfigLines :: "nat \<Rightarrow> string list \<Rightarrow> appConfig \<Rightarrow> string list \<Rightarrow> appConfig res" where
  "parseConfigLines lineNo seen cfg [] = Inr cfg"
| "parseConfigLines lineNo seen cfg (raw # raws) =
     (if 64 * 1024 \<le> length raw then Inl (ErrText ''bufio.Scanner: token too long'')
      else
        let line = TrimSpace (TrimSuffix raw [CR]) in
        if line = [] \<or> HasPrefix line ''#'' then parseConfigLines (Suc lineNo) seen cfg raws
        else
          let (key0, value0, ok) = Cut line CHR ''='';
              key = TrimSpace key0; value = TrimSpace value0 in
          if \<not> ok \<or> key = []
            then Inl (ErrText (''invalid clamavweb config at line '' @ Itoa (int lineNo)))
          else if key \<in> set seen
            then Inl (ErrText (''duplicate clamavweb config key '' @ [DQ] @ key @ [DQ]))
          else bind_res (applyEntry key value cfg)
                 (\<lambda>cfg'. parseConfigLines (Suc lineNo) (key # seen) cfg' raws))"

definition parseAppConfig :: "string \<Rightarrow> appConfig res" where
  "parseAppConfig content =
     bind_res (parseConfigLines 1 [] defaultAppConfig (scanRaw content))
       (\<lambda>cfg. case validateAppConfig cfg of Some e \<Rightarrow> Inl e | None \<Rightarrow> Inr cfg)"

definition appConfigFileEntries :: "appConfig \<Rightarrow> (string \<times> string) list" where
  "appConfigFileEntries cfg =
     [(''HISTORY_INDEX_REFRESH_INTERVAL'', Itoa (HistoryIndexRefreshInterval cfg)),
      (''CLAMAV_SLEEP_TIMER'', Itoa (ClamAVSleepTimer cfg)),
      (''WEB_FIRSTRUN_COMPLETED'', Itoa (WebFirstRunCompleted cfg)),
      (''WEB_LOGIN_MAX_TRIES'', Itoa (WebLoginMaxTries cfg)),
      (''WEB_LOGIN_MAX_TRIES_OVERALL'', Itoa (WebLoginMaxTriesOverall cfg)),
      (''WEB_LOGIN_COOLDOWN_INTERVAL'', Itoa (WebLoginCooldownInterval cfg)),
      (''SERVER_TRUSTED_REVERSEPROXY'', ServerTrustedReverseProxy cfg),
      (''LOG_FILE_MAX_SIZE'', Itoa (LogFileMaxSize cfg)),
      (''LOG_FILE_NUM'', Itoa (LogFileNum cfg)),
      (''LOG_LEVEL'', LogLevel cfg)]"

definition changedAppConfigKeys :: "appConfig \<Rightarrow> appConfig \<Rightarrow> string list" where
  "changedAppConfigKeys current nxt =
     map (\<lambda>(c, n). fst n)
       (filter (\<lambda>(c, n). snd c \<noteq> snd n) (zip (appConfigFileEntries current) (appConfigFileEntries nxt)))"

section \<open>Merging\<close>

text \<open>\<^verbatim>\<open>strings.SplitAfter(content, "\n")\<close>: the lines with their line feeds.\<close>

fun SplitAfterLF :: "string \<Rightarrow> string list" where
  "SplitAfterLF [] = [[]]"
| "SplitAfterLF (c # cs) =
     (if c = LF then [LF] # SplitAfterLF cs
      else case SplitAfterLF cs of [] \<Rightarrow> [[c]] | l # ls \<Rightarrow> (c # l) # ls)"

text \<open>
  One segment of the loop: the segment as it stays or is rewritten, and the known key it
  defines, if any.
\<close>

definition mergeSegment ::
    "(string \<times> string) list \<Rightarrow> string list \<Rightarrow> string \<Rightarrow> string \<times> string option" where
  "mergeSegment entries changed segment =
     (let line0 = TrimSuffix segment [LF];
          ending0 = TrimPrefix segment line0;
          (line, ending) = (if HasSuffix line0 [CR] then (TrimSuffix line0 [CR], CR # ending0)
                            else (line0, ending0));
          trimmed = TrimSpace line
      in if trimmed = [] \<or> HasPrefix trimmed ''#'' then (segment, None)
         else let (key0, _, ok) = Cut trimmed CHR ''=''; key = TrimSpace key0 in
           if \<not> ok then (segment, None)
           else case map_of entries key of
             None \<Rightarrow> (segment, None)
           | Some value \<Rightarrow>
               if key \<in> set changed then
                 (case IndexByte line CHR ''='' of
                    None \<Rightarrow> (segment, Some key)
                  | Some equals \<Rightarrow> (take (Suc equals) line @ value @ ending, Some key))
               else (segment, Some key))"

definition appendEntry :: "string \<Rightarrow> string \<times> string \<Rightarrow> string" where
  "appendEntry merged entry =
     (if merged \<noteq> [] \<and> \<not> HasSuffix merged [LF] then merged @ [LF] else merged)
       @ fst entry @ ''='' @ snd entry @ [LF]"

definition mergeAppConfigContent :: "string \<Rightarrow> appConfig \<Rightarrow> string list \<Rightarrow> string" where
  "mergeAppConfigContent content cfg changed =
     (let entries = appConfigFileEntries cfg;
          segments = map (mergeSegment entries changed) (SplitAfterLF content);
          seen = List.map_filter snd segments;
          merged = concat (map fst segments)
      in foldl appendEntry merged (filter (\<lambda>entry. fst entry \<notin> set seen) entries))"

section \<open>The store\<close>

text \<open>
  The file and the configuration in memory. \<open>file\<close> is the content of the file, \<open>None\<close> when it
  does not exist; \<open>readErr\<close> and \<open>writeErr\<close> are what reading and (atomically) replacing the file
  fail with.
\<close>

record appConfigStore =
  store_file :: "string option"
  store_cfg :: appConfig

definition store_update ::
    "goerror option \<Rightarrow> goerror option \<Rightarrow> appConfig \<Rightarrow> appConfigStore \<Rightarrow> appConfigStore res" where
  "store_update readErr writeErr next0 s =
     bind_res (normalizeTrustedReverseProxyList (ServerTrustedReverseProxy next0)) (\<lambda>trusted.
       let nxt = next0\<lparr>ServerTrustedReverseProxy := trusted\<rparr> in
       case validateAppConfig nxt of
         Some e \<Rightarrow> Inl e
       | None \<Rightarrow>
         (case readErr of
            Some e \<Rightarrow> Inl e
          | None \<Rightarrow>
            let original = (case store_file s of None \<Rightarrow> [] | Some data \<Rightarrow> data);
                content = mergeAppConfigContent original nxt (changedAppConfigKeys (store_cfg s) nxt)
            in bind_res (parseAppConfig content) (\<lambda>final.
                 if content \<noteq> original then
                   (case writeErr of
                      Some e \<Rightarrow> Inl e
                    | None \<Rightarrow> Inr (s\<lparr>store_file := Some content, store_cfg := final\<rparr>))
                 else Inr (s\<lparr>store_cfg := final\<rparr>))))"

definition ensureAndReload ::
    "goerror option \<Rightarrow> goerror option \<Rightarrow> appConfigStore \<Rightarrow> appConfigStore res" where
  "ensureAndReload readErr writeErr s =
     (case readErr of
        Some e \<Rightarrow> Inl e
      | None \<Rightarrow>
        (case store_file s of
           None \<Rightarrow>
             (case writeErr of
                Some e \<Rightarrow> Inl e
              | None \<Rightarrow> Inr (s\<lparr>store_file := Some (mergeAppConfigContent [] defaultAppConfig []),
                               store_cfg := defaultAppConfig\<rparr>))
         | Some data \<Rightarrow>
             bind_res (parseAppConfig data) (\<lambda>cfg.
               let merged = mergeAppConfigContent data cfg [] in
               if merged \<noteq> data then
                 (case writeErr of
                    Some e \<Rightarrow> Inl e
                  | None \<Rightarrow> Inr (s\<lparr>store_file := Some merged, store_cfg := cfg\<rparr>))
               else Inr (s\<lparr>store_cfg := cfg\<rparr>))))"

section \<open>Bounds\<close>

definition withinLimits :: "appConfig \<Rightarrow> bool" where
  "withinLimits cfg \<longleftrightarrow>
     5 \<le> HistoryIndexRefreshInterval cfg \<and> HistoryIndexRefreshInterval cfg \<le> 86400 \<and>
     (ClamAVSleepTimer cfg = 0 \<or> (600 \<le> ClamAVSleepTimer cfg \<and> ClamAVSleepTimer cfg * Second < 2 ^ 63)) \<and>
     WebFirstRunCompleted cfg \<in> {0, 2} \<and>
     1 \<le> WebLoginMaxTries cfg \<and> WebLoginMaxTries cfg \<le> WebLoginMaxTriesOverall cfg \<and>
     WebLoginMaxTriesOverall cfg \<le> 1000000 \<and>
     1 \<le> WebLoginCooldownInterval cfg \<and> WebLoginCooldownInterval cfg \<le> 86400 \<and>
     65536 \<le> LogFileMaxSize cfg \<and> LogFileMaxSize cfg \<le> 2 ^ 30 \<and>
     1 \<le> LogFileNum cfg \<and> LogFileNum cfg \<le> 100 \<and>
     LogLevel cfg \<in> {''debug'', ''info'', ''warn'', ''error''}"

lemma validateAppConfig_None:
  "validateAppConfig cfg = None \<longleftrightarrow>
     withinLimits cfg \<and> WebLoginMaxTries cfg \<le> 10000 \<and>
     (\<exists>v. normalizeTrustedReverseProxyList (ServerTrustedReverseProxy cfg) = Inr v)"
  unfolding validateAppConfig_def withinLimits_def Second_def
  by (auto split: sum.splits if_splits)

lemma parseAppConfig_valid: "parseAppConfig content = Inr cfg \<Longrightarrow> validateAppConfig cfg = None"
  by (auto simp: parseAppConfig_def split: option.splits)

lemma defaultAppConfig_valid: "validateAppConfig defaultAppConfig = None"
  by code_simp

lemma store_update_valid:
  "store_update re we nxt s = Inr t \<Longrightarrow> validateAppConfig (store_cfg t) = None"
  by (auto simp: store_update_def Let_def parseAppConfig_valid split: option.splits if_splits)

lemma ensureAndReload_valid:
  "ensureAndReload re we s = Inr t \<Longrightarrow> validateAppConfig (store_cfg t) = None"
  by (auto simp: ensureAndReload_def Let_def parseAppConfig_valid defaultAppConfig_valid
      split: option.splits if_splits)

section \<open>What the merge keeps\<close>

lemma SplitAfterLF_concat: "concat (SplitAfterLF s) = s"
  by (induction s) (auto split: list.splits)

lemma mergeSegment_unchanged: "fst (mergeSegment entries [] segment) = segment"
  by (auto simp: mergeSegment_def Let_def split: option.splits prod.splits)

lemma appendEntry_prefix: "prefix merged (appendEntry merged e)"
  by (auto simp: appendEntry_def)

lemma foldl_appendEntry_prefix: "prefix merged (foldl appendEntry merged es)"
proof (induction es arbitrary: merged)
  case (Cons e es)
  then show ?case using appendEntry_prefix prefix_order.trans by (metis foldl_Cons)
qed simp

lemma merge_keeps_content: "prefix content (mergeAppConfigContent content cfg [])"
proof -
  have "map fst (map (mergeSegment es []) (SplitAfterLF content)) = SplitAfterLF content" for es
    by (simp add: map_idI mergeSegment_unchanged)
  then show ?thesis
    using foldl_appendEntry_prefix unfolding mergeAppConfigContent_def Let_def
    by (metis SplitAfterLF_concat)
qed

section \<open>Properties\<close>

text \<open>
  whatever the configuration file holds and whatever the administration interface asks for,
  a configuration that reaches memory is within its limits: the sleep timer is off or at least
  ten minutes and fits a duration in nanoseconds, the login limits are ordered and positive, the
  cooldown is at least a second, the log settings are usable.
\<close>

theorem config_in_memory_within_limits:
  assumes "store_update readErr writeErr nxt s = Inr t \<or> ensureAndReload readErr writeErr s = Inr t"
  shows "withinLimits (store_cfg t)"
  using assms store_update_valid ensureAndReload_valid validateAppConfig_None by blast

definition sampleStore :: appConfigStore where
  "sampleStore = \<lparr> store_file = Some (''# mine'' @ [LF]), store_cfg = defaultAppConfig \<rparr>"

lemma sampleStore_parses: "parseAppConfig (''# mine'' @ [LF]) = Inr defaultAppConfig"
proof -
  have "TrimSpace (TrimSuffix ''# mine'' [CR]) = ''# mine''" by code_simp
  then have "parseConfigLines 1 [] defaultAppConfig [''# mine''] = Inr defaultAppConfig"
    by (simp add: HasPrefix_def)
  then show ?thesis by (simp add: parseAppConfig_def defaultAppConfig_valid)
qed

lemma sampleStore_reloads: "\<exists>t. ensureAndReload None None sampleStore = Inr t"
  by (simp add: ensureAndReload_def sampleStore_def sampleStore_parses [simplified] Let_def)

theorem config_in_memory_within_limits_witness:
  "\<exists>t. ensureAndReload None None sampleStore = Inr t \<and> withinLimits (store_cfg t)"
  using sampleStore_reloads config_in_memory_within_limits by blast

text \<open>
  loading the configuration never rewrites the administrator's text: the file afterwards
  starts with the file as it was, and only settings it does not mention are added at its end.
\<close>

theorem reload_keeps_file:
  assumes "store_file s = Some data" and "ensureAndReload readErr writeErr s = Inr t"
  shows "\<exists>more. store_file t = Some (data @ more)"
proof -
  have "prefix data (mergeAppConfigContent data cfg [])" for cfg by (rule merge_keeps_content)
  then show ?thesis
    using assms by (auto simp: ensureAndReload_def Let_def prefix_def split: option.splits if_splits)
qed

theorem reload_keeps_file_witness:
  "\<exists>t more. ensureAndReload None None sampleStore = Inr t \<and>
     store_file t = Some ((''# mine'' @ [LF]) @ more)"
proof -
  obtain t where t: "ensureAndReload None None sampleStore = Inr t" using sampleStore_reloads by blast
  have "store_file sampleStore = Some (''# mine'' @ [LF])" by (simp add: sampleStore_def)
  from reload_keeps_file [OF this t] t show ?thesis by auto
qed

end
