(* ===== verification/Login_Limiter.thy ===== *)
theory Login_Limiter
  imports App_Config "HOL-Library.AList"
begin

text \<open>
  The login rate limiter of \<^verbatim>\<open>login_limiter.go\<close> and the derivation of the client address it is
  keyed by. The map by address is an association list with distinct keys, because the limiter
  asks for its size. Instants and durations are nanoseconds; a zero instant is Go's zero time.
\<close>

section \<open>State and operations\<close>

definition loginRateWindow :: duration where "loginRateWindow = 10 * Minute"

record loginIPState =
  ip_Attempts :: int
  ip_WindowEndsAt :: gotime
  ip_CooldownUntil :: gotime

record loginLimiter =
  byIP :: "(string \<times> loginIPState) list"
  globalAttempts :: int
  globalWindowEndsAt :: gotime
  globalCooldownUntil :: gotime

definition newLoginLimiter :: loginLimiter where
  "newLoginLimiter = \<lparr> byIP = [], globalAttempts = 0, globalWindowEndsAt = 0, globalCooldownUntil = 0 \<rparr>"

definition resetLocked :: "loginLimiter \<Rightarrow> loginLimiter" where
  "resetLocked l =
     l\<lparr>byIP := [], globalAttempts := 0, globalWindowEndsAt := 0, globalCooldownUntil := 0\<rparr>"

definition cooldown :: "appConfig \<Rightarrow> duration" where
  "cooldown cfg = WebLoginCooldownInterval cfg * Second"

definition startGlobalCooldownLocked :: "gotime \<Rightarrow> appConfig \<Rightarrow> loginLimiter \<Rightarrow> loginLimiter" where
  "startGlobalCooldownLocked now cfg l =
     l\<lparr>globalCooldownUntil := now + cooldown cfg, globalAttempts := 0, globalWindowEndsAt := 0,
       byIP := []\<rparr>"

text \<open>
  The three parts of \<^verbatim>\<open>allow\<close>: an expired global cooldown resets the limiter and an expired
  global window restarts; an address gets a new allowance or continues its current one; an
  attempt is consumed.
\<close>

definition rollGlobal :: "gotime \<Rightarrow> loginLimiter \<Rightarrow> loginLimiter" where
  "rollGlobal now l =
     (let l1 = (if \<not> IsZero (globalCooldownUntil l) then resetLocked l else l)
      in if IsZero (globalWindowEndsAt l1) \<or> \<not> now < globalWindowEndsAt l1
         then l1\<lparr>globalAttempts := 0, globalWindowEndsAt := now + loginRateWindow\<rparr> else l1)"

definition allowance :: "gotime \<Rightarrow> loginIPState option \<Rightarrow> loginIPState" where
  "allowance now found =
     (case found of
        None \<Rightarrow> \<lparr> ip_Attempts = 0, ip_WindowEndsAt = now + loginRateWindow, ip_CooldownUntil = 0 \<rparr>
      | Some state \<Rightarrow>
          if \<not> IsZero (ip_CooldownUntil state) \<or> \<not> now < ip_WindowEndsAt state
          then \<lparr> ip_Attempts = 0, ip_WindowEndsAt = now + loginRateWindow, ip_CooldownUntil = 0 \<rparr>
          else state)"

definition consume ::
    "string \<Rightarrow> gotime \<Rightarrow> appConfig \<Rightarrow> loginIPState \<Rightarrow> loginLimiter \<Rightarrow> loginLimiter" where
  "consume ip now cfg state0 l =
     (let state1 = state0\<lparr>ip_Attempts := ip_Attempts state0 + 1\<rparr>;
          l1 = l\<lparr>globalAttempts := globalAttempts l + 1\<rparr>;
          state2 = (if ip_Attempts state1 \<ge> WebLoginMaxTries cfg
                    then state1\<lparr>ip_CooldownUntil := now + cooldown cfg\<rparr> else state1);
          l2 = l1\<lparr>byIP := AList.update ip state2 (byIP l1)\<rparr>
      in if globalAttempts l2 \<ge> WebLoginMaxTriesOverall cfg
         then startGlobalCooldownLocked now cfg l2 else l2)"

definition coolingDown :: "gotime \<Rightarrow> loginIPState option \<Rightarrow> bool" where
  "coolingDown now found \<longleftrightarrow> (case found of None \<Rightarrow> False | Some state \<Rightarrow> now < ip_CooldownUntil state)"

definition allow ::
    "string \<Rightarrow> gotime \<Rightarrow> appConfig \<Rightarrow> loginLimiter \<Rightarrow> (bool \<times> duration) \<times> loginLimiter" where
  "allow ip now cfg l0 =
     (if now < globalCooldownUntil l0 then ((False, globalCooldownUntil l0 - now), l0)
      else
        let l = rollGlobal now l0;
            found = map_of (byIP l) ip
        in if coolingDown now found
           then ((False, ip_CooldownUntil (the found) - now), l)
           else if found = None \<and> int (length (byIP l)) \<ge> WebLoginMaxTriesOverall cfg
           then ((False, cooldown cfg), startGlobalCooldownLocked now cfg l)
           else ((True, 0), consume ip now cfg (allowance now found) l))"

definition cleanup :: "gotime \<Rightarrow> loginLimiter \<Rightarrow> loginLimiter" where
  "cleanup now l =
     (if \<not> IsZero (globalCooldownUntil l) \<and> \<not> now < globalCooldownUntil l then resetLocked l
      else
        let l1 = l\<lparr>byIP := filter (\<lambda>(ip, state). \<not> (\<not> now < ip_WindowEndsAt state \<and>
                                                   \<not> now < ip_CooldownUntil state)) (byIP l)\<rparr>
        in if \<not> IsZero (globalWindowEndsAt l1) \<and> \<not> now < globalWindowEndsAt l1
           then l1\<lparr>globalAttempts := 0, globalWindowEndsAt := 0\<rparr> else l1)"

text \<open>
  \<^verbatim>\<open>retryAfterSeconds\<close>: the wait rounded up to seconds. The waits of the limiter are at most a
  day, where the floating-point seconds are exact enough for the ceiling.
\<close>

definition retryAfterSeconds :: "duration \<Rightarrow> int" where
  "retryAfterSeconds wait = (let seconds = - ((- wait) div Second) in if seconds < 1 then 1 else seconds)"

section \<open>The client address\<close>

definition stripBrackets :: "string \<Rightarrow> string" where
  "stripBrackets s =
     rev (dropWhile (\<lambda>c. c \<in> set ''[]'') (rev (dropWhile (\<lambda>c. c \<in> set ''[]'') s)))"

definition addressIP :: "string \<Rightarrow> ip option" where
  "addressIP value0 =
     (let value = stripBrackets (TrimSpace value0);
          value1 = (case LastIndexByte value CHR ''%'' of Some zone \<Rightarrow> take zone value | None \<Rightarrow> value)
      in ParseIP value1)"

definition trustedProxyContains :: "string \<Rightarrow> ip \<Rightarrow> bool" where
  "trustedProxyContains configured remote \<longleftrightarrow>
     list_ex (\<lambda>value. ParseIP (TrimSpace value) = Some remote) (Split configured CHR '','')"

text \<open>\<^verbatim>\<open>net.SplitHostPort\<close>: the host, or \<open>None\<close> for an address it refuses.\<close>

definition splitHost :: "string \<Rightarrow> string option" where
  "splitHost hostport =
     (case LastIndexByte hostport CHR '':'' of
        None \<Rightarrow> None
      | Some i \<Rightarrow>
          if hd hostport = CHR ''['' then
            (case IndexByte hostport CHR '']'' of
               None \<Rightarrow> None
             | Some e \<Rightarrow>
                 if Suc e \<noteq> i then None
                 else if CHR ''['' \<in> set (drop 1 hostport) \<or> CHR '']'' \<in> set (drop (Suc e) hostport)
                 then None
                 else Some (take (e - 1) (drop 1 hostport)))
          else if CHR '':'' \<in> set (take i hostport) then None
          else if CHR ''['' \<in> set hostport \<or> CHR '']'' \<in> set hostport then None
          else Some (take i hostport))"

definition remoteHost :: "string \<Rightarrow> string" where
  "remoteHost remoteAddr = (case splitHost remoteAddr of Some host \<Rightarrow> host | None \<Rightarrow> remoteAddr)"

definition canonicalAddress :: "string \<Rightarrow> string" where
  "canonicalAddress value =
     (let host = remoteHost (TrimSpace value)
      in case addressIP host of Some ip \<Rightarrow> ipString ip | None \<Rightarrow> host)"

definition requestClientIP :: "string \<Rightarrow> string \<Rightarrow> string \<Rightarrow> string" where
  "requestClientIP remoteAddr forwardedFor trustedProxy =
     (case addressIP (remoteHost remoteAddr) of
        None \<Rightarrow> canonicalAddress remoteAddr
      | Some remote \<Rightarrow>
          if \<not> trustedProxyContains trustedProxy remote then canonicalAddress remoteAddr
          else case addressIP (TrimSpace (hd (Split forwardedFor CHR '',''))) of
            Some ip \<Rightarrow> ipString ip
          | None \<Rightarrow> ipString remote)"

section \<open>Runs of the limiter\<close>

datatype limiterEvent = Attempt string gotime | Janitor gotime

fun eventTime :: "limiterEvent \<Rightarrow> gotime" where
  "eventTime (Attempt ip now) = now"
| "eventTime (Janitor now) = now"

text \<open>The addresses whose attempts were let through, in order, and the final state.\<close>

fun runLimiter :: "appConfig \<Rightarrow> loginLimiter \<Rightarrow> limiterEvent list \<Rightarrow> string list \<times> loginLimiter" where
  "runLimiter cfg l [] = ([], l)"
| "runLimiter cfg l (Attempt ip now # evs) =
     (case allow ip now cfg l of
        ((ok, wait), l') \<Rightarrow>
          (case runLimiter cfg l' evs of (acc, t) \<Rightarrow> (if ok then ip # acc else acc, t)))"
| "runLimiter cfg l (Janitor now # evs) = runLimiter cfg (cleanup now l) evs"

section \<open>Invariants\<close>

definition distinctIPs :: "loginLimiter \<Rightarrow> bool" where
  "distinctIPs l \<longleftrightarrow> distinct (map fst (byIP l))"

lemma distinctIPs_ops [simp]:
  "distinctIPs newLoginLimiter" "distinctIPs (resetLocked l)"
  "distinctIPs (startGlobalCooldownLocked now cfg l)"
  "distinctIPs l \<Longrightarrow> distinctIPs (rollGlobal now l)"
  "distinctIPs l \<Longrightarrow> distinctIPs (consume ip now cfg st l)"
  by (auto simp: distinctIPs_def newLoginLimiter_def resetLocked_def startGlobalCooldownLocked_def
      rollGlobal_def consume_def Let_def distinct_update)

lemma distinctIPs_allow: "distinctIPs l \<Longrightarrow> distinctIPs (snd (allow ip now cfg l))"
  by (simp add: allow_def Let_def)

lemma distinctIPs_cleanup: "distinctIPs l \<Longrightarrow> distinctIPs (cleanup now l)"
  by (simp add: cleanup_def resetLocked_def Let_def distinctIPs_def distinct_map_filter)

lemma map_of_filter_keep:
  assumes "distinct (map fst es)"
  shows "map_of (filter keep es) ip =
           (case map_of es ip of Some v \<Rightarrow> (if keep (ip, v) then Some v else None) | None \<Rightarrow> None)"
  using assms
proof (induction es)
  case (Cons x es)
  obtain i v where x: "x = (i, v)" by (cases x)
  have "i = ip \<Longrightarrow> map_of (filter keep es) ip = None"
    using Cons.prems by (auto simp: x map_of_eq_None_iff)
  with Cons show ?case by (auto simp: x split: option.splits)
qed simp

lemma rollGlobal_quiet:
  "globalCooldownUntil l = 0 \<Longrightarrow>
     byIP (rollGlobal now l) = byIP l \<and> globalCooldownUntil (rollGlobal now l) = 0"
  by (simp add: rollGlobal_def IsZero_def Let_def)

lemma consume_quiet:
  assumes "globalAttempts l + 1 < WebLoginMaxTriesOverall cfg"
  shows "consume ip now cfg st l = l\<lparr>globalAttempts := globalAttempts l + 1,
     byIP := AList.update ip (st\<lparr>ip_Attempts := ip_Attempts st + 1,
        ip_CooldownUntil := (if ip_Attempts st + 1 \<ge> WebLoginMaxTries cfg then now + cooldown cfg
                             else ip_CooldownUntil st)\<rparr>) (byIP l)\<rparr>"
  using assms by (simp add: consume_def Let_def)

lemma consume_global:
  "globalAttempts l + 1 \<ge> WebLoginMaxTriesOverall cfg \<Longrightarrow>
     consume ip now cfg st l = startGlobalCooldownLocked now cfg l"
  by (simp add: consume_def Let_def startGlobalCooldownLocked_def)

section \<open>Lockout\<close>

text \<open>An address is blocked until an instant by its own cooldown or by the global one.\<close>

definition blockedUntil :: "string \<Rightarrow> gotime \<Rightarrow> loginLimiter \<Rightarrow> bool" where
  "blockedUntil ip t l \<longleftrightarrow>
     t \<le> globalCooldownUntil l \<or>
     (globalCooldownUntil l = 0 \<and> (\<exists>st. map_of (byIP l) ip = Some st \<and> t \<le> ip_CooldownUntil st))"

lemma blockedUntil_refuses:
  assumes "blockedUntil ip t l" and "0 < now" and "now < t"
  shows "\<exists>wait. fst (allow ip now cfg l) = (False, wait) \<and> t - now \<le> wait"
proof (cases "t \<le> globalCooldownUntil l")
  case True
  with assms(3) show ?thesis by (auto simp: allow_def)
next
  case False
  then obtain st where "globalCooldownUntil l = 0" "map_of (byIP l) ip = Some st" "t \<le> ip_CooldownUntil st"
    using assms(1) by (auto simp: blockedUntil_def)
  with assms show ?thesis
    using rollGlobal_quiet [of l now] by (auto simp: allow_def Let_def coolingDown_def)
qed

lemma blockedUntil_allow:
  assumes "blockedUntil ip t l" and "0 < now" and "now < t" and "t \<le> now + cooldown cfg"
  shows "blockedUntil ip t (snd (allow ip' now cfg l))"
proof (cases "t \<le> globalCooldownUntil l")
  case True
  with assms show ?thesis by (auto simp: allow_def)
next
  case False
  then obtain st where quiet: "globalCooldownUntil l = 0"
    and st: "map_of (byIP l) ip = Some st" "t \<le> ip_CooldownUntil st"
    using assms(1) by (auto simp: blockedUntil_def)
  let ?l = "rollGlobal now l"
  have roll: "byIP ?l = byIP l" "globalCooldownUntil ?l = 0" using rollGlobal_quiet [OF quiet] by auto
  have stay: "blockedUntil ip t ?l" using st roll by (auto simp: blockedUntil_def)
  have global: "blockedUntil ip t (startGlobalCooldownLocked now cfg m)" for m
    using assms(4) by (simp add: blockedUntil_def startGlobalCooldownLocked_def)
  have consumed: "blockedUntil ip t (consume ip' now cfg s ?l)" if "ip' \<noteq> ip" for s
  proof (cases "globalAttempts ?l + 1 < WebLoginMaxTriesOverall cfg")
    case True
    then show ?thesis
      using st roll that by (auto simp: consume_quiet blockedUntil_def update_conv')
  qed (simp add: consume_global global)
  have "coolingDown now (map_of (byIP ?l) ip)"
    using st assms(3) roll by (simp add: coolingDown_def)
  then show ?thesis
    using stay global consumed quiet assms(2) by (cases "ip' = ip") (simp_all add: allow_def Let_def)
qed

lemma blockedUntil_cleanup:
  assumes "blockedUntil ip t l" and "distinctIPs l" and "0 < now" and "now < t"
  shows "blockedUntil ip t (cleanup now l)"
proof (cases "t \<le> globalCooldownUntil l")
  case True
  with assms(4) show ?thesis by (simp add: blockedUntil_def cleanup_def Let_def IsZero_def)
next
  case False
  then obtain st where "globalCooldownUntil l = 0" "map_of (byIP l) ip = Some st" "t \<le> ip_CooldownUntil st"
    using assms(1) by (auto simp: blockedUntil_def)
  with assms(2,4) show ?thesis
    by (simp add: blockedUntil_def cleanup_def Let_def IsZero_def distinctIPs_def map_of_filter_keep)
qed

lemma blockedUntil_run:
  assumes "blockedUntil ip t l" and "distinctIPs l"
    and "\<forall>ev \<in> set evs. 0 < eventTime ev \<and> eventTime ev < t \<and> t \<le> eventTime ev + cooldown cfg"
  shows "blockedUntil ip t (snd (runLimiter cfg l evs)) \<and> ip \<notin> set (fst (runLimiter cfg l evs))"
  using assms
proof (induction evs arbitrary: l)
  case (Cons ev evs)
  show ?case
  proof (cases ev)
    case (Attempt ip' now)
    let ?l = "snd (allow ip' now cfg l)"
    have time: "0 < now" "now < t" "t \<le> now + cooldown cfg" using Cons.prems(3) Attempt by auto
    have "blockedUntil ip t ?l" by (rule blockedUntil_allow [OF Cons.prems(1) time])
    then have IH: "blockedUntil ip t (snd (runLimiter cfg ?l evs)) \<and> ip \<notin> set (fst (runLimiter cfg ?l evs))"
      using Cons.IH Cons.prems distinctIPs_allow by simp
    moreover have "ip' = ip \<Longrightarrow> \<not> fst (fst (allow ip' now cfg l))"
      using blockedUntil_refuses [OF Cons.prems(1) time(1,2)] by (metis fst_conv)
    ultimately show ?thesis unfolding Attempt by (auto simp: case_prod_unfold)
  next
    case (Janitor now)
    with Cons show ?thesis by (simp add: blockedUntil_cleanup distinctIPs_cleanup)
  qed
qed simp

section \<open>Counting accepted attempts\<close>

text \<open>
  The state of a limiter that started empty, before the instant \<open>t\<close>: \<open>acc\<close> are the addresses
  let through so far.
\<close>

definition ipCounted :: "gotime \<Rightarrow> appConfig \<Rightarrow> int \<Rightarrow> loginIPState option \<Rightarrow> bool" where
  "ipCounted t cfg n found \<longleftrightarrow>
     (case found of
        None \<Rightarrow> n = 0
      | Some st \<Rightarrow> ip_Attempts st = n \<and> t \<le> ip_WindowEndsAt st \<and>
          (ip_CooldownUntil st = 0 \<and> n < WebLoginMaxTries cfg \<or>
           t \<le> ip_CooldownUntil st \<and> n = WebLoginMaxTries cfg))"

definition counted :: "gotime \<Rightarrow> appConfig \<Rightarrow> string list \<Rightarrow> loginLimiter \<Rightarrow> bool" where
  "counted t cfg acc l \<longleftrightarrow>
     distinctIPs l \<and>
     (t \<le> globalCooldownUntil l \<and> int (length acc) \<le> WebLoginMaxTriesOverall cfg \<and>
        (\<forall>ip. int (count_list acc ip) \<le> WebLoginMaxTries cfg) \<or>
      globalCooldownUntil l = 0 \<and> int (length acc) < WebLoginMaxTriesOverall cfg \<and>
        (\<forall>ip. ipCounted t cfg (int (count_list acc ip)) (map_of (byIP l) ip)) \<and>
        (globalWindowEndsAt l = 0 \<and> acc = [] \<or>
         t \<le> globalWindowEndsAt l \<and> globalAttempts l = int (length acc)))"

lemma ipCounted_le: "ipCounted t cfg n found \<Longrightarrow> 0 \<le> WebLoginMaxTries cfg \<Longrightarrow> n \<le> WebLoginMaxTries cfg"
  by (auto simp: ipCounted_def split: option.splits)

lemma counted_bounds:
  assumes "counted t cfg acc l" and "0 \<le> WebLoginMaxTries cfg"
  shows "int (length acc) \<le> WebLoginMaxTriesOverall cfg \<and> int (count_list acc ip) \<le> WebLoginMaxTries cfg"
  using assms ipCounted_le unfolding counted_def by fastforce

lemma allowance_counted:
  assumes "ipCounted t cfg n found" and "\<not> coolingDown now found" and "now < t" and "t \<le> now + loginRateWindow"
    and "1 \<le> WebLoginMaxTries cfg"
  shows "ip_Attempts (allowance now found) = n" and "t \<le> ip_WindowEndsAt (allowance now found)"
    and "ip_CooldownUntil (allowance now found) = 0" and "n < WebLoginMaxTries cfg"
  using assms
  by (auto simp: ipCounted_def allowance_def coolingDown_def IsZero_def split: option.splits)

lemma rollGlobal_counted:
  assumes "counted t cfg acc l" and "globalCooldownUntil l = 0" and "0 < now" and "now < t"
    and "t \<le> now + loginRateWindow"
  shows "globalAttempts (rollGlobal now l) = int (length acc)"
    and "t \<le> globalWindowEndsAt (rollGlobal now l)"
    and "counted t cfg acc (rollGlobal now l)"
  using assms by (auto simp: counted_def rollGlobal_def IsZero_def Let_def distinctIPs_def)

lemma consume_counted:
  assumes l: "counted t cfg acc l" "globalCooldownUntil l = 0" "globalAttempts l = int (length acc)"
      "t \<le> globalWindowEndsAt l"
    and st: "ip_Attempts st = int (count_list acc ip)" "t \<le> ip_WindowEndsAt st" "ip_CooldownUntil st = 0"
      "int (count_list acc ip) < WebLoginMaxTries cfg"
    and t: "0 < t" "t \<le> now + cooldown cfg"
  shows "counted t cfg (acc @ [ip]) (consume ip now cfg st l)"
proof -
  have lt: "int (length acc) < WebLoginMaxTriesOverall cfg" and d: "distinctIPs l"
    and each: "\<forall>j. ipCounted t cfg (int (count_list acc j)) (map_of (byIP l) j)"
    using l(1,2) t(1) by (auto simp: counted_def)
  have bound: "int (count_list (acc @ [ip]) j) \<le> WebLoginMaxTries cfg" for j
    using each st(4) ipCounted_le [of t cfg "int (count_list acc j)" "map_of (byIP l) j"] by auto
  show ?thesis
  proof (cases "globalAttempts l + 1 < WebLoginMaxTriesOverall cfg")
    case True
    have d': "distinctIPs (consume ip now cfg st l)" using d by simp
    have "ipCounted t cfg (int (count_list (acc @ [ip]) j)) (map_of (byIP (consume ip now cfg st l)) j)" for j
    proof (cases "j = ip")
      case True
      then show ?thesis
        using st t by (auto simp: consume_quiet [OF \<open>globalAttempts l + 1 < _\<close>] update_conv' ipCounted_def)
    next
      case False
      then show ?thesis
        using each by (simp add: consume_quiet [OF True] update_conv')
    qed
    with True d' l(2-4) show ?thesis
      unfolding counted_def by (simp add: consume_quiet [OF True])
  next
    case False
    then have "counted t cfg (acc @ [ip]) (startGlobalCooldownLocked now cfg l)"
      using bound t(2) lt by (auto simp: counted_def startGlobalCooldownLocked_def distinctIPs_def)
    with False show ?thesis by (simp add: consume_global)
  qed
qed

lemma allow_counted:
  assumes inv: "counted t cfg acc l" and time: "0 < now" "now < t" "t \<le> now + loginRateWindow"
      "t \<le> now + cooldown cfg" and cfg: "1 \<le> WebLoginMaxTries cfg"
  shows "counted t cfg (if fst (fst (allow ip now cfg l)) then acc @ [ip] else acc) (snd (allow ip now cfg l))"
proof (cases "now < globalCooldownUntil l")
  case True
  with inv show ?thesis by (simp add: allow_def)
next
  case False
  with inv time have quiet: "globalCooldownUntil l = 0" by (auto simp: counted_def)
  let ?l = "rollGlobal now l" and ?f = "map_of (byIP (rollGlobal now l)) ip"
  note roll = rollGlobal_counted [OF inv quiet time(1-3)]
  have quiet': "globalCooldownUntil ?l = 0" using rollGlobal_quiet [OF quiet] by simp
  have each: "ipCounted t cfg (int (count_list acc ip)) ?f"
    using roll(3) quiet' time by (auto simp: counted_def)
  show ?thesis
  proof (cases "coolingDown now ?f")
    case True
    then show ?thesis using False roll by (simp add: allow_def Let_def)
  next
    case warm: False
    show ?thesis
    proof (cases "?f = None \<and> int (length (byIP ?l)) \<ge> WebLoginMaxTriesOverall cfg")
      case True
      have "counted t cfg acc (startGlobalCooldownLocked now cfg ?l)"
        using counted_bounds [OF roll(3)] cfg time(4)
        by (simp add: counted_def startGlobalCooldownLocked_def distinctIPs_def)
      then show ?thesis using False warm True by (simp add: allow_def Let_def)
    next
      case admit: False
      have "counted t cfg (acc @ [ip]) (consume ip now cfg (allowance now ?f) ?l)"
        using time cfg allowance_counted [OF each warm time(2,3) cfg]
        by (intro consume_counted roll quiet') auto
      then show ?thesis using False warm admit by (auto simp: allow_def Let_def)
    qed
  qed
qed

lemma cleanup_counted:
  assumes "counted t cfg acc l" and "0 < now" and "now < t"
  shows "counted t cfg acc (cleanup now l)"
proof -
  have d: "distinct (map fst (byIP l))" "distinctIPs (cleanup now l)"
    using assms(1) distinctIPs_cleanup by (auto simp: counted_def distinctIPs_def)
  have keep: "ipCounted t cfg n (map_of (filter (\<lambda>(ip, state). \<not> (\<not> now < ip_WindowEndsAt state \<and>
      \<not> now < ip_CooldownUntil state)) (byIP l)) ip)" if "ipCounted t cfg n (map_of (byIP l) ip)" for n ip
    using that assms(3) by (auto simp: map_of_filter_keep [OF d(1)] ipCounted_def split: option.splits)
  show ?thesis
    using assms d(2) keep unfolding counted_def cleanup_def Let_def IsZero_def by auto
qed

lemma runLimiter_counted:
  assumes "counted t cfg acc l" and "1 \<le> WebLoginMaxTries cfg"
    and "\<forall>ev \<in> set evs. 0 < eventTime ev \<and> eventTime ev < t \<and>
           t \<le> eventTime ev + loginRateWindow \<and> t \<le> eventTime ev + cooldown cfg"
  shows "counted t cfg (acc @ fst (runLimiter cfg l evs)) (snd (runLimiter cfg l evs))"
  using assms
proof (induction evs arbitrary: l acc)
  case (Cons ev evs)
  show ?case
  proof (cases ev)
    case (Attempt ip now)
    have time: "0 < now" "now < t" "t \<le> now + loginRateWindow" "t \<le> now + cooldown cfg"
      using Cons.prems(3) Attempt by auto
    from Cons.IH [OF allow_counted [OF Cons.prems(1) time Cons.prems(2), of ip] Cons.prems(2)] Cons.prems(3)
    show ?thesis by (auto simp: Attempt case_prod_unfold split: if_splits)
  next
    case (Janitor now)
    with Cons show ?thesis by (simp add: cleanup_counted)
  qed
qed simp

lemma counted_new:
  "1 \<le> WebLoginMaxTries cfg \<Longrightarrow> 1 \<le> WebLoginMaxTriesOverall cfg \<Longrightarrow> counted t cfg [] newLoginLimiter"
  by (auto simp: counted_def newLoginLimiter_def ipCounted_def distinctIPs_def)

section \<open>Size and clean-up\<close>

lemma rollGlobal_cooldown [simp]: "globalCooldownUntil (rollGlobal now l) = 0"
  by (simp add: rollGlobal_def resetLocked_def IsZero_def Let_def)

lemma length_AList_update:
  "length (AList.update k v al) = (if map_of al k = None then Suc (length al) else length al)"
  by (induction al) auto

lemma allow_size:
  assumes "int (length (byIP l)) \<le> WebLoginMaxTriesOverall cfg"
  shows "int (length (byIP (snd (allow ip now cfg l)))) \<le> WebLoginMaxTriesOverall cfg"
proof -
  have roll: "int (length (byIP (rollGlobal now l))) \<le> WebLoginMaxTriesOverall cfg"
    using assms by (auto simp: rollGlobal_def resetLocked_def Let_def)
  have "0 \<le> WebLoginMaxTriesOverall cfg" using assms by linarith
  then show ?thesis
    using assms roll
    by (auto simp: allow_def consume_def startGlobalCooldownLocked_def Let_def length_AList_update)
qed

lemma cleanup_size: "length (byIP (cleanup now l)) \<le> length (byIP l)"
  by (auto simp: cleanup_def resetLocked_def Let_def intro: order_trans [OF length_filter_le])

text \<open>
  An entry that the clean-up removes would get a new allowance anyway.
\<close>

lemma expired_allowance:
  assumes "now \<le> now'" and "\<not> now < ip_WindowEndsAt st" and "\<not> now < ip_CooldownUntil st"
  shows "\<not> coolingDown now' (Some st)" and "allowance now' (Some st) = allowance now' None"
  using assms by (auto simp: coolingDown_def allowance_def)

lemma cleanup_decision:
  assumes d: "distinctIPs l" and room: "int (length (byIP l)) < WebLoginMaxTriesOverall cfg"
    and later: "0 < now" "now \<le> now'"
  shows "fst (allow ip now' cfg (cleanup now l)) = fst (allow ip now' cfg l)"
proof (cases "\<not> IsZero (globalCooldownUntil l) \<and> \<not> now < globalCooldownUntil l")
  case True
  then have "cleanup now l = resetLocked l" by (simp add: cleanup_def)
  moreover have "rollGlobal now' (resetLocked l) = rollGlobal now' l" using True
    by (simp add: rollGlobal_def resetLocked_def IsZero_def Let_def)
  ultimately show ?thesis
    using True later by (simp add: allow_def resetLocked_def IsZero_def)
next
  case False
  let ?P = "\<lambda>(ip, state). \<not> (\<not> now < ip_WindowEndsAt state \<and> \<not> now < ip_CooldownUntil state)"
  have gcu: "globalCooldownUntil (cleanup now l) = globalCooldownUntil l"
    and by': "byIP (cleanup now l) = filter ?P (byIP l)"
    using False by (auto simp: cleanup_def Let_def)
  show ?thesis
  proof (cases "now' < globalCooldownUntil l")
    case True
    then show ?thesis by (simp add: allow_def gcu)
  next
    case warm: False
    show ?thesis
    proof (cases "globalCooldownUntil l = 0")
      case False
      then have "rollGlobal now' (cleanup now l) = rollGlobal now' l"
        by (simp add: rollGlobal_def IsZero_def resetLocked_def gcu Let_def)
      then show ?thesis using warm by (simp add: allow_def gcu)
    next
    case quiet: True
    have b: "byIP (rollGlobal now' l) = byIP l"
        "byIP (rollGlobal now' (cleanup now l)) = filter ?P (byIP l)"
      using rollGlobal_quiet [of l now'] rollGlobal_quiet [of "cleanup now l" now'] quiet gcu by' by auto
    have room': "int (length (filter ?P (byIP l))) < WebLoginMaxTriesOverall cfg"
      using room length_filter_le [of ?P "byIP l"] by linarith
    have found: "map_of (filter ?P (byIP l)) ip =
        (case map_of (byIP l) ip of None \<Rightarrow> None | Some v \<Rightarrow> if ?P (ip, v) then Some v else None)"
      using d by (intro map_of_filter_keep) (simp add: distinctIPs_def)
    have same: "coolingDown now' (map_of (filter ?P (byIP l)) ip) = coolingDown now' (map_of (byIP l) ip) \<and>
        (coolingDown now' (map_of (byIP l) ip) \<longrightarrow> map_of (filter ?P (byIP l)) ip = map_of (byIP l) ip)"
      unfolding found using expired_allowance(1) [OF later(2)]
      by (auto simp: coolingDown_def split: option.splits)
    show ?thesis
      using warm room room' same unfolding allow_def Let_def gcu b by auto
    qed
  qed
qed

section \<open>Properties\<close>



text \<open>
  C8: the lockout holds. The attempt that uses up an address's allowance is itself let through;
  from then on, for the whole cooldown and whatever other addresses and the janitor do, no
  attempt from that address is let through, and a refused attempt is told to wait at least
  until the cooldown ends.
\<close>

theorem lockout_holds:
  assumes "distinctIPs l" and "0 < a" and "fst (allow ip a cfg l) = (True, 0)"
    and "ip_Attempts (allowance a (map_of (byIP (rollGlobal a l)) ip)) + 1 \<ge> WebLoginMaxTries cfg"
    and "\<forall>ev \<in> set evs. a \<le> eventTime ev \<and> eventTime ev < a + cooldown cfg"
    and "a \<le> b" and "b < a + cooldown cfg"
  shows "ip \<notin> set (fst (runLimiter cfg (snd (allow ip a cfg l)) evs)) \<and>
         (\<exists>wait. fst (allow ip b cfg (snd (runLimiter cfg (snd (allow ip a cfg l)) evs))) = (False, wait) \<and>
                 a + cooldown cfg - b \<le> wait)"
proof -
  let ?l = "snd (allow ip a cfg l)"
  have cons: "?l = consume ip a cfg (allowance a (map_of (byIP (rollGlobal a l)) ip)) (rollGlobal a l)"
    using assms(3) by (auto simp: allow_def Let_def split: if_splits)
  have block: "blockedUntil ip (a + cooldown cfg) ?l"
  proof (cases "globalAttempts (rollGlobal a l) + 1 < WebLoginMaxTriesOverall cfg")
    case True
    then show ?thesis using assms(4)
      unfolding cons by (simp add: consume_quiet blockedUntil_def update_conv')
  next
    case False
    then show ?thesis
      unfolding cons by (simp add: consume_global startGlobalCooldownLocked_def blockedUntil_def)
  qed
  have "\<forall>ev \<in> set evs. 0 < eventTime ev \<and> eventTime ev < a + cooldown cfg \<and>
           a + cooldown cfg \<le> eventTime ev + cooldown cfg" using assms(2,5) by auto
  from blockedUntil_run [OF block distinctIPs_allow [OF assms(1)] this]
  show ?thesis using blockedUntil_refuses [of ip "a + cooldown cfg" _ b cfg] assms(2,6,7) by auto
qed

definition strictConfig :: appConfig where
  "strictConfig = defaultAppConfig\<lparr>WebLoginMaxTries := 1\<rparr>"

theorem lockout_holds_witness:
  "\<exists>wait. fst (allow ''10.0.0.1'' 5 strictConfig (snd (allow ''10.0.0.1'' 3 strictConfig newLoginLimiter)))
     = (False, wait) \<and> 3 + cooldown strictConfig - 5 \<le> wait"
proof -
  have 1: "fst (allow ''10.0.0.1'' 3 strictConfig newLoginLimiter) = (True, 0)" by code_simp
  have 2: "ip_Attempts (allowance 3 (map_of (byIP (rollGlobal 3 newLoginLimiter)) ''10.0.0.1'')) + 1
      \<ge> WebLoginMaxTries strictConfig" by code_simp
  have 3: "(5::int) < 3 + cooldown strictConfig" by code_simp
  from lockout_holds [OF _ _ 1 2 _ _ 3, of "[]"] show ?thesis by simp
qed

text \<open>
  the limiter's memory is bounded: with an association list of distinct addresses no longer
  than the overall limit, every attempt and every clean-up leaves it so, whatever the address.
\<close>

lemma limiter_memory_bounded:
  assumes "distinctIPs l \<and> int (length (byIP l)) \<le> WebLoginMaxTriesOverall cfg"
  shows "distinctIPs (snd (allow ip now cfg l)) \<and> distinctIPs (cleanup now l) \<and>
         int (length (byIP (snd (allow ip now cfg l)))) \<le> WebLoginMaxTriesOverall cfg \<and>
         int (length (byIP (cleanup now l))) \<le> WebLoginMaxTriesOverall cfg"
  using assms allow_size cleanup_size [of now l] distinctIPs_allow distinctIPs_cleanup by auto

text \<open>
  the janitor is invisible: as long as there is room for another address, cleaning up at any
  moment changes neither the decision nor the waiting time of any later attempt.
\<close>

theorem janitor_is_invisible:
  assumes "distinctIPs l" and "int (length (byIP l)) < WebLoginMaxTriesOverall cfg"
    and "0 < now" and "now \<le> now'"
  shows "fst (allow ip now' cfg (cleanup now l)) = fst (allow ip now' cfg l)"
  using assms by (rule cleanup_decision)

theorem janitor_is_invisible_witness:
  "fst (allow ''10.0.0.1'' 9 strictConfig (cleanup 9 (snd (allow ''10.0.0.1'' 3 strictConfig newLoginLimiter))))
   = fst (allow ''10.0.0.1'' 9 strictConfig (snd (allow ''10.0.0.1'' 3 strictConfig newLoginLimiter)))"
proof -
  have 1: "distinctIPs (snd (allow ''10.0.0.1'' 3 strictConfig newLoginLimiter))"
    by (simp add: distinctIPs_allow)
  have 2: "int (length (byIP (snd (allow ''10.0.0.1'' 3 strictConfig newLoginLimiter))))
      < WebLoginMaxTriesOverall strictConfig" by code_simp
  from janitor_is_invisible [OF 1 2, of 9 9] show ?thesis by simp
qed

text \<open>
  the \<^verbatim>\<open>Retry-After\<close> value is the waiting time rounded up to whole seconds, and at least one:
  a client that waits so long is not early, and one second less would not do.
\<close>

lemma retryAfterSeconds_ceiling:
  "1 \<le> retryAfterSeconds wait \<and> wait \<le> retryAfterSeconds wait * Second \<and>
   (1 < retryAfterSeconds wait \<longrightarrow> (retryAfterSeconds wait - 1) * Second < wait)"
  unfolding retryAfterSeconds_def Let_def Second_def by (auto; linarith)

text \<open>
  the limiter cannot be evaded by forging \<^verbatim>\<open>X-Forwarded-For\<close>: unless the peer is one of the
  configured proxies, the address an attempt is counted under does not depend on that header.
\<close>

lemma forwarded_header_needs_trusted_proxy:
  assumes "\<not> (\<exists>remote. addressIP (remoteHost remoteAddr) = Some remote \<and>
                trustedProxyContains trustedProxy remote)"
  shows "requestClientIP remoteAddr forwarded1 trustedProxy =
         requestClientIP remoteAddr forwarded2 trustedProxy"
  using assms by (auto simp: requestClientIP_def split: option.splits)

end
