(* ===== verification/Lookups.thy ===== *)
theory Lookups
  imports Scan_Handlers
begin

text \<open>
  Asynchronous lookups: the worker runtime and the retention of \<^verbatim>\<open>lookups.go\<close>, with the result
  lookups of \<^verbatim>\<open>result_lookup.go\<close> as their client. A Go map keyed by the identifier of its values
  is a list of the values; Go iterates a map in no particular order, and so the theorems hold for
  every order of the lists.
\<close>

section \<open>The worker runtime\<close>

text \<open>
  \<open>rt_ctxErr\<close> is \<^verbatim>\<open>runtime.ctx.Err() != nil\<close>; \<open>rt_workers\<close> maps the identifier of a running worker
  to its user; \<open>rt_cancelled\<close> are the workers whose context has been cancelled.
\<close>

record lookupRuntime =
  rt_stopped :: bool
  rt_ctxErr :: bool
  rt_pendingByUser :: "string \<rightharpoonup> int"
  rt_workers :: "(string \<times> string) list"
  rt_cancelled :: "string list"

definition maxPendingLookupsPerUser :: int where "maxPendingLookupsPerUser = 2"
definition maxRetainedLookupsPerUser :: nat where "maxRetainedLookupsPerUser = 10"
definition lookupExecutionTimeout :: duration where "lookupExecutionTimeout = 30 * Second"
definition lookupRetention :: duration where "lookupRetention = 15 * Minute"
definition lookupCleanupInterval :: duration where "lookupCleanupInterval = Minute"

definition newLookupRuntime :: "bool \<Rightarrow> lookupRuntime" where
  "newLookupRuntime parentErr =
     \<lparr> rt_stopped = False, rt_ctxErr = parentErr, rt_pendingByUser = Map.empty, rt_workers = [],
       rt_cancelled = [] \<rparr>"

definition pendingOf :: "lookupRuntime \<Rightarrow> string \<Rightarrow> int" where
  "pendingOf rt userID = (case rt_pendingByUser rt userID of None \<Rightarrow> 0 | Some n \<Rightarrow> n)"

definition canStart :: "string \<Rightarrow> lookupRuntime \<Rightarrow> bool" where
  "canStart userID rt \<longleftrightarrow>
     \<not> rt_stopped rt \<and> \<not> rt_ctxErr rt \<and> pendingOf rt userID < maxPendingLookupsPerUser"

definition runtime_start :: "string \<Rightarrow> string \<Rightarrow> lookupRuntime \<Rightarrow> bool \<times> lookupRuntime" where
  "runtime_start i userID rt =
     (if rt_stopped rt \<or> rt_ctxErr rt \<or> pendingOf rt userID \<ge> maxPendingLookupsPerUser then (False, rt)
      else (True, rt\<lparr>rt_pendingByUser := (rt_pendingByUser rt)(userID \<mapsto> pendingOf rt userID + 1),
                     rt_workers := AList.update i userID (rt_workers rt)\<rparr>))"

text \<open>The deferred function of a worker's goroutine.\<close>

definition workerDone :: "string \<Rightarrow> string \<Rightarrow> lookupRuntime \<Rightarrow> lookupRuntime" where
  "workerDone i userID rt =
     (let n = pendingOf rt userID - 1 in
      rt\<lparr>rt_workers := AList.delete i (rt_workers rt),
         rt_pendingByUser := (rt_pendingByUser rt)(userID := (if n = 0 then None else Some n)),
         rt_cancelled := i # rt_cancelled rt\<rparr>)"

definition cancelLookup :: "string \<Rightarrow> lookupRuntime \<Rightarrow> lookupRuntime" where
  "cancelLookup i rt =
     (if map_of (rt_workers rt) i \<noteq> None then rt\<lparr>rt_cancelled := i # rt_cancelled rt\<rparr> else rt)"

text \<open>
  \<^verbatim>\<open>cancelUserAndWait\<close> and \<^verbatim>\<open>stopAndWait\<close>, as they leave the runtime once the workers they wait for
  have ended.
\<close>

definition cancelUserAndWait :: "string \<Rightarrow> lookupRuntime \<Rightarrow> lookupRuntime" where
  "cancelUserAndWait userID rt =
     foldl (\<lambda>rt i. workerDone i userID rt) rt
       (map fst (filter (\<lambda>w. snd w = userID) (rt_workers rt)))"

definition stopAndWait :: "lookupRuntime \<Rightarrow> lookupRuntime" where
  "stopAndWait rt =
     foldl (\<lambda>rt w. workerDone (fst w) (snd w) rt) (rt\<lparr>rt_stopped := True, rt_ctxErr := True\<rparr>) (rt_workers rt)"

section \<open>Retained lookups\<close>

datatype lookupKind = resultLookupKind | historyStatisticsLookupKind | quarantineLookupKind

text \<open>
  One record for the three types of lookups (\<^verbatim>\<open>resultLookup\<close>, \<^verbatim>\<open>historyStatisticsLookup\<close> and
  \<^verbatim>\<open>quarantineLookup\<close>): they differ in the scope and in the value the worker publishes, \<open>JNull\<close> for a nil slice or map.
\<close>

datatype lookupScope = RangeScope int int | DaysScope int | NoScope

record lookupEntry =
  lk_ID :: string
  lk_Status :: string
  lk_UserID :: string
  lk_StartedAt :: gotime
  lk_UpdatedAt :: gotime
  lk_Scope :: lookupScope
  lk_Results :: json
  lk_Total :: int
  lk_Error :: string

record lookupRecord =
  rec_id :: string
  rec_kind :: lookupKind
  rec_status :: string
  rec_userID :: string
  rec_startedAt :: gotime
  rec_updatedAt :: gotime

record lookupStore =
  resultLookups :: "lookupEntry list"
  historyStatisticsLookups :: "lookupEntry list"
  quarantineLookups :: "lookupEntry list"

definition toRecord :: "lookupKind \<Rightarrow> lookupEntry \<Rightarrow> lookupRecord" where
  "toRecord kind e =
     \<lparr> rec_id = lk_ID e, rec_kind = kind, rec_status = lk_Status e, rec_userID = lk_UserID e,
       rec_startedAt = lk_StartedAt e, rec_updatedAt = lk_UpdatedAt e \<rparr>"

definition ofUser :: "string \<Rightarrow> lookupEntry \<Rightarrow> bool" where
  "ofUser userID e \<longleftrightarrow> userID = [] \<or> lk_UserID e = userID"

definition lookupRecordsLocked :: "string \<Rightarrow> lookupStore \<Rightarrow> lookupRecord list" where
  "lookupRecordsLocked userID st =
     map (toRecord resultLookupKind) (filter (ofUser userID) (resultLookups st)) @
     map (toRecord historyStatisticsLookupKind) (filter (ofUser userID) (historyStatisticsLookups st)) @
     map (toRecord quarantineLookupKind) (filter (ofUser userID) (quarantineLookups st))"

definition without :: "string \<Rightarrow> lookupEntry list \<Rightarrow> lookupEntry list" where
  "without i es = filter (\<lambda>e. lk_ID e \<noteq> i) es"

definition deleteLookupLocked :: "lookupRecord \<Rightarrow> lookupStore \<Rightarrow> lookupStore" where
  "deleteLookupLocked r st =
     (case rec_kind r of
        resultLookupKind \<Rightarrow> st\<lparr>resultLookups := without (rec_id r) (resultLookups st)\<rparr>
      | historyStatisticsLookupKind \<Rightarrow>
          st\<lparr>historyStatisticsLookups := without (rec_id r) (historyStatisticsLookups st)\<rparr>
      | quarantineLookupKind \<Rightarrow> st\<lparr>quarantineLookups := without (rec_id r) (quarantineLookups st)\<rparr>)"

text \<open>
  \<^verbatim>\<open>cleanupLookupsLocked\<close>: pending lookups that outlived their worker by a janitor interval and
  finished ones past their retention are deleted.
\<close>

definition expiredLookup :: "gotime \<Rightarrow> lookupRecord \<Rightarrow> bool" where
  "expiredLookup now r \<longleftrightarrow>
     (rec_status r = ''pending'' \<and>
        \<not> rec_startedAt r + (lookupExecutionTimeout + lookupCleanupInterval) > now) \<or>
     (rec_status r \<noteq> ''pending'' \<and> \<not> rec_updatedAt r + lookupRetention > now)"

definition cleanupLookupsLocked ::
    "gotime \<Rightarrow> lookupStore \<times> lookupRuntime \<Rightarrow> lookupStore \<times> lookupRuntime" where
  "cleanupLookupsLocked now s =
     foldl (\<lambda>(st, rt) r. if expiredLookup now r then (deleteLookupLocked r st, cancelLookup (rec_id r) rt)
                         else (st, rt))
       s (lookupRecordsLocked [] (fst s))"

text \<open>The scan for the finished lookup that was updated first.\<close>

fun oldestFinished :: "lookupRecord option \<Rightarrow> lookupRecord list \<Rightarrow> lookupRecord option" where
  "oldestFinished best [] = best"
| "oldestFinished best (r # rs) =
     (if rec_status r = ''pending'' then oldestFinished best rs
      else case best of
        None \<Rightarrow> oldestFinished (Some r) rs
      | Some b \<Rightarrow> oldestFinished (Some (if rec_updatedAt r < rec_updatedAt b then r else b)) rs)"

lemma oldestFinished_mem:
  "oldestFinished best rs = Some r \<Longrightarrow> r \<in> set rs \<or> best = Some r"
  by (induction best rs rule: oldestFinished.induct) (auto split: if_splits option.splits)

lemma length_without: "e \<in> set es \<Longrightarrow> ofUser u e \<Longrightarrow>
    length (filter (ofUser u) (without (lk_ID e) es)) < length (filter (ofUser u) es)"
proof (induction es)
  case (Cons x es)
  have le: "length (filter (ofUser u) (without i es)) \<le> length (filter (ofUser u) es)" for i
    unfolding without_def by (induction es) auto
  show ?case
  proof (cases "x = e")
    case True
    then show ?thesis using Cons.prems(2) le [of "lk_ID e"] by (simp add: without_def le_imp_less_Suc)
  next
    case False
    then have "length (filter (ofUser u) (without (lk_ID e) es)) < length (filter (ofUser u) es)"
      using Cons by auto
    then show ?thesis by (auto simp: without_def)
  qed
qed simp

lemma deleteLookupLocked_shrinks:
  "r \<in> set (lookupRecordsLocked u st) \<Longrightarrow>
     length (lookupRecordsLocked u (deleteLookupLocked r st)) < length (lookupRecordsLocked u st)"
  by (auto simp: lookupRecordsLocked_def deleteLookupLocked_def toRecord_def length_without)

function makeLookupRoomLocked :: "string \<Rightarrow> lookupStore \<Rightarrow> bool \<times> lookupStore" where
  "makeLookupRoomLocked userID st =
     (let records = lookupRecordsLocked userID st in
      if length records < maxRetainedLookupsPerUser then (True, st)
      else case oldestFinished None records of
        None \<Rightarrow> (False, st)
      | Some r \<Rightarrow> makeLookupRoomLocked userID (deleteLookupLocked r st))"
  by pat_completeness auto
termination
  by (relation "measure (\<lambda>(u, st). length (lookupRecordsLocked u st))")
     (auto dest!: oldestFinished_mem intro: deleteLookupLocked_shrinks)

declare makeLookupRoomLocked.simps [simp del]

section \<open>Starting a lookup\<close>

definition insertLookup :: "lookupKind \<Rightarrow> lookupEntry \<Rightarrow> lookupStore \<Rightarrow> lookupStore" where
  "insertLookup kind e st =
     (case kind of
        resultLookupKind \<Rightarrow> st\<lparr>resultLookups := without (lk_ID e) (resultLookups st) @ [e]\<rparr>
      | historyStatisticsLookupKind \<Rightarrow>
          st\<lparr>historyStatisticsLookups := without (lk_ID e) (historyStatisticsLookups st) @ [e]\<rparr>
      | quarantineLookupKind \<Rightarrow> st\<lparr>quarantineLookups := without (lk_ID e) (quarantineLookups st) @ [e]\<rparr>)"

text \<open>
  \<^verbatim>\<open>startLookup\<close> under \<^verbatim>\<open>lookupLifecycleMu\<close>. The server may begin to shut down between the check and
  the start; \<open>stopping\<close> says that it does.
\<close>

definition startLookup ::
    "gotime \<Rightarrow> bool \<Rightarrow> lookupKind \<Rightarrow> lookupEntry \<Rightarrow> lookupStore \<times> lookupRuntime \<Rightarrow>
     bool \<times> lookupStore \<times> lookupRuntime" where
  "startLookup now stopping kind e s =
     (let (st, rt) = cleanupLookupsLocked now s in
      if \<not> canStart (lk_UserID e) rt then (False, st, rt)
      else case makeLookupRoomLocked (lk_UserID e) st of
        (False, st1) \<Rightarrow> (False, st1, rt)
      | (True, st1) \<Rightarrow>
          (let st2 = insertLookup kind e st1;
               rt1 = (if stopping then rt\<lparr>rt_stopped := True\<rparr> else rt)
           in case runtime_start (lk_ID e) (lk_UserID e) rt1 of
                (False, rt2) \<Rightarrow> (False, deleteLookupLocked (toRecord kind e) st2, rt2)
              | (True, rt2) \<Rightarrow> (True, st2, rt2)))"

definition removeLookupsForUser ::
    "string \<Rightarrow> lookupStore \<times> lookupRuntime \<Rightarrow> lookupStore \<times> lookupRuntime" where
  "removeLookupsForUser userID s =
     (case s of (st, rt) \<Rightarrow>
        (foldl (\<lambda>st r. deleteLookupLocked r st) st (lookupRecordsLocked userID st), cancelUserAndWait userID rt))"

text \<open>What a worker publishes when it ends, in the map of its kind.\<close>

definition publishIn :: "string \<Rightarrow> (lookupEntry \<Rightarrow> lookupEntry) \<Rightarrow> lookupEntry list \<Rightarrow> lookupEntry list" where
  "publishIn i f es = map (\<lambda>e. if lk_ID e = i then f e else e) es"

definition lookupsOf :: "lookupKind \<Rightarrow> lookupStore \<Rightarrow> lookupEntry list" where
  "lookupsOf kind st =
     (case kind of
        resultLookupKind \<Rightarrow> resultLookups st
      | historyStatisticsLookupKind \<Rightarrow> historyStatisticsLookups st
      | quarantineLookupKind \<Rightarrow> quarantineLookups st)"

definition publish :: "lookupKind \<Rightarrow> string \<Rightarrow> (lookupEntry \<Rightarrow> lookupEntry) \<Rightarrow> lookupStore \<Rightarrow> lookupStore" where
  "publish kind i f st =
     (case kind of
        resultLookupKind \<Rightarrow> st\<lparr>resultLookups := publishIn i f (resultLookups st)\<rparr>
      | historyStatisticsLookupKind \<Rightarrow> st\<lparr>historyStatisticsLookups := publishIn i f (historyStatisticsLookups st)\<rparr>
      | quarantineLookupKind \<Rightarrow> st\<lparr>quarantineLookups := publishIn i f (quarantineLookups st)\<rparr>)"

text \<open>
  A worker after its query: nothing on cancellation or when the lookup is gone, otherwise the
  results with their total or the error.
\<close>

datatype queryOutcome = QueryCanceled | QueryFailed goerror | QueryDone json int

definition finishLookup :: "lookupKind \<Rightarrow> string \<Rightarrow> gotime \<Rightarrow> queryOutcome \<Rightarrow> lookupStore \<Rightarrow> lookupStore" where
  "finishLookup kind i now outcome st =
     (case outcome of
        QueryCanceled \<Rightarrow> st
      | QueryFailed e \<Rightarrow>
          publish kind i (\<lambda>l. l\<lparr>lk_UpdatedAt := now, lk_Status := ''failed'', lk_Error := errText e\<rparr>) st
      | QueryDone results n \<Rightarrow>
          publish kind i (\<lambda>l. l\<lparr>lk_UpdatedAt := now, lk_Status := ''success'', lk_Results := results, lk_Total := n\<rparr>) st)"

section \<open>Retention\<close>

definition retained :: "lookupStore \<Rightarrow> string \<Rightarrow> nat" where
  "retained st u = length (lookupRecordsLocked u st)"

lemma length_without_le: "length (filter P (without i es)) \<le> length (filter P es)"
  unfolding without_def by (induction es) auto

lemma retained_delete_le: "retained (deleteLookupLocked r st) u \<le> retained st u"
  by (cases "rec_kind r")
     (simp_all add: retained_def lookupRecordsLocked_def deleteLookupLocked_def length_without_le)

lemma retained_cleanup_fold:
  "retained (fst (foldl (\<lambda>(st, rt) r. if expiredLookup now r
       then (deleteLookupLocked r st, cancelLookup (rec_id r) rt) else (st, rt)) s rs)) u \<le> retained (fst s) u"
proof (induction rs arbitrary: s)
  case (Cons r rs)
  obtain st rt where s: "s = (st, rt)" by (cases s)
  show ?case
    using Cons.IH [of "(deleteLookupLocked r st, cancelLookup (rec_id r) rt)"] Cons.IH [of "(st, rt)"]
      retained_delete_le [of r st u]
    by (auto simp: s intro: order_trans)
qed simp

lemma retained_cleanup_le: "retained (fst (cleanupLookupsLocked now s)) u \<le> retained (fst s) u"
  unfolding cleanupLookupsLocked_def by (rule retained_cleanup_fold)

lemma makeLookupRoom_le: "retained (snd (makeLookupRoomLocked v st)) u \<le> retained st u"
proof (induction v st rule: makeLookupRoomLocked.induct)
  case (1 v st)
  show ?case
  proof (cases "oldestFinished None (lookupRecordsLocked v st)")
    case (Some r)
    then show ?thesis
      using 1 retained_delete_le [of r st u]
      by (subst makeLookupRoomLocked.simps) (auto simp: Let_def intro: order_trans)
  qed (subst makeLookupRoomLocked.simps, simp add: Let_def)
qed

lemma makeLookupRoom_True:
  "makeLookupRoomLocked u st = (True, st') \<Longrightarrow> retained st' u < maxRetainedLookupsPerUser"
proof (induction u st rule: makeLookupRoomLocked.induct)
  case (1 u st)
  from 1(2) show ?case
    by (subst (asm) makeLookupRoomLocked.simps)
       (auto simp: Let_def retained_def split: if_splits option.splits intro: 1(1) [unfolded retained_def])
qed

lemma retained_insert_le:
  assumes "u \<noteq> []"
  shows "retained (insertLookup kind e st) u \<le> (if lk_UserID e = u then Suc (retained st u) else retained st u)"
proof -
  have le: "length (filter (ofUser u) (without (lk_ID e) es @ [e])) \<le>
      length (filter (ofUser u) es) + (if lk_UserID e = u then 1 else 0)" for es
    using length_without_le [of "ofUser u" "lk_ID e" es] assms by (auto simp: ofUser_def)
  show ?thesis
    using le [of "resultLookups st"] le [of "historyStatisticsLookups st"] le [of "quarantineLookups st"]
    by (cases kind) (auto simp: retained_def lookupRecordsLocked_def insertLookup_def)
qed

lemma retained_remove_le: "retained (fst (removeLookupsForUser v s)) u \<le> retained (fst s) u"
proof -
  have "retained (foldl (\<lambda>st r. deleteLookupLocked r st) st rs) u \<le> retained st u" for st rs
    by (induction rs arbitrary: st) (auto intro: order_trans [OF _ retained_delete_le])
  then show ?thesis by (simp add: removeLookupsForUser_def case_prod_unfold)
qed

lemma retained_finish: "retained (finishLookup kind i now out st) u = retained st u"
proof -
  have "length (filter (ofUser u) (publishIn i f es)) = length (filter (ofUser u) es)"
    if "\<And>e. lk_UserID (f e) = lk_UserID e" for f es
    using that by (induction es) (auto simp: publishIn_def ofUser_def)
  then show ?thesis
    by (cases out; cases kind) (simp_all add: retained_def lookupRecordsLocked_def finishLookup_def publish_def)
qed

section \<open>The runtime invariant\<close>

definition workersOf :: "lookupRuntime \<Rightarrow> string \<Rightarrow> nat" where
  "workersOf rt u = length (filter (\<lambda>w. snd w = u) (rt_workers rt))"

definition runtimeInv :: "lookupRuntime \<Rightarrow> bool" where
  "runtimeInv rt \<longleftrightarrow>
     distinct (map fst (rt_workers rt)) \<and>
     (\<forall>u. pendingOf rt u = int (workersOf rt u)) \<and>
     (\<forall>u. int (workersOf rt u) \<le> maxPendingLookupsPerUser)"

lemma runtimeInv_cong:
  "rt_workers rt' = rt_workers rt \<Longrightarrow> rt_pendingByUser rt' = rt_pendingByUser rt \<Longrightarrow>
     runtimeInv rt' = runtimeInv rt"
  by (simp add: runtimeInv_def pendingOf_def workersOf_def)

lemma runtimeInv_new: "runtimeInv (newLookupRuntime e)"
  by (simp add: runtimeInv_def newLookupRuntime_def pendingOf_def workersOf_def maxPendingLookupsPerUser_def)

lemma AList_update_fresh: "k \<notin> fst ` set al \<Longrightarrow> AList.update k v al = al @ [(k, v)]"
  by (induction al) auto

lemma runtime_start_inv:
  assumes "runtimeInv rt" and "i \<notin> fst ` set (rt_workers rt)"
  shows "runtimeInv (snd (runtime_start i u rt))"
proof -
  have upd: "AList.update i u (rt_workers rt) = rt_workers rt @ [(i, u)]"
    by (rule AList_update_fresh [OF assms(2)])
  show ?thesis
    using assms
    by (auto simp: runtimeInv_def runtime_start_def upd pendingOf_def workersOf_def
        split: option.splits if_splits)
qed

lemma runtime_start_flags:
  "rt_stopped (snd (runtime_start i u rt)) = rt_stopped rt" "rt_ctxErr (snd (runtime_start i u rt)) = rt_ctxErr rt"
  by (simp_all add: runtime_start_def)

lemma delete_count:
  assumes "distinct (map fst ws)" and "map_of ws i = Some u"
  shows "length (filter (\<lambda>w. snd w = v) (AList.delete i ws)) =
           length (filter (\<lambda>w. snd w = v) ws) - (if v = u then 1 else 0)"
  using assms
proof (induction ws)
  case (Cons w ws)
  show ?case
  proof (cases "fst w = i")
    case True
    with Cons.prems have "AList.delete i ws = ws"
      by (intro delete_id) auto
    with True Cons.prems show ?thesis by (cases w) auto
  next
    case False
    then have IH: "length (filter (\<lambda>w. snd w = v) (AList.delete i ws)) =
           length (filter (\<lambda>w. snd w = v) ws) - (if v = u then 1 else 0)"
      using Cons by (cases w) auto
    have "v = u \<Longrightarrow> 0 < length (filter (\<lambda>w. snd w = v) ws)"
      using Cons.prems False by (cases w) (force simp: filter_empty_conv dest: map_of_SomeD)
    with IH False show ?thesis by (cases w) auto
  qed
qed simp

lemma workerDone_inv:
  assumes inv: "runtimeInv rt" and w: "map_of (rt_workers rt) i = Some u"
  shows "runtimeInv (workerDone i u rt)"
proof -
  have d: "distinct (map fst (rt_workers rt))" using inv by (simp add: runtimeInv_def)
  have ne: "filter (\<lambda>w. snd w = u) (rt_workers rt) \<noteq> []"
    using map_of_SomeD [OF w] by (force simp: filter_empty_conv)
  then have pos: "0 < workersOf rt u" by (simp add: workersOf_def)
  have count: "workersOf (workerDone i u rt) v = workersOf rt v - (if v = u then 1 else 0)" for v
    using delete_count [OF d w, of v] by (simp add: workersOf_def workerDone_def Let_def)
  have pend: "pendingOf (workerDone i u rt) v = pendingOf rt v - (if v = u then 1 else 0)" for v
    by (auto simp: pendingOf_def workerDone_def Let_def split: option.splits)
  have "distinct (map fst (rt_workers (workerDone i u rt)))"
    using d by (simp add: workerDone_def Let_def distinct_delete)
  moreover have "pendingOf (workerDone i u rt) v = int (workersOf (workerDone i u rt) v)"
      "int (workersOf (workerDone i u rt) v) \<le> maxPendingLookupsPerUser" for v
  proof -
    have "pendingOf rt v = int (workersOf rt v)" "int (workersOf rt v) \<le> maxPendingLookupsPerUser"
      using inv unfolding runtimeInv_def by blast+
    with pos show "pendingOf (workerDone i u rt) v = int (workersOf (workerDone i u rt) v)"
      "int (workersOf (workerDone i u rt) v) \<le> maxPendingLookupsPerUser"
      unfolding count pend by (auto simp: of_nat_diff)
  qed
  ultimately show ?thesis by (simp add: runtimeInv_def)
qed

lemma cancelLookup_inv: "runtimeInv rt \<Longrightarrow> runtimeInv (cancelLookup i rt)"
  using runtimeInv_cong [of "cancelLookup i rt" rt] by (simp add: cancelLookup_def)

lemma cleanup_runtimeInv:
  "runtimeInv (snd s) \<Longrightarrow> runtimeInv (snd (cleanupLookupsLocked now s)) \<and>
     rt_workers (snd (cleanupLookupsLocked now s)) = rt_workers (snd s)"
proof -
  have "runtimeInv (snd s) \<Longrightarrow>
    (let t = foldl (\<lambda>(st, rt) r. if expiredLookup now r
       then (deleteLookupLocked r st, cancelLookup (rec_id r) rt) else (st, rt)) s rs
     in runtimeInv (snd t) \<and> rt_workers (snd t) = rt_workers (snd s))" for rs s
  proof (induction rs arbitrary: s)
    case (Cons r rs)
    obtain st rt where s: "s = (st, rt)" by (cases s)
    have keep: "runtimeInv (cancelLookup (rec_id r) rt)" "rt_workers (cancelLookup (rec_id r) rt) = rt_workers rt"
      using Cons.prems by (auto simp: s cancelLookup_inv, simp add: cancelLookup_def)
    show ?case
      using Cons.IH [of "(deleteLookupLocked r st, cancelLookup (rec_id r) rt)"] Cons.IH [of s] Cons.prems keep
      by (simp add: s Let_def)
  qed simp
  then show "runtimeInv (snd s) \<Longrightarrow> runtimeInv (snd (cleanupLookupsLocked now s)) \<and>
     rt_workers (snd (cleanupLookupsLocked now s)) = rt_workers (snd s)"
    by (simp add: cleanupLookupsLocked_def Let_def)
qed

text \<open>Ending several workers: those that are named are gone, the others stay.\<close>

lemma workersDone_fold:
  assumes "runtimeInv rt" and "distinct (map fst ws)" and "\<forall>w \<in> set ws. map_of (rt_workers rt) (fst w) = Some (snd w)"
  shows "runtimeInv (foldl (\<lambda>rt w. workerDone (fst w) (snd w) rt) rt ws) \<and>
         rt_workers (foldl (\<lambda>rt w. workerDone (fst w) (snd w) rt) rt ws) =
           filter (\<lambda>w. fst w \<notin> fst ` set ws) (rt_workers rt)"
  using assms
proof (induction ws arbitrary: rt)
  case (Cons w ws)
  let ?rt = "workerDone (fst w) (snd w) rt"
  have del: "rt_workers ?rt = filter (\<lambda>x. fst x \<noteq> fst w) (rt_workers rt)"
    by (auto simp: workerDone_def Let_def AList.delete_eq intro: filter_cong)
  have "\<forall>x \<in> set ws. map_of (rt_workers ?rt) (fst x) = Some (snd x)"
    using Cons.prems by (auto simp: workerDone_def Let_def delete_conv' image_iff)
  then have "runtimeInv (foldl (\<lambda>rt w. workerDone (fst w) (snd w) rt) ?rt ws) \<and>
      rt_workers (foldl (\<lambda>rt w. workerDone (fst w) (snd w) rt) ?rt ws) =
        filter (\<lambda>w. fst w \<notin> fst ` set ws) (rt_workers ?rt)"
    using Cons.IH [of ?rt] workerDone_inv [OF Cons.prems(1)] Cons.prems by simp
  then show ?case by (simp add: del conj_commute)
qed simp

lemma stopAndWait_inv:
  assumes "runtimeInv rt"
  shows "runtimeInv (stopAndWait rt) \<and> rt_workers (stopAndWait rt) = []"
proof -
  let ?rt = "rt\<lparr>rt_stopped := True, rt_ctxErr := True\<rparr>"
  have inv: "runtimeInv ?rt" using assms runtimeInv_cong [of ?rt rt] by simp
  have d: "distinct (map fst (rt_workers rt))" using assms by (simp add: runtimeInv_def)
  have "\<forall>w \<in> set (rt_workers rt). map_of (rt_workers ?rt) (fst w) = Some (snd w)" using d by simp
  from workersDone_fold [OF inv d this] show ?thesis
    by (simp add: stopAndWait_def filter_empty_conv)
qed

lemma cancelUserAndWait_inv:
  assumes "runtimeInv rt"
  shows "runtimeInv (cancelUserAndWait u rt) \<and> workersOf (cancelUserAndWait u rt) u = 0 \<and>
         (\<forall>v. v \<noteq> u \<longrightarrow> workersOf (cancelUserAndWait u rt) v = workersOf rt v)"
proof -
  let ?ws = "filter (\<lambda>w. snd w = u) (rt_workers rt)"
  have d: "distinct (map fst (rt_workers rt))" using assms by (simp add: runtimeInv_def)
  then have "distinct (map fst ?ws)" by (simp add: distinct_map_filter)
  moreover have "\<forall>w \<in> set ?ws. map_of (rt_workers rt) (fst w) = Some (snd w)" using d by auto
  moreover have "cancelUserAndWait u rt = foldl (\<lambda>rt w. workerDone (fst w) (snd w) rt) rt ?ws"
  proof -
    have "foldl (\<lambda>rt i. workerDone i u rt) r (map fst ws) = foldl (\<lambda>rt w. workerDone (fst w) (snd w) rt) r ws"
      if "\<forall>w \<in> set ws. snd w = u" for r ws using that by (induction ws arbitrary: r) auto
    then show ?thesis by (simp add: cancelUserAndWait_def)
  qed
  ultimately have fin: "runtimeInv (cancelUserAndWait u rt)"
    and ws: "rt_workers (cancelUserAndWait u rt) = filter (\<lambda>w. fst w \<notin> fst ` set ?ws) (rt_workers rt)"
    using workersDone_fold [OF assms, of ?ws] by auto
  have mine: "fst w \<in> fst ` set ?ws \<longleftrightarrow> snd w = u" if "w \<in> set (rt_workers rt)" for w
    using that d by (auto simp: image_iff) (metis eq_key_imp_eq_value prod.collapse)
  have "filter (\<lambda>w. fst w \<notin> fst ` set ?ws) (rt_workers rt) = filter (\<lambda>w. snd w \<noteq> u) (rt_workers rt)"
    using mine by (intro filter_cong) auto
  then have "workersOf (cancelUserAndWait u rt) v = (if v = u then 0 else workersOf rt v)" for v
    unfolding workersOf_def ws by (auto simp: filter_empty_conv intro: arg_cong [of _ _ length] filter_cong)
  with fin show ?thesis by simp
qed

section \<open>Lookups as a system\<close>

type_synonym lookupSystem = "lookupStore \<times> lookupRuntime"

inductive lookupStep :: "lookupSystem \<Rightarrow> lookupSystem \<Rightarrow> bool" where
  start: "lk_ID e \<notin> fst ` set (rt_workers (snd s)) \<Longrightarrow>
     startLookup now stopping kind e s = (ok, s') \<Longrightarrow> lookupStep s s'"
| worker: "map_of (rt_workers rt) i = Some u \<Longrightarrow>
     lookupStep (st, rt) (finishLookup kind i now outcome st, workerDone i u rt)"
| janitor: "lookupStep s (cleanupLookupsLocked now s)"
| forget: "lookupStep s (removeLookupsForUser u s)"
| shutdown: "lookupStep (st, rt) (st, stopAndWait rt)"

definition lookupInit :: "lookupSystem \<Rightarrow> bool" where
  "lookupInit s \<longleftrightarrow> s = (\<lparr> resultLookups = [], historyStatisticsLookups = [], quarantineLookups = [] \<rparr>,
                         newLookupRuntime False)"

definition lookupInv :: "lookupSystem \<Rightarrow> bool" where
  "lookupInv s \<longleftrightarrow> runtimeInv (snd s) \<and> (\<forall>u. u \<noteq> [] \<longrightarrow> retained (fst s) u \<le> maxRetainedLookupsPerUser)"

lemma startLookup_inv:
  assumes inv: "lookupInv s" and fresh: "lk_ID e \<notin> fst ` set (rt_workers (snd s))"
    and run: "startLookup now stopping kind e s = (ok, s')"
  shows "lookupInv s'"
proof -
  obtain st rt where c: "cleanupLookupsLocked now s = (st, rt)" by fastforce
  have st: "u \<noteq> [] \<Longrightarrow> retained st u \<le> maxRetainedLookupsPerUser" for u
    using inv retained_cleanup_le [of now s u] by (auto simp: c lookupInv_def intro: order_trans)
  have rt: "runtimeInv rt" "rt_workers rt = rt_workers (snd s)"
    using inv cleanup_runtimeInv [of s now] by (auto simp: c lookupInv_def)
  obtain room st1 where m: "makeLookupRoomLocked (lk_UserID e) st = (room, st1)" by fastforce
  have st1: "u \<noteq> [] \<Longrightarrow> retained st1 u \<le> maxRetainedLookupsPerUser" for u
    using st [of u] makeLookupRoom_le [of "lk_UserID e" st u] by (simp add: m)
  show ?thesis
  proof (cases "canStart (lk_UserID e) rt \<and> room")
    case False
    then show ?thesis using run st st1 rt
      by (cases "canStart (lk_UserID e) rt") (auto simp: startLookup_def c m lookupInv_def)
  next
    case True
    let ?st2 = "insertLookup kind e st1" and ?rt1 = "if stopping then rt\<lparr>rt_stopped := True\<rparr> else rt"
    have rt1: "runtimeInv ?rt1" "rt_workers ?rt1 = rt_workers rt"
      using rt runtimeInv_cong [of "rt\<lparr>rt_stopped := True\<rparr>" rt] by simp_all
    have less: "retained st1 (lk_UserID e) < maxRetainedLookupsPerUser"
      using makeLookupRoom_True m True by simp
    have st2: "u \<noteq> [] \<Longrightarrow> retained ?st2 u \<le> maxRetainedLookupsPerUser" for u
      using retained_insert_le [of u kind e st1] st1 [of u] less by (auto split: if_splits)
    have "runtimeInv (snd (runtime_start (lk_ID e) (lk_UserID e) ?rt1))"
      using runtime_start_inv [OF rt1(1)] fresh rt(2) rt1(2) by simp
    moreover have "u \<noteq> [] \<Longrightarrow> retained (deleteLookupLocked (toRecord kind e) ?st2) u \<le> maxRetainedLookupsPerUser"
      for u using st2 [of u] retained_delete_le order_trans by blast
    ultimately show ?thesis
      using run True st2
      by (auto simp: startLookup_def c m lookupInv_def Let_def split: prod.splits bool.splits)
  qed
qed

lemma lookupStep_inv: "lookupStep s t \<Longrightarrow> lookupInv s \<Longrightarrow> lookupInv t"
proof (induction rule: lookupStep.induct)
  case (start e s now stopping kind ok s')
  then show ?case using startLookup_inv by blast
next
  case (worker rt i u st now outcome)
  then show ?case by (simp add: lookupInv_def workerDone_inv retained_finish)
next
  case (janitor s now)
  then show ?case
    using cleanup_runtimeInv [of s now] retained_cleanup_le [of now s]
    by (auto simp: lookupInv_def intro: order_trans)
next
  case (forget s u)
  have "runtimeInv (snd (removeLookupsForUser u s))"
    using forget cancelUserAndWait_inv by (simp add: lookupInv_def removeLookupsForUser_def case_prod_unfold)
  then show ?case
    using forget retained_remove_le [of u s] by (auto simp: lookupInv_def intro: order_trans)
next
  case (shutdown st rt)
  then show ?case using stopAndWait_inv by (simp add: lookupInv_def)
qed

interpretation lookupSys: transition_invariant lookupInit lookupStep lookupInv
proof
  show "lookupInit s \<Longrightarrow> lookupInv s" for s
    by (simp add: lookupInit_def lookupInv_def runtimeInv_new retained_def lookupRecordsLocked_def)
qed (rule lookupStep_inv)

section \<open>Result lookups\<close>

record resultScope =
  scope_Start :: int
  scope_End :: int

definition maxResultLookupItems :: int where "maxResultLookupItems = 500"

definition parseResultScope :: "string \<Rightarrow> resultScope res" where
  "parseResultScope scopeText0 =
     (let scopeText = TrimSpace scopeText0 in
      if scopeText = [] \<or> scopeText = ''all''
      then Inl (ErrText ''scope must be a numeric range like 1-20'')
      else let (startText, endText, ok) = Cut scopeText CHR ''-'' in
        if \<not> ok then Inl (ErrText ''scope must be a numeric range like 1-20'')
        else case Atoi (TrimSpace startText) of
          None \<Rightarrow> Inl (ErrText ''scope start must be a positive number'')
        | Some start \<Rightarrow>
            if start < 1 then Inl (ErrText ''scope start must be a positive number'')
            else case Atoi (TrimSpace endText) of
              None \<Rightarrow> Inl (ErrText ''scope end must be greater than or equal to start'')
            | Some end' \<Rightarrow>
                if end' < start then Inl (ErrText ''scope end must be greater than or equal to start'')
                else if end' - start + 1 > maxResultLookupItems
                then Inl (ErrText ''scope cannot include more than 500 results'')
                else Inr \<lparr> scope_Start = start, scope_End = end' \<rparr>)"

definition handleResultLookupStart ::
    "httpMethod \<Rightarrow> string \<Rightarrow> actor option \<Rightarrow> string \<Rightarrow> gotime \<Rightarrow> bool \<Rightarrow> lookupSystem \<Rightarrow>
     response \<times> lookupSystem" where
  "handleResultLookupStart method scopeText ctx hex now stopping s =
     (if method \<noteq> MethodPost then (methodNotAllowed, s)
      else case parseResultScope scopeText of
        Inl e \<Rightarrow> (writeError StatusBadRequest e, s)
      | Inr scope \<Rightarrow>
          (let who = actorOrZero ctx;
               lookup = \<lparr> lk_ID = ''result-'' @ hex, lk_Status = ''pending'', lk_UserID = ID who,
                          lk_StartedAt = now, lk_UpdatedAt = now, lk_Scope = RangeScope (scope_Start scope) (scope_End scope),
                          lk_Results = JNull, lk_Total = 0, lk_Error = [] \<rparr>
           in case startLookup now stopping resultLookupKind lookup s of
                (False, s') \<Rightarrow>
                  (writeError StatusTooManyRequests (ErrText ''too many pending lookups for this user''), s')
              | (True, s') \<Rightarrow>
                  (writeJSON StatusAccepted
                     (JObject [(''status'', JString ''pending''), (''lookup_id'', JString (lk_ID lookup)),
                        (''message'', JString (''result list is loading; poll /api/results/lookups/'' @ lk_ID lookup))]),
                   s')))"

text \<open>The fields marked \<^verbatim>\<open>omitempty\<close> are left out when empty.\<close>

definition omitEmpty :: "jobject \<Rightarrow> jobject" where
  "omitEmpty fs = filter (\<lambda>(k, v). v \<noteq> JNull \<and> v \<noteq> JArray [] \<and> v \<noteq> JString []) fs"

definition lookupJSON :: "lookupEntry \<Rightarrow> json" where
  "lookupJSON e =
     JObject ([(''lookup_id'', JString (lk_ID e)), (''status'', JString (lk_Status e))] @
       omitEmpty [(''results'', lk_Results e)] @ [(''total'', JNumber (lk_Total e))] @
       omitEmpty [(''error'', JString (lk_Error e))] @
       [(''started_at'', JNumber (lk_StartedAt e)), (''updated_at'', JNumber (lk_UpdatedAt e))])"

definition handleResultLookup ::
    "httpMethod \<Rightarrow> string \<Rightarrow> actor option \<Rightarrow> lookupStore \<Rightarrow> response" where
  "handleResultLookup method urlPath ctx st =
     (if method \<noteq> MethodGet then methodNotAllowed
      else let i = TrimPrefix urlPath ''/api/results/lookups/'' in
        if i = [] \<or> Contains i ''/'' then httpNotFound
        else case find (\<lambda>e. lk_ID e = i) (resultLookups st) of
          None \<Rightarrow> httpNotFound
        | Some lookup \<Rightarrow>
            if lk_UserID lookup \<noteq> ID (actorOrZero ctx) then httpNotFound
            else if lk_Status lookup = ''pending'' then writeJSON StatusAccepted (lookupJSON lookup)
            else if lk_Status lookup = ''failed'' then writeJSON StatusInternalServerError (lookupJSON lookup)
            else writeJSON StatusOK (lookupJSON lookup))"

section \<open>Forgetting a user\<close>

lemma records_delete_subset:
  "set (lookupRecordsLocked u (deleteLookupLocked r st)) \<subseteq> set (lookupRecordsLocked u st) - {r}"
  by (cases "rec_kind r")
     (auto simp: lookupRecordsLocked_def deleteLookupLocked_def without_def toRecord_def)

lemma records_fold_subset:
  "set (lookupRecordsLocked u (foldl (\<lambda>st r. deleteLookupLocked r st) st rs)) \<subseteq>
     set (lookupRecordsLocked u st) - set rs"
proof (induction rs arbitrary: st)
  case (Cons r rs)
  show ?case using Cons.IH [of "deleteLookupLocked r st"] records_delete_subset [of u r st] by auto
qed simp

lemma removeLookupsForUser_gone: "retained (fst (removeLookupsForUser u s)) u = 0"
proof -
  have "set (lookupRecordsLocked u (fst (removeLookupsForUser u s))) \<subseteq> {}"
    using records_fold_subset [of u "fst s" "lookupRecordsLocked u (fst s)"]
    by (simp add: removeLookupsForUser_def case_prod_unfold)
  then show ?thesis by (simp add: retained_def)
qed

lemma oldestFinished_finished:
  "oldestFinished best rs = Some r \<Longrightarrow> (\<forall>b. best = Some b \<longrightarrow> rec_status b \<noteq> ''pending'') \<Longrightarrow>
     rec_status r \<noteq> ''pending'' \<and>
     (\<forall>x \<in> set rs. rec_status x \<noteq> ''pending'' \<longrightarrow> rec_updatedAt r \<le> rec_updatedAt x) \<and>
     (\<forall>b. best = Some b \<longrightarrow> rec_updatedAt r \<le> rec_updatedAt b)"
proof (induction best rs rule: oldestFinished.induct)
  case (2 best x rs)
  show ?case
  proof (cases "rec_status x = ''pending''")
    case True
    then show ?thesis using 2 by simp
  next
    case False
    show ?thesis
    proof (cases best)
      case None
      then show ?thesis using 2(2) [OF False None] 2(4) False by simp
    next
      case (Some b)
      let ?b = "if rec_updatedAt x < rec_updatedAt b then x else b"
      have "rec_status r \<noteq> ''pending'' \<and>
         (\<forall>x \<in> set rs. rec_status x \<noteq> ''pending'' \<longrightarrow> rec_updatedAt r \<le> rec_updatedAt x) \<and>
         rec_updatedAt r \<le> rec_updatedAt ?b"
        using 2(3) [OF False Some] 2(4,5) False Some by auto
      then show ?thesis using Some by (auto split: if_splits)
    qed
  qed
qed simp

section \<open>Properties\<close>

text \<open>
  C23: lookups are bounded per user. In every state the lookup system can reach (starts by any
  users, ends of workers with any outcome, clean-ups at any time, removals of users, shutdown),
  a user has at most two running workers and at most ten retained lookups, and the counter of
  pending lookups is exactly the number of the user's workers.
\<close>

theorem lookups_bounded:
  assumes "lookupInit s0" and "rtranclp lookupStep s0 (st, rt)" and "u \<noteq> []"
  shows "workersOf rt u \<le> 2 \<and> retained st u \<le> 10 \<and> pendingOf rt u = int (workersOf rt u)"
proof -
  have inv: "lookupInv (st, rt)" by (rule lookupSys.reachable_inv [OF assms(1,2)])
  then have "int (workersOf rt u) \<le> maxPendingLookupsPerUser" "pendingOf rt u = int (workersOf rt u)"
    unfolding lookupInv_def runtimeInv_def by auto
  then show ?thesis
    using inv assms(3) by (simp add: lookupInv_def maxPendingLookupsPerUser_def maxRetainedLookupsPerUser_def)
qed

definition emptyLookups :: lookupSystem where
  "emptyLookups = (\<lparr> resultLookups = [], historyStatisticsLookups = [], quarantineLookups = [] \<rparr>,
                   newLookupRuntime False)"

definition sampleLookup :: "string \<Rightarrow> lookupEntry" where
  "sampleLookup i = \<lparr> lk_ID = i, lk_Status = ''pending'', lk_UserID = alice, lk_StartedAt = 5,
                      lk_UpdatedAt = 5, lk_Scope = RangeScope 1 20, lk_Results = JNull, lk_Total = 0, lk_Error = [] \<rparr>"

lemma sample_lookup_reachable:
  "rtranclp lookupStep emptyLookups (snd (startLookup 5 False resultLookupKind (sampleLookup ''r1'') emptyLookups))"
proof -
  obtain ok s where s: "startLookup 5 False resultLookupKind (sampleLookup ''r1'') emptyLookups = (ok, s)"
    by (cases "startLookup 5 False resultLookupKind (sampleLookup ''r1'') emptyLookups")
  have "lk_ID (sampleLookup ''r1'') \<notin> fst ` set (rt_workers (snd emptyLookups))"
    by (simp add: emptyLookups_def newLookupRuntime_def)
  from lookupStep.start [OF this s] show ?thesis by (simp add: s r_into_rtranclp)
qed

theorem lookups_bounded_witness:
  "workersOf (snd (snd (startLookup 5 False resultLookupKind (sampleLookup ''r1'') emptyLookups))) alice \<le> 2"
proof -
  have 1: "lookupInit emptyLookups" by (simp add: lookupInit_def emptyLookups_def)
  have 2: "alice \<noteq> []" by (simp add: alice_def)
  have "rtranclp lookupStep emptyLookups
     (fst (snd (startLookup 5 False resultLookupKind (sampleLookup ''r1'') emptyLookups)),
      snd (snd (startLookup 5 False resultLookupKind (sampleLookup ''r1'') emptyLookups)))"
    using sample_lookup_reachable by simp
  from lookups_bounded [OF 1 this 2] show ?thesis by simp
qed

text \<open>
  a deleted user leaves nothing behind among the lookups: afterwards no lookup of the user is
  retained and no worker of the user runs, and the workers of other users were not touched.
\<close>

lemma removed_user_has_no_lookups:
  assumes "runtimeInv rt" and "removeLookupsForUser u (st, rt) = (st', rt')"
  shows "retained st' u = 0 \<and> workersOf rt' u = 0 \<and>
         (\<forall>v. v \<noteq> u \<longrightarrow> workersOf rt' v = workersOf rt v)"
proof -
  have "rt' = cancelUserAndWait u rt" "st' = fst (removeLookupsForUser u (st, rt))"
    using assms(2) by (auto simp: removeLookupsForUser_def)
  then show ?thesis
    using cancelUserAndWait_inv [OF assms(1), of u] removeLookupsForUser_gone [of u "(st, rt)"] by simp
qed

text \<open>
  making room is total and careful: it always returns, it succeeds exactly with fewer than ten
  lookups of the user left, it fails only when all of the user's lookups are still pending, and
  what it evicts first is a finished lookup that no other finished one precedes in age.
\<close>

theorem makeLookupRoom_spec:
  "(case makeLookupRoomLocked u st of
      (True, st') \<Rightarrow> retained st' u < 10
    | (False, st') \<Rightarrow> 10 \<le> retained st' u \<and>
        list_all (\<lambda>r. rec_status r = ''pending'') (lookupRecordsLocked u st')) \<and>
   (\<forall>r. oldestFinished None (lookupRecordsLocked u st) = Some r \<longrightarrow>
      rec_status r \<noteq> ''pending'' \<and>
      (\<forall>x \<in> set (lookupRecordsLocked u st). rec_status x \<noteq> ''pending'' \<longrightarrow>
         rec_updatedAt r \<le> rec_updatedAt x))"
proof -
  have none: "oldestFinished None rs = None \<Longrightarrow> list_all (\<lambda>r. rec_status r = ''pending'') rs" for rs
  proof -
    have some: "oldestFinished (Some b) xs \<noteq> None" for b xs
      by (induction xs arbitrary: b) auto
    show "oldestFinished None rs = None \<Longrightarrow> list_all (\<lambda>r. rec_status r = ''pending'') rs"
      by (induction rs) (auto simp: some split: if_splits)
  qed
  have "makeLookupRoomLocked u st = (False, st') \<Longrightarrow> 10 \<le> retained st' u \<and>
        list_all (\<lambda>r. rec_status r = ''pending'') (lookupRecordsLocked u st')" for st'
  proof (induction u st rule: makeLookupRoomLocked.induct)
    case (1 u st)
    show ?case
    proof (cases "length (lookupRecordsLocked u st) < maxRetainedLookupsPerUser")
      case False
      show ?thesis
      proof (cases "oldestFinished None (lookupRecordsLocked u st)")
        case None
        then show ?thesis
          using 1(2) False none [OF None] by (subst (asm) makeLookupRoomLocked.simps)
            (simp add: retained_def maxRetainedLookupsPerUser_def)
      next
        case (Some r)
        then show ?thesis
          using 1(2) False 1(1) [OF refl False Some] by (subst (asm) makeLookupRoomLocked.simps) simp
      qed
    qed (use 1(2) in \<open>subst (asm) makeLookupRoomLocked.simps, simp\<close>)
  qed
  moreover have "makeLookupRoomLocked u st = (True, st') \<Longrightarrow> retained st' u < 10" for st'
    using makeLookupRoom_True [of u st st'] by (simp add: maxRetainedLookupsPerUser_def)
  ultimately have "case makeLookupRoomLocked u st of
      (True, st') \<Rightarrow> retained st' u < 10
    | (False, st') \<Rightarrow> 10 \<le> retained st' u \<and>
        list_all (\<lambda>r. rec_status r = ''pending'') (lookupRecordsLocked u st')"
    by (cases "makeLookupRoomLocked u st") (auto split: bool.splits)
  then show ?thesis using oldestFinished_finished [of None "lookupRecordsLocked u st"] by blast
qed

theorem makeLookupRoom_spec_witness:
  "rec_updatedAt (toRecord resultLookupKind (sampleLookup ''r1''\<lparr>lk_Status := ''success''\<rparr>)) \<le> 5"
proof -
  let ?e = "sampleLookup ''r1''\<lparr>lk_Status := ''success''\<rparr>"
  let ?st = "\<lparr> resultLookups = [?e], historyStatisticsLookups = [], quarantineLookups = [] \<rparr>"
  let ?r = "toRecord resultLookupKind ?e"
  have rs: "lookupRecordsLocked alice ?st = [?r]"
    by (simp add: lookupRecordsLocked_def ofUser_def sampleLookup_def)
  have "oldestFinished None (lookupRecordsLocked alice ?st) = Some ?r"
    unfolding rs by (simp add: toRecord_def)
  then have "\<forall>x \<in> set (lookupRecordsLocked alice ?st). rec_status x \<noteq> ''pending'' \<longrightarrow>
      rec_updatedAt ?r \<le> rec_updatedAt x"
    using makeLookupRoom_spec [of alice ?st] by blast
  then show ?thesis unfolding rs by (simp add: toRecord_def sampleLookup_def)
qed

end
