(* ===== verification/Cron_Config.thy ===== *)
theory Cron_Config
  imports Path_Guard Go_Fields
begin

text \<open>
  The scheduled scans of \<^verbatim>\<open>cron.go\<close>: the configuration file with its metadata comments, reading
  and printing rules, the validation of crontab fields, and the operations that rewrite the
  file. The file is the list of its lines; the shell script that validates and loads a
  configuration is an argument.
\<close>

section \<open>Rules and documents\<close>

record cronRule =
  cron_ID :: string
  cron_Enabled :: bool
  cron_Minute :: string
  cron_Hour :: string
  cron_Day :: string
  cron_Month :: string
  cron_Weekday :: string
  cron_Target :: string
  cron_Action :: string
  cron_Wake :: bool
  cron_UserID :: string
  cron_Line :: nat

record cronRuleBlock =
  MetaIndex :: nat
  RuleIndex :: nat
  Rule :: cronRule

record cronConfigDoc =
  Lines :: "string list"
  Blocks :: "cronRuleBlock list"

definition cronRuleMetaPrefix :: string where
  "cronRuleMetaPrefix = ''# scanner-cron-rule''"

definition validCronRuleID :: "string \<Rightarrow> bool" where
  "validCronRuleID i \<longleftrightarrow> length i = 16 \<and> list_all (\<lambda>ch. isLower ch \<or> isDigit ch) i"

section \<open>Parsing\<close>

definition quoted :: "string \<Rightarrow> string" where
  "quoted s = [DQ] @ s @ [DQ]"

text \<open>The loop over the \<^verbatim>\<open>key=value\<close> fields of a metadata line.\<close>

fun parseMetaFields :: "string \<Rightarrow> bool \<Rightarrow> string list \<Rightarrow> (string \<times> bool) res" where
  "parseMetaFields i enabled [] = Inr (i, enabled)"
| "parseMetaFields i enabled (item # items) =
     (let (key, value, ok) = Cut item CHR ''='' in
      if \<not> ok then parseMetaFields i enabled items
      else if key = ''id'' then parseMetaFields value enabled items
      else if key = ''enabled'' then
        (if value = ''true'' then parseMetaFields i True items
         else if value = ''false'' then parseMetaFields i False items
         else Inl (ErrText (''unsupported enabled value '' @ quoted value)))
      else parseMetaFields i enabled items)"

definition parseCronRuleMeta :: "string \<Rightarrow> (string \<times> bool) res" where
  "parseCronRuleMeta line =
     bind_res (parseMetaFields [] True (drop 2 (Fields line))) (\<lambda>(i, enabled).
       if \<not> validCronRuleID i then Inl (ErrText (''invalid rule id '' @ quoted i)) else Inr (i, enabled))"

fun tailAfterFields :: "nat \<Rightarrow> string \<Rightarrow> string option" where
  "tailAfterFields 0 tail = Some tail"
| "tailAfterFields (Suc n) tail =
     (let trimmed = TrimLeft tail [SP, TAB] in
      case IndexAny trimmed [SP, TAB] of
        None \<Rightarrow> None
      | Some pos \<Rightarrow> tailAfterFields n (drop (Suc pos) trimmed))"

definition cronLineTailAfterFields :: "string \<Rightarrow> nat \<Rightarrow> string" where
  "cronLineTailAfterFields line count =
     (case tailAfterFields count line of None \<Rightarrow> [] | Some tail \<Rightarrow> TrimSpace tail)"

definition parseCronTargetAndRest :: "string \<Rightarrow> (string \<times> string) res" where
  "parseCronTargetAndRest tail =
     (if HasPrefix tail [DQ] then
        (let rest = TrimPrefix tail [DQ] in
         case IndexByte rest DQ of
           None \<Rightarrow> Inl (ErrText ''unterminated quoted target'')
         | Some end' \<Rightarrow> Inr (take end' rest, TrimSpace (drop (Suc end') rest)))
      else
        (let items = Fields tail in
         if length items < 2 then Inl (ErrText ''missing target or action'')
         else Inr (hd items, TrimSpace (TrimPrefix tail (hd items)))))"

definition parseCronRuleLine :: "string \<Rightarrow> cronRule res" where
  "parseCronRuleLine line0 =
     (let line = TrimSpace line0 in
      if line = [] then Inl (ErrText ''empty rule'')
      else
        let items = Fields line in
        if length items < 9
        then Inl (ErrText ''expected minute hour day month weekday target action owner_user_id wake'')
        else
          bind_res (parseCronTargetAndRest (cronLineTailAfterFields line 5)) (\<lambda>(target, rest).
            case Fields rest of
              [action, userID, flag] \<Rightarrow>
                if flag \<noteq> ''Y'' \<and> flag \<noteq> ''N'' then Inl (ErrText ''wake flag must be Y or N'')
                else if \<not> validUserID userID then Inl (ErrText ''invalid rule owner user ID'')
                else Inr \<lparr> cron_ID = [], cron_Enabled = False, cron_Minute = items ! 0,
                           cron_Hour = items ! 1, cron_Day = items ! 2, cron_Month = items ! 3,
                           cron_Weekday = items ! 4, cron_Target = target, cron_Action = action,
                           cron_Wake = (flag = ''Y''), cron_UserID = userID, cron_Line = 0 \<rparr>
            | _ \<Rightarrow> Inl (ErrText ''expected exactly one action, one owner user ID and one wake flag'')))"

definition uncommentCronRuleLine :: "string \<Rightarrow> string" where
  "uncommentCronRuleLine line =
     (let trimmed = TrimSpace line in
      if HasPrefix trimmed ''#'' then TrimSpace (TrimPrefix trimmed ''#'') else line)"

text \<open>The rule of a metadata line and the line after it; \<open>i\<close> is the index of the metadata line.\<close>

definition parseCronBlock :: "nat \<Rightarrow> string \<Rightarrow> string \<Rightarrow> cronRule res" where
  "parseCronBlock i meta ruleLine0 =
     (case parseCronRuleMeta meta of
        Inl e \<Rightarrow> Inl (wrapErr (''invalid cron rule metadata at line '' @ Itoa (int i + 1)) e)
      | Inr (ruleID, enabled) \<Rightarrow>
          (case parseCronRuleLine (if enabled then ruleLine0 else uncommentCronRuleLine ruleLine0) of
             Inl e \<Rightarrow> Inl (wrapErr (''invalid cron rule at line '' @ Itoa (int i + 2)) e)
           | Inr rule \<Rightarrow> Inr (rule\<lparr>cron_ID := ruleID, cron_Enabled := enabled, cron_Line := i + 2\<rparr>)))"

fun parseCronLines :: "nat \<Rightarrow> string list \<Rightarrow> cronRuleBlock list res" where
  "parseCronLines i [] = Inr []"
| "parseCronLines i (line # lines) =
     (if \<not> HasPrefix line cronRuleMetaPrefix then parseCronLines (Suc i) lines
      else case lines of
        [] \<Rightarrow> Inl (ErrText (''cron rule metadata at line '' @ Itoa (int i + 1) @ '' has no rule line''))
      | ruleLine # rest \<Rightarrow>
          bind_res (parseCronBlock i line ruleLine) (\<lambda>rule.
            bind_res (parseCronLines (Suc (Suc i)) rest) (\<lambda>blocks.
              Inr (\<lparr> MetaIndex = i, RuleIndex = Suc i, Rule = rule \<rparr> # blocks))))"

text \<open>The lines of a text: line feeds separate them, and a last empty line is dropped.\<close>

definition textLines :: "string \<Rightarrow> string list" where
  "textLines data =
     (let lines = Split (ReplaceCRLF data) LF
      in if last lines = [] then butlast lines else lines)"

definition readCronConfigDoc :: "string res \<Rightarrow> cronConfigDoc res" where
  "readCronConfigDoc file =
     (case file of
        Inl e \<Rightarrow> if is_not_exist e then Inr \<lparr> Lines = [], Blocks = [] \<rparr> else Inl e
      | Inr data \<Rightarrow>
          bind_res (parseCronLines 0 (textLines data)) (\<lambda>blocks.
            Inr \<lparr> Lines = textLines data, Blocks = blocks \<rparr>))"

definition readCronRules :: "string res \<Rightarrow> string \<Rightarrow> cronRule list res" where
  "readCronRules file userID =
     bind_res (readCronConfigDoc file) (\<lambda>doc.
       Inr (filter (\<lambda>rule. userID = [] \<or> cron_UserID rule = userID) (map Rule (Blocks doc))))"

section \<open>Printing\<close>

definition cronMetaLine :: "cronRule \<Rightarrow> string" where
  "cronMetaLine rule =
     cronRuleMetaPrefix @ '' id='' @ cron_ID rule @ '' enabled='' @
       (if cron_Enabled rule then ''true'' else ''false'')"

definition quoteCronTarget :: "string \<Rightarrow> string" where
  "quoteCronTarget target = (if ContainsAny target [SP, TAB] then quoted target else target)"

definition cronConfigLine :: "cronRule \<Rightarrow> string" where
  "cronConfigLine rule =
     (let line = Join [cron_Minute rule, cron_Hour rule, cron_Day rule, cron_Month rule,
                   cron_Weekday rule, quoteCronTarget (cron_Target rule), cron_Action rule,
                   cron_UserID rule, (if cron_Wake rule then ''Y'' else ''N'')] '' ''
      in if \<not> cron_Enabled rule then ''# '' @ line else line)"

section \<open>Validation\<close>

definition validCronAtom :: "string \<Rightarrow> int \<Rightarrow> int \<Rightarrow> bool" where
  "validCronAtom atom lo hi =
     (if atom = ''*'' then True
      else if Contains atom ''-'' then
        (let (startText, endText, ok) = Cut atom CHR ''-'' in
         if \<not> ok then False
         else case Atoi startText of
           None \<Rightarrow> False
         | Some start \<Rightarrow>
             (case Atoi endText of
                None \<Rightarrow> False
              | Some end' \<Rightarrow> start \<ge> lo \<and> end' \<le> hi \<and> start \<le> end'))
      else case Atoi atom of None \<Rightarrow> False | Some value \<Rightarrow> value \<ge> lo \<and> value \<le> hi)"

definition validCronPart :: "string \<Rightarrow> int \<Rightarrow> int \<Rightarrow> bool" where
  "validCronPart part lo hi =
     (if Contains part ''/'' then
        (let (base, stepText, ok) = Cut part CHR ''/'' in
         if \<not> ok \<or> stepText = [] then False
         else case Atoi stepText of
           None \<Rightarrow> False
         | Some step \<Rightarrow> if step < 1 then False else validCronAtom base lo hi)
      else validCronAtom part lo hi)"

definition validCronField :: "string \<Rightarrow> int \<Rightarrow> int \<Rightarrow> bool" where
  "validCronField item lo hi \<longleftrightarrow>
     item \<noteq> [] \<and> list_all (\<lambda>part. part \<noteq> [] \<and> validCronPart part lo hi) (Split item CHR '','')"

definition validateCronRuleFields :: "cronRule \<Rightarrow> goerror option" where
  "validateCronRuleFields rule =
     (case find (\<lambda>(name, value, lo, hi). \<not> validCronField value lo hi)
        [(''minute'', cron_Minute rule, 0, 59), (''hour'', cron_Hour rule, 0, 23),
         (''day'', cron_Day rule, 1, 31), (''month'', cron_Month rule, 1, 12),
         (''weekday'', cron_Weekday rule, 0, 7)] of
        Some (name, _) \<Rightarrow> Some (ErrText (''Invalid crontab rule at: '' @ name))
      | None \<Rightarrow>
          if cron_Action rule \<in> {''warn'', ''move'', ''remove''} then None
          else Some (ErrText ''Invalid crontab rule at: action''))"

definition prepareCronRule :: "osview \<Rightarrow> config \<Rightarrow> cronRule \<Rightarrow> actor \<Rightarrow> cronRule res" where
  "prepareCronRule os cfg req who =
     (let action = TrimSpace (cron_Action req);
          rule = \<lparr> cron_ID = [], cron_Enabled = cron_Enabled req,
                   cron_Minute = TrimSpace (cron_Minute req), cron_Hour = TrimSpace (cron_Hour req),
                   cron_Day = TrimSpace (cron_Day req), cron_Month = TrimSpace (cron_Month req),
                   cron_Weekday = TrimSpace (cron_Weekday req), cron_Target = TrimSpace (cron_Target req),
                   cron_Action = (if action = [] then ''warn'' else action), cron_Wake = cron_Wake req,
                   cron_UserID = [], cron_Line = 0 \<rparr>
      in case validateCronRuleFields rule of
           Some e \<Rightarrow> Inl e
         | None \<Rightarrow>
             bind_res (safePathForActor os cfg (cron_Target rule) who) (\<lambda>target.
               bind_res (os_Stat os target) (\<lambda>_.
                 if Contains target [DQ] then Inl (ErrText ''Invalid crontab rule at: target'')
                 else Inr (rule\<lparr>cron_Target := target\<rparr>))))"

section \<open>Reading back what was printed\<close>

text \<open>
  A rule that the line format can hold: the fields are words, the owner is a user identifier,
  and the target has no double quote when it must be quoted (it holds a blank or a tab) and is
  a word that does not start with a quote otherwise.
\<close>

definition printableTarget :: "string \<Rightarrow> bool" where
  "printableTarget target \<longleftrightarrow>
     (if ContainsAny target [SP, TAB] then DQ \<notin> set target
      else word target \<and> \<not> HasPrefix target [DQ])"

definition printable :: "cronRule \<Rightarrow> bool" where
  "printable r \<longleftrightarrow>
     word (cron_Minute r) \<and> word (cron_Hour r) \<and> word (cron_Day r) \<and> word (cron_Month r) \<and>
     word (cron_Weekday r) \<and> word (cron_Action r) \<and> validUserID (cron_UserID r) \<and>
     printableTarget (cron_Target r)"

lemma alnum_graphic: "isLower c \<or> isDigit c \<Longrightarrow> graphic c"
  by (auto simp: isLower_def isDigit_def graphic_def)

lemma word_lowerDigits: "w \<noteq> [] \<Longrightarrow> list_all (\<lambda>c. isLower c \<or> isDigit c) w \<Longrightarrow> word w"
  using spaceFree_graphic [of w] alnum_graphic by (auto simp: word_def list_all_iff)

lemma validUserID_word: "validUserID u \<Longrightarrow> word u"
  by (rule word_lowerDigits) (auto simp: validUserID_def)

lemma validCronRuleID_word: "validCronRuleID i \<Longrightarrow> word i"
  by (rule word_lowerDigits) (auto simp: validCronRuleID_def)

lemma tailAfterFields_word [simp]:
  "word w \<Longrightarrow> tailAfterFields (Suc n) (w @ SP # rest) = tailAfterFields n rest"
  using spaceFree_no_blank [of w]
  by (simp add: TrimLeft_word IndexAny_word word_def)

definition wakeFlag :: "cronRule \<Rightarrow> string" where
  "wakeFlag r = (if cron_Wake r then ''Y'' else ''N'')"

definition lineEnd :: "cronRule \<Rightarrow> string" where
  "lineEnd r = cron_Action r @ SP # cron_UserID r @ SP # wakeFlag r"

lemma wakeFlag_facts:
  "word (wakeFlag r)" "ascii (last (wakeFlag r))" "\<not> asciiSpace (last (wakeFlag r))" "wakeFlag r \<noteq> []"
  by (auto simp: wakeFlag_def word_def ascii_def asciiSpace_def spaceLen_def)

lemma word_spaceLen: "word w \<Longrightarrow> rest = [] \<or> ascii (hd rest) \<Longrightarrow> spaceLen (w @ rest) = 0"
  by (rule spaceLen_append) (auto simp: word_def neq_Nil_conv)

lemma TrimSpace_lineEnd:
  assumes "printable r" and "t = [] \<or> (spaceLen (t @ SP # lineEnd r) = 0)"
  shows "TrimSpace (if t = [] then lineEnd r else t @ SP # lineEnd r) = (if t = [] then lineEnd r else t @ SP # lineEnd r)"
proof (intro TrimSpace_text)
  have "spaceLen (lineEnd r) = 0"
    using assms(1) unfolding lineEnd_def by (intro word_spaceLen) (auto simp: printable_def)
  then show "spaceLen (if t = [] then lineEnd r else t @ SP # lineEnd r) = 0" using assms(2) by auto
qed (use wakeFlag_facts [of r] in \<open>auto simp: lineEnd_def\<close>)

lemma Fields_lineEnd:
  "printable r \<Longrightarrow> Fields (lineEnd r) = [cron_Action r, cron_UserID r, wakeFlag r]"
  using wakeFlag_facts(1) [of r] by (simp add: lineEnd_def printable_def validUserID_word)

definition targetPart :: "cronRule \<Rightarrow> string" where
  "targetPart r = quoteCronTarget (cron_Target r) @ SP # lineEnd r"

lemma spaceLen_DQ: "spaceLen (DQ # s) = 0"
  by (auto simp: spaceLen_def asciiSpace_def space2_def space3_def split: list.splits)

lemma targetPart_spaceLen: "printable r \<Longrightarrow> spaceLen (targetPart r) = 0"
proof (cases "ContainsAny (cron_Target r) [SP, TAB]")
  case True
  then show ?thesis by (simp add: targetPart_def quoteCronTarget_def quoted_def spaceLen_DQ)
next
  case False
  assume "printable r"
  with False have "word (cron_Target r)" by (simp add: printable_def printableTarget_def)
  with False show ?thesis by (simp add: targetPart_def quoteCronTarget_def word_spaceLen)
qed

lemma targetPart_trim: "printable r \<Longrightarrow> TrimSpace (targetPart r) = targetPart r"
  using TrimSpace_lineEnd [of r "quoteCronTarget (cron_Target r)"] targetPart_spaceLen [of r]
  by (auto simp: targetPart_def quoteCronTarget_def quoted_def printable_def printableTarget_def word_def
      split: if_splits)

lemma IndexByte_append: "c \<notin> set s \<Longrightarrow> IndexByte (s @ c # rest) c = Some (length s)"
  by (induction s) auto

lemma parse_targetPart:
  assumes "printable r"
  shows "parseCronTargetAndRest (targetPart r) = Inr (cron_Target r, lineEnd r)"
proof -
  have trim: "TrimSpace (lineEnd r) = lineEnd r" using TrimSpace_lineEnd [OF assms, of "[]"] by simp
  show ?thesis
  proof (cases "ContainsAny (cron_Target r) [SP, TAB]")
    case True
    then have "DQ \<notin> set (cron_Target r)" using assms by (simp add: printable_def printableTarget_def)
    with True trim show ?thesis
      by (simp add: targetPart_def quoteCronTarget_def quoted_def parseCronTargetAndRest_def HasPrefix_def
          TrimPrefix_def IndexByte_append)
  next
    case False
    then have w: "word (cron_Target r)" and nq: "\<not> HasPrefix (cron_Target r) [DQ]"
      using assms by (auto simp: printable_def printableTarget_def)
    have "\<not> HasPrefix (targetPart r) [DQ]"
      using nq w unfolding targetPart_def quoteCronTarget_def if_not_P [OF False]
      by (cases "cron_Target r") (auto simp: HasPrefix_def word_def)
    moreover have "Fields (targetPart r) = cron_Target r # Fields (lineEnd r)"
      using w by (simp add: False targetPart_def quoteCronTarget_def)
    ultimately show ?thesis
      using Fields_lineEnd [OF assms] trim
      by (simp add: parseCronTargetAndRest_def False targetPart_def quoteCronTarget_def TrimPrefix_def HasPrefix_def)
  qed
qed

definition ruleText :: "cronRule \<Rightarrow> string" where
  "ruleText r = cron_Minute r @ SP # cron_Hour r @ SP # cron_Day r @ SP # cron_Month r @ SP #
                cron_Weekday r @ SP # targetPart r"

lemma cronConfigLine_text:
  "cronConfigLine r = (if cron_Enabled r then ruleText r else ''# '' @ ruleText r)"
  by (simp add: cronConfigLine_def ruleText_def targetPart_def lineEnd_def wakeFlag_def Let_def)

lemma ruleText_spaceLen: "printable r \<Longrightarrow> spaceLen (ruleText r) = 0"
  unfolding ruleText_def by (intro word_spaceLen) (auto simp: printable_def)

lemma ruleText_last: "ruleText r \<noteq> [] \<and> last (ruleText r) = last (wakeFlag r)"
  using wakeFlag_facts(4) [of r] by (simp add: ruleText_def targetPart_def lineEnd_def)

lemma ruleText_trim: "printable r \<Longrightarrow> TrimSpace (ruleText r) = ruleText r"
  using ruleText_last [of r] ruleText_spaceLen [of r] wakeFlag_facts [of r] by (intro TrimSpace_text) auto

lemma Fields_targetPart:
  assumes "printable r"
  shows "4 \<le> length (Fields (targetPart r))"
proof -
  have ne: "quoteCronTarget (cron_Target r) \<noteq> []" "spaceLen (quoteCronTarget (cron_Target r)) = 0"
    using assms
    by (auto simp: quoteCronTarget_def quoted_def spaceLen_DQ printable_def printableTarget_def word_def
        neq_Nil_conv split: if_splits)
  obtain f fs where "Fields (targetPart r) = f # fs @ Fields (lineEnd r)"
    using Fields_append_SP [OF ne, of "lineEnd r"] unfolding targetPart_def by blast
  then show ?thesis by (simp add: Fields_lineEnd [OF assms])
qed

lemma parse_ruleText:
  assumes "printable r"
  shows "parseCronRuleLine (ruleText r) = Inr (r\<lparr>cron_ID := [], cron_Enabled := False, cron_Line := 0\<rparr>)"
proof -
  have ws: "word (cron_Minute r)" "word (cron_Hour r)" "word (cron_Day r)" "word (cron_Month r)"
      "word (cron_Weekday r)" "validUserID (cron_UserID r)"
    using assms by (auto simp: printable_def)
  have fields: "Fields (ruleText r) = cron_Minute r # cron_Hour r # cron_Day r # cron_Month r #
      cron_Weekday r # Fields (targetPart r)"
    using ws by (simp add: ruleText_def)
  have tail: "cronLineTailAfterFields (ruleText r) 5 = targetPart r"
    using ws targetPart_trim [OF assms]
    by (simp add: cronLineTailAfterFields_def ruleText_def numeral_eq_Suc del: tailAfterFields.simps(2))
  have flag: "wakeFlag r = ''Y'' \<or> wakeFlag r = ''N''" "(wakeFlag r = ''Y'') = cron_Wake r"
    by (auto simp: wakeFlag_def)
  show ?thesis
    using ruleText_trim [OF assms] ruleText_last [of r] Fields_targetPart [OF assms] ws(6) flag
    by (simp add: parseCronRuleLine_def Let_def fields tail parse_targetPart [OF assms] Fields_lineEnd [OF assms])
qed

lemma parse_cronMetaLine:
  assumes "validCronRuleID (cron_ID r)"
  shows "parseCronRuleMeta (cronMetaLine r) = Inr (cron_ID r, cron_Enabled r)"
proof -
  let ?flag = "''enabled='' @ (if cron_Enabled r then ''true'' else ''false'')"
  have id_: "word (''id='' @ cron_ID r)"
  proof -
    have "list_all graphic (cron_ID r)"
      using assms alnum_graphic by (auto simp: validCronRuleID_def list_all_iff)
    then have "list_all graphic (''id='' @ cron_ID r)" by (simp add: graphic_def)
    then show ?thesis using spaceFree_graphic unfolding word_def by blast
  qed
  have flag: "word ?flag"
    using spaceFree_graphic [of ?flag] unfolding word_def by (simp add: graphic_def)
  have w: "word ''#''" "word ''scanner-cron-rule''"
    using spaceFree_graphic [of "''#''"] spaceFree_graphic [of "''scanner-cron-rule''"]
    unfolding word_def by (simp_all add: graphic_def)
  have meta: "cronMetaLine r = ''#'' @ SP # ''scanner-cron-rule'' @ SP # (''id='' @ cron_ID r) @ SP # ?flag"
    by (simp add: cronMetaLine_def cronRuleMetaPrefix_def)
  have "Fields (cronMetaLine r) = [''#'', ''scanner-cron-rule'', ''id='' @ cron_ID r, ?flag]"
    unfolding meta by (simp only: Fields_word_SP [OF w(1)] Fields_word_SP [OF w(2)] Fields_word_SP [OF id_]
        Fields_word [OF flag])
  then show ?thesis using assms by (cases "cron_Enabled r") (simp_all add: parseCronRuleMeta_def)
qed

lemma parse_cronConfigLine:
  assumes "printable r"
  shows "parseCronRuleLine (if cron_Enabled r then cronConfigLine r else uncommentCronRuleLine (cronConfigLine r)) =
           Inr (r\<lparr>cron_ID := [], cron_Enabled := False, cron_Line := 0\<rparr>)"
proof (cases "cron_Enabled r")
  case False
  have "TrimSpace (CHR ''#'' # SP # ruleText r) = CHR ''#'' # SP # ruleText r"
    using ruleText_last [of r] wakeFlag_facts(2,3) [of r]
    by (intro TrimSpace_text)
       (auto simp: spaceLen_def asciiSpace_def space2_def space3_def split: list.splits)
  then have "uncommentCronRuleLine (cronConfigLine r) = ruleText r"
    using False ruleText_trim [OF assms]
    by (simp add: uncommentCronRuleLine_def cronConfigLine_text HasPrefix_def TrimPrefix_def)
  with False show ?thesis using parse_ruleText [OF assms] by simp
qed (simp add: cronConfigLine_text parse_ruleText [OF assms])

lemma parse_printed_block:
  assumes "printable r" and "validCronRuleID (cron_ID r)"
  shows "parseCronBlock i (cronMetaLine r) (cronConfigLine r) = Inr (r\<lparr>cron_Line := i + 2\<rparr>)"
  using parse_cronConfigLine [OF assms(1)] parse_cronMetaLine [OF assms(2)]
  by (simp add: parseCronBlock_def)

section \<open>Operations on the document\<close>

definition findCronRuleBlock :: "string res \<Rightarrow> string \<Rightarrow> string \<Rightarrow> (cronConfigDoc \<times> cronRuleBlock) res" where
  "findCronRuleBlock file i userID =
     (if \<not> validCronRuleID i then Inl (ErrText ''invalid rule id'')
      else bind_res (readCronConfigDoc file) (\<lambda>doc.
        case find (\<lambda>block. cron_ID (Rule block) = i \<and> (userID = [] \<or> cron_UserID (Rule block) = userID))
               (Blocks doc) of
          None \<Rightarrow> Inl (ErrText ''cron rule not found'')
        | Some block \<Rightarrow> Inr (doc, block)))"

text \<open>
  \<^verbatim>\<open>uniqueCronRuleID\<close> tries random identifiers until one is not in use; \<open>candidates\<close> are the ones
  it draws, and \<open>None\<close> means that it is still drawing.
\<close>

definition uniqueCronRuleID :: "string list \<Rightarrow> cronRuleBlock list \<Rightarrow> string option" where
  "uniqueCronRuleID candidates blocks =
     find (\<lambda>i. i \<notin> set (map (\<lambda>block. cron_ID (Rule block)) blocks)) candidates"

text \<open>The lines after each operation, before they are saved.\<close>

definition setBlock :: "cronRuleBlock \<Rightarrow> cronRule \<Rightarrow> string list \<Rightarrow> string list" where
  "setBlock block rule lines =
     (lines[MetaIndex block := cronMetaLine rule])[RuleIndex block := cronConfigLine rule]"

definition addedLines ::
    "osview \<Rightarrow> config \<Rightarrow> string list \<Rightarrow> cronRule \<Rightarrow> actor \<Rightarrow> string res \<Rightarrow> string list option res" where
  "addedLines os cfg candidates req who file =
     bind_res (readCronConfigDoc file) (\<lambda>doc.
       bind_res (prepareCronRule os cfg req who) (\<lambda>rule.
         Inr (case uniqueCronRuleID candidates (Blocks doc) of
                None \<Rightarrow> None
              | Some i \<Rightarrow>
                  let rule' = rule\<lparr>cron_ID := i, cron_UserID := ID who\<rparr>
                  in Some (Lines doc @ [cronMetaLine rule', cronConfigLine rule']))))"

definition updatedLines ::
    "osview \<Rightarrow> config \<Rightarrow> string \<Rightarrow> cronRule \<Rightarrow> actor \<Rightarrow> string res \<Rightarrow> string list res" where
  "updatedLines os cfg i req who file =
     bind_res (findCronRuleBlock file i (ID who)) (\<lambda>(doc, block).
       bind_res (prepareCronRule os cfg req who) (\<lambda>rule.
         Inr (setBlock block (rule\<lparr>cron_ID := i, cron_UserID := ID who\<rparr>) (Lines doc))))"

definition enabledLines ::
    "osview \<Rightarrow> config \<Rightarrow> string \<Rightarrow> bool \<Rightarrow> actor \<Rightarrow> string res \<Rightarrow> string list res" where
  "enabledLines os cfg i enabled who file =
     bind_res (findCronRuleBlock file i (ID who)) (\<lambda>(doc, block).
       bind_res (if enabled then safePathForActor os cfg (cron_Target (Rule block)) who else Inr []) (\<lambda>_.
         Inr (setBlock block ((Rule block)\<lparr>cron_Enabled := enabled\<rparr>) (Lines doc))))"

definition deletedLines :: "string \<Rightarrow> string \<Rightarrow> string res \<Rightarrow> string list res" where
  "deletedLines i userID file =
     bind_res (findCronRuleBlock file i userID) (\<lambda>(doc, block).
       Inr (take (MetaIndex block) (Lines doc) @ drop (Suc (RuleIndex block)) (Lines doc)))"

text \<open>\<open>None\<close>: nothing to change, and the file is not saved.\<close>

fun disableBlocks :: "string \<Rightarrow> cronRuleBlock list \<Rightarrow> string list \<Rightarrow> string list" where
  "disableBlocks userID [] lines = lines"
| "disableBlocks userID (block # blocks) lines =
     (if cron_UserID (Rule block) \<noteq> userID \<or> \<not> cron_Enabled (Rule block)
      then disableBlocks userID blocks lines
      else disableBlocks userID blocks (setBlock block ((Rule block)\<lparr>cron_Enabled := False\<rparr>) lines))"

definition disabledLines :: "string \<Rightarrow> string res \<Rightarrow> string list option res" where
  "disabledLines userID file =
     bind_res (readCronConfigDoc file) (\<lambda>doc.
       Inr (if list_ex (\<lambda>block. cron_UserID (Rule block) = userID \<and> cron_Enabled (Rule block)) (Blocks doc)
            then Some (disableBlocks userID (Blocks doc) (Lines doc)) else None))"

definition keepLines :: "nat list \<Rightarrow> string list \<Rightarrow> string list" where
  "keepLines removed lines = map snd (filter (\<lambda>(i, line). i \<notin> set removed) (enumerate 0 lines))"

definition removedLines :: "string \<Rightarrow> string res \<Rightarrow> string list option res" where
  "removedLines userID file =
     bind_res (readCronConfigDoc file) (\<lambda>doc.
       let removed = concat (map (\<lambda>block. [MetaIndex block, RuleIndex block])
                      (filter (\<lambda>block. cron_UserID (Rule block) = userID) (Blocks doc)))
       in Inr (if removed = [] then None else Some (keepLines removed (Lines doc))))"

section \<open>Saving\<close>

text \<open>
  One run of the cron script: its combined output, whether it ran into the timeout, and its
  error. The environment of a save: what the script does on a configuration, and the errors of
  writing the temporary file and of renaming it.
\<close>

record scriptRun =
  run_output :: string
  run_timeout :: bool
  run_err :: "goerror option"

record cronWorld =
  cw_script :: "string list \<Rightarrow> string \<Rightarrow> scriptRun"
  cw_writeErr :: "goerror option"
  cw_renameErr :: "goerror option"

definition cronScriptMessage :: "string \<Rightarrow> string" where
  "cronScriptMessage output =
     (let lines = map TrimSpace (Split (TrimSpace output) LF) in
      case find (\<lambda>line. HasPrefix line ''Invalid'' \<or> HasPrefix line ''Cron config is valid'' \<or>
                        HasPrefix line ''Cron rules reloaded'') lines of
        Some line \<Rightarrow> line
      | None \<Rightarrow> last lines)"

definition runCronScript :: "cronWorld \<Rightarrow> string list \<Rightarrow> string \<Rightarrow> string res" where
  "runCronScript w args content =
     (let r = cw_script w args content; message = cronScriptMessage (run_output r) in
      if run_timeout r then Inl (ErrText ''cron command timed out'')
      else case run_err r of
        Some e \<Rightarrow> Inl (ErrText (if message = [] then errText e else message))
      | None \<Rightarrow>
          if args \<noteq> [] \<and> hd args = ''validate'' \<and> \<not> HasPrefix message ''Cron config is valid''
          then Inl (ErrText message) else Inr message)"

definition renderLines :: "string list \<Rightarrow> string" where
  "renderLines lines = (let content = Join lines [LF] in if content = [] then [] else content @ [LF])"

text \<open>\<^verbatim>\<open>saveCronConfigDoc\<close>: its result and the file it leaves.\<close>

definition saveCronConfigDoc ::
    "cronWorld \<Rightarrow> string \<Rightarrow> string list \<Rightarrow> string \<Rightarrow> string res \<Rightarrow>
     (cronRule list \<times> string) res \<times> string res" where
  "saveCronConfigDoc w tmpPath lines userID file =
     (let content = renderLines lines in
      case cw_writeErr w of
        Some e \<Rightarrow> (Inl e, file)
      | None \<Rightarrow>
     (case runCronScript w [''validate'', tmpPath] content of
        Inl e \<Rightarrow> (Inl e, file)
      | Inr _ \<Rightarrow>
     (case cw_renameErr w of
        Some e \<Rightarrow> (Inl e, file)
      | None \<Rightarrow>
     (case runCronScript w [''reload''] content of
        Inl e \<Rightarrow> (Inl e, Inr content)
      | Inr message \<Rightarrow>
          (bind_res (readCronRules (Inr content) userID) (\<lambda>rules. Inr (rules, message)), Inr content)))))"

text \<open>An operation: compute the lines, then save them. \<open>None\<close> is a call that does not return.\<close>

definition saveResult ::
    "cronWorld \<Rightarrow> string \<Rightarrow> string \<Rightarrow> string res \<Rightarrow> string list res \<Rightarrow>
     (cronRule list \<times> string) res \<times> string res" where
  "saveResult w tmpPath userID file r =
     (case r of Inl e \<Rightarrow> (Inl e, file) | Inr lines \<Rightarrow> saveCronConfigDoc w tmpPath lines userID file)"

definition addCronRule ::
    "osview \<Rightarrow> config \<Rightarrow> cronWorld \<Rightarrow> string \<Rightarrow> string list \<Rightarrow> cronRule \<Rightarrow> actor \<Rightarrow> string res \<Rightarrow>
     ((cronRule list \<times> string) res \<times> string res) option" where
  "addCronRule os cfg w tmpPath candidates req who file =
     (case addedLines os cfg candidates req who file of
        Inl e \<Rightarrow> Some (Inl e, file)
      | Inr None \<Rightarrow> None
      | Inr (Some lines) \<Rightarrow> Some (saveCronConfigDoc w tmpPath lines (ID who) file))"

definition updateCronRule where
  "updateCronRule os cfg w tmpPath i req who file =
     saveResult w tmpPath (ID who) file (updatedLines os cfg i req who file)"

definition setCronRuleEnabled where
  "setCronRuleEnabled os cfg w tmpPath i enabled who file =
     saveResult w tmpPath (ID who) file (enabledLines os cfg i enabled who file)"

definition deleteCronRule where
  "deleteCronRule w tmpPath i userID file =
     saveResult w tmpPath userID file (deletedLines i userID file)"

definition saveOptional ::
    "cronWorld \<Rightarrow> string \<Rightarrow> string \<Rightarrow> string res \<Rightarrow> string list option res \<Rightarrow> goerror option \<times> string res" where
  "saveOptional w tmpPath userID file r =
     (case r of
        Inl e \<Rightarrow> (Some e, file)
      | Inr None \<Rightarrow> (None, file)
      | Inr (Some lines) \<Rightarrow>
          (case saveCronConfigDoc w tmpPath lines userID file of
             (Inl e, file') \<Rightarrow> (Some e, file')
           | (Inr _, file') \<Rightarrow> (None, file')))"

definition disableCronRulesForUser where
  "disableCronRulesForUser w tmpPath userID file =
     saveOptional w tmpPath userID file (disabledLines userID file)"

definition removeCronRulesForUser where
  "removeCronRulesForUser w tmpPath userID file =
     saveOptional w tmpPath userID file (removedLines userID file)"

end
