(* ===== verification/Cron_Documents.thy ===== *)
theory Cron_Documents
  imports Cron_Config
begin

text \<open>
  What the operations on the cron configuration do to the rules it holds. A document is a list
  of segments, a plain line or a metadata line with its rule; reading a document is a function
  of its segments, and every operation replaces, drops or appends segments.
\<close>

section \<open>Segments\<close>

datatype segment = Plain string | Ruled string string

fun segmentLines :: "segment \<Rightarrow> string list" where
  "segmentLines (Plain l) = [l]"
| "segmentLines (Ruled m l) = [m, l]"

definition flat :: "segment list \<Rightarrow> string list" where
  "flat segs = concat (map segmentLines segs)"

lemma flat_simps [simp]:
  "flat [] = []" "flat (s # segs) = segmentLines s @ flat segs" "flat (a @ b) = flat a @ flat b"
  by (simp_all add: flat_def)

definition unline :: "cronRule \<Rightarrow> cronRule" where
  "unline r = r\<lparr>cron_Line := 0\<rparr>"

fun readable :: "segment \<Rightarrow> bool" where
  "readable (Plain l) = (\<not> HasPrefix l cronRuleMetaPrefix)"
| "readable (Ruled m l) = (HasPrefix m cronRuleMetaPrefix \<and> \<not> isl (parseCronBlock 0 m l))"

definition ruleOf :: "string \<Rightarrow> string \<Rightarrow> cronRule" where
  "ruleOf m l = unline (projr (parseCronBlock 0 m l))"

fun segRules :: "segment list \<Rightarrow> cronRule list" where
  "segRules [] = []"
| "segRules (Plain l # segs) = segRules segs"
| "segRules (Ruled m l # segs) = ruleOf m l # segRules segs"

fun blocksOf :: "nat \<Rightarrow> segment list \<Rightarrow> cronRuleBlock list" where
  "blocksOf i [] = []"
| "blocksOf i (Plain l # segs) = blocksOf (Suc i) segs"
| "blocksOf i (Ruled m l # segs) =
     \<lparr> MetaIndex = i, RuleIndex = Suc i, Rule = (ruleOf m l)\<lparr>cron_Line := i + 2\<rparr> \<rparr> # blocksOf (Suc (Suc i)) segs"

lemma segRules_append [simp]: "segRules (a @ b) = segRules a @ segRules b"
  by (induction a rule: segRules.induct) auto

text \<open>The position matters for the line number and the error text only.\<close>

lemma parseCronBlock_position:
  "parseCronBlock i m l = Inr r \<longleftrightarrow>
     \<not> isl (parseCronBlock 0 m l) \<and> r = (ruleOf m l)\<lparr>cron_Line := i + 2\<rparr>"
  by (auto simp: parseCronBlock_def ruleOf_def unline_def split: sum.splits prod.splits)

lemma parse_readable:
  "list_all readable segs \<Longrightarrow> parseCronLines i (flat segs) = Inr (blocksOf i segs)"
proof (induction segs arbitrary: i)
  case (Cons s segs)
  show ?case
  proof (cases s)
    case (Ruled m l)
    with Cons have "parseCronBlock i m l = Inr ((ruleOf m l)\<lparr>cron_Line := i + 2\<rparr>)"
      unfolding parseCronBlock_position by simp
    with Ruled Cons show ?thesis by simp
  qed (use Cons in simp)
qed simp

lemma parse_segments:
  "parseCronLines i lines = Inr blocks \<Longrightarrow> \<exists>segs. lines = flat segs \<and> list_all readable segs"
proof (induction i lines arbitrary: blocks rule: parseCronLines.induct)
  case (1 i)
  then show ?case by (intro exI [of _ "[]"]) simp
next
  case (2 i line lines)
  show ?case
  proof (cases "HasPrefix line cronRuleMetaPrefix")
    case False
    then obtain segs where "lines = flat segs" "list_all readable segs" using 2 by auto
    with False show ?thesis by (intro exI [of _ "Plain line # segs"]) simp
  next
    case True
    with 2(3) obtain ruleLine rest rule bs where l: "lines = ruleLine # rest"
      and r: "parseCronBlock i line ruleLine = Inr rule" and bs: "parseCronLines (Suc (Suc i)) rest = Inr bs"
      by (auto split: list.splits)
    obtain segs where "rest = flat segs" "list_all readable segs"
      using 2(2) [of ruleLine rest bs] True l bs by auto
    moreover have "\<not> isl (parseCronBlock 0 line ruleLine)" using r unfolding parseCronBlock_position by simp
    ultimately show ?thesis using l True by (intro exI [of _ "Ruled line ruleLine # segs"]) simp
  qed
qed

definition docRules :: "string list \<Rightarrow> cronRule list option" where
  "docRules lines =
     (case parseCronLines 0 lines of
        Inl _ \<Rightarrow> None
      | Inr blocks \<Rightarrow> Some (map (\<lambda>block. unline (Rule block)) blocks))"

lemma blocksOf_rules: "map (\<lambda>block. unline (Rule block)) (blocksOf i segs) = segRules segs"
  by (induction i segs rule: blocksOf.induct) (auto simp: unline_def ruleOf_def)

lemma docRules_flat: "list_all readable segs \<Longrightarrow> docRules (flat segs) = Some (segRules segs)"
  by (simp add: docRules_def parse_readable blocksOf_rules)

lemma blocksOf_located:
  assumes "block \<in> set (blocksOf i segs)"
  shows "\<exists>pre m l post. segs = pre @ Ruled m l # post \<and> MetaIndex block = i + length (flat pre) \<and>
           RuleIndex block = Suc (i + length (flat pre)) \<and>
           Rule block = (ruleOf m l)\<lparr>cron_Line := MetaIndex block + 2\<rparr>"
  using assms
proof (induction i segs rule: blocksOf.induct)
  case (2 i l segs)
  then obtain pre m l' post where "segs = pre @ Ruled m l' # post" "MetaIndex block = Suc i + length (flat pre)"
    "RuleIndex block = Suc (Suc i + length (flat pre))"
    "Rule block = (ruleOf m l')\<lparr>cron_Line := MetaIndex block + 2\<rparr>" by auto
  then show ?case by (intro exI [of _ "Plain l # pre"]) auto
next
  case (3 i m l segs)
  show ?case
  proof (cases "block \<in> set (blocksOf (Suc (Suc i)) segs)")
    case True
    then obtain pre m' l' post where "segs = pre @ Ruled m' l' # post"
      "MetaIndex block = Suc (Suc i) + length (flat pre)" "RuleIndex block = Suc (Suc (Suc i) + length (flat pre))"
      "Rule block = (ruleOf m' l')\<lparr>cron_Line := MetaIndex block + 2\<rparr>" using 3 by auto
    then show ?thesis by (intro exI [of _ "Ruled m l # pre"]) auto
  next
    case False
    with 3 have "block = \<lparr> MetaIndex = i, RuleIndex = Suc i, Rule = (ruleOf m l)\<lparr>cron_Line := i + 2\<rparr> \<rparr>" by auto
    then have "Ruled m l # segs = [] @ Ruled m l # segs \<and> MetaIndex block = i + length (flat []) \<and>
        RuleIndex block = Suc (i + length (flat [])) \<and> Rule block = (ruleOf m l)\<lparr>cron_Line := MetaIndex block + 2\<rparr>"
      by simp
    then show ?thesis by blast
  qed
qed simp

lemma list_update_pair:
  "k = length a \<Longrightarrow> (a @ x # y # b)[k := x', Suc k := y'] = a @ x' # y' # b"
  by (simp add: list_update_append)

lemma setBlock_flat:
  assumes "MetaIndex block = length (flat pre)" and "RuleIndex block = Suc (length (flat pre))"
  shows "setBlock block r (flat (pre @ Ruled m l # post)) =
           flat (pre @ Ruled (cronMetaLine r) (cronConfigLine r) # post)"
  unfolding setBlock_def assms flat_simps segmentLines.simps
  by (simp add: list_update_append)

lemma printed_readable:
  assumes "printable r" and "validCronRuleID (cron_ID r)"
  shows "readable (Ruled (cronMetaLine r) (cronConfigLine r))"
    and "ruleOf (cronMetaLine r) (cronConfigLine r) = unline r"
  using parse_printed_block [OF assms, of 0]
  by (auto simp: ruleOf_def unline_def cronMetaLine_def HasPrefix_def)

section \<open>The file\<close>

definition cleanLine :: "string \<Rightarrow> bool" where
  "cleanLine l \<longleftrightarrow> LF \<notin> set l \<and> CR \<notin> set l"

lemma ReplaceCRLF_id: "CR \<notin> set s \<Longrightarrow> ReplaceCRLF s = s"
  by (induction s rule: ReplaceCRLF.induct) auto

lemma Split_Join_sep:
  "cs \<noteq> [] \<Longrightarrow> (\<And>c. c \<in> set cs \<Longrightarrow> sep \<notin> set c) \<Longrightarrow> Split (Join cs [sep]) sep = cs"
  by (induction cs "[sep]" rule: Join.induct) (auto simp: Split_no_sep Split_append_sep)

lemma set_Join: "set (Join cs [sep]) \<subseteq> insert sep (\<Union> (set ` set cs))"
  by (induction cs "[sep]" rule: Join.induct) auto

lemma Join_eq_Nil_cases: "Join cs [sep] = [] \<Longrightarrow> cs = [] \<or> cs = [[]]"
proof (cases cs)
  case (Cons x xs)
  assume "Join cs [sep] = []"
  with Cons show ?thesis by (cases xs) auto
qed simp

lemma textLines_render:
  assumes "list_all cleanLine lines" and "Join lines [LF] \<noteq> []"
  shows "textLines (renderLines lines) = lines"
proof -
  have ne: "lines \<noteq> []" using assms(2) by auto
  have clean: "\<And>l. l \<in> set lines \<Longrightarrow> LF \<notin> set l \<and> CR \<notin> set l"
    using assms(1) by (auto simp: list_all_iff cleanLine_def)
  have "CR \<notin> set (Join lines [LF] @ [LF])" using set_Join [of lines LF] clean by fastforce
  then have "ReplaceCRLF (Join lines [LF] @ [LF]) = Join lines [LF] @ [LF]" by (rule ReplaceCRLF_id)
  moreover have "Split (Join lines [LF] @ [LF]) LF = lines @ [[]]"
    using Split_append_sep [of "Join lines [LF]" LF "[]"] Split_Join_sep [OF ne, of LF] clean by simp
  ultimately show ?thesis using assms(2) by (simp add: textLines_def renderLines_def Let_def)
qed

lemma docRules_render:
  assumes "list_all cleanLine lines"
  shows "docRules (textLines (renderLines lines)) = docRules lines"
proof (cases "Join lines [LF] = []")
  case True
  then have "lines = [] \<or> lines = [[]]" by (rule Join_eq_Nil_cases)
  moreover have "textLines (renderLines lines) = []"
    using True by (simp add: renderLines_def textLines_def Let_def)
  ultimately show ?thesis by (auto simp: docRules_def HasPrefix_def cronRuleMetaPrefix_def)
qed (simp add: textLines_render [OF assms])

text \<open>What a successful or failed save leaves behind.\<close>

definition fileRules :: "string res \<Rightarrow> cronRule list option" where
  "fileRules file = map_option (\<lambda>doc. map (\<lambda>block. unline (Rule block)) (Blocks doc))
                      (case readCronConfigDoc file of Inl _ \<Rightarrow> None | Inr doc \<Rightarrow> Some doc)"

lemma fileRules_data: "fileRules (Inr data) = docRules (textLines data)"
  by (auto simp: fileRules_def readCronConfigDoc_def docRules_def split: sum.splits)

lemma fileRules_doc:
  assumes "readCronConfigDoc file = Inr doc"
  shows "fileRules file = docRules (Lines doc)" and "parseCronLines 0 (Lines doc) = Inr (Blocks doc)"
  using assms
  by (auto simp: fileRules_def readCronConfigDoc_def docRules_def split: sum.splits if_splits)

lemma save_file:
  assumes "list_all cleanLine lines" and "saveCronConfigDoc w tmp lines u file = (res, file')"
  shows "file' = file \<or> fileRules file' = docRules lines"
  using assms(2) docRules_render [OF assms(1)]
  by (auto simp: saveCronConfigDoc_def Let_def fileRules_data split: option.splits sum.splits)

lemma saveResult_file:
  assumes "\<And>lines. r = Inr lines \<Longrightarrow> list_all cleanLine lines" and "saveResult w tmp u file r = (res, file')"
  shows "file' = file \<or> (\<exists>lines. r = Inr lines \<and> fileRules file' = docRules lines)"
  using assms save_file by (cases r) (fastforce simp: saveResult_def)+

section \<open>Accepted rules can be printed\<close>

lemma digitsVal_digits: "digitsVal acc s = Some v \<Longrightarrow> list_all isDigit s"
  by (induction s arbitrary: acc) (auto split: if_splits)

lemma Atoi_graphic: "Atoi s = Some v \<Longrightarrow> s \<noteq> [] \<and> list_all graphic s"
proof -
  assume a: "Atoi s = Some v"
  have digits: "list_all isDigit t \<Longrightarrow> list_all graphic t" for t
    using alnum_graphic by (auto simp: list_all_iff)
  show ?thesis
  proof (cases s)
    case (Cons c cs)
    then show ?thesis using a digits
      by (auto simp: Atoi_def Let_def graphic_def isDigit_def split: if_splits option.splits dest!: digitsVal_digits)
  qed (use a in \<open>simp add: Atoi_def\<close>)
qed

lemma Cut_split: "Cut s sep = (a, b, True) \<Longrightarrow> s = a @ sep # b"
  by (induction s arbitrary: a b) (auto split: if_splits prod.splits)

lemma validCronAtom_graphic: "validCronAtom atom lo hi \<Longrightarrow> list_all graphic atom"
proof (cases "atom = ''*''")
  case False
  assume v: "validCronAtom atom lo hi"
  show ?thesis
  proof (cases "Contains atom ''-''")
    case True
    obtain a b ok where cut: "Cut atom CHR ''-'' = (a, b, ok)" by (cases "Cut atom CHR ''-''") auto
    with v False True have "ok" "\<exists>x. Atoi a = Some x" "\<exists>y. Atoi b = Some y"
      by (auto simp: validCronAtom_def split: option.splits if_splits)
    moreover have "atom = a @ CHR ''-'' # b" using Cut_split cut \<open>ok\<close> by simp
    ultimately show ?thesis using Atoi_graphic by (auto simp: graphic_def)
  next
    case no: False
    with v False show ?thesis by (auto simp: validCronAtom_def Atoi_graphic split: option.splits)
  qed
qed (simp add: graphic_def)

lemma validCronPart_graphic: "validCronPart part lo hi \<Longrightarrow> list_all graphic part"
proof -
  assume v: "validCronPart part lo hi"
  show ?thesis
  proof (cases "Contains part ''/''")
    case True
    obtain a b ok where cut: "Cut part CHR ''/'' = (a, b, ok)" by (cases "Cut part CHR ''/''") auto
    with v True have "ok" "\<exists>x. Atoi b = Some x" "validCronAtom a lo hi"
      by (auto simp: validCronPart_def split: option.splits if_splits)
    moreover have "part = a @ CHR ''/'' # b" using Cut_split cut \<open>ok\<close> by simp
    ultimately show ?thesis using Atoi_graphic validCronAtom_graphic by (auto simp: graphic_def)
  next
    case False
    with v show ?thesis by (simp add: validCronPart_def validCronAtom_graphic)
  qed
qed

lemma set_Split: "c \<in> set s \<Longrightarrow> c = sep \<or> (\<exists>p \<in> set (Split s sep). c \<in> set p)"
  by (induction s) (auto split: list.splits)

lemma validCronField_word: "validCronField f lo hi \<Longrightarrow> word f"
proof -
  assume v: "validCronField f lo hi"
  have "graphic c" if "c \<in> set f" for c
    using set_Split [OF that, of "CHR '',''"] v validCronPart_graphic
    by (fastforce simp: validCronField_def list_all_iff graphic_def)
  then have "list_all graphic f" by (simp add: list_all_iff)
  with v show ?thesis by (simp add: word_def validCronField_def spaceFree_graphic)
qed

lemma validateCronRuleFields_None:
  "validateCronRuleFields r = None \<longleftrightarrow>
     validCronField (cron_Minute r) 0 59 \<and> validCronField (cron_Hour r) 0 23 \<and>
     validCronField (cron_Day r) 1 31 \<and> validCronField (cron_Month r) 1 12 \<and>
     validCronField (cron_Weekday r) 0 7 \<and> cron_Action r \<in> {''warn'', ''move'', ''remove''}"
  by (auto simp: validateCronRuleFields_def split: option.splits if_splits)

text \<open>
  The targets the line format can hold: no line break, and white space other than a blank or a
  tab only together with one of these.
\<close>

definition lineSafeTarget :: "string \<Rightarrow> bool" where
  "lineSafeTarget t \<longleftrightarrow> LF \<notin> set t \<and> CR \<notin> set t \<and> (ContainsAny t [SP, TAB] \<or> word t)"

lemma Contains_DQ: "Contains t [c] \<longleftrightarrow> c \<in> set t"
  by (induction t) (auto simp: HasPrefix_def)

lemma prepareCronRule_Inr:
  assumes "prepareCronRule os cfg req who = Inr r"
  shows "validateCronRuleFields r = None" and "DQ \<notin> set (cron_Target r)"
    and "safePathForActor os cfg (TrimSpace (cron_Target req)) who = Inr (cron_Target r)"
  using assms
  by (auto simp: prepareCronRule_def validateCronRuleFields_def Let_def Contains_DQ split: option.splits if_splits)

lemma word_action: "a \<in> {''warn'', ''move'', ''remove''} \<Longrightarrow> word a"
proof -
  assume "a \<in> {''warn'', ''move'', ''remove''}"
  then have "list_all graphic a \<and> a \<noteq> []" by (auto simp: graphic_def)
  then show ?thesis by (simp add: word_def spaceFree_graphic)
qed

lemma prepared_printable:
  assumes "prepareCronRule os cfg req who = Inr r" and "validUserID u" and "lineSafeTarget (cron_Target r)"
  shows "printable (r\<lparr>cron_ID := i, cron_UserID := u\<rparr>)"
proof -
  note p = prepareCronRule_Inr [OF assms(1)]
  have "\<not> HasPrefix (cron_Target r) [DQ]"
    using p(2) by (cases "cron_Target r") (auto simp: HasPrefix_def)
  then have "printableTarget (cron_Target r)"
    using p(2) assms(3) by (auto simp: printableTarget_def lineSafeTarget_def)
  then show ?thesis
    using p(1) assms(2) unfolding validateCronRuleFields_None printable_def
    by (auto intro: validCronField_word word_action)
qed

lemma word_clean: "word w \<Longrightarrow> cleanLine w"
  using spaceFree_no_blank [of w] by (simp add: word_def cleanLine_def)

lemma printed_clean:
  assumes "printable r" and "validCronRuleID (cron_ID r)" and "cleanLine (cron_Target r)"
  shows "cleanLine (cronMetaLine r) \<and> cleanLine (cronConfigLine r)"
proof
  have "cleanLine (cron_ID r)" using validCronRuleID_word [OF assms(2)] by (rule word_clean)
  then show "cleanLine (cronMetaLine r)"
    by (auto simp: cronMetaLine_def cronRuleMetaPrefix_def cleanLine_def)
  have "cleanLine (cron_Minute r)" "cleanLine (cron_Hour r)" "cleanLine (cron_Day r)" "cleanLine (cron_Month r)"
      "cleanLine (cron_Weekday r)" "cleanLine (cron_Action r)" "cleanLine (cron_UserID r)" "cleanLine (wakeFlag r)"
    using assms(1) wakeFlag_facts(1) [of r] validUserID_word by (auto simp: printable_def intro: word_clean)
  with assms(3) show "cleanLine (cronConfigLine r)"
    by (auto simp: cronConfigLine_text ruleText_def targetPart_def lineEnd_def quoteCronTarget_def
        quoted_def cleanLine_def)
qed

section \<open>Operations on segments\<close>

definition heldRule :: "cronRule \<Rightarrow> bool" where
  "heldRule r \<longleftrightarrow> printable r \<and> cleanLine (cron_Target r)"

definition goodSegs :: "segment list \<Rightarrow> bool" where
  "goodSegs segs \<longleftrightarrow> list_all readable segs \<and> list_all cleanLine (flat segs) \<and> list_all heldRule (segRules segs)"

definition goodFile :: "string res \<Rightarrow> bool" where
  "goodFile file \<longleftrightarrow>
     (case readCronConfigDoc file of
        Inl _ \<Rightarrow> False
      | Inr doc \<Rightarrow> list_all cleanLine (Lines doc) \<and> list_all (\<lambda>block. heldRule (Rule block)) (Blocks doc))"

lemma heldRule_unline [simp]: "heldRule (unline r) = heldRule r" "heldRule (r\<lparr>cron_Line := n\<rparr>) = heldRule r"
  by (simp_all add: heldRule_def unline_def printable_def)

lemma goodFile_segs:
  "goodFile file \<longleftrightarrow>
     (\<exists>doc segs. readCronConfigDoc file = Inr doc \<and> Lines doc = flat segs \<and> Blocks doc = blocksOf 0 segs \<and>
        goodSegs segs)" (is "_ \<longleftrightarrow> ?R")
proof
  assume good: "goodFile file"
  then obtain doc where doc: "readCronConfigDoc file = Inr doc" "list_all cleanLine (Lines doc)"
    "list_all (\<lambda>block. heldRule (Rule block)) (Blocks doc)" by (auto simp: goodFile_def split: sum.splits)
  obtain segs where segs: "Lines doc = flat segs" "list_all readable segs"
    using parse_segments [OF fileRules_doc(2) [OF doc(1)]] by blast
  have blocks: "Blocks doc = blocksOf 0 segs"
    using fileRules_doc(2) [OF doc(1)] parse_readable [OF segs(2), of 0] segs(1) by simp
  have "list_all heldRule (map (\<lambda>block. unline (Rule block)) (blocksOf 0 segs))"
    using doc(3) unfolding blocks by (simp add: list_all_length)
  then have "list_all heldRule (segRules segs)" by (simp only: blocksOf_rules)
  with doc segs blocks show ?R by (auto simp: goodSegs_def)
next
  assume ?R
  then obtain doc segs where doc: "readCronConfigDoc file = Inr doc" "Lines doc = flat segs"
    "Blocks doc = blocksOf 0 segs" "goodSegs segs" by blast
  then have "list_all heldRule (map (\<lambda>block. unline (Rule block)) (blocksOf 0 segs))"
    by (simp only: blocksOf_rules goodSegs_def)
  then have "list_all (\<lambda>block. heldRule (Rule block)) (Blocks doc)"
    unfolding doc(3) by (simp add: list_all_length)
  with doc show "goodFile file" by (simp add: goodFile_def goodSegs_def)
qed

lemma goodSegs_append [simp]: "goodSegs (a @ b) \<longleftrightarrow> goodSegs a \<and> goodSegs b"
  by (auto simp: goodSegs_def)

lemma goodSegs_Cons: "goodSegs (s # segs) \<longleftrightarrow> goodSegs [s] \<and> goodSegs segs"
  using goodSegs_append [of "[s]" segs] by simp

lemma printed_good:
  assumes "heldRule r" and "validCronRuleID (cron_ID r)"
  shows "goodSegs [Ruled (cronMetaLine r) (cronConfigLine r)]"
    and "segRules [Ruled (cronMetaLine r) (cronConfigLine r)] = [unline r]"
proof -
  have p: "printable r" "cleanLine (cron_Target r)" using assms(1) by (auto simp: heldRule_def)
  show "goodSegs [Ruled (cronMetaLine r) (cronConfigLine r)]"
    and "segRules [Ruled (cronMetaLine r) (cronConfigLine r)] = [unline r]"
    using assms(1) printed_readable [OF p(1) assms(2)] printed_clean [OF p(1) assms(2) p(2)]
    by (simp_all add: goodSegs_def)
qed

lemma ruleOf_ID:
  assumes "readable (Ruled m l)"
  shows "validCronRuleID (cron_ID (ruleOf m l))"
proof -
  obtain r where r: "parseCronBlock 0 m l = Inr r" using assms by (cases "parseCronBlock 0 m l") auto
  then have "validCronRuleID (cron_ID r)"
    by (auto simp: parseCronBlock_def parseCronRuleMeta_def split: sum.splits prod.splits if_splits)
  then show ?thesis by (simp add: ruleOf_def r unline_def)
qed

text \<open>Rules by owner, in the order of the file.\<close>

definition rulesFor :: "string res \<Rightarrow> string \<Rightarrow> cronRule list option" where
  "rulesFor file u = map_option (filter (\<lambda>r. cron_UserID r = u)) (fileRules file)"

definition sameForOthers :: "string \<Rightarrow> segment list \<Rightarrow> segment list \<Rightarrow> bool" where
  "sameForOthers u a b \<longleftrightarrow>
     (\<forall>v. v \<noteq> u \<longrightarrow> filter (\<lambda>r. cron_UserID r = v) (segRules a) = filter (\<lambda>r. cron_UserID r = v) (segRules b))"

text \<open>Replacing the block of an own rule by a rule of the same owner.\<close>

lemma find_block_located:
  assumes "goodSegs segs" and "find P (blocksOf 0 segs) = Some block"
  obtains pre m l post where "segs = pre @ Ruled m l # post" and "P block"
    and "MetaIndex block = length (flat pre)" and "RuleIndex block = Suc (length (flat pre))"
    and "unline (Rule block) = ruleOf m l" and "heldRule (Rule block)"
    and "validCronRuleID (cron_ID (Rule block))"
proof -
  have P: "P block" and mem: "block \<in> set (blocksOf 0 segs)"
    using assms(2) by (auto simp: find_Some_iff)
  obtain pre m l post where loc: "segs = pre @ Ruled m l # post" "MetaIndex block = length (flat pre)"
    "RuleIndex block = Suc (length (flat pre))" "Rule block = (ruleOf m l)\<lparr>cron_Line := MetaIndex block + 2\<rparr>"
    using blocksOf_located [OF mem] by auto
  have "unline (ruleOf m l) = ruleOf m l" by (simp add: ruleOf_def unline_def)
  then have un: "unline (Rule block) = ruleOf m l" using loc(4) by (simp add: unline_def)
  have "readable (Ruled m l)" "heldRule (ruleOf m l)"
    using assms(1) loc(1) by (auto simp: goodSegs_def)
  then have "heldRule (Rule block)" "validCronRuleID (cron_ID (Rule block))"
    using ruleOf_ID [of m l] loc(4) by auto
  with that loc P un show ?thesis by blast
qed

lemma replace_block:
  assumes "goodSegs (pre @ Ruled m l # post)" and "cron_UserID (ruleOf m l) = u" and "cron_UserID r = u"
    and "heldRule r" and "validCronRuleID (cron_ID r)"
  shows "goodSegs (pre @ Ruled (cronMetaLine r) (cronConfigLine r) # post)"
    and "sameForOthers u (pre @ Ruled m l # post) (pre @ Ruled (cronMetaLine r) (cronConfigLine r) # post)"
  using assms printed_good [OF assms(4,5)]
  by (auto simp: goodSegs_Cons [of _ post] sameForOthers_def unline_def)

lemma drop_block:
  assumes "goodSegs (pre @ Ruled m l # post)" and "cron_UserID (ruleOf m l) = u"
  shows "goodSegs (pre @ post)" and "sameForOthers u (pre @ Ruled m l # post) (pre @ post)"
  using assms by (auto simp: goodSegs_Cons [of _ post] sameForOthers_def)

section \<open>Requests of users\<close>

datatype cronOp = AddRule cronRule "string list" | UpdateRule string cronRule | EnableRule string bool
  | DeleteRule string

text \<open>
  The configuration file after a request of the actor \<open>acct u\<close>. The surroundings are fixed for
  the request and arbitrary.
\<close>

fun cronPerform ::
    "osview \<Rightarrow> config \<Rightarrow> cronWorld \<Rightarrow> string \<Rightarrow> (string \<Rightarrow> actor) \<Rightarrow> string \<Rightarrow> cronOp \<Rightarrow> string res \<Rightarrow> string res" where
  "cronPerform os cfg w tmp acct u (AddRule req candidates) file =
     (case addCronRule os cfg w tmp candidates req (acct u) file of None \<Rightarrow> file | Some (_, file') \<Rightarrow> file')"
| "cronPerform os cfg w tmp acct u (UpdateRule i req) file = snd (updateCronRule os cfg w tmp i req (acct u) file)"
| "cronPerform os cfg w tmp acct u (EnableRule i enabled) file =
     snd (setCronRuleEnabled os cfg w tmp i enabled (acct u) file)"
| "cronPerform os cfg w tmp acct u (DeleteRule i) file = snd (deleteCronRule w tmp i (ID (acct u)) file)"

definition targetAdmissible :: "osview \<Rightarrow> config \<Rightarrow> cronRule \<Rightarrow> actor \<Rightarrow> bool" where
  "targetAdmissible os cfg req who =
     (case prepareCronRule os cfg req who of Inl _ \<Rightarrow> True | Inr r \<Rightarrow> lineSafeTarget (cron_Target r))"

fun cronAdmissible :: "osview \<Rightarrow> config \<Rightarrow> (string \<Rightarrow> actor) \<Rightarrow> string \<Rightarrow> cronOp \<Rightarrow> string res \<Rightarrow> bool" where
  "cronAdmissible os cfg acct u (AddRule req candidates) file =
     (validUserID u \<and> ID (acct u) = u \<and> list_all validCronRuleID candidates \<and> targetAdmissible os cfg req (acct u))"
| "cronAdmissible os cfg acct u (UpdateRule i req) file =
     (validUserID u \<and> ID (acct u) = u \<and> targetAdmissible os cfg req (acct u))"
| "cronAdmissible os cfg acct u _ file = (validUserID u \<and> ID (acct u) = u)"

lemma prepared_held:
  assumes "targetAdmissible os cfg req who" and "prepareCronRule os cfg req who = Inr r" and "validUserID u"
  shows "heldRule (r\<lparr>cron_ID := i, cron_UserID := u\<rparr>)"
  using assms prepared_printable [OF assms(2,3), of i]
  by (simp add: targetAdmissible_def heldRule_def lineSafeTarget_def cleanLine_def)

text \<open>
  Every operation yields segments again, keeps them good and shows other users the same rules.
\<close>

definition goodChange :: "string \<Rightarrow> segment list \<Rightarrow> string list \<Rightarrow> bool" where
  "goodChange u segs lines \<longleftrightarrow> (\<exists>segs'. lines = flat segs' \<and> goodSegs segs' \<and> sameForOthers u segs segs')"

lemma findCronRuleBlock_Inr:
  assumes "readCronConfigDoc file = Inr doc" and "findCronRuleBlock file i u = Inr (doc', block)"
  shows "doc' = doc" and "validCronRuleID i"
    and "find (\<lambda>block. cron_ID (Rule block) = i \<and> (u = [] \<or> cron_UserID (Rule block) = u)) (Blocks doc) = Some block"
  using assms by (auto simp: findCronRuleBlock_def split: if_splits option.splits)

lemma validUserID_nonempty: "validUserID u \<Longrightarrow> u \<noteq> []"
  by (auto simp: validUserID_def)

definition opened :: "string res \<Rightarrow> cronConfigDoc \<Rightarrow> segment list \<Rightarrow> bool" where
  "opened cf doc segs \<longleftrightarrow>
     readCronConfigDoc cf = Inr doc \<and> Lines doc = flat segs \<and> Blocks doc = blocksOf 0 segs \<and> goodSegs segs"

lemma openedD:
  assumes "opened cf doc segs"
  shows "readCronConfigDoc cf = Inr doc" "Lines doc = flat segs" "Blocks doc = blocksOf 0 segs" "goodSegs segs"
  using assms by (auto simp: opened_def)

lemma added_change:
  assumes op: "opened cf doc segs" and user: "validUserID u"
    and add: "addedLines os cfg candidates req who cf = Inr (Some lines)" "ID who = u"
    and ids: "list_all validCronRuleID candidates" and adm: "targetAdmissible os cfg req who"
  shows "goodChange u segs lines"
proof -
  note doc = openedD [OF op]
  obtain r i where r: "prepareCronRule os cfg req who = Inr r" and i: "uniqueCronRuleID candidates (Blocks doc) = Some i"
    and lines: "lines = Lines doc @ [cronMetaLine (r\<lparr>cron_ID := i, cron_UserID := u\<rparr>),
                                     cronConfigLine (r\<lparr>cron_ID := i, cron_UserID := u\<rparr>)]"
    using add doc(1) by (auto simp: addedLines_def Let_def split: option.splits)
  let ?r = "r\<lparr>cron_ID := i, cron_UserID := u\<rparr>"
  have "validCronRuleID (cron_ID ?r)"
    using i ids by (auto simp: uniqueCronRuleID_def find_Some_iff list_all_length)
  note p = printed_good [OF prepared_held [OF adm r user] this]
  show ?thesis
    unfolding goodChange_def
    using p doc(2,4) lines
    by (intro exI [of _ "segs @ [Ruled (cronMetaLine ?r) (cronConfigLine ?r)]"])
       (auto simp: sameForOthers_def unline_def)
qed

lemma setBlock_change:
  assumes op: "opened cf doc segs" and user: "validUserID u"
    and find: "findCronRuleBlock cf i u = Inr (doc', block)"
    and r: "cron_UserID r = u" "heldRule r" "validCronRuleID (cron_ID r)"
  shows "goodChange u segs (setBlock block r (Lines doc'))"
proof -
  note doc = openedD [OF op]
  note f = findCronRuleBlock_Inr [OF doc(1) find]
  obtain pre m l post where s: "segs = pre @ Ruled m l # post"
    and own: "cron_ID (Rule block) = i \<and> (u = [] \<or> cron_UserID (Rule block) = u)"
    and ix: "MetaIndex block = length (flat pre)" "RuleIndex block = Suc (length (flat pre))"
    and un: "unline (Rule block) = ruleOf m l"
    using find_block_located [OF doc(4) f(3) [unfolded doc(3)]] by metis
  have "cron_UserID (ruleOf m l) = u"
    using own validUserID_nonempty [OF user] un [symmetric] by (simp add: unline_def)
  with replace_block [OF doc(4) [unfolded s] _ r] show ?thesis
    unfolding goodChange_def using s setBlock_flat [OF ix, of r m l post] doc(2) f(1) by metis
qed

lemma deleted_change:
  assumes op: "opened cf doc segs" and user: "validUserID u" and del: "deletedLines i u cf = Inr lines"
  shows "goodChange u segs lines"
proof -
  note doc = openedD [OF op]
  obtain doc' block where find: "findCronRuleBlock cf i u = Inr (doc', block)"
    and lines: "lines = take (MetaIndex block) (Lines doc') @ drop (Suc (RuleIndex block)) (Lines doc')"
    using del by (auto simp: deletedLines_def)
  note f = findCronRuleBlock_Inr [OF doc(1) find]
  obtain pre m l post where s: "segs = pre @ Ruled m l # post"
    and own: "cron_ID (Rule block) = i \<and> (u = [] \<or> cron_UserID (Rule block) = u)"
    and ix: "MetaIndex block = length (flat pre)" "RuleIndex block = Suc (length (flat pre))"
    and un: "unline (Rule block) = ruleOf m l"
    using find_block_located [OF doc(4) f(3) [unfolded doc(3)]] by metis
  have "cron_UserID (ruleOf m l) = u"
    using own validUserID_nonempty [OF user] un [symmetric] by (simp add: unline_def)
  note d = drop_block [OF doc(4) [unfolded s] this]
  have "lines = flat (pre @ post)"
    using lines f(1) doc(2) ix by (simp add: s)
  with d show ?thesis unfolding goodChange_def s by blast
qed

text \<open>Saving a good change.\<close>

lemma goodSegs_file:
  assumes "goodSegs segs"
  shows "goodFile (Inr (renderLines (flat segs)))" and "fileRules (Inr (renderLines (flat segs))) = Some (segRules segs)"
proof -
  have wf: "list_all readable segs" "list_all cleanLine (flat segs)" using assms by (auto simp: goodSegs_def)
  show rules: "fileRules (Inr (renderLines (flat segs))) = Some (segRules segs)"
    unfolding fileRules_data docRules_render [OF wf(2)] by (rule docRules_flat [OF wf(1)])
  show "goodFile (Inr (renderLines (flat segs)))"
  proof (cases "Join (flat segs) [LF] = []")
    case True
    then show ?thesis by (simp add: goodFile_def readCronConfigDoc_def renderLines_def textLines_def Let_def)
  next
    case False
    then have "readCronConfigDoc (Inr (renderLines (flat segs))) = Inr \<lparr> Lines = flat segs, Blocks = blocksOf 0 segs \<rparr>"
      by (simp add: readCronConfigDoc_def textLines_render [OF wf(2)] parse_readable [OF wf(1)])
    then show ?thesis unfolding goodFile_segs using assms by force
  qed
qed

lemma opened_rules: "opened cf doc segs \<Longrightarrow> fileRules cf = Some (segRules segs)"
  using fileRules_doc(1) docRules_flat by (fastforce simp: opened_def goodSegs_def)

lemma goodFile_opened: "goodFile cf \<longleftrightarrow> (\<exists>doc segs. opened cf doc segs)"
  unfolding goodFile_segs opened_def ..

definition stays :: "string \<Rightarrow> string res \<Rightarrow> string res \<Rightarrow> bool" where
  "stays u cf cf' \<longleftrightarrow> goodFile cf' \<and> (\<forall>v. v \<noteq> u \<longrightarrow> rulesFor cf' v = rulesFor cf v)"

lemma saved_stays:
  assumes "opened cf doc segs" and "goodChange u segs lines"
  shows "stays u cf (snd (saveCronConfigDoc w tmp lines u' cf))"
proof -
  obtain segs' where s: "lines = flat segs'" "goodSegs segs'" "sameForOthers u segs segs'"
    using assms(2) by (auto simp: goodChange_def)
  have new: "stays u cf (Inr (renderLines lines))"
    using goodSegs_file [OF s(2)] opened_rules [OF assms(1)] s(3)
    by (simp add: stays_def rulesFor_def s(1) sameForOthers_def)
  have old: "stays u cf cf" using assms(1) goodFile_opened by (auto simp: stays_def)
  have "snd (saveCronConfigDoc w tmp lines u' cf) \<in> {cf, Inr (renderLines lines)}"
    by (auto simp: saveCronConfigDoc_def Let_def split: option.splits sum.splits)
  with new old show ?thesis by auto
qed

lemma cronPerform_stays:
  assumes "goodFile cf" and ok: "cronAdmissible os cfg acct u op cf"
  shows "stays u cf (cronPerform os cfg w tmp acct u op cf)"
proof -
  obtain doc segs where o: "opened cf doc segs" using assms(1) goodFile_opened by blast
  have same: "stays u cf cf" using assms(1) by (simp add: stays_def)
  have user: "validUserID u" "ID (acct u) = u" using ok by (cases op; simp)+
  show ?thesis
  proof (cases op)
    case (AddRule req candidates)
    show ?thesis
    proof (cases "addedLines os cfg candidates req (acct u) cf")
      case (Inr opt)
      then show ?thesis
        using same AddRule added_change [OF o user(1) _ user(2)] ok saved_stays [OF o, of u _ w tmp u] user(2)
        by (cases opt) (auto simp: addCronRule_def case_prod_unfold)
    qed (use same AddRule in \<open>simp add: addCronRule_def\<close>)
  next
    case (UpdateRule i req)
    show ?thesis
    proof (cases "updatedLines os cfg i req (acct u) cf")
      case (Inr lines)
      then obtain doc' block r where f: "findCronRuleBlock cf i u = Inr (doc', block)"
        and r: "prepareCronRule os cfg req (acct u) = Inr r"
        and l: "lines = setBlock block (r\<lparr>cron_ID := i, cron_UserID := u\<rparr>) (Lines doc')"
        using user(2) by (auto simp: updatedLines_def)
      have held: "heldRule (r\<lparr>cron_ID := i, cron_UserID := u\<rparr>)"
        using prepared_held [OF _ r user(1)] ok UpdateRule by simp
      have "goodChange u segs lines"
        unfolding l using findCronRuleBlock_Inr(2) [OF openedD(1) [OF o] f] held
        by (intro setBlock_change [OF o user(1) f]) simp_all
      then show ?thesis using saved_stays [OF o] Inr UpdateRule
        by (simp add: updateCronRule_def saveResult_def)
    qed (use same UpdateRule in \<open>simp add: updateCronRule_def saveResult_def\<close>)
  next
    case (EnableRule i enabled)
    show ?thesis
    proof (cases "enabledLines os cfg i enabled (acct u) cf")
      case (Inr lines)
      then obtain doc' block where f: "findCronRuleBlock cf i u = Inr (doc', block)"
        and l: "lines = setBlock block ((Rule block)\<lparr>cron_Enabled := enabled\<rparr>) (Lines doc')"
        using user(2) by (auto simp: enabledLines_def)
      note b = find_block_located [OF openedD(4) [OF o] findCronRuleBlock_Inr(3) [OF openedD(1) [OF o] f,
            unfolded openedD(3) [OF o]]]
      have "cron_UserID (Rule block) = u" "heldRule (Rule block)" "validCronRuleID (cron_ID (Rule block))"
        using b validUserID_nonempty [OF user(1)] by metis+
      then have "goodChange u segs lines"
        unfolding l by (intro setBlock_change [OF o user(1) f]) (simp_all add: heldRule_def printable_def)
      then show ?thesis using saved_stays [OF o] Inr EnableRule
        by (simp add: setCronRuleEnabled_def saveResult_def)
    qed (use same EnableRule in \<open>simp add: setCronRuleEnabled_def saveResult_def\<close>)
  next
    case (DeleteRule i)
    show ?thesis
    proof (cases "deletedLines i u cf")
      case (Inr lines)
      then show ?thesis using saved_stays [OF o deleted_change [OF o user(1) Inr]] DeleteRule user(2)
        by (simp add: deleteCronRule_def saveResult_def)
    qed (use same DeleteRule user(2) in \<open>simp add: deleteCronRule_def saveResult_def\<close>)
  qed
qed

interpretation cronViews: user_views goodFile "cronAdmissible os cfg acct" "cronPerform os cfg w tmp acct" rulesFor
  for os cfg acct w tmp
  by unfold_locales (use cronPerform_stays in \<open>auto simp: stays_def\<close>)

section \<open>Disabling and removing the rules of a user\<close>

fun ownedSeg :: "string \<Rightarrow> segment \<Rightarrow> bool" where
  "ownedSeg u (Plain l) = False"
| "ownedSeg u (Ruled m l) = (cron_UserID (ruleOf m l) = u)"

lemma segRules_filter: "segRules (filter (\<lambda>s. \<not> ownedSeg u s) segs) = filter (\<lambda>r. cron_UserID r \<noteq> u) (segRules segs)"
  by (induction segs rule: segRules.induct) auto

lemma goodSegs_filter: "goodSegs segs \<Longrightarrow> goodSegs (filter P segs)"
proof (induction segs)
  case (Cons x segs)
  then show ?case using goodSegs_Cons [of x segs] goodSegs_Cons [of x "filter P segs"] by auto
qed simp

lemma blocksOf_ge: "block \<in> set (blocksOf i segs) \<Longrightarrow> i \<le> MetaIndex block \<and> i < RuleIndex block"
  by (induction i segs rule: blocksOf.induct) auto

definition removedIndices :: "string \<Rightarrow> nat \<Rightarrow> segment list \<Rightarrow> nat set" where
  "removedIndices u i segs =
     (\<Union>block \<in> {block \<in> set (blocksOf i segs). cron_UserID (Rule block) = u}. {MetaIndex block, RuleIndex block})"

lemma removedIndices_ge: "k \<in> removedIndices u i segs \<Longrightarrow> i \<le> k"
  using blocksOf_ge by (fastforce simp: removedIndices_def)

lemma removedIndices_simps [simp]:
  "removedIndices u i [] = {}"
  "removedIndices u i (Plain l # segs) = removedIndices u (Suc i) segs"
  "removedIndices u i (Ruled m l # segs) =
     (if cron_UserID (ruleOf m l) = u then {i, Suc i} else {}) \<union> removedIndices u (Suc (Suc i)) segs"
  by (auto simp: removedIndices_def)

lemma keep_enumerate:
  "(\<And>k. i \<le> k \<Longrightarrow> k \<in> R \<longleftrightarrow> k \<in> removedIndices u i segs) \<Longrightarrow>
     map snd (filter (\<lambda>(k, line). k \<notin> R) (enumerate i (flat segs))) = flat (filter (\<lambda>s. \<not> ownedSeg u s) segs)"
proof (induction segs arbitrary: i)
  case (Cons s segs)
  show ?case
  proof (cases s)
    case (Plain l)
    have "i \<notin> R" using Cons.prems [of i] Plain removedIndices_ge [of i u "Suc i" segs] by auto
    moreover have "map snd (filter (\<lambda>(k, line). k \<notin> R) (enumerate (Suc i) (flat segs))) =
        flat (filter (\<lambda>s. \<not> ownedSeg u s) segs)"
      using Cons.prems Plain by (intro Cons.IH) auto
    ultimately show ?thesis by (simp add: Plain)
  next
    case (Ruled m l)
    have tail: "map snd (filter (\<lambda>(k, line). k \<notin> R) (enumerate (Suc (Suc i)) (flat segs))) =
        flat (filter (\<lambda>s. \<not> ownedSeg u s) segs)"
      using Cons.prems Ruled by (intro Cons.IH) auto
    have "i \<notin> removedIndices u (Suc (Suc i)) segs" "Suc i \<notin> removedIndices u (Suc (Suc i)) segs"
      using removedIndices_ge by fastforce+
    then have "i \<in> R \<longleftrightarrow> cron_UserID (ruleOf m l) = u" "Suc i \<in> R \<longleftrightarrow> cron_UserID (ruleOf m l) = u"
      using Cons.prems [of i] Cons.prems [of "Suc i"] Ruled by (auto split: if_splits)
    with tail show ?thesis by (simp add: Ruled)
  qed
qed simp

lemma removedLines_flat:
  assumes "opened cf doc segs" and "removedLines u cf = Inr (Some lines)"
  shows "lines = flat (filter (\<lambda>s. \<not> ownedSeg u s) segs)"
proof -
  note d = openedD [OF assms(1)]
  let ?removed = "concat (map (\<lambda>block. [MetaIndex block, RuleIndex block])
                      (filter (\<lambda>block. cron_UserID (Rule block) = u) (blocksOf 0 segs)))"
  have "set ?removed = removedIndices u 0 segs" by (auto simp: removedIndices_def)
  then have "keepLines ?removed (flat segs) = flat (filter (\<lambda>s. \<not> ownedSeg u s) segs)"
    unfolding keepLines_def by (intro keep_enumerate) simp
  then show ?thesis using assms(2) d by (simp add: removedLines_def Let_def split: if_splits)
qed

lemma removedLines_None:
  assumes "opened cf doc segs" and "removedLines u cf = Inr None"
  shows "filter (\<lambda>r. cron_UserID r \<noteq> u) (segRules segs) = segRules segs"
proof -
  note d = openedD [OF assms(1)]
  have "filter (\<lambda>block. cron_UserID (Rule block) = u) (blocksOf 0 segs) = []"
    using assms(2) d by (auto simp: removedLines_def Let_def split: if_splits)
  then have "\<forall>r \<in> set (map (\<lambda>block. unline (Rule block)) (blocksOf 0 segs)). cron_UserID r \<noteq> u"
    by (auto simp: filter_empty_conv unline_def)
  then show ?thesis unfolding blocksOf_rules by (simp add: filter_id_conv)
qed

fun disableSeg :: "string \<Rightarrow> segment \<Rightarrow> segment" where
  "disableSeg u (Plain l) = Plain l"
| "disableSeg u (Ruled m l) =
     (let r = ruleOf m l in
      if cron_UserID r \<noteq> u \<or> \<not> cron_Enabled r then Ruled m l
      else Ruled (cronMetaLine (r\<lparr>cron_Enabled := False\<rparr>)) (cronConfigLine (r\<lparr>cron_Enabled := False\<rparr>)))"

definition disableRule :: "string \<Rightarrow> cronRule \<Rightarrow> cronRule" where
  "disableRule u r = (if cron_UserID r = u then r\<lparr>cron_Enabled := False\<rparr> else r)"

lemma disableBlocks_flat:
  "disableBlocks u (blocksOf (length pre) segs) (pre @ flat segs) = pre @ flat (map (disableSeg u) segs)"
proof (induction segs arbitrary: pre)
  case (Cons s segs)
  show ?case
  proof (cases s)
    case (Plain l)
    then show ?thesis using Cons.IH [of "pre @ [l]"] by simp
  next
    case (Ruled m l)
    let ?r = "ruleOf m l"
    let ?b = "\<lparr> MetaIndex = length pre, RuleIndex = Suc (length pre), Rule = ?r\<lparr>cron_Line := length pre + 2\<rparr> \<rparr>"
    have set: "setBlock ?b ((Rule ?b)\<lparr>cron_Enabled := False\<rparr>) (pre @ m # l # flat segs) =
        pre @ cronMetaLine (?r\<lparr>cron_Enabled := False\<rparr>) # cronConfigLine (?r\<lparr>cron_Enabled := False\<rparr>) # flat segs"
      by (simp add: setBlock_def list_update_append cronMetaLine_def cronConfigLine_def)
    show ?thesis
      using Cons.IH [of "pre @ [m, l]"] set
        Cons.IH [of "pre @ [cronMetaLine (?r\<lparr>cron_Enabled := False\<rparr>), cronConfigLine (?r\<lparr>cron_Enabled := False\<rparr>)]"]
      by (auto simp: Ruled Let_def)
  qed
qed simp

lemma disableSeg_good:
  assumes "goodSegs [s]"
  shows "goodSegs [disableSeg u s] \<and> segRules [disableSeg u s] = map (disableRule u) (segRules [s])"
proof (cases s)
  case (Ruled m l)
  have r: "heldRule (ruleOf m l)" "validCronRuleID (cron_ID (ruleOf m l))"
    using assms ruleOf_ID by (auto simp: Ruled goodSegs_def)
  then have held: "heldRule ((ruleOf m l)\<lparr>cron_Enabled := False\<rparr>)"
    by (simp add: heldRule_def printable_def)
  have un: "unline ((ruleOf m l)\<lparr>cron_Enabled := False\<rparr>) = (ruleOf m l)\<lparr>cron_Enabled := False\<rparr>"
    by (simp add: ruleOf_def unline_def)
  have id_: "\<not> cron_Enabled (ruleOf m l) \<Longrightarrow> (ruleOf m l)\<lparr>cron_Enabled := False\<rparr> = ruleOf m l"
    by (cases "ruleOf m l") simp
  show ?thesis
    using assms printed_good [OF held] r(2) un id_ by (auto simp: Ruled Let_def disableRule_def)
qed (use assms in simp)

lemma disableSegs_good:
  "goodSegs segs \<Longrightarrow>
     goodSegs (map (disableSeg u) segs) \<and> segRules (map (disableSeg u) segs) = map (disableRule u) (segRules segs)"
proof (induction segs)
  case (Cons s segs)
  have "goodSegs [s]" "goodSegs segs" using Cons.prems goodSegs_Cons by blast+
  moreover have "segRules (s # segs) = segRules [s] @ segRules segs"
      "segRules (map (disableSeg u) (s # segs)) = segRules [disableSeg u s] @ segRules (map (disableSeg u) segs)"
    using segRules_append [of "[s]" segs] segRules_append [of "[disableSeg u s]" "map (disableSeg u) segs"] by simp_all
  ultimately show ?case
    using Cons.IH disableSeg_good [of s u] goodSegs_Cons [of "disableSeg u s" "map (disableSeg u) segs"] by simp
qed simp

lemma disabledLines_None:
  assumes "opened cf doc segs" and "disabledLines u cf = Inr None"
  shows "map (disableRule u) (segRules segs) = segRules segs"
proof -
  note d = openedD [OF assms(1)]
  have "\<forall>block \<in> set (blocksOf 0 segs). \<not> (cron_UserID (Rule block) = u \<and> cron_Enabled (Rule block))"
    using assms(2) d by (auto simp: disabledLines_def list_ex_iff split: if_splits)
  then have "\<forall>r \<in> set (map (\<lambda>block. unline (Rule block)) (blocksOf 0 segs)). disableRule u r = r"
    by (auto simp: disableRule_def unline_def)
  then show ?thesis unfolding blocksOf_rules by (simp add: map_idI)
qed

text \<open>The file after a run that reports no error.\<close>

lemma saveOptional_ok:
  assumes "saveOptional w tmp u cf r = (None, cf')"
  shows "(r = Inr None \<and> cf' = cf) \<or> (\<exists>lines. r = Inr (Some lines) \<and> cf' = Inr (renderLines lines))"
  using assms
  by (auto simp: saveOptional_def saveCronConfigDoc_def Let_def split: sum.splits option.splits prod.splits)

lemma removeCronRules_ok:
  assumes "goodFile cf" and "removeCronRulesForUser w tmp u cf = (None, cf')" and "fileRules cf = Some rs"
  shows "goodFile cf' \<and> fileRules cf' = Some (filter (\<lambda>r. cron_UserID r \<noteq> u) rs)"
proof -
  obtain doc segs where o: "opened cf doc segs" using assms(1) goodFile_opened by blast
  then have rs: "rs = segRules segs" using assms(3) opened_rules by simp
  from saveOptional_ok [OF assms(2) [unfolded removeCronRulesForUser_def]] show ?thesis
  proof
    assume "removedLines u cf = Inr None \<and> cf' = cf"
    then show ?thesis using removedLines_None [OF o] assms(1,3) rs by auto
  next
    assume "\<exists>lines. removedLines u cf = Inr (Some lines) \<and> cf' = Inr (renderLines lines)"
    then have "cf' = Inr (renderLines (flat (filter (\<lambda>s. \<not> ownedSeg u s) segs)))"
      using removedLines_flat [OF o] by blast
    then show ?thesis
      using goodSegs_file [OF goodSegs_filter [OF openedD(4) [OF o]], of "\<lambda>s. \<not> ownedSeg u s"]
      by (simp add: segRules_filter rs)
  qed
qed

lemma disableCronRules_ok:
  assumes "goodFile cf" and "disableCronRulesForUser w tmp u cf = (None, cf')" and "fileRules cf = Some rs"
  shows "goodFile cf' \<and> fileRules cf' = Some (map (disableRule u) rs)"
proof -
  obtain doc segs where o: "opened cf doc segs" using assms(1) goodFile_opened by blast
  then have rs: "rs = segRules segs" using assms(3) opened_rules by simp
  note d = openedD [OF o]
  from saveOptional_ok [OF assms(2) [unfolded disableCronRulesForUser_def]] show ?thesis
  proof
    assume "disabledLines u cf = Inr None \<and> cf' = cf"
    then show ?thesis using disabledLines_None [OF o] assms(1,3) rs by auto
  next
    assume "\<exists>lines. disabledLines u cf = Inr (Some lines) \<and> cf' = Inr (renderLines lines)"
    then have "cf' = Inr (renderLines (disableBlocks u (blocksOf 0 segs) (flat segs)))"
      using d by (auto simp: disabledLines_def split: if_splits)
    then have "cf' = Inr (renderLines (flat (map (disableSeg u) segs)))"
      using disableBlocks_flat [of u "[]" segs] by simp
    then show ?thesis
      using disableSegs_good [OF d(4), of u] goodSegs_file [of "map (disableSeg u) segs"] by (simp add: rs)
  qed
qed

end
