(* ===== verification/Cron_Handlers.thy ===== *)
theory Cron_Handlers
  imports Cron_Documents
begin

text \<open>
  The HTTP handlers for scheduled scans (\<^verbatim>\<open>cron.go\<close>) and the properties of the cron component. A
  handler runs under \<^verbatim>\<open>configFileMu\<close> and so sees and leaves one configuration file. Go decodes a
  request body into a rule; the result of the decoding is an argument.
\<close>

section \<open>Handlers\<close>

definition cronRuleJSON :: "cronRule \<Rightarrow> json" where
  "cronRuleJSON r =
     JObject ([(''id'', JString (cron_ID r)), (''enabled'', JBool (cron_Enabled r)),
       (''minute'', JString (cron_Minute r)), (''hour'', JString (cron_Hour r)), (''day'', JString (cron_Day r)),
       (''month'', JString (cron_Month r)), (''weekday'', JString (cron_Weekday r)),
       (''target'', JString (cron_Target r)), (''action'', JString (cron_Action r)),
       (''wake'', JBool (cron_Wake r))] @
       (if cron_Line r = 0 then [] else [(''line'', JNumber (int (cron_Line r)))]))"

definition cronRulesResponse :: "cronRule list \<Rightarrow> string \<Rightarrow> json" where
  "cronRulesResponse rules message =
     JObject ((''rules'', JArray (map cronRuleJSON rules)) #
              (if message = [] then [] else [(''message'', JString message)]))"

text \<open>The answer to a request that rewrites the file: \<open>ok\<close> is the status of a success.\<close>

definition cronAnswer ::
    "nat \<Rightarrow> (cronRule list \<times> string) res \<times> string res \<Rightarrow> response \<times> string res" where
  "cronAnswer ok r =
     (case r of
        (Inl e, cf) \<Rightarrow> (writeError StatusBadRequest e, cf)
      | (Inr (rules, message), cf) \<Rightarrow> (writeJSON ok (cronRulesResponse rules message), cf))"

definition handleCronRules ::
    "httpMethod \<Rightarrow> osview \<Rightarrow> config \<Rightarrow> cronWorld \<Rightarrow> string \<Rightarrow> string list \<Rightarrow> actor option \<Rightarrow> cronRule res \<Rightarrow>
     string res \<Rightarrow> (response \<times> string res) option" where
  "handleCronRules method os cfg w tmp candidates ctx body cf =
     (case method of
        MethodGet \<Rightarrow>
          Some (case readCronRules cf (ID (actorOrZero ctx)) of
                  Inl e \<Rightarrow> (writeError StatusInternalServerError e, cf)
                | Inr rules \<Rightarrow> (writeJSON StatusOK (cronRulesResponse rules []), cf))
      | MethodPost \<Rightarrow>
          (case body of
             Inl e \<Rightarrow> Some (writeError StatusBadRequest e, cf)
           | Inr req \<Rightarrow>
               map_option (cronAnswer StatusCreated)
                 (addCronRule os cfg w tmp candidates req (actorOrZero ctx) cf))
      | _ \<Rightarrow> Some (methodNotAllowed, cf))"

definition handleCronRule ::
    "httpMethod \<Rightarrow> string \<Rightarrow> osview \<Rightarrow> config \<Rightarrow> cronWorld \<Rightarrow> string \<Rightarrow> actor option \<Rightarrow> cronRule res \<Rightarrow> bool res \<Rightarrow>
     string res \<Rightarrow> response \<times> string res" where
  "handleCronRule method urlPath os cfg w tmp ctx ruleBody enabledBody cf =
     (let rest = TrimPrefix urlPath ''/api/cron/rules/''; who = actorOrZero ctx in
      if rest = [] then (httpNotFound, cf)
      else if HasSuffix rest ''/enabled'' then
        (let i = TrimSuffix rest ''/enabled'' in
         if i = [] \<or> Contains i ''/'' then (httpNotFound, cf)
         else if method \<noteq> MethodPatch then (methodNotAllowed, cf)
         else case enabledBody of
           Inl e \<Rightarrow> (writeError StatusBadRequest e, cf)
         | Inr enabled \<Rightarrow> cronAnswer StatusOK (setCronRuleEnabled os cfg w tmp i enabled who cf))
      else if Contains rest ''/'' then (httpNotFound, cf)
      else case method of
        MethodPut \<Rightarrow>
          (case ruleBody of
             Inl e \<Rightarrow> (writeError StatusBadRequest e, cf)
           | Inr req \<Rightarrow> cronAnswer StatusOK (updateCronRule os cfg w tmp rest req who cf))
      | MethodDelete \<Rightarrow> cronAnswer StatusOK (deleteCronRule w tmp rest (ID who) cf)
      | _ \<Rightarrow> (methodNotAllowed, cf))"

definition handleCronReload ::
    "httpMethod \<Rightarrow> cronWorld \<Rightarrow> actor option \<Rightarrow> string res \<Rightarrow> response \<times> string res" where
  "handleCronReload method w ctx cf =
     (if method \<noteq> MethodPost then (methodNotAllowed, cf)
      else case runCronScript w [''reload''] (case cf of Inl _ \<Rightarrow> [] | Inr data \<Rightarrow> data) of
        Inl e \<Rightarrow> (writeError StatusBadRequest e, cf)
      | Inr message \<Rightarrow>
          (case readCronRules cf (ID (actorOrZero ctx)) of
             Inl e \<Rightarrow> (writeError StatusInternalServerError e, cf)
           | Inr rules \<Rightarrow> (writeJSON StatusOK (cronRulesResponse rules message), cf)))"

section \<open>Worked examples\<close>

definition carol :: actor where
  "carol = \<lparr> ID = ''carol003'', Username = ''carol'', Role = ''user'', TimeDockAccount = [] \<rparr>"

definition sampleRule :: "string \<Rightarrow> string \<Rightarrow> cronRule" where
  "sampleRule i target =
     \<lparr> cron_ID = i, cron_Enabled = True, cron_Minute = ''*/5'', cron_Hour = ''1-3'', cron_Day = ''*'',
       cron_Month = ''*'', cron_Weekday = ''0'', cron_Target = target, cron_Action = ''warn'',
       cron_Wake = False, cron_UserID = ID carol, cron_Line = 0 \<rparr>"

definition okScript :: cronWorld where
  "okScript = \<lparr> cw_script = (\<lambda>args content. \<lparr> run_output = (if hd args = ''validate''
                    then ''Cron config is valid: 1 rule(s).'' else ''Cron rules reloaded: 1 rule(s).''),
                  run_timeout = False, run_err = None \<rparr>),
                cw_writeErr = None, cw_renameErr = None \<rparr>"

definition ruleID1 :: string where "ruleID1 = ''aaaaaaaaaaaaaaa1''"

definition noFile :: "string res" where "noFile = Inl (ErrNotExist ''/config/cron_scan.conf'')"

lemma sampleRule_held: "heldRule (sampleRule ruleID1 ''/scan/my files'')"
proof -
  have g: "list_all graphic w \<Longrightarrow> w \<noteq> [] \<Longrightarrow> word w" for w by (simp add: word_def spaceFree_graphic)
  have "word ''*/5''" "word ''1-3''" "word ''*''" "word ''0''" "word ''warn''"
    by (rule g; simp add: graphic_def)+
  moreover have "validUserID (ID carol)" by code_simp
  ultimately show ?thesis
    by (simp add: heldRule_def printable_def sampleRule_def printableTarget_def ContainsAny_def cleanLine_def)
qed

lemma ruleID1_valid: "validCronRuleID ruleID1" by code_simp

definition sampleFile :: "string res" where
  "sampleFile = Inr (renderLines [cronMetaLine (sampleRule ruleID1 ''/scan/my files''),
                                  cronConfigLine (sampleRule ruleID1 ''/scan/my files'')])"

lemma sampleFile_good:
  "goodFile sampleFile \<and> fileRules sampleFile = Some [unline (sampleRule ruleID1 ''/scan/my files'')]"
proof -
  let ?r = "sampleRule ruleID1 ''/scan/my files''"
  have i: "validCronRuleID (cron_ID ?r)" using ruleID1_valid by (simp add: sampleRule_def)
  note p = printed_good [OF sampleRule_held i]
  from goodSegs_file [OF p(1)] p(2) show ?thesis by (simp add: sampleFile_def)
qed

section \<open>Properties\<close>




definition otherUser :: "string \<Rightarrow> actor" where
  "otherUser u = \<lparr> ID = u, Username = ''other'', Role = ''user'', TimeDockAccount = [] \<rparr>"


lemma okScript_saves:
  assumes "fileRules (Inr (renderLines lines)) = Some rs"
  shows "\<exists>rules m. saveCronConfigDoc okScript tmp lines u cf = (Inr (rules, m), Inr (renderLines lines))"
proof -
  have "\<exists>m. runCronScript okScript [''validate'', tmp] c = Inr m" for c
  proof -
    have "cronScriptMessage ''Cron config is valid: 1 rule(s).'' = ''Cron config is valid: 1 rule(s).''"
      by code_simp
    then show ?thesis by (simp add: runCronScript_def okScript_def Let_def HasPrefix_def)
  qed
  moreover have "\<exists>m. runCronScript okScript [''reload''] c = Inr m" for c
    by (simp add: runCronScript_def okScript_def Let_def)
  moreover have "\<exists>rules. readCronRules (Inr (renderLines lines)) u = Inr rules"
    using assms by (auto simp: readCronRules_def fileRules_def split: sum.splits)
  ultimately show ?thesis
    by (auto simp: saveCronConfigDoc_def Let_def okScript_def split: sum.splits)
      (metis Inl_Inr_False)+
qed

lemma okScript_clears:
  assumes "goodFile cf"
  shows "\<exists>cf'. removeCronRulesForUser okScript tmp u cf = (None, cf')"
    and "\<exists>cf'. disableCronRulesForUser okScript tmp u cf = (None, cf')"
proof -
  obtain doc segs where o: "opened cf doc segs" using assms goodFile_opened by blast
  note d = openedD [OF o]
  have ok: "\<exists>cf'. saveOptional okScript tmp u cf r = (None, cf')"
    if "r = Inr None \<or> (\<exists>segs'. r = Inr (Some (flat segs')) \<and> goodSegs segs')" for r
    using that
  proof
    assume "\<exists>segs'. r = Inr (Some (flat segs')) \<and> goodSegs segs'"
    then obtain segs' where r: "r = Inr (Some (flat segs'))" and g: "goodSegs segs'" by blast
    obtain rules m where "saveCronConfigDoc okScript tmp (flat segs') u cf =
        (Inr (rules, m), Inr (renderLines (flat segs')))"
      using okScript_saves [OF goodSegs_file(2) [OF g], of tmp u cf] by blast
    then show ?thesis by (simp add: saveOptional_def r)
  qed (simp add: saveOptional_def)
  have "removedLines u cf = Inr None \<or> (\<exists>lines. removedLines u cf = Inr (Some lines))"
    using d(1) by (auto simp: removedLines_def Let_def)
  then have "removedLines u cf = Inr None \<or> (\<exists>segs'. removedLines u cf = Inr (Some (flat segs')) \<and> goodSegs segs')"
    using removedLines_flat [OF o] goodSegs_filter [OF d(4)] by blast
  then show "\<exists>cf'. removeCronRulesForUser okScript tmp u cf = (None, cf')"
    unfolding removeCronRulesForUser_def by (rule ok)
  have "disabledLines u cf = Inr None \<or> disabledLines u cf = Inr (Some (flat (map (disableSeg u) segs)))"
    using d disableBlocks_flat [of u "[]" segs] by (auto simp: disabledLines_def)
  then have "disabledLines u cf = Inr None \<or> (\<exists>segs'. disabledLines u cf = Inr (Some (flat segs')) \<and> goodSegs segs')"
    using disableSegs_good [OF d(4), of u] by blast
  then show "\<exists>cf'. disableCronRulesForUser okScript tmp u cf = (None, cf')"
    unfolding disableCronRulesForUser_def by (rule ok)
qed

text \<open>
  disabling the rules of a user switches off exactly these: when it reports no error, the file
  reads back as the same rules in the same order, with only the enabled flags of that user's rules
  cleared.
\<close>

theorem disableCronRulesForUser_exact:
  assumes "goodFile cf" and "fileRules cf = Some rs" and "disableCronRulesForUser w tmp u cf = (None, cf')"
  shows "goodFile cf' \<and>
         fileRules cf' = Some (map (\<lambda>r. if cron_UserID r = u then r\<lparr>cron_Enabled := False\<rparr> else r) rs)"
  using disableCronRules_ok [OF assms(1,3,2)] by (simp add: disableRule_def [abs_def])

theorem disableCronRulesForUser_exact_witness:
  "\<exists>cf'. disableCronRulesForUser okScript ''/tmp/x'' (ID carol) sampleFile = (None, cf') \<and>
     fileRules cf' = Some [(unline (sampleRule ruleID1 ''/scan/my files''))\<lparr>cron_Enabled := False\<rparr>]"
proof -
  note g = sampleFile_good
  obtain cf' where r: "disableCronRulesForUser okScript ''/tmp/x'' (ID carol) sampleFile = (None, cf')"
    using okScript_clears(2) [OF conjunct1 [OF g]] by blast
  from disableCronRulesForUser_exact [OF conjunct1 [OF g] conjunct2 [OF g] r] r show ?thesis
    by (simp add: sampleRule_def unline_def)
qed

text \<open>
  a rule that is accepted targets the caller's own part of the scan tree and is well formed:
  its crontab fields passed the checks for their ranges, its action is warn, move or remove, its
  target lies in the zone of the caller and holds no double quote; with a target that fits the
  line format the rule can be printed and read back.
\<close>

theorem accepted_cron_rule:
  assumes "prepareCronRule os cfg req who = Inr r" and "admittedActor cfg who" and "validUserID (ID who)"
  shows "cron_Target r \<in> actorZone os cfg who \<and> validateCronRuleFields r = None \<and>
         cron_Action r \<in> {''warn'', ''move'', ''remove''} \<and> DQ \<notin> set (cron_Target r) \<and>
         (lineSafeTarget (cron_Target r) \<longrightarrow> printable (r\<lparr>cron_ID := i, cron_UserID := ID who\<rparr>))"
  using prepareCronRule_Inr [OF assms(1)] guard.accept_zone [OF assms(2)] prepared_printable [OF assms(1,3)]
    validateCronRuleFields_None [of r] by blast

theorem accepted_cron_rule_witness:
  "\<exists>r. prepareCronRule plainView (sampleConfig False) (sampleRule [] ''/scan/usb1'') carol = Inr r \<and>
       cron_Target r \<in> actorZone plainView (sampleConfig False) carol"
proof -
  have "\<not> isl (prepareCronRule plainView (sampleConfig False) (sampleRule [] ''/scan/usb1'') carol)" by code_simp
  then obtain r where r: "prepareCronRule plainView (sampleConfig False) (sampleRule [] ''/scan/usb1'') carol = Inr r"
    by (cases "prepareCronRule plainView (sampleConfig False) (sampleRule [] ''/scan/usb1'') carol") auto
  have 1: "admittedActor (sampleConfig False) carol" by (simp add: admittedActor_def sampleConfig_def)
  have 2: "validUserID (ID carol)" by code_simp
  from accepted_cron_rule [OF r 1 2] r show ?thesis by blast
qed

text \<open>
  the check of a crontab field means what it says on plain numbers, ranges and steps: a number
  is accepted exactly within the bounds, a range exactly when it is ordered and within the bounds,
  and a step is accepted exactly when it is positive.
\<close>

theorem validCronField_exact:
  assumes "0 \<le> a" and "a < 2 ^ 63" and "0 \<le> b" and "b < 2 ^ 63"
  shows "validCronField (Itoa a) lo hi = (lo \<le> a \<and> a \<le> hi) \<and>
         validCronField (Itoa a @ ''-'' @ Itoa b) lo hi = (lo \<le> a \<and> b \<le> hi \<and> a \<le> b) \<and>
         validCronField (''*/'' @ Itoa b) lo hi = (1 \<le> b)"
proof -
  have digits: "list_all isDigit (Itoa n)" "Itoa n \<noteq> []" if "0 \<le> n" for n
    using that natDigits_digits natDigits_nonempty by (simp_all add: Itoa_def)
  have notin: "c \<notin> set (Itoa n)" if "0 \<le> n" "\<not> isDigit c" for n c
    using digits(1) [OF that(1)] that(2) by (auto simp: list_all_iff)
  have sep: "\<not> isDigit CHR '',''" "\<not> isDigit CHR ''-''" "\<not> isDigit CHR ''/''" "\<not> isDigit CHR ''*''"
    by (simp_all add: isDigit_def)
  have at: "Atoi (Itoa a) = Some a" "Atoi (Itoa b) = Some b" using assms by (simp_all add: Atoi_Itoa)
  have star: "Itoa n \<noteq> ''*''" if "0 \<le> n" for n using notin [OF that sep(4)] by auto
  have cut: "Cut (s @ c # t) c = (s, t, True)" if "c \<notin> set s" for s t c
    using that by (induction s) auto
  note no = notin [OF assms(1)] notin [OF assms(3)]
  have "validCronField (Itoa a) lo hi = (lo \<le> a \<and> a \<le> hi)"
    using no sep digits(2) [OF assms(1)] star [OF assms(1)] at
    by (simp add: validCronField_def Split_no_sep validCronPart_def Contains_DQ validCronAtom_def conj_commute)
  moreover have "validCronField (Itoa a @ ''-'' @ Itoa b) lo hi = (lo \<le> a \<and> b \<le> hi \<and> a \<le> b)"
  proof -
    have "CHR '','' \<notin> set (Itoa a @ ''-'' @ Itoa b)" "CHR ''/'' \<notin> set (Itoa a @ ''-'' @ Itoa b)"
      using no sep by auto
    moreover have "Itoa a @ ''-'' @ Itoa b \<noteq> ''*''"
      using digits(2) [OF assms(1)] digits(2) [OF assms(3)] by (cases "Itoa a") auto
    moreover have "Cut (Itoa a @ ''-'' @ Itoa b) CHR ''-'' = (Itoa a, Itoa b, True)"
      using cut [OF no(1) [OF sep(2)]] by simp
    ultimately show ?thesis
      using at by (simp add: validCronField_def Split_no_sep validCronPart_def Contains_DQ validCronAtom_def)
  qed
  moreover have "validCronField (''*/'' @ Itoa b) lo hi = (1 \<le> b)"
  proof -
    have "CHR '','' \<notin> set (''*/'' @ Itoa b)" using no sep by auto
    moreover have "Cut (''*/'' @ Itoa b) CHR ''/'' = (''*'', Itoa b, True)" by simp
    ultimately show ?thesis
      using at digits(2) [OF assms(3)]
      by (simp add: validCronField_def Split_no_sep validCronPart_def Contains_DQ validCronAtom_def not_less)
  qed
  ultimately show ?thesis by blast
qed

theorem validCronField_exact_witness: "\<not> validCronField (Itoa 60) 0 59"
  using validCronField_exact [of 60 0 0 59] by simp

section \<open>Targets the line format cannot hold\<close>

text \<open>A path with a no-break space, and a path with line breaks, both of which may exist.\<close>

definition nbspTarget :: string where
  "nbspTarget = ''/scan/a'' @ [CHR 0xC2, CHR 0xA0] @ ''b''"

definition forgedLine :: string where
  "forgedLine = ''* * * * * /scan/usb1/other remove dave0004 N''"

definition forgingTarget :: string where
  "forgingTarget = ''/scan/usb1/acct/x'' @ [LF] @ forgedLine @ [LF] @ ''#''"

definition carolTD :: actor where "carolTD = carol\<lparr>TimeDockAccount := ''acct''\<rparr>"



end
