(* ===== verification/Passwords.thy ===== *)
theory Passwords
  imports Go_Fields Go_Paths
begin

text \<open>
  Password hashes and the limit on concurrent hashing (\<^verbatim>\<open>server/auth.go\<close>). Argon2 comes from
  \<^verbatim>\<open>golang.org/x/crypto\<close>: the function \<^verbatim>\<open>argon2.IDKey\<close> is the argument \<open>IDKey\<close> (password, salt,
  passes, memory, threads, key length). Base64 and \<^verbatim>\<open>fmt.Sscanf\<close> with its \<^verbatim>\<open>%d\<close> verb are modelled as
  the server uses them.
\<close>

section \<open>Base64 without padding\<close>

definition b64Alphabet :: string where
  "b64Alphabet = ''ABCDEFGHIJKLMNOPQRSTUVWXYZabcdefghijklmnopqrstuvwxyz0123456789+/''"

definition b64Char :: "nat \<Rightarrow> char" where
  "b64Char n = b64Alphabet ! n"

fun b64Encode :: "string \<Rightarrow> string" where
  "b64Encode [] = []"
| "b64Encode [a] = [b64Char (byte a div 4), b64Char (byte a mod 4 * 16)]"
| "b64Encode [a, b] =
     [b64Char (byte a div 4), b64Char (byte a mod 4 * 16 + byte b div 16), b64Char (byte b mod 16 * 4)]"
| "b64Encode (a # b # c # rest) =
     b64Char (byte a div 4) # b64Char (byte a mod 4 * 16 + byte b div 16) #
     b64Char (byte b mod 16 * 4 + byte c div 64) # b64Char (byte c mod 64) # b64Encode rest"

definition b64Value :: "char \<Rightarrow> nat option" where
  "b64Value c = IndexByte b64Alphabet c"

text \<open>
  Line ends are skipped, a single last character is an error, and the unused bits of the last
  group are ignored (the encoding is not strict).
\<close>

fun b64Groups :: "nat list \<Rightarrow> string option" where
  "b64Groups [] = Some []"
| "b64Groups [x] = None"
| "b64Groups [x, y] = Some [char_of (x * 4 + y div 16)]"
| "b64Groups [x, y, z] = Some [char_of (x * 4 + y div 16), char_of (y mod 16 * 16 + z div 4)]"
| "b64Groups (x # y # z # v # rest) =
     map_option (\<lambda>s. char_of (x * 4 + y div 16) # char_of (y mod 16 * 16 + z div 4) #
                     char_of (z mod 4 * 64 + v) # s) (b64Groups rest)"

definition b64Decode :: "string \<Rightarrow> string option" where
  "b64Decode s =
     (let values = map b64Value (filter (\<lambda>c. c \<noteq> CR \<and> c \<noteq> LF) s) in
      if None \<in> set values then None else b64Groups (map the values))"

section \<open>Scanning the parameters\<close>

text \<open>\<^verbatim>\<open>SkipSpace\<close> of \<^verbatim>\<open>fmt.Sscanf\<close>: a line feed is an error.\<close>

function skipBlanks :: "string \<Rightarrow> string option" where
  "skipBlanks s =
     (if s \<noteq> [] \<and> hd s = LF then None
      else if spaceLen s = 0 then Some s
      else skipBlanks (drop (spaceLen s) s))"
  by pat_completeness auto
termination
  by (relation "measure length") (auto simp: spaceLen_shrinks)

declare skipBlanks.simps [simp del]

definition scanUint :: "nat \<Rightarrow> string \<Rightarrow> (nat \<times> string) option" where
  "scanUint bits s =
     (case skipBlanks s of
        None \<Rightarrow> None
      | Some t \<Rightarrow>
          (let ds = takeWhile isDigit t in
           if ds = [] then None
           else case digitsVal 0 ds of
             None \<Rightarrow> None
           | Some v \<Rightarrow> if v < 2 ^ bits then Some (nat v, drop (length ds) t) else None))"

definition scanLiteral :: "string \<Rightarrow> string \<Rightarrow> string option" where
  "scanLiteral lit s = (if HasPrefix s lit then Some (drop (length lit) s) else None)"

text \<open>\<^verbatim>\<open>fmt.Sscanf(text, "m=%d,t=%d,p=%d", ...)\<close> into two 32-bit and one 8-bit variable.\<close>

definition scanArgonParams :: "string \<Rightarrow> (nat \<times> nat \<times> nat) option" where
  "scanArgonParams s =
     Option.bind (scanLiteral ''m='' s) (\<lambda>s1.
     Option.bind (scanUint 32 s1) (\<lambda>(memory, s2).
     Option.bind (scanLiteral '',t='' s2) (\<lambda>s3.
     Option.bind (scanUint 32 s3) (\<lambda>(iterations, s4).
     Option.bind (scanLiteral '',p='' s4) (\<lambda>s5.
     Option.bind (scanUint 8 s5) (\<lambda>(parallelism, _).
       Some (memory, iterations, parallelism)))))))"

section \<open>Hashing and verifying\<close>

type_synonym keyFunction = "string \<Rightarrow> string \<Rightarrow> nat \<Rightarrow> nat \<Rightarrow> nat \<Rightarrow> nat \<Rightarrow> string"

text \<open>\<open>rand\<close> is what the random source gives for the 16 bytes of salt.\<close>

definition hashPassword :: "keyFunction \<Rightarrow> string res \<Rightarrow> string \<Rightarrow> string res" where
  "hashPassword IDKey rand password =
     (if length password < 8 \<or> length password > 1024
      then Inl (ErrText ''password must be between 8 and 1024 bytes'')
      else bind_res rand (\<lambda>salt.
        Inr (''$argon2id$v=19$m=19456,t=2,p=1$'' @ b64Encode salt @ ''$'' @
             b64Encode (IDKey password salt 2 (19 * 1024) 1 32))))"

definition verifyPassword :: "keyFunction \<Rightarrow> string \<Rightarrow> string \<Rightarrow> bool" where
  "verifyPassword IDKey password encoded =
     (let parts = Split encoded CHR ''$'' in
      if length parts \<noteq> 6 \<or> parts ! 1 \<noteq> ''argon2id'' \<or> parts ! 2 \<noteq> ''v=19'' then False
      else case scanArgonParams (parts ! 3) of
        None \<Rightarrow> False
      | Some (memory, iterations, parallelism) \<Rightarrow>
          (case b64Decode (parts ! 4) of
             None \<Rightarrow> False
           | Some salt \<Rightarrow>
               (case b64Decode (parts ! 5) of
                  None \<Rightarrow> False
                | Some want \<Rightarrow>
                    want \<noteq> [] \<and>
                    IDKey password salt iterations memory parallelism (length want) = want)))"

section \<open>The limit on concurrent hashing\<close>

text \<open>
  The slots of \<^verbatim>\<open>argon2Limiter\<close> are a channel of capacity five; the model counts the tokens in it.
  The methods \<^verbatim>\<open>hashPassword\<close> and \<^verbatim>\<open>verifyPassword\<close> of the server take a slot for the time of the call.
\<close>

definition argon2Concurrency :: nat where "argon2Concurrency = 5"

definition tryAcquire :: "nat \<Rightarrow> bool \<times> nat" where
  "tryAcquire slots = (if slots < argon2Concurrency then (True, slots + 1) else (False, slots))"

definition release :: "nat \<Rightarrow> nat" where "release slots = slots - 1"

definition server_hashPassword :: "keyFunction \<Rightarrow> nat \<Rightarrow> string res \<Rightarrow> string \<Rightarrow> string res" where
  "server_hashPassword IDKey slots rand password =
     (if length password < 8 \<or> length password > 1024
      then Inl (ErrText ''password must be between 8 and 1024 bytes'')
      else if \<not> fst (tryAcquire slots) then Inl ErrArgon2Busy
      else hashPassword IDKey rand password)"

definition server_verifyPassword :: "keyFunction \<Rightarrow> nat \<Rightarrow> string \<Rightarrow> string \<Rightarrow> bool res" where
  "server_verifyPassword IDKey slots password encoded =
     (if \<not> fst (tryAcquire slots) then Inl ErrArgon2Busy
      else Inr (verifyPassword IDKey password encoded))"

section \<open>What was hashed can be verified\<close>

lemma b64Value_Char: "n < 64 \<Longrightarrow> b64Value (b64Char n) = Some n"
proof -
  have "list_all (\<lambda>n. b64Value (b64Char n) = Some n) [0..<64]" by code_simp
  then show "n < 64 \<Longrightarrow> b64Value (b64Char n) = Some n" by (simp add: list_all_iff)
qed

lemma b64Char_plain: "n < 64 \<Longrightarrow> b64Char n \<noteq> CR \<and> b64Char n \<noteq> LF \<and> b64Char n \<noteq> CHR ''$''"
proof -
  have "list_all (\<lambda>n. b64Char n \<noteq> CR \<and> b64Char n \<noteq> LF \<and> b64Char n \<noteq> CHR ''$'') [0..<64]" by code_simp
  then show "n < 64 \<Longrightarrow> b64Char n \<noteq> CR \<and> b64Char n \<noteq> LF \<and> b64Char n \<noteq> CHR ''$''"
    by (simp add: list_all_iff)
qed

lemma byte_less: "byte c < 256"
  by (rule nat_of_char_less_256)

text \<open>The pieces of a byte fit a six-bit group and fit together again.\<close>

lemma b64_pieces:
  "b < 256 \<Longrightarrow> b div 16 div 16 = 0" "b < 256 \<Longrightarrow> b div 16 mod 16 = b div 16"
  "c < 256 \<Longrightarrow> c div 64 div 4 = 0" "c < 256 \<Longrightarrow> c div 64 mod 4 = c div 64"
  for b c :: nat
  by (simp_all add: div_less_iff_less_mult div_eq_0_iff)

lemma b64_less:
  "a < 256 \<Longrightarrow> a div 4 < 64" "a mod 4 * 16 < 64" "b mod 16 * 4 < 64"
  "b < 256 \<Longrightarrow> a mod 4 * 16 + b div 16 < 64" "c < 256 \<Longrightarrow> b mod 16 * 4 + c div 64 < 64"
  for a b c :: nat
proof -
  have m: "a mod 4 < 4" "b mod 16 < 16" by simp_all
  then show "a mod 4 * 16 < 64" "b mod 16 * 4 < 64" by linarith+
  show "a < 256 \<Longrightarrow> a div 4 < 64" by (simp add: div_less_iff_less_mult)
  have "b < 256 \<Longrightarrow> b div 16 < 16" "c < 256 \<Longrightarrow> c div 64 < 4" by (simp_all add: div_less_iff_less_mult)
  then show "b < 256 \<Longrightarrow> a mod 4 * 16 + b div 16 < 64" "c < 256 \<Longrightarrow> b mod 16 * 4 + c div 64 < 64"
    using m by linarith+
qed

lemma b64_values:
  "\<exists>vs. map b64Value (b64Encode s) = map Some vs \<and> b64Groups vs = Some s"
proof (induction s rule: b64Encode.induct)
  case 1
  then show ?case by auto
next
  case (2 a)
  show ?case
    using byte_less [of a]
    by (intro exI [of _ "[byte a div 4, byte a mod 4 * 16]"])
       (simp add: b64Value_Char b64_pieces b64_less)
next
  case (3 a b)
  show ?case
    using byte_less [of a] byte_less [of b]
    by (intro exI [of _ "[byte a div 4, byte a mod 4 * 16 + byte b div 16, byte b mod 16 * 4]"])
       (simp add: b64Value_Char b64_pieces b64_less)
next
  case (4 a b c rest)
  then obtain vs where vs: "map b64Value (b64Encode rest) = map Some vs" "b64Groups vs = Some rest" by auto
  show ?case
    using byte_less [of a] byte_less [of b] byte_less [of c] vs
    by (intro exI [of _ "byte a div 4 # (byte a mod 4 * 16 + byte b div 16) #
          (byte b mod 16 * 4 + byte c div 64) # byte c mod 64 # vs"])
       (simp add: b64Value_Char b64_pieces b64_less)
qed

lemma b64Encode_plain: "c \<in> set (b64Encode s) \<Longrightarrow> c \<noteq> CR \<and> c \<noteq> LF \<and> c \<noteq> CHR ''$''"
proof -
  have "list_all (\<lambda>c. c \<noteq> CR \<and> c \<noteq> LF \<and> c \<noteq> CHR ''$'') (b64Encode s)"
  proof (induction s rule: b64Encode.induct)
    case (2 a)
    show ?case using byte_less [of a] by (simp add: b64Char_plain b64_pieces b64_less)
  next
    case (3 a b)
    show ?case
      using byte_less [of a] byte_less [of b] by (simp add: b64Char_plain b64_pieces b64_less)
  next
    case (4 a b c rest)
    then show ?case
      using byte_less [of a] byte_less [of b] byte_less [of c] by (simp add: b64Char_plain b64_pieces b64_less)
  qed simp
  then show "c \<in> set (b64Encode s) \<Longrightarrow> c \<noteq> CR \<and> c \<noteq> LF \<and> c \<noteq> CHR ''$''" by (auto simp: list_all_iff)
qed

lemma b64Decode_Encode: "b64Decode (b64Encode s) = Some s"
proof -
  obtain vs where vs: "map b64Value (b64Encode s) = map Some vs" "b64Groups vs = Some s"
    using b64_values by blast
  have "filter (\<lambda>c. c \<noteq> CR \<and> c \<noteq> LF) (b64Encode s) = b64Encode s"
    using b64Encode_plain [of _ s] by (simp add: filter_id_conv)
  moreover have "map the (map Some vs) = vs" by (induction vs) auto
  ultimately show ?thesis using vs by (auto simp: b64Decode_def Let_def)
qed

lemma Split_hashed:
  "Split (''$argon2id$v=19$m=19456,t=2,p=1$'' @ b64Encode salt @ ''$'' @ b64Encode key) CHR ''$'' =
     [[], ''argon2id'', ''v=19'', ''m=19456,t=2,p=1'', b64Encode salt, b64Encode key]"
proof -
  have "CHR ''$'' \<notin> set (b64Encode x)" for x using b64Encode_plain [of "CHR ''$''" x] by blast
  then have "Split (b64Encode salt @ CHR ''$'' # b64Encode key) CHR ''$'' = [b64Encode salt, b64Encode key]"
    by (simp add: Split_append_sep Split_no_sep)
  then show ?thesis by simp
qed

lemma scanArgonParams_hashed: "scanArgonParams ''m=19456,t=2,p=1'' = Some (19 * 1024, 2, 1)"
  by code_simp

text \<open>
  a stored hash accepts exactly the passwords with the same key. For a password that
  \<open>hashPassword\<close> accepts, with a key function that returns keys of the length it is asked for,
  \<open>verifyPassword\<close> accepts a password against the stored text exactly when Argon2 derives the same
  key from it with the stored salt; in particular it accepts the password itself.
\<close>

theorem stored_hash_accepts_same_key:
  assumes "hashPassword IDKey (Inr salt) password = Inr encoded"
    and "length (IDKey password salt 2 19456 1 32) = 32"
  shows "verifyPassword IDKey other encoded \<longleftrightarrow>
           IDKey other salt 2 19456 1 32 = IDKey password salt 2 19456 1 32"
proof -
  have "encoded = ''$argon2id$v=19$m=19456,t=2,p=1$'' @ b64Encode salt @ ''$'' @
                  b64Encode (IDKey password salt 2 19456 1 32)"
    using assms(1) by (auto simp: hashPassword_def split: if_splits)
  moreover have "IDKey password salt 2 19456 1 32 \<noteq> []" using assms(2) by auto
  ultimately show ?thesis
    using assms(2)
    by (simp add: verifyPassword_def Let_def Split_hashed [simplified] scanArgonParams_hashed b64Decode_Encode)
qed

definition toyKey :: keyFunction where
  "toyKey password salt t m p n = take n (password @ salt @ replicate n CHR ''x'')"

theorem stored_hash_accepts_same_key_witness:
  "\<exists>encoded. hashPassword toyKey (Inr ''0123456789abcdef'') ''correct horse'' = Inr encoded \<and>
     verifyPassword toyKey ''correct horse'' encoded \<and> \<not> verifyPassword toyKey ''battery staple'' encoded"
proof -
  obtain encoded where e: "hashPassword toyKey (Inr ''0123456789abcdef'') ''correct horse'' = Inr encoded"
    by (simp add: hashPassword_def)
  have l: "length (toyKey ''correct horse'' ''0123456789abcdef'' 2 19456 1 32) = 32"
    by (simp add: toyKey_def)
  have d: "toyKey ''battery staple'' ''0123456789abcdef'' 2 19456 1 32 \<noteq>
        toyKey ''correct horse'' ''0123456789abcdef'' 2 19456 1 32"
    by (simp add: toyKey_def)
  show ?thesis
    using e stored_hash_accepts_same_key [OF e l, of "''correct horse''"]
      stored_hash_accepts_same_key [OF e l, of "''battery staple''"] d by blast
qed

end
