(* ===== verification/User_Database.thy ===== *)
theory User_Database
  imports Passwords Identity Login_Limiter
begin

text \<open>
  The user database: the tables \<^verbatim>\<open>users\<close> and \<^verbatim>\<open>sessions\<close> of \<^verbatim>\<open>server/database.go\<close> as lists of rows,
  the statements that \<^verbatim>\<open>server/auth.go\<close> and \<^verbatim>\<open>server/users.go\<close> run on them, and the authentication of
  requests. Times are Unix seconds. Every statement may fail: \<open>faults\<close> gives, for the place of a
  statement in the code, the error the database answers with. The unique keys and the cascade
  of the schema are part of the statements.
\<close>

section \<open>Tables\<close>

record userRow =
  usr_id :: string
  usr_username :: string
  usr_password :: "string option"
  usr_role :: string
  usr_timedock :: string
  usr_status :: string
  usr_created :: int
  usr_updated :: int

record sessionRow =
  ses_id :: nat
  ses_hash :: string
  ses_user :: string
  ses_created :: int
  ses_lastSeen :: int
  ses_idle :: int
  ses_absolute :: int
  ses_revoked :: "int option"

record userDB =
  db_users :: "userRow list"
  db_sessions :: "sessionRow list"
  db_nextSession :: nat

definition emptyDB :: userDB where
  "emptyDB = \<lparr> db_users = [], db_sessions = [], db_nextSession = 1 \<rparr>"

datatype dbSite =
    AuthQuery | AuthRefresh
  | RegisterBegin | RegisterCount | RegisterUsername | RegisterInsert | RegisterIDCount | RegisterCommit
  | LoginQuery | LoginInsert
  | LogoutUpdate
  | PasswordQuery | PasswordBegin | PasswordUpdate | PasswordRevoke | PasswordCommit
  | PatchQuery | PatchLastAdmin | PatchUpdate | PatchRevoke
  | AccountQuery
  | DeleteQuery | DeleteLastAdmin | DeleteBusy | DeleteMark | DeleteRevoke | DeleteUser
  | JanitorDelete | ListQuery | FirstRunCount

type_synonym faults = "dbSite \<Rightarrow> goerror option"

section \<open>Statements\<close>

definition userByID :: "string \<Rightarrow> userDB \<Rightarrow> userRow option" where
  "userByID i db = find (\<lambda>u. usr_id u = i) (db_users db)"

definition userByName :: "string \<Rightarrow> userDB \<Rightarrow> userRow option" where
  "userByName name db = find (\<lambda>u. usr_username u = name) (db_users db)"

definition updateUser :: "string \<Rightarrow> (userRow \<Rightarrow> userRow) \<Rightarrow> userDB \<Rightarrow> userDB" where
  "updateUser i f db = db\<lparr>db_users := map (\<lambda>u. if usr_id u = i then f u else u) (db_users db)\<rparr>"

definition updateSessions :: "(sessionRow \<Rightarrow> bool) \<Rightarrow> (sessionRow \<Rightarrow> sessionRow) \<Rightarrow> userDB \<Rightarrow> userDB" where
  "updateSessions P f db = db\<lparr>db_sessions := map (\<lambda>x. if P x then f x else x) (db_sessions db)\<rparr>"

text \<open>\<^verbatim>\<open>INSERT INTO users\<close>: both keys are unique, and the schema checks the identifier and the role.\<close>

definition insertUser :: "userRow \<Rightarrow> userDB \<Rightarrow> userDB res" where
  "insertUser row db =
     (if userByID (usr_id row) db \<noteq> None \<or> userByName (usr_username row) db \<noteq> None \<or>
         \<not> validUserID (usr_id row) \<or> usr_role row \<notin> {''user'', ''admin''}
      then Inl (ErrText ''constraint failed'')
      else Inr (db\<lparr>db_users := db_users db @ [row]\<rparr>))"

text \<open>\<^verbatim>\<open>DELETE FROM users\<close>, with the sessions by the foreign key's cascade.\<close>

definition deleteUserRow :: "string \<Rightarrow> userDB \<Rightarrow> userDB" where
  "deleteUserRow i db =
     db\<lparr>db_users := filter (\<lambda>u. usr_id u \<noteq> i) (db_users db),
        db_sessions := filter (\<lambda>x. ses_user x \<noteq> i) (db_sessions db)\<rparr>"

definition sessionIdleTTL :: int where "sessionIdleTTL = 2 * 60 * 60"
definition sessionAbsoluteTTL :: int where "sessionAbsoluteTTL = 24 * 60 * 60"
definition sessionRefreshAfter :: int where "sessionRefreshAfter = 5 * 60"

text \<open>\<^verbatim>\<open>INSERT INTO sessions\<close> of a login: the token hash is unique, the user must exist.\<close>

definition insertSession :: "string \<Rightarrow> string \<Rightarrow> int \<Rightarrow> userDB \<Rightarrow> userDB res" where
  "insertSession hash userID now db =
     (if list_ex (\<lambda>x. ses_hash x = hash) (db_sessions db) \<or> userByID userID db = None
      then Inl (ErrText ''constraint failed'')
      else Inr (db\<lparr>db_sessions := db_sessions db @
                  [\<lparr> ses_id = db_nextSession db, ses_hash = hash, ses_user = userID, ses_created = now,
                     ses_lastSeen = now, ses_idle = now + sessionIdleTTL,
                     ses_absolute = now + sessionAbsoluteTTL, ses_revoked = None \<rparr>],
                  db_nextSession := Suc (db_nextSession db)\<rparr>))"

text \<open>\<^verbatim>\<open>isLastActiveAdmin\<close>: no other active administrator.\<close>

definition activeAdmin :: "userRow \<Rightarrow> bool" where
  "activeAdmin u \<longleftrightarrow> usr_role u = ''admin'' \<and> usr_status u = ''active''"

definition isLastActiveAdmin :: "string \<Rightarrow> userDB \<Rightarrow> bool" where
  "isLastActiveAdmin username db \<longleftrightarrow>
     \<not> list_ex (\<lambda>u. activeAdmin u \<and> usr_username u \<noteq> username) (db_users db)"

section \<open>Authentication of requests\<close>

definition liveSession :: "int \<Rightarrow> userDB \<Rightarrow> sessionRow \<Rightarrow> bool" where
  "liveSession now db x \<longleftrightarrow>
     ses_revoked x = None \<and> ses_idle x > now \<and> ses_absolute x > now \<and>
     (case userByID (ses_user x) db of None \<Rightarrow> False | Some u \<Rightarrow> usr_status u = ''active'')"

definition authRow :: "string \<Rightarrow> int \<Rightarrow> userDB \<Rightarrow> (sessionRow \<times> userRow) option" where
  "authRow hash now db =
     (case find (\<lambda>x. ses_hash x = hash \<and> liveSession now db x) (db_sessions db) of
        None \<Rightarrow> None
      | Some x \<Rightarrow> map_option (Pair x) (userByID (ses_user x) db))"

definition refreshSession :: "int \<Rightarrow> sessionRow \<Rightarrow> sessionRow" where
  "refreshSession now x =
     x\<lparr>ses_lastSeen := now,
       ses_idle := (if now + sessionIdleTTL > ses_absolute x then ses_absolute x else now + sessionIdleTTL)\<rparr>"

definition authenticateRequest ::
    "(string \<Rightarrow> string) \<Rightarrow> faults \<Rightarrow> string option \<Rightarrow> int \<Rightarrow> userDB \<Rightarrow> actor res \<times> userDB" where
  "authenticateRequest sha256 faults cookie now db =
     (if cookie = None \<or> cookie = Some [] then (Inl (ErrText ''missing session''), db)
      else case faults AuthQuery of
        Some e \<Rightarrow> (Inl e, db)
      | None \<Rightarrow>
          (case authRow (sha256 (the cookie)) now db of
             None \<Rightarrow> (Inl ErrNoRows, db)
           | Some (x, u) \<Rightarrow>
               (Inr \<lparr> ID = usr_id u, Username = usr_username u, Role = usr_role u,
                      TimeDockAccount = usr_timedock u \<rparr>,
                if now - ses_lastSeen x \<ge> sessionRefreshAfter \<and> faults AuthRefresh = None
                then updateSessions (\<lambda>y. ses_id y = ses_id x) (refreshSession now) db else db)))"

text \<open>
  The middleware \<^verbatim>\<open>requireAuth\<close>. The outcome is a rejection or the context the next handler sees:
  no actor for paths that need none. \<open>parseURL\<close> is \<^verbatim>\<open>url.Parse\<close>, giving the scheme and the host.
\<close>

definition publicAPIPath :: "string \<Rightarrow> bool" where
  "publicAPIPath path \<longleftrightarrow>
     path \<in> {''/api/auth/login'', ''/api/auth/register'', ''/api/first-run/status''}"

definition isUnsafeMethod :: "string \<Rightarrow> bool" where
  "isUnsafeMethod method \<longleftrightarrow> method \<noteq> ''GET'' \<and> method \<noteq> ''HEAD'' \<and> method \<noteq> ''OPTIONS''"

definition sameOriginRequest ::
    "(string \<Rightarrow> (string \<times> string) option) \<Rightarrow> string \<Rightarrow> string \<Rightarrow> bool" where
  "sameOriginRequest parseURL originHeader host =
     (let origin = TrimSpace originHeader in
      if origin = [] then True
      else case parseURL origin of
        None \<Rightarrow> False
      | Some (scheme, h) \<Rightarrow> (scheme = ''http'' \<or> scheme = ''https'') \<and> h = host)"

datatype gate = Rejected response | Passed "actor option"

definition requireAuth ::
    "(string \<Rightarrow> string) \<Rightarrow> faults \<Rightarrow> (string \<Rightarrow> (string \<times> string) option) \<Rightarrow> string \<Rightarrow> string \<Rightarrow>
     string \<Rightarrow> string \<Rightarrow> string option \<Rightarrow> int \<Rightarrow> userDB \<Rightarrow> gate \<times> userDB" where
  "requireAuth sha256 faults parseURL path method origin host cookie now db =
     (if \<not> HasPrefix path ''/api/'' \<or> publicAPIPath path then (Passed None, db)
      else case authenticateRequest sha256 faults cookie now db of
        (Inl e, db1) \<Rightarrow> (Rejected (writeError StatusUnauthorized (ErrText ''authentication required'')), db1)
      | (Inr who, db1) \<Rightarrow>
          if isUnsafeMethod method \<and> \<not> sameOriginRequest parseURL origin host
          then (Rejected (writeError StatusForbidden (ErrText ''cross-origin request rejected'')), db1)
          else (Passed (Some who), db1))"

definition adminOnly :: "actor option \<Rightarrow> response option" where
  "adminOnly ctx =
     (case requireAdminActor ctx of Inl e \<Rightarrow> Some (writeError StatusForbidden e) | Inr _ \<Rightarrow> None)"

section \<open>The session janitor\<close>

definition sessionJanitor :: "faults \<Rightarrow> int \<Rightarrow> userDB \<Rightarrow> userDB" where
  "sessionJanitor faults now db =
     (case faults JanitorDelete of
        Some _ \<Rightarrow> db
      | None \<Rightarrow>
          db\<lparr>db_sessions := filter (\<lambda>x. \<not> (ses_absolute x < now \<or> ses_idle x < now \<or>
               (case ses_revoked x of None \<Rightarrow> False | Some t \<Rightarrow> t < now - 24 * 60 * 60))) (db_sessions db)\<rparr>)"

end
