(* ===== verification/Auth_Handlers.thy ===== *)
theory Auth_Handlers
  imports User_Database Server_Config
begin

text \<open>
  The handlers of \<^verbatim>\<open>server/auth.go\<close>: registration, login, logout and password change. A handler
  takes the request's attributes and the world (the hash functions, what the random sources
  give, the slots of the hashing limit that other requests hold, the database's faults) and
  returns the reply and the new state.
\<close>

section \<open>Requests, replies and the world\<close>

record authRequest =
  req_Username :: string
  req_Password :: string
  req_Role :: string
  req_TimeDockAccount :: string
  req_Token :: string

text \<open>The session cookie of a reply: left alone, set to a token, or cleared.\<close>

datatype cookieChange = KeepCookie | SetSession string int | ClearSession

record reply =
  rp_response :: response
  rp_cookie :: cookieChange
  rp_retryAfter :: "string option"

definition plain :: "response \<Rightarrow> reply" where
  "plain r = \<lparr> rp_response = r, rp_cookie = KeepCookie, rp_retryAfter = None \<rparr>"

definition writeArgon2Busy :: reply where
  "writeArgon2Busy =
     \<lparr> rp_response = writeError StatusTooManyRequests ErrArgon2Busy, rp_cookie = KeepCookie,
       rp_retryAfter = Some ''1'' \<rparr>"

record authWorld =
  aw_sha256 :: "string \<Rightarrow> string"
  aw_IDKey :: keyFunction
  aw_faults :: faults
  aw_parseURL :: "string \<Rightarrow> (string \<times> string) option"
  aw_isHan :: "nat \<Rightarrow> bool"
  aw_slots :: nat
  aw_slots2 :: nat
  aw_salt :: "string res"
  aw_rawToken :: "string res"
  aw_dummyHash :: string

definition authFault :: "authWorld \<Rightarrow> dbSite \<Rightarrow> ('a res \<Rightarrow> 'a res)" where
  "authFault w site r = (case aw_faults w site of Some e \<Rightarrow> Inl e | None \<Rightarrow> r)"

section \<open>Checks of the input\<close>

definition usernamePattern :: "string \<Rightarrow> bool" where
  "usernamePattern s \<longleftrightarrow>
     1 \<le> length s \<and> length s \<le> 64 \<and>
     list_all (\<lambda>c. isAlnum c \<or> c = CHR ''.'' \<or> c = CHR ''_'' \<or> c = CHR ''-'') s"

text \<open>
  \<^verbatim>\<open>utf8.DecodeRuneInString\<close>: the rune and its width; a byte that starts no encoding is the rune
  U+FFFD of width one.
\<close>

definition contByte :: "char \<Rightarrow> bool" where
  "contByte c \<longleftrightarrow> 0x80 \<le> byte c \<and> byte c \<le> 0xBF"

definition secondByte :: "nat \<Rightarrow> char \<Rightarrow> bool" where
  "secondByte lead c \<longleftrightarrow>
     (if lead = 0xE0 then 0xA0 \<le> byte c \<and> byte c \<le> 0xBF
      else if lead = 0xED then 0x80 \<le> byte c \<and> byte c \<le> 0x9F
      else if lead = 0xF0 then 0x90 \<le> byte c \<and> byte c \<le> 0xBF
      else if lead = 0xF4 then 0x80 \<le> byte c \<and> byte c \<le> 0x8F
      else contByte c)"

definition decodeRune :: "string \<Rightarrow> nat \<times> nat" where
  "decodeRune s =
     (case s of
        [] \<Rightarrow> (0xFFFD, 0)
      | a # s1 \<Rightarrow>
          if byte a < 0x80 then (byte a, 1)
          else (case s1 of
            [] \<Rightarrow> (0xFFFD, 1)
          | b # s2 \<Rightarrow>
              if 0xC2 \<le> byte a \<and> byte a \<le> 0xDF then
                (if contByte b then ((byte a - 0xC0) * 64 + (byte b - 0x80), 2) else (0xFFFD, 1))
              else if \<not> (0xE0 \<le> byte a \<and> byte a \<le> 0xF4) \<or> \<not> secondByte (byte a) b then (0xFFFD, 1)
              else (case s2 of
                [] \<Rightarrow> (0xFFFD, 1)
              | c # s3 \<Rightarrow>
                  if \<not> contByte c then (0xFFFD, 1)
                  else if byte a \<le> 0xEF then
                    ((byte a - 0xE0) * 4096 + (byte b - 0x80) * 64 + (byte c - 0x80), 3)
                  else (case s3 of
                    [] \<Rightarrow> (0xFFFD, 1)
                  | d # _ \<Rightarrow>
                      if \<not> contByte d then (0xFFFD, 1)
                      else ((byte a - 0xF0) * 262144 + (byte b - 0x80) * 4096 + (byte c - 0x80) * 64 +
                              (byte d - 0x80), 4)))))"

definition accountRune :: "(nat \<Rightarrow> bool) \<Rightarrow> nat \<Rightarrow> bool" where
  "accountRune isHan r \<longleftrightarrow>
     isHan r \<or> (65 \<le> r \<and> r \<le> 90) \<or> (97 \<le> r \<and> r \<le> 122) \<or> (48 \<le> r \<and> r \<le> 57)"

lemma decodeRune_width: "s \<noteq> [] \<Longrightarrow> 0 < snd (decodeRune s) \<and> snd (decodeRune s) \<le> length s"
  by (auto simp: decodeRune_def split: list.splits)

function accountRunes :: "(nat \<Rightarrow> bool) \<Rightarrow> nat \<Rightarrow> string \<Rightarrow> goerror option" where
  "accountRunes isHan n s =
     (if s = [] then None
      else if n + 1 > 64 then Some (ErrText ''timedock_account must not exceed 64 Unicode characters'')
      else if accountRune isHan (fst (decodeRune s))
        then accountRunes isHan (n + 1) (drop (snd (decodeRune s)) s)
      else Some (ErrText ''timedock_account may contain only Chinese characters, English letters, and numbers''))"
  by pat_completeness auto
termination
  by (relation "measure (\<lambda>(h, n, s). length s)") (auto dest: decodeRune_width)

declare accountRunes.simps [simp del]

definition normalizeTimeDockAccount :: "(nat \<Rightarrow> bool) \<Rightarrow> string \<Rightarrow> string res" where
  "normalizeTimeDockAccount isHan value =
     (if value = [] then Inr []
      else case accountRunes isHan 0 value of Some e \<Rightarrow> Inl e | None \<Rightarrow> Inr value)"

definition validAdminRegisterToken :: "(string \<Rightarrow> string) \<Rightarrow> string \<Rightarrow> string \<Rightarrow> bool" where
  "validAdminRegisterToken sha256 provided configured =
     (if configured = [] \<or> provided = [] then False else sha256 provided = sha256 configured)"

text \<open>\<^verbatim>\<open>base64.RawURLEncoding\<close> differs from the standard alphabet in two characters.\<close>

definition b64URLEncode :: "string \<Rightarrow> string" where
  "b64URLEncode s =
     map (\<lambda>c. if c = CHR ''+'' then CHR ''-'' else if c = CHR ''/'' then CHR ''_'' else c) (b64Encode s)"

definition newSessionToken :: "(string \<Rightarrow> string) \<Rightarrow> string res \<Rightarrow> (string \<times> string) res" where
  "newSessionToken sha256 raw =
     bind_res raw (\<lambda>bytes. let token = b64URLEncode bytes in Inr (token, sha256 token))"

section \<open>Registration\<close>

text \<open>
  The loop that allocates an identifier: at most 32 attempts, each with a fresh identifier; a
  collision of identifiers is retried, any other error of the insertion ends the request. The
  list holds what \<open>newUserID\<close> gives for the attempts; it is as long as needed.
\<close>

fun allocateUser :: "authWorld \<Rightarrow> userRow \<Rightarrow> nat \<Rightarrow> string res list \<Rightarrow> userDB \<Rightarrow> userDB res" where
  "allocateUser w row attempts [] db = Inl (ErrText ''could not allocate a unique user id'')"
| "allocateUser w row attempts (g # gs) db =
     (if attempts = 0 then Inl (ErrText ''could not allocate a unique user id'')
      else bind_res g (\<lambda>userID.
        case authFault w RegisterInsert (insertUser (row\<lparr>usr_id := userID\<rparr>) db) of
          Inr db1 \<Rightarrow> Inr db1
        | Inl e \<Rightarrow>
            if aw_faults w RegisterIDCount \<noteq> None \<or> userByID userID db = None then Inl e
            else allocateUser w row (attempts - 1) gs db))"

text \<open>The role a request may create: the role, or the rejection, with the database afterwards.\<close>

definition registerRole ::
    "authWorld \<Rightarrow> config \<Rightarrow> appConfig \<Rightarrow> string \<Rightarrow> string \<Rightarrow> string option \<Rightarrow> int \<Rightarrow> authRequest \<Rightarrow> userDB \<Rightarrow>
     (response + string) \<times> userDB" where
  "registerRole w cfg appCfg origin host cookie now req db =
     (if db_users db = [] then
        (if WebFirstRunCompleted appCfg \<noteq> 0
           then Inl (writeError StatusConflict (ErrText ''first-run registration is not available''))
         else if \<not> validAdminRegisterToken (aw_sha256 w) (req_Token req) (AdminRegisterToken cfg)
           then Inl (writeError StatusForbidden (ErrText ''invalid administrator registration token''))
         else Inr ''admin'', db)
      else if \<not> sameOriginRequest (aw_parseURL w) origin host
        then (Inl (writeError StatusForbidden (ErrText ''cross-origin request rejected'')), db)
      else case authenticateRequest (aw_sha256 w) (aw_faults w) cookie now db of
        (Inl e, db1) \<Rightarrow>
          (Inl (writeError StatusForbidden (ErrText ''administrator access required'')), db1)
      | (Inr who, db1) \<Rightarrow>
          if Role who \<noteq> ''admin''
          then (Inl (writeError StatusForbidden (ErrText ''administrator access required'')), db1)
          else
            let asked = TrimSpace (req_Role req); role = (if asked = [] then ''user'' else asked) in
            if role \<noteq> ''user'' \<and> role \<noteq> ''admin''
            then (Inl (writeError StatusBadRequest (ErrText ''role must be user or admin'')), db1)
            else (Inr role, db1))"

text \<open>The stored hash for the request's password; only the first administrator needs one.\<close>

definition registerPassword :: "authWorld \<Rightarrow> authRequest \<Rightarrow> userDB \<Rightarrow> reply + string option" where
  "registerPassword w req db =
     (if req_Password req \<noteq> []
      then (case server_hashPassword (aw_IDKey w) (aw_slots w) (aw_salt w) (req_Password req) of
              Inl ErrArgon2Busy \<Rightarrow> Inl writeArgon2Busy
            | Inl e \<Rightarrow> Inl (plain (writeError StatusBadRequest e))
            | Inr hash \<Rightarrow> Inr (Some hash))
      else if db_users db = []
      then Inl (plain (writeError StatusBadRequest (ErrText ''password is required for the first administrator'')))
      else Inr None)"

definition createUser ::
    "authWorld \<Rightarrow> string \<Rightarrow> string \<Rightarrow> string \<Rightarrow> string option \<Rightarrow> string res list \<Rightarrow> int \<Rightarrow> userDB \<Rightarrow>
     (response + userDB)" where
  "createUser w username role account encoded candidates now db =
     (case aw_faults w RegisterUsername of
        Some e \<Rightarrow> Inl (writeError StatusInternalServerError e)
      | None \<Rightarrow>
          if userByName username db \<noteq> None
          then Inl (writeError StatusConflict (ErrText ''username already exists''))
          else
            (case allocateUser w
                    \<lparr> usr_id = [], usr_username = username, usr_password = encoded, usr_role = role,
                      usr_timedock = account, usr_status = ''active'', usr_created = now,
                      usr_updated = now \<rparr> 32 candidates db of
               Inl e \<Rightarrow> Inl (writeError StatusInternalServerError e)
             | Inr db1 \<Rightarrow>
                 (case aw_faults w RegisterCommit of
                    Some e \<Rightarrow> Inl (writeError StatusInternalServerError e)
                  | None \<Rightarrow> Inr db1)))"

definition handleAuthRegister ::
    "authWorld \<Rightarrow> config \<Rightarrow> appConfig \<Rightarrow> httpMethod \<Rightarrow> string \<Rightarrow> string \<Rightarrow> string option \<Rightarrow> authRequest res \<Rightarrow>
     string res list \<Rightarrow> int \<Rightarrow> userDB \<Rightarrow> reply \<times> userDB" where
  "handleAuthRegister w cfg appCfg method origin host cookie body candidates now db =
     (if method \<noteq> MethodPost then (plain methodNotAllowed, db)
      else case body of
        Inl e \<Rightarrow> (plain (writeError StatusBadRequest e), db)
      | Inr req \<Rightarrow>
          let username = TrimSpace (req_Username req) in
          if \<not> usernamePattern username
          then (plain (writeError StatusBadRequest
                 (ErrText ''username must use 1-64 letters, numbers, dot, underscore, or hyphen'')), db)
          else case normalizeTimeDockAccount (aw_isHan w) (req_TimeDockAccount req) of
            Inl e \<Rightarrow> (plain (writeError StatusBadRequest e), db)
          | Inr account \<Rightarrow>
          (case (case aw_faults w RegisterBegin of Some e \<Rightarrow> Some e | None \<Rightarrow> aw_faults w RegisterCount) of
             Some e \<Rightarrow> (plain (writeError StatusInternalServerError e), db)
           | None \<Rightarrow>
          (case registerRole w cfg appCfg origin host cookie now req db of
             (Inl r, db1) \<Rightarrow> (plain r, db1)
           | (Inr role, db1) \<Rightarrow>
               (case registerPassword w req db of
                  Inl rp \<Rightarrow> (rp, db1)
                | Inr encoded \<Rightarrow>
                    (case createUser w username role account encoded candidates now db1 of
                       Inl r \<Rightarrow> (plain r, db1)
                     | Inr db2 \<Rightarrow>
                         (plain (writeJSON StatusCreated
                            (JObject [(''status'', JString ''success''), (''username'', JString username),
                              (''role'', JString role), (''timedock_account'', JString account),
                              (''password_set'', JBool (encoded \<noteq> None))])), db2))))))"

section \<open>Login and logout\<close>

record authState =
  as_db :: userDB
  as_limiter :: loginLimiter

text \<open>
  The password check of a login: \<open>Inl\<close> is the busy reply, otherwise whether the credentials are
  valid. Unknown users and users without a password are checked against a dummy hash.
\<close>

definition loginValid :: "authWorld \<Rightarrow> authRequest \<Rightarrow> userDB \<Rightarrow> (reply + userRow option)" where
  "loginValid w req db =
     (let row = (case aw_faults w LoginQuery of Some _ \<Rightarrow> None | None \<Rightarrow> userByName (TrimSpace (req_Username req)) db);
          check = (\<lambda>slots hash. server_verifyPassword (aw_IDKey w) slots (req_Password req) hash);
          dummy = (case check (aw_slots2 w) (aw_dummyHash w) of Inl _ \<Rightarrow> Inl writeArgon2Busy | Inr _ \<Rightarrow> Inr None)
      in case row of
           None \<Rightarrow> dummy
         | Some u \<Rightarrow>
             (case usr_password u of
                None \<Rightarrow> dummy
              | Some hash \<Rightarrow>
                  if usr_status u = ''active''
                  then (case check (aw_slots w) hash of
                          Inl _ \<Rightarrow> Inl writeArgon2Busy
                        | Inr valid \<Rightarrow> Inr (if valid then Some u else None))
                  else Inr None))"

definition openSession :: "authWorld \<Rightarrow> userRow \<Rightarrow> int \<Rightarrow> userDB \<Rightarrow> reply \<times> userDB" where
  "openSession w u now db =
     (case newSessionToken (aw_sha256 w) (aw_rawToken w) of
        Inl e \<Rightarrow> (plain (writeError StatusInternalServerError e), db)
      | Inr (token, tokenHash) \<Rightarrow>
          (case authFault w LoginInsert (insertSession tokenHash (usr_id u) now db) of
             Inl e \<Rightarrow> (plain (writeError StatusInternalServerError e), db)
           | Inr db1 \<Rightarrow>
               (\<lparr> rp_response = writeJSON StatusOK
                    (JObject [(''status'', JString ''success''), (''username'', JString (usr_username u)),
                      (''role'', JString (usr_role u))]),
                  rp_cookie = SetSession token (now + sessionAbsoluteTTL), rp_retryAfter = None \<rparr>, db1)))"

text \<open>\<open>nowNs\<close> is \<^verbatim>\<open>time.Now()\<close> for the limiter, \<open>sessionNow\<close> the Unix time of the new session.\<close>

definition handleAuthLogin ::
    "authWorld \<Rightarrow> appConfig \<Rightarrow> httpMethod \<Rightarrow> string \<Rightarrow> string \<Rightarrow> authRequest res \<Rightarrow> gotime \<Rightarrow> int \<Rightarrow>
     authState \<Rightarrow> reply \<times> authState" where
  "handleAuthLogin w appCfg method remoteAddr forwarded body nowNs sessionNow st =
     (if method \<noteq> MethodPost then (plain methodNotAllowed, st)
      else
        let clientIP = requestClientIP remoteAddr forwarded (ServerTrustedReverseProxy appCfg) in
        case allow clientIP nowNs appCfg (as_limiter st) of
          ((allowed, retryAfter), limiter) \<Rightarrow>
            let st1 = st\<lparr>as_limiter := limiter\<rparr> in
            if \<not> allowed
            then (\<lparr> rp_response = writeError StatusTooManyRequests
                       (ErrText ''too many login attempts; try again later''),
                    rp_cookie = KeepCookie,
                    rp_retryAfter = Some (Itoa (retryAfterSeconds retryAfter)) \<rparr>, st1)
            else case body of
              Inl e \<Rightarrow> (plain (writeError StatusBadRequest e), st1)
            | Inr req \<Rightarrow>
                (case loginValid w req (as_db st1) of
                   Inl rp \<Rightarrow> (rp, st1)
                 | Inr None \<Rightarrow>
                     (plain (writeError StatusUnauthorized (ErrText ''invalid username or password'')), st1)
                 | Inr (Some u) \<Rightarrow>
                     (case openSession w u sessionNow (as_db st1) of
                        (rp, db1) \<Rightarrow> (rp, st1\<lparr>as_db := db1\<rparr>))))"

definition handleAuthLogout ::
    "authWorld \<Rightarrow> httpMethod \<Rightarrow> string option \<Rightarrow> int \<Rightarrow> userDB \<Rightarrow> reply \<times> userDB" where
  "handleAuthLogout w method cookie now db =
     (if method \<noteq> MethodPost then (plain methodNotAllowed, db)
      else
        (\<lparr> rp_response = writeJSON StatusOK (JObject [(''status'', JString ''success'')]),
           rp_cookie = ClearSession, rp_retryAfter = None \<rparr>,
         case cookie of
           None \<Rightarrow> db
         | Some token \<Rightarrow>
             if aw_faults w LogoutUpdate \<noteq> None then db
             else updateSessions (\<lambda>x. ses_hash x = aw_sha256 w token) (\<lambda>x. x\<lparr>ses_revoked := Some now\<rparr>) db))"

definition handleAuthMe :: "httpMethod \<Rightarrow> actor option \<Rightarrow> response" where
  "handleAuthMe method ctx =
     (if method \<noteq> MethodGet then methodNotAllowed
      else let who = actorOrZero ctx in
        writeJSON StatusOK (JObject [(''username'', JString (Username who)), (''role'', JString (Role who)),
          (''timedock_account'', JString (TimeDockAccount who))]))"

section \<open>Changing the own password\<close>

record passwordRequest =
  req_CurrentPassword :: string
  req_NewPassword :: string

text \<open>Both updates and the commit: the transaction happens as a whole or not at all.\<close>

definition changePassword :: "authWorld \<Rightarrow> string \<Rightarrow> string \<Rightarrow> int \<Rightarrow> userDB \<Rightarrow> userDB res" where
  "changePassword w userID hash now db =
     authFault w PasswordBegin (authFault w PasswordUpdate (authFault w PasswordRevoke (authFault w PasswordCommit
       (Inr (updateSessions (\<lambda>x. ses_user x = userID) (\<lambda>x. x\<lparr>ses_revoked := Some now\<rparr>)
              (updateUser userID (\<lambda>u. u\<lparr>usr_password := Some hash, usr_updated := now\<rparr>) db))))))"

definition handleAuthPassword ::
    "authWorld \<Rightarrow> httpMethod \<Rightarrow> actor option \<Rightarrow> passwordRequest res \<Rightarrow> int \<Rightarrow> userDB \<Rightarrow> reply \<times> userDB" where
  "handleAuthPassword w method ctx body now db =
     (if method \<noteq> MethodPut then (plain methodNotAllowed, db)
      else case body of
        Inl e \<Rightarrow> (plain (writeError StatusBadRequest e), db)
      | Inr req \<Rightarrow>
          let who = actorOrZero ctx;
              wrong = (plain (writeError StatusUnauthorized (ErrText ''current password is incorrect'')), db) in
          (case (if aw_faults w PasswordQuery \<noteq> None then None
                 else Option.bind (userByID (ID who) db) usr_password) of
             None \<Rightarrow> wrong
           | Some current \<Rightarrow>
               (case server_verifyPassword (aw_IDKey w) (aw_slots w) (req_CurrentPassword req) current of
                  Inl _ \<Rightarrow> (writeArgon2Busy, db)
                | Inr False \<Rightarrow> wrong
                | Inr True \<Rightarrow>
                    (case server_hashPassword (aw_IDKey w) (aw_slots2 w) (aw_salt w) (req_NewPassword req) of
                       Inl ErrArgon2Busy \<Rightarrow> (writeArgon2Busy, db)
                     | Inl e \<Rightarrow> (plain (writeError StatusBadRequest e), db)
                     | Inr hash \<Rightarrow>
                         (case changePassword w (ID who) hash now db of
                            Inl e \<Rightarrow> (plain (writeError StatusInternalServerError e), db)
                          | Inr db1 \<Rightarrow>
                              (\<lparr> rp_response = writeJSON StatusOK (JObject [(''status'', JString ''success'')]),
                                 rp_cookie = ClearSession, rp_retryAfter = None \<rparr>, db1))))))"

end
