(* ===== verification/Whitelist.thy ===== *)
theory Whitelist
  imports Cron_Handlers Scan_Handlers
begin

text \<open>
  The allow list (\<^verbatim>\<open>server/whitelist.go\<close>): a text file that all users share, one path and its owner
  per line. The file is the content or the error reading it gives; replacing it is one step that
  may fail. The script that rebuilds the allow list and the reload of the scanner are external:
  \<open>ww_exclude\<close> and \<open>ww_reload\<close> give what they do, depending on the file.
\<close>

section \<open>Lines and entries\<close>

definition parseWhitelistOwnedLine :: "string \<Rightarrow> (string \<times> string) option" where
  "parseWhitelistOwnedLine line0 =
     (let line = TrimSpace line0 in
      if line = [] \<or> HasPrefix line ''#'' then None
      else if HasPrefix line [DQ] then
        (let rest = TrimPrefix line [DQ] in
         case IndexByte rest DQ of
           None \<Rightarrow> None
         | Some end' \<Rightarrow>
             (case Fields (TrimSpace (drop (Suc end') rest)) of
                [owner] \<Rightarrow> if validUserID owner \<and> take end' rest \<noteq> [] then Some (take end' rest, owner) else None
              | _ \<Rightarrow> None))
      else
        (case Fields line of
           [path, owner] \<Rightarrow> if validUserID owner then Some (path, owner) else None
         | _ \<Rightarrow> None))"

definition whitelistConfigLine :: "string \<Rightarrow> string \<Rightarrow> string" where
  "whitelistConfigLine target userID =
     (if ContainsAny target [SP, TAB] then [DQ] @ target @ [DQ, SP] @ userID else target @ [SP] @ userID)"

definition readWhitelistLines :: "string res \<Rightarrow> string list res" where
  "readWhitelistLines cf =
     (case cf of
        Inl e \<Rightarrow> if is_not_exist e then Inr [] else Inl e
      | Inr data \<Rightarrow> Inr (textLines data))"

record whitelistEntry =
  wl_Path :: string
  wl_Line :: nat

definition readWhitelistEntries :: "string res \<Rightarrow> string \<Rightarrow> whitelistEntry list res" where
  "readWhitelistEntries cf userID =
     (case cf of
        Inl e \<Rightarrow> if is_not_exist e then Inr [] else Inl e
      | Inr data \<Rightarrow>
          (let lines = Split (ReplaceCRLF data) LF in
           Inr (List.map_filter
             (\<lambda>(i, line). case parseWhitelistOwnedLine line of
                None \<Rightarrow> None
              | Some (target, owner) \<Rightarrow>
                  if userID \<noteq> [] \<and> owner \<noteq> userID then None
                  else Some \<lparr> wl_Path = target, wl_Line = Suc i \<rparr>)
             (enumerate 0 lines))))"

definition prepareWhitelistPath :: "osview \<Rightarrow> config \<Rightarrow> string \<Rightarrow> actor \<Rightarrow> string res" where
  "prepareWhitelistPath os cfg input who =
     (let target0 = TrimSpace input in
      if target0 = [] then Inl (ErrText ''path is required'')
      else bind_res (safePathForActor os cfg target0 who) (\<lambda>target.
        bind_res (os_Stat os target) (\<lambda>_.
          if Contains target [DQ] then Inl (ErrText ''path must not contain double quote'')
          else Inr target)))"

section \<open>Changing the file\<close>

record whitelistWorld =
  ww_writeErr :: "goerror option"
  ww_exclude :: "string res \<Rightarrow> scriptRun"
  ww_reload :: "string res \<Rightarrow> scriptRun"

definition writeWhitelistLines :: "whitelistWorld \<Rightarrow> string list \<Rightarrow> string res \<Rightarrow> goerror option \<times> string res" where
  "writeWhitelistLines w lines cf =
     (case ww_writeErr w of Some e \<Rightarrow> (Some e, cf) | None \<Rightarrow> (None, Inr (renderLines lines)))"

definition addWhitelistEntry ::
    "whitelistWorld \<Rightarrow> string \<Rightarrow> string \<Rightarrow> string res \<Rightarrow> goerror option \<times> string res" where
  "addWhitelistEntry w target userID cf =
     (case readWhitelistLines cf of
        Inl e \<Rightarrow> (Some e, cf)
      | Inr lines \<Rightarrow>
          if list_ex (\<lambda>line. parseWhitelistOwnedLine line = Some (target, userID)) lines then (None, cf)
          else writeWhitelistLines w (lines @ [whitelistConfigLine target userID]) cf)"

definition deleteWhitelistEntry ::
    "whitelistWorld \<Rightarrow> string \<Rightarrow> string \<Rightarrow> string res \<Rightarrow> goerror option \<times> string res" where
  "deleteWhitelistEntry w target userID cf =
     (case readWhitelistLines cf of
        Inl e \<Rightarrow> (Some e, cf)
      | Inr lines \<Rightarrow>
          (let kept = filter (\<lambda>line. parseWhitelistOwnedLine line \<noteq> Some (target, userID)) lines in
           if kept = lines then (Some (ErrText (''whitelist entry not found: '' @ target)), cf)
           else writeWhitelistLines w kept cf))"

text \<open>
  \<^verbatim>\<open>runExcludeScript\<close> and \<^verbatim>\<open>reloadClamdDatabase\<close>: the message and the error; \<open>late\<close> is the text for a
  time-out and \<open>silent\<close> the message of a command that prints nothing.
\<close>

definition runReported :: "string \<Rightarrow> string \<Rightarrow> scriptRun \<Rightarrow> string \<times> goerror option" where
  "runReported late silent r =
     (let message = TrimSpace (run_output r) in
      if run_timeout r then (message, Some (ErrText late))
      else case run_err r of
        Some e \<Rightarrow> (let m = (if message = [] then errText e else message) in (m, Some (ErrText m)))
      | None \<Rightarrow> (if message = [] then silent else message, None))"

definition runExcludeScript :: "whitelistWorld \<Rightarrow> string res \<Rightarrow> string \<times> goerror option" where
  "runExcludeScript w cf = runReported ''exclude command timed out'' ''Exclude allow-list refreshed.'' (ww_exclude w cf)"

definition reloadClamdDatabase :: "whitelistWorld \<Rightarrow> string res \<Rightarrow> string \<times> goerror option" where
  "reloadClamdDatabase w cf = runReported ''clamd reload timed out'' ''ClamAV database reloaded.'' (ww_reload w cf)"

definition removeWhitelistForUser ::
    "whitelistWorld \<Rightarrow> string \<Rightarrow> string res \<Rightarrow> goerror option \<times> string res" where
  "removeWhitelistForUser w userID cf =
     (case readWhitelistLines cf of
        Inl e \<Rightarrow> (Some e, cf)
      | Inr lines \<Rightarrow>
          (let owned = (\<lambda>line. case parseWhitelistOwnedLine line of None \<Rightarrow> False | Some (_, owner) \<Rightarrow> owner = userID) in
           if \<not> list_ex owned lines then (None, cf)
           else case writeWhitelistLines w (filter (\<lambda>line. \<not> owned line) lines) cf of
             (Some e, cf1) \<Rightarrow> (Some e, cf1)
           | (None, cf1) \<Rightarrow>
               (case runExcludeScript w cf1 of
                  (_, Some e) \<Rightarrow> (Some e, cf1)
                | (_, None) \<Rightarrow> (snd (reloadClamdDatabase w cf1), cf1))))"

section \<open>The handlers\<close>

definition whitelistEntryJSON :: "whitelistEntry \<Rightarrow> json" where
  "whitelistEntryJSON e = JObject [(''path'', JString (wl_Path e)), (''line'', JNumber (int (wl_Line e)))]"

text \<open>The fields marked \<^verbatim>\<open>omitempty\<close> are left out when empty.\<close>

definition whitelistResponse :: "string \<Rightarrow> whitelistEntry list \<Rightarrow> string \<Rightarrow> string \<Rightarrow> json" where
  "whitelistResponse status entries message err =
     JObject (filter (\<lambda>(k, v). v \<noteq> JString [] \<and> v \<noteq> JArray [])
       [(''status'', JString status), (''entries'', JArray (map whitelistEntryJSON entries)),
        (''message'', JString message), (''error'', JString err)])"

definition writeWhitelistStatus :: "nat \<Rightarrow> string \<Rightarrow> string \<Rightarrow> goerror option \<Rightarrow> response" where
  "writeWhitelistStatus code status message err =
     writeJSON code (whitelistResponse status [] message (errString err))"

text \<open>After the change: rebuild, reload, and list the caller's entries.\<close>

definition publishWhitelist :: "whitelistWorld \<Rightarrow> string \<Rightarrow> string res \<Rightarrow> response" where
  "publishWhitelist w userID cf =
     (case runExcludeScript w cf of
        (message, Some e) \<Rightarrow> writeWhitelistStatus StatusInternalServerError ''failed'' message (Some e)
      | (message, None) \<Rightarrow>
          (case reloadClamdDatabase w cf of
             (reloadMessage, Some e) \<Rightarrow>
               writeWhitelistStatus StatusInternalServerError ''failed'' reloadMessage (Some e)
           | (reloadMessage, None) \<Rightarrow>
               let m = (if reloadMessage \<noteq> [] then TrimSpace (message @ [LF] @ reloadMessage) else message) in
               (case readWhitelistEntries cf userID of
                  Inl e \<Rightarrow> writeWhitelistStatus StatusInternalServerError ''failed'' m (Some e)
                | Inr entries \<Rightarrow> writeJSON StatusOK (whitelistResponse ''success'' entries m []))))"

definition updateWhitelist ::
    "osview \<Rightarrow> config \<Rightarrow> whitelistWorld \<Rightarrow> actor option \<Rightarrow> string res \<Rightarrow> bool \<Rightarrow> string res \<Rightarrow>
     response \<times> string res" where
  "updateWhitelist os cfg w ctx body add cf =
     (let who = actorOrZero ctx in
      case directoryLockExists os (SleepLockDir cfg) of
        Inl e \<Rightarrow> (writeWhitelistStatus StatusInternalServerError ''failed'' []
                    (Some (wrapErr ''check ClamAV sleep lock'' e)), cf)
      | Inr True \<Rightarrow>
          (writeJSON StatusConflict (JObject [(''status'', JString ''failed''), (''message'', JNull),
             (''error'', JString ''ClamAV is sleeping'')]), cf)
      | Inr False \<Rightarrow>
     (case body of
        Inl e \<Rightarrow> (writeWhitelistStatus StatusBadRequest ''failed'' [] (Some e), cf)
      | Inr input \<Rightarrow>
     (case prepareWhitelistPath os cfg input who of
        Inl e \<Rightarrow> (writeWhitelistStatus StatusBadRequest ''failed'' [] (Some e), cf)
      | Inr target \<Rightarrow>
     (case scanLockActive os cfg of
        Inl e \<Rightarrow> (writeWhitelistStatus StatusInternalServerError ''failed'' [] (Some e), cf)
      | Inr True \<Rightarrow> (writeWhitelistStatus StatusConflict ''busy'' ''clamav is running'' None, cf)
      | Inr False \<Rightarrow>
     (case (if add then addWhitelistEntry w target (ID who) cf else deleteWhitelistEntry w target (ID who) cf) of
        (Some e, cf1) \<Rightarrow> (writeWhitelistStatus StatusBadRequest ''failed'' [] (Some e), cf1)
      | (None, cf1) \<Rightarrow> (publishWhitelist w (ID who) cf1, cf1))))))"

definition handleWhitelist ::
    "httpMethod \<Rightarrow> osview \<Rightarrow> config \<Rightarrow> whitelistWorld \<Rightarrow> actor option \<Rightarrow> string res \<Rightarrow> string res \<Rightarrow>
     response \<times> string res" where
  "handleWhitelist method os cfg w ctx body cf =
     (case method of
        MethodGet \<Rightarrow>
          (case readWhitelistEntries cf (ID (actorOrZero ctx)) of
             Inl e \<Rightarrow> (writeError StatusInternalServerError e, cf)
           | Inr entries \<Rightarrow> (writeJSON StatusOK (whitelistResponse ''success'' entries [] []), cf))
      | MethodPost \<Rightarrow> updateWhitelist os cfg w ctx body True cf
      | MethodDelete \<Rightarrow> updateWhitelist os cfg w ctx body False cf
      | _ \<Rightarrow> (methodNotAllowed, cf))"

section \<open>What is written is read back\<close>

text \<open>
  A target that the line format can hold: it has no line end and no double quote, it starts with
  a slash, and it holds a blank or a tab (then it is quoted) or no white space at all.
\<close>

definition storable :: "string \<Rightarrow> bool" where
  "storable t \<longleftrightarrow> lineSafeTarget t \<and> DQ \<notin> set t \<and> HasPrefix t ''/''"

lemma storable_Cons: "storable t \<Longrightarrow> \<exists>r. t = CHR ''/'' # r"
  by (cases t) (auto simp: storable_def HasPrefix_def)

lemma validUserID_tail:
  assumes "validUserID u"
  shows "u \<noteq> []" "ascii (last u)" "\<not> asciiSpace (last u)" "word u"
proof -
  show w: "word u" using assms by (rule validUserID_word)
  then show ne: "u \<noteq> []" by (simp add: word_def)
  have "isLower (last u) \<or> isDigit (last u)"
    using assms ne by (auto simp: validUserID_def list_all_iff)
  then show "ascii (last u)" "\<not> asciiSpace (last u)"
    by (auto simp: ascii_def asciiSpace_def isLower_def isDigit_def)
qed

lemma parse_whitelistConfigLine:
  assumes t: "storable t" and u: "validUserID u"
  shows "parseWhitelistOwnedLine (whitelistConfigLine t u) = Some (t, u)"
proof -
  note tail = validUserID_tail [OF u]
  show ?thesis
  proof (cases "ContainsAny t [SP, TAB]")
    case True
    then have line: "whitelistConfigLine t u = DQ # t @ DQ # SP # u" by (simp add: whitelistConfigLine_def)
    have trim: "TrimSpace (DQ # t @ DQ # SP # u) = DQ # t @ DQ # SP # u"
      by (rule TrimSpace_text) (use tail in \<open>auto simp: spaceLen_DQ\<close>)
    have own: "TrimSpace u = u"
      using tail word_spaceLen [of u "[]"] by (intro TrimSpace_text) auto
    have "IndexByte (t @ DQ # SP # u) DQ = Some (length t)"
      using t by (intro IndexByte_append) (simp add: storable_def)
    then show ?thesis
      using tail u t storable_Cons [OF t]
      by (auto simp: parseWhitelistOwnedLine_def line trim own HasPrefix_def TrimPrefix_def Let_def)
  next
    case False
    then have line: "whitelistConfigLine t u = t @ SP # u" by (simp add: whitelistConfigLine_def)
    have w: "word t" using t False by (simp add: storable_def lineSafeTarget_def)
    have "TrimSpace (t @ SP # u) = t @ SP # u"
      using tail word_spaceLen [OF w, of "SP # u"] by (intro TrimSpace_text) auto
    then show ?thesis
      using tail u w storable_Cons [OF t] by (auto simp: parseWhitelistOwnedLine_def line HasPrefix_def Let_def)
  qed
qed

lemma whitelistConfigLine_clean: "storable t \<Longrightarrow> validUserID u \<Longrightarrow> cleanLine (whitelistConfigLine t u)"
  using word_clean [OF validUserID_word, of u]
  by (auto simp: storable_def lineSafeTarget_def cleanLine_def whitelistConfigLine_def)

section \<open>One list per user\<close>

definition ownTarget :: "string \<Rightarrow> string \<Rightarrow> string option" where
  "ownTarget u line =
     (case parseWhitelistOwnedLine line of None \<Rightarrow> None | Some (t, v) \<Rightarrow> if v = u then Some t else None)"

definition ownedTargets :: "string list \<Rightarrow> string \<Rightarrow> string list" where
  "ownedTargets lines u = List.map_filter (ownTarget u) lines"

definition whitelistFor :: "string res \<Rightarrow> string \<Rightarrow> string list" where
  "whitelistFor cf u = (case readWhitelistLines cf of Inl _ \<Rightarrow> [] | Inr lines \<Rightarrow> ownedTargets lines u)"

definition goodList :: "string res \<Rightarrow> bool" where
  "goodList cf = (case readWhitelistLines cf of Inl _ \<Rightarrow> False | Inr lines \<Rightarrow> list_all cleanLine lines)"

lemma ownedTargets_simps [simp]:
  "ownedTargets [] u = []"
  "ownedTargets (l # ls) u = (case ownTarget u l of None \<Rightarrow> ownedTargets ls u | Some t \<Rightarrow> t # ownedTargets ls u)"
  "ownedTargets (ls @ ls') u = ownedTargets ls u @ ownedTargets ls' u"
  by (simp_all add: ownedTargets_def map_filter_simps map_filter_def split: option.splits)

lemma ownTarget_Some: "ownTarget u l = Some t \<longleftrightarrow> parseWhitelistOwnedLine l = Some (t, u)"
  by (auto simp: ownTarget_def split: option.splits)

lemma ownedTargets_mem: "t \<in> set (ownedTargets ls u) \<longleftrightarrow> (\<exists>l \<in> set ls. parseWhitelistOwnedLine l = Some (t, u))"
  by (induction ls) (auto simp: ownTarget_def split: option.splits)

lemma ownedTargets_filter_other:
  assumes "\<And>l. l \<in> set ls \<Longrightarrow> \<not> P l \<Longrightarrow> ownTarget u l = None"
  shows "ownedTargets (filter P ls) u = ownedTargets ls u"
  using assms by (induction ls) (auto split: option.splits)

lemma ownedTargets_filter_entry:
  "ownedTargets (filter (\<lambda>l. parseWhitelistOwnedLine l \<noteq> Some (t, u)) ls) v =
     (if v = u then filter (\<lambda>x. x \<noteq> t) (ownedTargets ls u) else ownedTargets ls v)"
  by (induction ls) (auto simp: ownTarget_def split: option.splits)

lemma parse_empty_line [simp]: "parseWhitelistOwnedLine [] = None"
  by code_simp

text \<open>A file that was written reads back with the same entries, though a lone empty line is lost.\<close>

lemma render_keeps_entries:
  assumes "list_all cleanLine lines"
  shows "goodList (Inr (renderLines lines)) \<and> whitelistFor (Inr (renderLines lines)) u = ownedTargets lines u"
proof (cases "Join lines [LF] = []")
  case True
  then have "lines = [] \<or> lines = [[]]" by (rule Join_eq_Nil_cases)
  moreover have "textLines (renderLines lines) = []"
    using True by (simp add: renderLines_def textLines_def Let_def)
  ultimately show ?thesis by (auto simp: goodList_def whitelistFor_def readWhitelistLines_def ownTarget_def)
next
  case False
  then show ?thesis
    using assms by (simp add: goodList_def whitelistFor_def readWhitelistLines_def textLines_render)
qed

lemma goodListE:
  assumes "goodList cf"
  obtains lines where "readWhitelistLines cf = Inr lines" "list_all cleanLine lines"
    "\<And>u. whitelistFor cf u = ownedTargets lines u"
  using assms by (auto simp: goodList_def whitelistFor_def split: sum.splits)

lemma written:
  assumes "list_all cleanLine lines" and "goodList cf" and "writeWhitelistLines w lines cf = (err, cf')"
  shows "goodList cf' \<and> (err \<noteq> None \<longrightarrow> cf' = cf) \<and>
         (err = None \<longrightarrow> (\<forall>u. whitelistFor cf' u = ownedTargets lines u))"
  using assms render_keeps_entries [OF assms(1)]
  by (auto simp: writeWhitelistLines_def split: option.splits)

lemma add_entry:
  assumes good: "goodList cf" and t: "storable t" and u: "validUserID u"
    and add: "addWhitelistEntry w t u cf = (err, cf')"
  shows "goodList cf' \<and> (v \<noteq> u \<longrightarrow> whitelistFor cf' v = whitelistFor cf v) \<and> (err \<noteq> None \<longrightarrow> cf' = cf) \<and>
         (err = None \<longrightarrow> whitelistFor cf' u =
            (if t \<in> set (whitelistFor cf u) then whitelistFor cf u else whitelistFor cf u @ [t]))"
proof -
  obtain lines where l: "readWhitelistLines cf = Inr lines" "list_all cleanLine lines"
    "\<And>u. whitelistFor cf u = ownedTargets lines u" using goodListE [OF good] by blast
  have mem: "list_ex (\<lambda>line. parseWhitelistOwnedLine line = Some (t, u)) lines \<longleftrightarrow> t \<in> set (whitelistFor cf u)"
    by (auto simp: l(3) ownedTargets_mem list_ex_iff)
  show ?thesis
  proof (cases "t \<in> set (whitelistFor cf u)")
    case True
    then have "err = None" "cf' = cf" using add l(1) mem by (auto simp: addWhitelistEntry_def)
    with True good show ?thesis by simp
  next
    case False
    then have "writeWhitelistLines w (lines @ [whitelistConfigLine t u]) cf = (err, cf')"
      using add l(1) mem by (simp add: addWhitelistEntry_def)
    from written [OF _ good this] have
      "goodList cf'" "err \<noteq> None \<longrightarrow> cf' = cf"
      "err = None \<longrightarrow> (\<forall>v. whitelistFor cf' v = ownedTargets (lines @ [whitelistConfigLine t u]) v)"
      using l(2) whitelistConfigLine_clean [OF t u] by auto
    with False show ?thesis
      by (cases err) (auto simp: l(3) ownTarget_def parse_whitelistConfigLine [OF t u])
  qed
qed

lemma delete_entry:
  assumes good: "goodList cf" and del: "deleteWhitelistEntry w t u cf = (err, cf')"
  shows "goodList cf' \<and> (v \<noteq> u \<longrightarrow> whitelistFor cf' v = whitelistFor cf v) \<and> (err \<noteq> None \<longrightarrow> cf' = cf) \<and>
         (err = None \<longrightarrow> whitelistFor cf' u = filter (\<lambda>x. x \<noteq> t) (whitelistFor cf u))"
proof -
  obtain lines where l: "readWhitelistLines cf = Inr lines" "list_all cleanLine lines"
    "\<And>u. whitelistFor cf u = ownedTargets lines u" using goodListE [OF good] by blast
  let ?kept = "filter (\<lambda>line. parseWhitelistOwnedLine line \<noteq> Some (t, u)) lines"
  show ?thesis
  proof (cases "?kept = lines")
    case True
    then have "cf' = cf" "err \<noteq> None" using del l(1) by (auto simp: deleteWhitelistEntry_def Let_def)
    with good show ?thesis by auto
  next
    case False
    then have "writeWhitelistLines w ?kept cf = (err, cf')"
      using del l(1) by (simp add: deleteWhitelistEntry_def Let_def)
    from written [OF _ good this] show ?thesis
      using l(2) by (cases err) (auto simp: l(3) ownedTargets_filter_entry list_all_iff)
  qed
qed

datatype whitelistOp = AddEntry string | DeleteEntry string

fun whitelistPerform :: "whitelistWorld \<Rightarrow> string \<Rightarrow> whitelistOp \<Rightarrow> string res \<Rightarrow> string res" where
  "whitelistPerform w u (AddEntry t) cf = snd (addWhitelistEntry w t u cf)"
| "whitelistPerform w u (DeleteEntry t) cf = snd (deleteWhitelistEntry w t u cf)"

fun whitelistAdmissible :: "string \<Rightarrow> whitelistOp \<Rightarrow> string res \<Rightarrow> bool" where
  "whitelistAdmissible u (AddEntry t) cf = (validUserID u \<and> storable t)"
| "whitelistAdmissible u (DeleteEntry t) cf = True"

lemma whitelistPerform_laws:
  assumes "goodList cf" and "whitelistAdmissible u op cf"
  shows "goodList (whitelistPerform w u op cf) \<and>
         (v \<noteq> u \<longrightarrow> whitelistFor (whitelistPerform w u op cf) v = whitelistFor cf v)"
proof (cases op)
  case (AddEntry t)
  then show ?thesis
    using assms add_entry [OF assms(1) _ _ surjective_pairing [of "addWhitelistEntry w t u cf"]] by auto
next
  case (DeleteEntry t)
  then show ?thesis
    using delete_entry [OF assms(1) surjective_pairing [of "deleteWhitelistEntry w t u cf"]] by auto
qed

interpretation whitelistViews: user_views goodList whitelistAdmissible "whitelistPerform w" whitelistFor
  for w
  by unfold_locales (use whitelistPerform_laws in auto)

lemma publishWhitelist_status: "rsp_status (publishWhitelist w u cf) \<in> {StatusOK, StatusInternalServerError}"
  by (auto simp: publishWhitelist_def writeWhitelistStatus_def Let_def split: prod.splits option.splits sum.splits)

lemma writeWhitelistStatus_status [simp]: "rsp_status (writeWhitelistStatus st a b c) = st"
  by (simp add: writeWhitelistStatus_def)

text \<open>What the handler does: nothing, or one change of the caller's list.\<close>

lemma updateWhitelist_cases:
  assumes "updateWhitelist os cfg w ctx body add cf = (r, cf')"
  obtains (refused) "cf' = cf" "rsp_status r \<noteq> StatusOK"
  | (changed) input t err where "body = Inr input" "prepareWhitelistPath os cfg input (actorOrZero ctx) = Inr t"
      "(if add then addWhitelistEntry w t (ID (actorOrZero ctx)) cf
        else deleteWhitelistEntry w t (ID (actorOrZero ctx)) cf) = (err, cf')"
      "err \<noteq> None \<longrightarrow> rsp_status r = StatusBadRequest"
      "err = None \<longrightarrow> rsp_status r \<in> {StatusOK, StatusInternalServerError}"
  using assms publishWhitelist_status [of w "ID (actorOrZero ctx)"]
  by (auto simp: updateWhitelist_def Let_def split: sum.splits bool.splits prod.splits option.splits if_splits)

lemma prepareWhitelistPath_Inr:
  "prepareWhitelistPath os cfg input who = Inr t \<Longrightarrow>
     safePathForActor os cfg (TrimSpace input) who = Inr t \<and> t = Clean (TrimSpace input) \<and> \<not> Contains t [DQ]"
  by (auto simp: prepareWhitelistPath_def Let_def split: if_splits dest: guard.accept_clean)

section \<open>Properties\<close>


definition okWhitelist :: whitelistWorld where
  "okWhitelist = \<lparr> ww_writeErr = None,
     ww_exclude = (\<lambda>_. \<lparr> run_output = [], run_timeout = False, run_err = None \<rparr>),
     ww_reload = (\<lambda>_. \<lparr> run_output = [], run_timeout = False, run_err = None \<rparr>) \<rparr>"

definition sampleList :: "string res" where
  "sampleList = Inr (renderLines [whitelistConfigLine ''/scan/b'' ''bobbob02''])"


text \<open>
  removing the entries of a user removes exactly these: when it reports no error the user has no entry left,
  and in any case the file stays readable and every other user's list is unchanged.
\<close>

lemma removeWhitelistForUser_exact:
  assumes "goodList cf" and "removeWhitelistForUser w u cf = (err, cf')"
  shows "goodList cf' \<and> (\<forall>v. v \<noteq> u \<longrightarrow> whitelistFor cf' v = whitelistFor cf v) \<and>
         (err = None \<longrightarrow> whitelistFor cf' u = [])"
proof -
  obtain lines where l: "readWhitelistLines cf = Inr lines" "list_all cleanLine lines"
    "\<And>u. whitelistFor cf u = ownedTargets lines u" using goodListE [OF assms(1)] by blast
  let ?owned = "\<lambda>line. case parseWhitelistOwnedLine line of None \<Rightarrow> False | Some (_, owner) \<Rightarrow> owner = u"
  let ?kept = "filter (\<lambda>line. \<not> ?owned line) lines"
  have own: "ownTarget u line = None" if "\<not> ?owned line" for line
    using that by (auto simp: ownTarget_def split: option.splits)
  have none: "ownedTargets ?kept u = []" using own by (induction lines) auto
  have other: "ownedTargets ?kept v = ownedTargets lines v" if "v \<noteq> u" for v
    using that by (intro ownedTargets_filter_other) (auto simp: ownTarget_def split: option.splits)
  show ?thesis
  proof (cases "list_ex ?owned lines")
    case False
    then have "?kept = lines" by (auto simp: list_ex_iff filter_id_conv)
    then have "whitelistFor cf u = []" using none l(3) by simp
    moreover have "cf' = cf" using False assms(2) l(1) by (simp add: removeWhitelistForUser_def Let_def)
    ultimately show ?thesis using assms(1) by simp
  next
    case True
    obtain e1 where e1: "writeWhitelistLines w ?kept cf = (e1, cf')" "err = None \<longrightarrow> e1 = None"
      using True assms(2) l(1)
      by (auto simp: removeWhitelistForUser_def Let_def split: prod.splits option.splits)
    have "list_all cleanLine ?kept" using l(2) by (auto simp: list_all_iff)
    from written [OF this assms(1) e1(1)] show ?thesis
      using e1(2) none other l(3) by (cases e1) auto
  qed
qed

definition forgingPath :: string where
  "forgingPath = ''/scan/usb1/acct/x'' @ [LF] @ ''/scan/usb2/other''"

text \<open>
  the line format does not hold every path that is accepted. A path with a no-break space is
  answered with success and yet the caller's list does not show it afterwards; and in TimeDock
  mode a path with a line feed, below the caller's own directory, puts an entry into the
  caller's list for a path that the boundary refuses to this caller.
\<close>

theorem whitelist_accepts_unstorable_paths:
  "(case updateWhitelist wakeView (sampleConfig False) okWhitelist (Some carol) (Inr nbspTarget) True noFile of
      (r, cf') \<Rightarrow> rsp_status r = StatusOK \<and> whitelistFor cf' (ID carol) = []) \<and>
   (case updateWhitelist wakeView (sampleConfig True) okWhitelist (Some carolTD) (Inr forgingPath) True noFile of
      (r, cf') \<Rightarrow> rsp_status r = StatusOK \<and> whitelistFor cf' (ID carolTD) = [''/scan/usb2/other'']) \<and>
   isl (safePathForActor wakeView (sampleConfig True) ''/scan/usb2/other'' carolTD)"
  by (intro conjI; code_simp)

end
