(* ===== verification/Quarantine.thy ===== *)
theory Quarantine
  imports Scan_Handlers Net_IP
begin

text \<open>
  The quarantine (\<^verbatim>\<open>server/quarantine.go\<close> and the quarantine part of \<^verbatim>\<open>server/cleanup.go\<close>): infected
  files moved aside by the scanner, each with a record \<^verbatim>\<open>name.rec\<close> that holds the file's old path
  in quotes and the owner. Files are a map from paths to nodes. The operating system may refuse
  every call: \<open>quarantineWorld\<close> gives the errors. The answers of \<^verbatim>\<open>stat\<close> and \<^verbatim>\<open>lstat\<close> are an
  \<open>osview\<close> of its own, since the code never relies on them for what it overwrites.
\<close>

section \<open>Files\<close>

record fileNode =
  node_content :: string
  node_regular :: bool
  node_perm :: nat

type_synonym files = "string \<rightharpoonup> fileNode"

record quarantineWorld =
  qw_readErr :: "string \<Rightarrow> goerror option"
  qw_removeErr :: "string \<Rightarrow> goerror option"
  qw_mkdirErr :: "goerror option"
  qw_openErr :: "goerror option"
  qw_fstatErr :: "goerror option"
  qw_createErr :: "goerror option"
  qw_copyErr :: "goerror option"
  qw_closeErr :: "goerror option"
  qw_chmodErr :: "goerror option"
  qw_partial :: string

definition osReadFile :: "quarantineWorld \<Rightarrow> string \<Rightarrow> files \<Rightarrow> string res" where
  "osReadFile w path fs =
     (case qw_readErr w path of
        Some e \<Rightarrow> Inl e
      | None \<Rightarrow> (case fs path of None \<Rightarrow> Inl (ErrNotExist path) | Some node \<Rightarrow> Inr (node_content node)))"

definition osRemove :: "quarantineWorld \<Rightarrow> string \<Rightarrow> files \<Rightarrow> goerror option \<times> files" where
  "osRemove w path fs =
     (case fs path of
        None \<Rightarrow> (Some (ErrNotExist path), fs)
      | Some _ \<Rightarrow> (case qw_removeErr w path of Some e \<Rightarrow> (Some e, fs) | None \<Rightarrow> (None, fs(path := None))))"

section \<open>Records\<close>

definition parseQuotedRecord :: "string \<Rightarrow> (string \<times> string) res" where
  "parseQuotedRecord value0 =
     (let value = TrimSpace value0 in
      if value = [] then Inl (ErrText ''quarantine record is empty'')
      else if \<not> HasPrefix value [DQ] then Inl (ErrText ''invalid quarantine record'')
      else let rest = TrimPrefix value [DQ] in
        case IndexByte rest DQ of
          None \<Rightarrow> Inl (ErrText ''invalid quarantine record'')
        | Some end' \<Rightarrow>
            (case Fields (drop (Suc end') rest) of
               [owner] \<Rightarrow> if validUserID owner then Inr (take end' rest, owner)
                          else Inl (ErrText ''invalid quarantine record owner'')
             | _ \<Rightarrow> Inl (ErrText ''invalid quarantine record owner'')))"

text \<open>A missing record reads as an empty source and an empty owner, without an error.\<close>

definition readQuarantineRecord :: "quarantineWorld \<Rightarrow> string \<Rightarrow> files \<Rightarrow> (string \<times> string) res" where
  "readQuarantineRecord w path fs =
     (case osReadFile w path fs of
        Inl e \<Rightarrow> if is_not_exist e then Inr ([], []) else Inl e
      | Inr data \<Rightarrow> parseQuotedRecord data)"

definition quarantinePath :: "config \<Rightarrow> string \<Rightarrow> string" where
  "quarantinePath cfg name = filepath_Join (QuarantineDir cfg) name"

definition recordPath :: "config \<Rightarrow> string \<Rightarrow> string" where
  "recordPath cfg name = quarantinePath cfg name @ ''.rec''"

section \<open>Listing\<close>

definition clamavQuarantineLockName :: string where
  "clamavQuarantineLockName = ''clamav-quarantine-lock''"

definition isSubject :: "direntry \<Rightarrow> bool" where
  "isSubject entry \<longleftrightarrow>
     de_mode entry \<noteq> ModeDir \<and> de_name entry \<noteq> clamavQuarantineLockName \<and> \<not> HasSuffix (de_name entry) ''.rec''"

record quarantineSubject =
  subj_Name :: string
  subj_SourceFile :: string

definition subjectOf :: "quarantineWorld \<Rightarrow> config \<Rightarrow> string \<Rightarrow> files \<Rightarrow> direntry \<Rightarrow> quarantineSubject option" where
  "subjectOf w cfg userID fs entry =
     (if \<not> isSubject entry then None
      else case readQuarantineRecord w (filepath_Join (QuarantineDir cfg) (de_name entry @ ''.rec'')) fs of
        Inl _ \<Rightarrow> None
      | Inr (source, owner) \<Rightarrow>
          if owner \<noteq> userID then None else Some \<lparr> subj_Name = de_name entry, subj_SourceFile = source \<rparr>)"

text \<open>
  The whole lookup, when it is not cancelled: \<open>entries\<close> is what reading the directory gives (an
  error may end it).
\<close>

definition readQuarantineSubjects ::
    "quarantineWorld \<Rightarrow> config \<Rightarrow> direntry list res \<Rightarrow> string \<Rightarrow> files \<Rightarrow> quarantineSubject list res" where
  "readQuarantineSubjects w cfg entries userID fs =
     (if \<not> validUserID userID then Inr []
      else case entries of
        Inl e \<Rightarrow> if is_not_exist e then Inr [] else Inl e
      | Inr es \<Rightarrow> Inr (sortSlice (\<lambda>a b. strLess (subj_Name a) (subj_Name b)) (List.map_filter (subjectOf w cfg userID fs) es)))"

section \<open>Deleting\<close>

definition deleteQuarantineSubject ::
    "quarantineWorld \<Rightarrow> config \<Rightarrow> string \<Rightarrow> string \<Rightarrow> files \<Rightarrow> goerror option \<times> files" where
  "deleteQuarantineSubject w cfg name userID fs =
     (if \<not> validUserID userID then (Some (ErrNotExist ''file does not exist''), fs)
      else
        let target = quarantinePath cfg name; recPath = recordPath cfg name;
            denied = (Some (ErrNotExist ''file does not exist''), fs) in
        case readQuarantineRecord w recPath fs of
          Inl _ \<Rightarrow> denied
        | Inr (_, owner) \<Rightarrow>
            if owner \<noteq> userID then denied
            else case osRemove w target fs of
              (Some e, fs1) \<Rightarrow> (Some e, fs1)
            | (None, fs1) \<Rightarrow>
                (case osRemove w recPath fs1 of
                   (Some e, fs2) \<Rightarrow> (if is_not_exist e then None else Some e, fs2)
                 | (None, fs2) \<Rightarrow> (None, fs2)))"

text \<open>The loop of \<^verbatim>\<open>cleanUserQuarantine\<close>, with the number of deleted files.\<close>

fun cleanEntries ::
    "quarantineWorld \<Rightarrow> config \<Rightarrow> string \<Rightarrow> direntry list \<Rightarrow> nat \<Rightarrow> files \<Rightarrow> (nat \<times> goerror option) \<times> files" where
  "cleanEntries w cfg userID [] deleted fs = ((deleted, None), fs)"
| "cleanEntries w cfg userID (e # es) deleted fs =
     (if \<not> isSubject e then cleanEntries w cfg userID es deleted fs
      else case readQuarantineRecord w (recordPath cfg (de_name e)) fs of
        Inl _ \<Rightarrow> cleanEntries w cfg userID es deleted fs
      | Inr (_, owner) \<Rightarrow>
          if owner \<noteq> userID then cleanEntries w cfg userID es deleted fs
          else case deleteQuarantineSubject w cfg (de_name e) userID fs of
            (Some err, fs1) \<Rightarrow> ((deleted, Some err), fs1)
          | (None, fs1) \<Rightarrow> cleanEntries w cfg userID es (Suc deleted) fs1)"

definition cleanUserQuarantine ::
    "quarantineWorld \<Rightarrow> config \<Rightarrow> direntry list res \<Rightarrow> string \<Rightarrow> files \<Rightarrow> (nat \<times> goerror option) \<times> files" where
  "cleanUserQuarantine w cfg entries userID fs =
     (case entries of
        Inl e \<Rightarrow> ((0, if is_not_exist e then None else Some e), fs)
      | Inr es \<Rightarrow> cleanEntries w cfg userID es 0 fs)"

section \<open>Restoring\<close>

definition copyRegularFile ::
    "quarantineWorld \<Rightarrow> string \<Rightarrow> string \<Rightarrow> files \<Rightarrow> goerror option \<times> files" where
  "copyRegularFile w src dst fs =
     (case (case qw_openErr w of Some e \<Rightarrow> Inl e
            | None \<Rightarrow> (case fs src of None \<Rightarrow> Inl (ErrNotExist src) | Some node \<Rightarrow> Inr node)) of
        Inl e \<Rightarrow> (Some e, fs)
      | Inr node \<Rightarrow>
     (case qw_fstatErr w of
        Some e \<Rightarrow> (Some e, fs)
      | None \<Rightarrow>
     if \<not> node_regular node
     then (Some (ErrText (''quarantine subject is not a regular file: '' @ src)), fs)
     else if fs dst \<noteq> None then (Some (ErrExist dst), fs)
     else case qw_createErr w of
        Some e \<Rightarrow> (Some e, fs)
      | None \<Rightarrow>
          let undo = (\<lambda>e n. (Some e, snd (osRemove w dst (fs(dst \<mapsto> n))))) in
          (case qw_copyErr w of
             Some e \<Rightarrow> undo e (node\<lparr>node_content := qw_partial w\<rparr>)
           | None \<Rightarrow>
          (case qw_closeErr w of
             Some e \<Rightarrow> undo e (node\<lparr>node_content := qw_partial w\<rparr>)
           | None \<Rightarrow>
          (case qw_chmodErr w of
             Some e \<Rightarrow> undo e node
           | None \<Rightarrow> (None, fs(dst \<mapsto> node)))))))"

definition restoreQuarantinedFile ::
    "quarantineWorld \<Rightarrow> string \<Rightarrow> string \<Rightarrow> files \<Rightarrow> goerror option \<times> files" where
  "restoreQuarantinedFile w quarantined sourceFile fs =
     (case copyRegularFile w quarantined sourceFile fs of
        (Some (ErrExist _), fs1) \<Rightarrow> (Some (ErrText (''target already exists: '' @ sourceFile)), fs1)
      | (Some e, fs1) \<Rightarrow> (Some e, fs1)
      | (None, fs1) \<Rightarrow>
          (case osRemove w quarantined fs1 of
             (Some e, fs2) \<Rightarrow> (Some e, snd (osRemove w sourceFile fs2))
           | (None, fs2) \<Rightarrow> (None, fs2)))"

definition recoverQuarantineSubject ::
    "quarantineWorld \<Rightarrow> osview \<Rightarrow> config \<Rightarrow> string \<Rightarrow> actor \<Rightarrow> files \<Rightarrow> goerror option \<times> files" where
  "recoverQuarantineSubject w os cfg name who fs =
     (if \<not> validUserID (ID who) then (Some (ErrNotExist ''file does not exist''), fs)
      else
        let quarantined = quarantinePath cfg name; recPath = recordPath cfg name in
        case readQuarantineRecord w recPath fs of
          Inl e \<Rightarrow> (Some e, fs)
        | Inr (sourceFile, owner) \<Rightarrow>
            if owner \<noteq> ID who then (Some (ErrNotExist ''file does not exist''), fs)
            else if sourceFile = [] then (Some (ErrText ''quarantine record is empty''), fs)
            else case authorizeRestorePath os cfg sourceFile who of
              Inl e \<Rightarrow> (Some e, fs)
            | Inr _ \<Rightarrow>
            (case os_Stat os quarantined of
               Inl e \<Rightarrow> (Some e, fs)
             | Inr _ \<Rightarrow>
            (case os_Stat os sourceFile of
               Inr _ \<Rightarrow> (Some (ErrText (''target already exists: '' @ sourceFile)), fs)
             | Inl e \<Rightarrow>
                 if \<not> is_not_exist e then (Some e, fs)
                 else case qw_mkdirErr w of
                   Some e \<Rightarrow> (Some e, fs)
                 | None \<Rightarrow>
                     (case restoreQuarantinedFile w quarantined sourceFile fs of
                        (Some e, fs1) \<Rightarrow> (Some e, fs1)
                      | (None, fs1) \<Rightarrow> osRemove w recPath fs1))))"

section \<open>The handlers\<close>

text \<open>\<^verbatim>\<open>url.PathUnescape\<close>: percent signs must be followed by two hexadecimal digits.\<close>

fun PathUnescape :: "string \<Rightarrow> string option" where
  "PathUnescape [] = Some []"
| "PathUnescape (c # cs) =
     (if c \<noteq> CHR ''%'' then map_option ((#) c) (PathUnescape cs)
      else case cs of
        a # b # rest \<Rightarrow>
          (case (hexVal a, hexVal b) of
             (Some x, Some y) \<Rightarrow> map_option ((#) (char_of (x * 16 + y))) (PathUnescape rest)
           | _ \<Rightarrow> None)
      | _ \<Rightarrow> None)"

definition quarantineNameFromPath :: "string \<Rightarrow> string \<Rightarrow> string res" where
  "quarantineNameFromPath path urlPrefix =
     (let raw = TrimPrefix path urlPrefix in
      if raw = [] \<or> Contains raw ''/'' then Inl (ErrText ''filename is required'')
      else case PathUnescape raw of
        None \<Rightarrow> Inl (ErrText ''invalid URL escape'')
      | Some name \<Rightarrow>
          if name = [] \<or> name \<noteq> Base name \<or> Contains name [CHR 0x00] \<or> HasSuffix name ''.rec''
          then Inl (ErrText ''invalid filename'') else Inr name)"

definition writeQuarantineAction :: "nat \<Rightarrow> goerror option \<Rightarrow> response" where
  "writeQuarantineAction code err =
     (case err of
        None \<Rightarrow> writeJSON code (JObject [(''status'', JString ''success'')])
      | Some e \<Rightarrow>
          writeJSON (if code < StatusBadRequest then StatusInternalServerError else code)
            (JObject ((''status'', JString ''failed'') #
               (if errText e = [] then [] else [(''error'', JString (errText e))]))))"

definition handleQuarantineDelete ::
    "httpMethod \<Rightarrow> string \<Rightarrow> quarantineWorld \<Rightarrow> config \<Rightarrow> actor option \<Rightarrow> files \<Rightarrow> response \<times> files" where
  "handleQuarantineDelete method urlPath w cfg ctx fs =
     (if method \<noteq> MethodPost \<and> method \<noteq> MethodDelete then (methodNotAllowed, fs)
      else case quarantineNameFromPath urlPath ''/api/quarantine/delete/'' of
        Inl e \<Rightarrow> (writeQuarantineAction StatusBadRequest (Some e), fs)
      | Inr name \<Rightarrow>
          (case deleteQuarantineSubject w cfg name (ID (actorOrZero ctx)) fs of
             (Some e, fs1) \<Rightarrow>
               (writeQuarantineAction (if is_not_exist e then StatusNotFound else StatusInternalServerError) (Some e), fs1)
           | (None, fs1) \<Rightarrow> (writeQuarantineAction StatusOK None, fs1)))"

definition handleQuarantineRecover ::
    "httpMethod \<Rightarrow> string \<Rightarrow> quarantineWorld \<Rightarrow> osview \<Rightarrow> config \<Rightarrow> actor option \<Rightarrow> files \<Rightarrow> response \<times> files" where
  "handleQuarantineRecover method urlPath w os cfg ctx fs =
     (if method \<noteq> MethodPost then (methodNotAllowed, fs)
      else case quarantineNameFromPath urlPath ''/api/quarantine/recover/'' of
        Inl e \<Rightarrow> (writeQuarantineAction StatusBadRequest (Some e), fs)
      | Inr name \<Rightarrow>
          (case recoverQuarantineSubject w os cfg name (actorOrZero ctx) fs of
             (Some e, fs1) \<Rightarrow>
               (writeQuarantineAction
                  (if is_not_exist e then StatusNotFound
                   else if e = ErrTimeDockAccountRequired \<or> e = ErrTimeDockPathDenied then StatusBadRequest
                   else StatusInternalServerError) (Some e), fs1)
           | (None, fs1) \<Rightarrow> (writeQuarantineAction StatusOK None, fs1)))"

section \<open>What the file operations do\<close>

lemma osRemove_cases:
  assumes "osRemove w p fs = (err, fs')"
  shows "(err = None \<and> fs p \<noteq> None \<and> fs' = fs(p := None)) \<or> (err \<noteq> None \<and> fs' = fs)"
  using assms by (auto simp: osRemove_def split: option.splits)

lemma osRemove_shrinks: "snd (osRemove w p fs) x \<in> {None, fs x}" "x \<noteq> p \<Longrightarrow> snd (osRemove w p fs) x = fs x"
  by (auto simp: osRemove_def split: option.splits)

lemma copyRegularFile_cases:
  assumes "copyRegularFile w src dst fs = (err, fs')"
  shows "(err = None \<and> (\<exists>node. fs src = Some node \<and> fs dst = None \<and> fs' = fs(dst \<mapsto> node))) \<or>
         (err \<noteq> None \<and> (\<forall>p. p \<noteq> dst \<longrightarrow> fs' p = fs p) \<and> (fs dst \<noteq> None \<longrightarrow> fs' = fs))"
  using assms
  by (auto simp: copyRegularFile_def Let_def osRemove_shrinks(2) split: option.splits sum.splits if_splits)

lemma restoreQuarantinedFile_cases:
  assumes "restoreQuarantinedFile w q s fs = (err, fs')"
  shows "(err = None \<and> (\<exists>node. fs q = Some node \<and> fs s = None \<and> fs' = fs(s \<mapsto> node, q := None))) \<or>
         (err \<noteq> None \<and> (\<forall>p. p \<noteq> s \<longrightarrow> fs' p = fs p) \<and> (fs s \<noteq> None \<longrightarrow> fs' = fs))"
proof -
  obtain e1 fs1 where c: "copyRegularFile w q s fs = (e1, fs1)" by fastforce
  show ?thesis
  proof (cases e1)
    case (Some e)
    then have "err \<noteq> None" "fs' = fs1"
      using assms c by (auto simp: restoreQuarantinedFile_def split: goerror.splits)
    then show ?thesis using copyRegularFile_cases [OF c] Some by auto
  next
    case None
    then obtain node where n: "fs q = Some node" "fs s = None" "fs1 = fs(s \<mapsto> node)"
      using copyRegularFile_cases [OF c] by auto
    obtain e2 fs2 where r: "osRemove w q fs1 = (e2, fs2)" by fastforce
    show ?thesis
    proof (cases e2)
      case None
      then have "err = None" "fs' = fs2" using assms c \<open>e1 = None\<close> r by (auto simp: restoreQuarantinedFile_def)
      then show ?thesis using n osRemove_cases [OF r] None by auto
    next
      case (Some e)
      then have "err \<noteq> None" "fs' = snd (osRemove w s fs2)" "fs2 = fs1"
        using assms c \<open>e1 = None\<close> r osRemove_cases [OF r] by (auto simp: restoreQuarantinedFile_def)
      then show ?thesis using n by (auto simp: osRemove_shrinks(2))
    qed
  qed
qed

lemma quarantinePath_neq_record [simp]:
  "recordPath cfg name \<noteq> quarantinePath cfg name" "quarantinePath cfg name \<noteq> recordPath cfg name"
  by (simp_all add: recordPath_def)

text \<open>Recovery is refused without any effect, or the record is the caller's and the restore is tried.\<close>

lemma recover_cases:
  assumes "recoverQuarantineSubject w os cfg name who fs = (err, fs')"
  obtains (refused) "err \<noteq> None" "fs' = fs"
  | (tried) src e1 fs1 where "readQuarantineRecord w (recordPath cfg name) fs = Inr (src, ID who)"
      "src \<noteq> []" "authorizeRestorePath os cfg src who = Inr ()"
      "restoreQuarantinedFile w (quarantinePath cfg name) src fs = (e1, fs1)"
      "e1 \<noteq> None \<longrightarrow> err \<noteq> None \<and> fs' = fs1"
      "e1 = None \<longrightarrow> osRemove w (recordPath cfg name) fs1 = (err, fs')"
  using assms
  by (auto simp: recoverQuarantineSubject_def Let_def eq_commute [of "Some _" "qw_mkdirErr w"]
      split: if_splits sum.splits option.splits prod.splits)

text \<open>Removing files never makes a record owned: reading after files are gone gives no new owner.\<close>

lemma read_after_removal:
  assumes "\<And>p. fs' p \<in> {None, fs p}" and "readQuarantineRecord w r fs' = Inr (src, u)" and "u \<noteq> []"
  shows "fs' r = fs r" "readQuarantineRecord w r fs = Inr (src, u)"
proof -
  have "fs' r \<noteq> None"
    using assms(2,3) by (auto simp: readQuarantineRecord_def osReadFile_def split: option.splits if_splits)
  then show eq: "fs' r = fs r" using assms(1) [of r] by auto
  show "readQuarantineRecord w r fs = Inr (src, u)"
    using assms(2) by (cases "qw_readErr w r") (simp_all add: readQuarantineRecord_def osReadFile_def eq)
qed

section \<open>Cleaning\<close>

text \<open>A system that does not report an existing file as missing when it fails to remove it.\<close>

definition honest :: "quarantineWorld \<Rightarrow> bool" where
  "honest w \<longleftrightarrow> (\<forall>p e. qw_removeErr w p = Some e \<longrightarrow> \<not> is_not_exist e)"

definition ownsRecord :: "quarantineWorld \<Rightarrow> config \<Rightarrow> string \<Rightarrow> files \<Rightarrow> string \<Rightarrow> bool" where
  "ownsRecord w cfg u fs name = (\<exists>src. readQuarantineRecord w (recordPath cfg name) fs = Inr (src, u))"

lemma deleteQuarantineSubject_effect:
  assumes "deleteQuarantineSubject w cfg name u fs = (err, fs')"
  shows "fs' p \<in> {None, fs p}"
    and "p \<notin> {quarantinePath cfg name, recordPath cfg name} \<Longrightarrow> fs' p = fs p"
    and "\<not> ownsRecord w cfg u fs name \<Longrightarrow> err \<noteq> None \<and> fs' = fs"
    and "honest w \<Longrightarrow> err = None \<Longrightarrow> fs' (recordPath cfg name) = None \<and> fs' (quarantinePath cfg name) = None"
  using assms
  by (auto simp: deleteQuarantineSubject_def Let_def ownsRecord_def honest_def osRemove_def
      split: if_splits sum.splits option.splits prod.splits)

lemma owned_after_removal:
  assumes "\<And>p. fs' p \<in> {None, fs p}" and "ownsRecord w cfg u fs' name" and "u \<noteq> []"
  shows "ownsRecord w cfg u fs name"
  using assms read_after_removal(2) [OF assms(1)] by (auto simp: ownsRecord_def)

lemma cleanEntries_shrinks: "snd (cleanEntries w cfg u es k fs) p \<in> {None, fs p}"
proof (induction es arbitrary: k fs)
  case (Cons e es)
  obtain err fs1 where d: "deleteQuarantineSubject w cfg (de_name e) u fs = (err, fs1)" by fastforce
  have "fs1 p \<in> {None, fs p}" by (rule deleteQuarantineSubject_effect(1) [OF d])
  then have "snd (cleanEntries w cfg u es (Suc k) fs1) p \<in> {None, fs p}" using Cons.IH [of "Suc k" fs1] by auto
  with \<open>fs1 p \<in> {None, fs p}\<close> show ?case
    using Cons.IH [of k fs] by (auto simp: d split: sum.splits option.splits prod.splits)
qed simp

lemma cleanEntries_keeps:
  assumes "\<And>e. e \<in> set es \<Longrightarrow> isSubject e \<Longrightarrow> ownsRecord w cfg u fs (de_name e) \<Longrightarrow>
             p \<noteq> quarantinePath cfg (de_name e) \<and> p \<noteq> recordPath cfg (de_name e)" and "u \<noteq> []"
  shows "snd (cleanEntries w cfg u es k fs) p = fs p"
  using assms(1)
proof (induction es arbitrary: k fs)
  case (Cons e es)
  obtain err fs1 where d: "deleteQuarantineSubject w cfg (de_name e) u fs = (err, fs1)" by fastforce
  have same: "snd (cleanEntries w cfg u es j fs) p = fs p" for j using Cons by auto
  show ?case
  proof (cases "isSubject e \<and> ownsRecord w cfg u fs (de_name e)")
    case True
    then have p: "fs1 p = fs p" using deleteQuarantineSubject_effect(2) [OF d] Cons.prems [of e] by auto
    have "snd (cleanEntries w cfg u es j fs1) p = fs1 p" for j
      using Cons.prems owned_after_removal [OF deleteQuarantineSubject_effect(1) [OF d] _ assms(2)]
      by (intro Cons.IH) auto
    with p True same show ?thesis by (auto simp: d ownsRecord_def split: option.splits)
  next
    case False
    then show ?thesis using same by (auto simp: ownsRecord_def split: sum.splits)
  qed
qed simp

lemma cleanEntries_gone:
  assumes "honest w" and "validUserID u" and "cleanEntries w cfg u es k fs = ((n, None), fs')"
    and "e \<in> set es" and "isSubject e"
  shows "\<not> ownsRecord w cfg u fs' (de_name e)"
  using assms(3,4)
proof (induction es arbitrary: k fs)
  case (Cons x xs)
  have u: "u \<noteq> []" using assms(2) by (auto simp: validUserID_def)
  obtain err fs1 where d: "deleteQuarantineSubject w cfg (de_name x) u fs = (err, fs1)" by fastforce
  note shr = cleanEntries_shrinks [of w cfg u xs]
  show ?case
  proof (cases "isSubject x \<and> ownsRecord w cfg u fs (de_name x)")
    case True
    then have err: "err = None" and rest: "cleanEntries w cfg u xs (Suc k) fs1 = ((n, None), fs')"
      using Cons.prems(1) d by (auto simp: ownsRecord_def split: option.splits)
    have "fs1 (recordPath cfg (de_name x)) = None"
      using deleteQuarantineSubject_effect(4) [OF d assms(1) err] by blast
    then have "fs' (recordPath cfg (de_name x)) = None" using shr [of "Suc k" fs1 "recordPath cfg (de_name x)"] rest by auto
    then have "\<not> ownsRecord w cfg u fs' (de_name x)"
      using u by (auto simp: ownsRecord_def readQuarantineRecord_def osReadFile_def split: option.splits if_splits)
    then show ?thesis using Cons.IH [OF rest] Cons.prems(2) by auto
  next
    case False
    then have rest: "cleanEntries w cfg u xs k fs = ((n, None), fs')"
      using Cons.prems(1) by (auto simp: ownsRecord_def split: sum.splits if_splits)
    have "fs' p \<in> {None, fs p}" for p using shr [of k fs p] rest by simp
    then have "e = x \<Longrightarrow> ?thesis" using False assms(5) owned_after_removal [of fs' fs, OF _ _ u] by blast
    then show ?thesis using Cons.IH [OF rest] Cons.prems(2) by auto
  qed
qed simp

section \<open>Properties\<close>


definition quietWorld :: quarantineWorld where
  "quietWorld = \<lparr> qw_readErr = \<lambda>_. None, qw_removeErr = \<lambda>_. None, qw_mkdirErr = None, qw_openErr = None,
     qw_fstatErr = None, qw_createErr = None, qw_copyErr = None, qw_closeErr = None, qw_chmodErr = None,
     qw_partial = [] \<rparr>"

definition textNode :: "string \<Rightarrow> fileNode" where
  "textNode c = \<lparr> node_content = c, node_regular = True, node_perm = 384 \<rparr>"

definition sampleFiles :: files where
  "sampleFiles = [''/quarantine/evil'' \<mapsto> textNode ''payload'',
     ''/quarantine/evil.rec'' \<mapsto> textNode ([DQ] @ ''/scan/docs/evil'' @ [DQ] @ '' '' @ alice)]"

definition restoreView :: osview where
  "restoreView = plainView\<lparr>os_Stat := (\<lambda>p. if p = ''/scan/docs/evil'' then Inl (ErrNotExist p) else Inr dirInfo)\<rparr>"


text \<open>
  cleaning a user's quarantine deletes all of it and nothing else. When it reports no error, no
  entry of the directory listing has a record of this user any more; in any case every file that is neither a
  quarantined file with this user's record nor such a record is as before, and nothing is created.
\<close>

theorem quarantine_clean_exact:
  assumes "honest w" and "validUserID u" and "cleanUserQuarantine w cfg (Inr es) u fs = ((n, err), fs')"
  shows "(err = None \<longrightarrow> (\<forall>e \<in> set es. isSubject e \<longrightarrow> \<not> ownsRecord w cfg u fs' (de_name e))) \<and>
         (\<forall>p. fs' p \<in> {None, fs p}) \<and>
         (\<forall>p. (\<forall>e \<in> set es. isSubject e \<longrightarrow> ownsRecord w cfg u fs (de_name e) \<longrightarrow>
               p \<noteq> quarantinePath cfg (de_name e) \<and> p \<noteq> recordPath cfg (de_name e)) \<longrightarrow> fs' p = fs p)"
proof -
  have c: "cleanEntries w cfg u es 0 fs = ((n, err), fs')" using assms(3) by (simp add: cleanUserQuarantine_def)
  have u: "u \<noteq> []" using assms(2) by (auto simp: validUserID_def)
  show ?thesis
    using cleanEntries_gone [OF assms(1,2)] c cleanEntries_shrinks [of w cfg u es 0 fs]
      cleanEntries_keeps [of es w cfg u fs _ 0, OF _ u] by auto
qed

theorem quarantine_clean_exact_witness:
  "\<exists>n fs'. cleanUserQuarantine quietWorld (sampleConfig False) (Inr [\<lparr> de_name = ''evil'', de_mode = ModeRegular \<rparr>])
       alice sampleFiles = ((n, None), fs') \<and> \<not> ownsRecord quietWorld (sampleConfig False) alice fs' ''evil''"
proof -
  let ?es = "[\<lparr> de_name = ''evil'', de_mode = ModeRegular \<rparr>]"
  obtain n err fs' where c: "cleanUserQuarantine quietWorld (sampleConfig False) (Inr ?es) alice sampleFiles
      = ((n, err), fs')" by (metis surj_pair)
  have "Option.is_none (snd (fst (cleanUserQuarantine quietWorld (sampleConfig False) (Inr ?es) alice sampleFiles)))"
    by code_simp
  then have err: "err = None" by (simp add: c Option.is_none_def split: option.splits)
  have h: "honest quietWorld" by (simp add: honest_def quietWorld_def)
  have v: "validUserID alice" by code_simp
  have "isSubject (hd ?es)" by code_simp
  then show ?thesis using quarantine_clean_exact [OF h v c] err c by auto
qed

end
