(* ===== verification/History_Index.thy ===== *)
theory History_Index
  imports Quarantine Go_Fields
begin

text \<open>
  The history index (\<^verbatim>\<open>server/history_index.go\<close>, \<^verbatim>\<open>server/log_parsing.go\<close> and the history part of
  \<^verbatim>\<open>server/database.go\<close>): the tables \<^verbatim>\<open>history_jobs\<close> and \<^verbatim>\<open>history_detections\<close>, filled from the job files that
  the scan script writes. What the operating system, \<^verbatim>\<open>json.Unmarshal\<close> and the database answer is the
  argument \<open>historyWorld\<close>; a failed statement leaves the tables as they were. The loops that wait
  for file events and timers are not modelled, only the delay between their retries.
\<close>

section \<open>Detection logs\<close>

record detectionItem =
  det_SourceFile :: string
  det_Reason :: string

definition detectionLineValue :: "string \<Rightarrow> string" where
  "detectionLineValue line =
     (case LastIndexByte line CHR '':'' of None \<Rightarrow> [] | Some pos \<Rightarrow> TrimSpace (drop (Suc pos) line))"

definition emptyItem :: detectionItem where
  "emptyItem = \<lparr> det_SourceFile = [], det_Reason = [] \<rparr>"

definition flushItem :: "detectionItem \<Rightarrow> detectionItem list" where
  "flushItem current = (if det_SourceFile current \<noteq> [] \<or> det_Reason current \<noteq> [] then [current] else [])"

fun parseDetections :: "detectionItem \<Rightarrow> string list \<Rightarrow> detectionItem list" where
  "parseDetections current [] = flushItem current"
| "parseDetections current (line # lines) =
     (if Contains line ''Source file''
      then flushItem current @ parseDetections (emptyItem\<lparr>det_SourceFile := detectionLineValue line\<rparr>) lines
      else if Contains line ''Detection reason''
      then parseDetections (current\<lparr>det_Reason := detectionLineValue line\<rparr>) lines
      else parseDetections current lines)"

definition parse_detection_log :: "string \<Rightarrow> detectionItem list" where
  "parse_detection_log content = parseDetections emptyItem (Split content LF)"

section \<open>Tables\<close>

record jobRow =
  hj_id :: string
  hj_type :: string
  hj_status :: string
  hj_result :: string
  hj_action :: string
  hj_started :: int
  hj_finished :: "int option"
  hj_user :: string
  hj_json :: string
  hj_mtime :: int
  hj_indexed :: int

record detectionRow =
  dr_job :: string
  dr_sequence :: nat
  dr_item :: detectionItem

record historyDB =
  h_versions :: "int list"
  h_jobs :: "jobRow list"
  h_detections :: "detectionRow list"

datatype historySite =
    LoadMtimes | DeleteStale | DeleteInvalid | DeleteMissing | BeginIndex | UpsertJob | ClearDetections
  | InsertDetection | CommitIndex | ReadVersion | CreateDetections | RecordVersion | CountJobs | SelectJobs
  | OwnJob | SelectDetections | OwnedJobs | DeleteOwned | CountActive | StatisticsQuery

record indexedJobDocument =
  doc_Version :: int
  doc_JobID :: string
  doc_Type :: string
  doc_Status :: string
  doc_Result :: string
  doc_Action :: string
  doc_StartedAt :: int
  doc_FinishedAt :: "int option"
  doc_UserID :: string
  doc_DetectionLog :: "string option"

record historyWorld =
  hw_ReadFile :: "string \<Rightarrow> string res"
  hw_Unmarshal :: "string \<Rightarrow> indexedJobDocument res"
  hw_Stat :: "string \<Rightarrow> fileinfo res"
  hw_ReadDir :: "(direntry \<times> fileinfo res) list res"
  hw_fault :: "historySite \<Rightarrow> goerror option"
  hw_now :: int

definition UnixNano :: "gotime \<Rightarrow> int" where
  "UnixNano t = t - 62135596800 * Second"

definition deleteJobs :: "(jobRow \<Rightarrow> bool) \<Rightarrow> historyDB \<Rightarrow> historyDB" where
  "deleteJobs P db =
     db\<lparr>h_jobs := filter (\<lambda>r. \<not> P r) (h_jobs db),
        h_detections := filter (\<lambda>d. \<not> list_ex (\<lambda>r. P r \<and> hj_id r = dr_job d) (h_jobs db)) (h_detections db)\<rparr>"

definition deleteByFile :: "string \<Rightarrow> historyDB \<Rightarrow> historyDB" where
  "deleteByFile path db = deleteJobs (\<lambda>r. hj_json r = path) db"

text \<open>\<^verbatim>\<open>INSERT ... ON CONFLICT(job_id) DO UPDATE\<close>; the column \<^verbatim>\<open>json_file\<close> is unique, too.\<close>

definition upsertJob :: "jobRow \<Rightarrow> historyDB \<Rightarrow> historyDB res" where
  "upsertJob row db =
     (if list_ex (\<lambda>r. hj_json r = hj_json row \<and> hj_id r \<noteq> hj_id row) (h_jobs db)
      then Inl (ErrText ''constraint failed'')
      else if list_ex (\<lambda>r. hj_id r = hj_id row) (h_jobs db)
      then Inr (db\<lparr>h_jobs := map (\<lambda>r. if hj_id r = hj_id row then row else r) (h_jobs db)\<rparr>)
      else Inr (db\<lparr>h_jobs := h_jobs db @ [row]\<rparr>))"

definition setDetections :: "string \<Rightarrow> detectionItem list \<Rightarrow> historyDB \<Rightarrow> historyDB" where
  "setDetections jobID items db =
     db\<lparr>h_detections := filter (\<lambda>d. dr_job d \<noteq> jobID) (h_detections db) @
          map (\<lambda>(i, item). \<lparr> dr_job = jobID, dr_sequence = i, dr_item = item \<rparr>) (enumerate 0 items)\<rparr>"

section \<open>Indexing one file\<close>

text \<open>\<^verbatim>\<open>^(manual|cron)-[0-9]{10,19}(?:-[0-9]{3})?$\<close>\<close>

definition version3JobIDPattern :: "string \<Rightarrow> bool" where
  "version3JobIDPattern s =
     (let body = (if HasPrefix s ''manual-'' then Some (drop 7 s)
                  else if HasPrefix s ''cron-'' then Some (drop 5 s) else None)
      in case body of
           None \<Rightarrow> False
         | Some b \<Rightarrow>
             let ds = takeWhile isDigit b; tail = dropWhile isDigit b in
             10 \<le> length ds \<and> length ds \<le> 19 \<and>
             (tail = [] \<or> (length tail = 4 \<and> hd tail = CHR ''-'' \<and> list_all isDigit (tl tail))))"

definition readJobDetections :: "historyWorld \<Rightarrow> string \<Rightarrow> indexedJobDocument \<Rightarrow> detectionItem list res" where
  "readJobDetections w logDir job =
     (if doc_Result job \<noteq> ''found'' then Inr []
      else case doc_DetectionLog job of
        None \<Rightarrow> Inr []
      | Some logPath \<Rightarrow>
          (let detectionPath = Clean (TrimSpace logPath);
               expectedPath = Clean (filepath_Join logDir (''clamav_detection_'' @ doc_JobID job @ ''.log'')) in
           if detectionPath = ''.'' \<or> detectionPath \<noteq> expectedPath
           then Inl (ErrText ''invalid detection log path'')
           else case hw_ReadFile w detectionPath of
             Inl e \<Rightarrow> Inl (wrapErr ''read detection log'' e)
           | Inr data \<Rightarrow> Inr (parse_detection_log data)))"

text \<open>The checks of \<^verbatim>\<open>indexFile\<close> on a decoded document.\<close>

definition checkJob :: "string \<Rightarrow> indexedJobDocument \<Rightarrow> goerror option" where
  "checkJob name job =
     (if doc_Version job \<noteq> 3
        then Some (ErrText (''unsupported job version '' @ Itoa (doc_Version job)))
      else if \<not> version3JobIDPattern (doc_JobID job) \<or> name \<noteq> doc_JobID job @ ''.json''
        then Some (ErrText ''job id and filename do not match the version 3 format'')
      else if doc_Type job \<noteq> ''manual'' \<and> doc_Type job \<noteq> ''cron'' \<or> \<not> HasPrefix (doc_JobID job) (doc_Type job @ ''-'')
        then Some (ErrText ''invalid job type'')
      else if \<not> validUserID (doc_UserID job) \<or> doc_StartedAt job \<le> 0
        then Some (ErrText ''invalid job owner or start timestamp'')
      else if doc_Action job \<noteq> ''warn'' \<and> doc_Action job \<noteq> ''move'' \<and> doc_Action job \<noteq> ''remove''
        then Some (ErrText ''invalid job action'')
      else None)"

definition jobRowOf :: "historyWorld \<Rightarrow> string \<Rightarrow> int \<Rightarrow> indexedJobDocument \<Rightarrow> jobRow" where
  "jobRowOf w path mtimeNS job =
     \<lparr> hj_id = doc_JobID job, hj_type = doc_Type job, hj_status = doc_Status job, hj_result = doc_Result job,
       hj_action = doc_Action job, hj_started = doc_StartedAt job, hj_finished = doc_FinishedAt job,
       hj_user = doc_UserID job, hj_json = path, hj_mtime = mtimeNS, hj_indexed = hw_now w \<rparr>"

definition atSite :: "historyWorld \<Rightarrow> historySite \<Rightarrow> 'a res \<Rightarrow> 'a res" where
  "atSite w site r = (case hw_fault w site of Some e \<Rightarrow> Inl e | None \<Rightarrow> r)"

text \<open>What a job file holds, once read and checked: the row and the detections.\<close>

definition readJob :: "historyWorld \<Rightarrow> string \<Rightarrow> string \<Rightarrow> string \<Rightarrow> int \<Rightarrow> (jobRow \<times> detectionItem list) res" where
  "readJob w logDir path name mtimeNS =
     bind_res (hw_ReadFile w path) (\<lambda>data.
     bind_res (hw_Unmarshal w data) (\<lambda>job.
       case checkJob name job of
         Some e \<Rightarrow> Inl e
       | None \<Rightarrow> bind_res (readJobDetections w logDir job) (\<lambda>detections.
           Inr (jobRowOf w path mtimeNS job, detections))))"

definition indexFile ::
    "historyWorld \<Rightarrow> string \<Rightarrow> string \<Rightarrow> string \<Rightarrow> int \<Rightarrow> historyDB \<Rightarrow> historyDB res" where
  "indexFile w logDir path name mtimeNS db =
     bind_res (readJob w logDir path name mtimeNS) (\<lambda>(row, detections).
       atSite w BeginIndex (atSite w UpsertJob
         (bind_res (upsertJob row db) (\<lambda>db1.
            atSite w ClearDetections
              (if detections \<noteq> [] then atSite w InsertDetection (atSite w CommitIndex
                   (Inr (setDetections (hj_id row) detections db1)))
               else atSite w CommitIndex (Inr (setDetections (hj_id row) detections db1)))))))"

definition deleteInvalid :: "historyWorld \<Rightarrow> bool \<Rightarrow> string \<Rightarrow> historyDB \<Rightarrow> historyDB" where
  "deleteInvalid w removeInvalid path db =
     (if removeInvalid \<and> hw_fault w DeleteInvalid = None then deleteByFile path db else db)"

definition indexCurrentFileLocked ::
    "historyWorld \<Rightarrow> string \<Rightarrow> string \<Rightarrow> fileinfo \<Rightarrow> bool \<Rightarrow> historyDB \<Rightarrow> goerror option \<times> historyDB" where
  "indexCurrentFileLocked w logDir path info removeInvalid db =
     (if fi_mode info \<noteq> ModeRegular
      then (Some (ErrText ''job state is not a regular file''), deleteInvalid w removeInvalid path db)
      else case indexFile w logDir path (Base path) (UnixNano (fi_mtime info)) db of
        Inl e \<Rightarrow> (Some e, deleteInvalid w removeInvalid path db)
      | Inr db1 \<Rightarrow> (None, db1))"

definition refreshFileLocked ::
    "historyWorld \<Rightarrow> string \<Rightarrow> string \<Rightarrow> string \<Rightarrow> historyDB \<Rightarrow> goerror option \<times> historyDB" where
  "refreshFileLocked w jobsDir logDir path0 db =
     (let path = Clean path0 in
      if Dir path \<noteq> Clean jobsDir \<or> \<not> HasSuffix (Base path) ''.json'' then (None, db)
      else case hw_Stat w path of
        Inl e \<Rightarrow>
          if is_not_exist e
          then (case hw_fault w DeleteMissing of Some e1 \<Rightarrow> (Some e1, db) | None \<Rightarrow> (None, deleteByFile path db))
          else (Some e, db)
      | Inr info \<Rightarrow> indexCurrentFileLocked w logDir path info True db)"

section \<open>Refreshing the whole index\<close>

record historyRefreshOptions =
  opt_force :: bool
  opt_reconcileDeleted :: bool
  opt_removeInvalid :: bool

definition loadIndexedMtimesLocked :: "historyWorld \<Rightarrow> historyDB \<Rightarrow> (string \<rightharpoonup> int) res" where
  "loadIndexedMtimesLocked w db =
     atSite w LoadMtimes (Inr (foldl (\<lambda>m r. m(hj_json r \<mapsto> hj_mtime r)) Map.empty (h_jobs db)))"

fun refreshEntries ::
    "historyWorld \<Rightarrow> string \<Rightarrow> string \<Rightarrow> historyRefreshOptions \<Rightarrow> (direntry \<times> fileinfo res) list \<Rightarrow>
     (string \<rightharpoonup> int) \<times> historyDB \<Rightarrow> (string \<rightharpoonup> int) \<times> historyDB" where
  "refreshEntries w jobsDir logDir opts [] s = s"
| "refreshEntries w jobsDir logDir opts ((entry, info) # es) (mtimes, db) =
     (if de_mode entry = ModeDir \<or> \<not> HasSuffix (de_name entry) ''.json''
      then refreshEntries w jobsDir logDir opts es (mtimes, db)
      else
        let path = filepath_Join jobsDir (de_name entry); old = mtimes path; mtimes1 = mtimes(path := None) in
        case info of
          Inl _ \<Rightarrow> refreshEntries w jobsDir logDir opts es (mtimes1, db)
        | Inr fi \<Rightarrow>
            if \<not> opt_force opts \<and> old = Some (UnixNano (fi_mtime fi))
            then refreshEntries w jobsDir logDir opts es (mtimes1, db)
            else refreshEntries w jobsDir logDir opts es
                   (mtimes1, snd (indexCurrentFileLocked w logDir path fi (opt_removeInvalid opts) db)))"

text \<open>
  The deletion of the rows whose file is gone: one statement per path; the loop ends at the first
  error. \<open>stale\<close> are the paths that are left.
\<close>

definition refreshLocked ::
    "historyWorld \<Rightarrow> string \<Rightarrow> string \<Rightarrow> historyRefreshOptions \<Rightarrow> historyDB \<Rightarrow> goerror option \<times> historyDB" where
  "refreshLocked w jobsDir logDir opts db =
     (case (if \<not> opt_force opts \<or> opt_reconcileDeleted opts then loadIndexedMtimesLocked w db else Inr Map.empty) of
        Inl e \<Rightarrow> (Some e, db)
      | Inr mtimes \<Rightarrow>
     (case (case hw_ReadDir w of Inl e \<Rightarrow> if is_not_exist e then Inr [] else Inl e | Inr es \<Rightarrow> Inr es) of
        Inl e \<Rightarrow> (Some e, db)
      | Inr es \<Rightarrow>
          (case refreshEntries w jobsDir logDir opts es (mtimes, db) of
             (stale, db1) \<Rightarrow>
               if \<not> opt_reconcileDeleted opts \<or> \<not> list_ex (\<lambda>r. stale (hj_json r) \<noteq> None) (h_jobs db) then (None, db1)
               else case hw_fault w DeleteStale of
                 Some e \<Rightarrow> (Some e, db1)
               | None \<Rightarrow> (None, deleteJobs (\<lambda>r. stale (hj_json r) \<noteq> None) db1))))"

definition refresh ::
    "historyWorld \<Rightarrow> string \<Rightarrow> string \<Rightarrow> historyDB \<Rightarrow> goerror option \<times> historyDB" where
  "refresh w jobsDir logDir db =
     refreshLocked w jobsDir logDir
       \<lparr> opt_force = False, opt_reconcileDeleted = True, opt_removeInvalid = True \<rparr> db"

section \<open>Schema versions\<close>

definition historyDatabaseSchemaVersion :: "historyWorld \<Rightarrow> historyDB \<Rightarrow> int res" where
  "historyDatabaseSchemaVersion w db =
     atSite w ReadVersion (Inr (if h_versions db = [] then 0 else Max (set (h_versions db))))"

definition upgradeSchema ::
    "historyWorld \<Rightarrow> string \<Rightarrow> string \<Rightarrow> historyDB \<Rightarrow> bool res \<times> historyDB" where
  "upgradeSchema w jobsDir logDir db =
     (case historyDatabaseSchemaVersion w db of
        Inl e \<Rightarrow> (Inl e, db)
      | Inr version \<Rightarrow>
          if version = 3 then (Inr False, db)
          else if version = 2 then
            (case hw_fault w CreateDetections of
               Some e \<Rightarrow> (Inl (wrapErr ''create history detections table'' e), db)
             | None \<Rightarrow>
                 (case refreshLocked w jobsDir logDir
                         \<lparr> opt_force = True, opt_reconcileDeleted = False, opt_removeInvalid = False \<rparr> db of
                    (Some e, db1) \<Rightarrow> (Inl e, db1)
                  | (None, db1) \<Rightarrow>
                      (case hw_fault w RecordVersion of
                         Some e \<Rightarrow> (Inl (wrapErr ''record history schema 3'' e), db1)
                       | None \<Rightarrow> (Inr True, db1\<lparr>h_versions := h_versions db1 @ [3]\<rparr>))))
          else (Inl (ErrText (''unsupported history database schema version '' @ Itoa version)), db))"

section \<open>The delay between attempts to watch\<close>

text \<open>Durations in nanoseconds; the loop doubles the delay at most \<open>n\<close> more times.\<close>

definition historyWatchRetryInterval :: duration where "historyWatchRetryInterval = 5 * Second"
definition historyWatchMaxRetryInterval :: duration where "historyWatchMaxRetryInterval = 60 * Second"

fun retryLoop :: "nat \<Rightarrow> duration \<Rightarrow> duration" where
  "retryLoop 0 delay = delay"
| "retryLoop (Suc n) delay =
     (if delay < historyWatchMaxRetryInterval
      then retryLoop n (if delay * 2 > historyWatchMaxRetryInterval then historyWatchMaxRetryInterval else delay * 2)
      else delay)"

definition historyWatchRetryDelay :: "int \<Rightarrow> duration" where
  "historyWatchRetryDelay failureCount =
     (let n = (if failureCount < 1 then 1 else failureCount) in retryLoop (nat (n - 1)) historyWatchRetryInterval)"

section \<open>Paths of job files\<close>

lemma absPath_snoc: "\<exists>u. absPath (cs @ [c]) = u @ SEP # c"
proof (cases cs)
  case Nil
  then show ?thesis by (auto simp: absPath_def)
next
  case (Cons x xs)
  then have "absPath (cs @ [c]) = (SEP # Join cs ''/'') @ SEP # c"
    using Join_append [of cs "[c]" "''/''"] by (simp add: absPath_def)
  then show ?thesis by blast
qed

lemma Base_Join:
  assumes "list_all goodComp cs" and "goodComp n"
  shows "Base (filepath_Join (absPath cs) n) = n"
proof -
  obtain u where u: "absPath (cs @ [n]) = u @ SEP # n" using absPath_snoc by blast
  have n: "n \<noteq> []" "SEP \<notin> set n" using assms(2) by (auto simp: goodComp_def)
  then have "hd (rev n) \<noteq> SEP" by (metis hd_in_set rev_is_Nil_conv set_rev)
  then have "dropWhile (\<lambda>c. c = SEP) (rev (u @ SEP # n)) = rev (u @ SEP # n)"
    using n(1) by (cases "rev n") auto
  then have "rev (dropWhile (\<lambda>c. c = SEP) (rev (u @ SEP # n))) = u @ SEP # n" by simp
  then show ?thesis
    using n by (simp add: filepath_Join_absPath [OF assms] u Base_def Let_def LastIndexByte_append)
qed

text \<open>A directory given by a clean absolute path.\<close>

definition cleanDir :: "string \<Rightarrow> bool" where
  "cleanDir d \<longleftrightarrow> (\<exists>cs. list_all goodComp cs \<and> d = absPath cs)"

lemma Base_in_dir [simp]: "cleanDir d \<Longrightarrow> goodComp n \<Longrightarrow> Base (filepath_Join d n) = n"
  by (auto simp: cleanDir_def Base_Join)

lemma jobFile_good: "version3JobIDPattern i \<Longrightarrow> goodComp (i @ ''.json'')"
proof -
  assume p: "version3JobIDPattern i"
  have digits: "SEP \<notin> set xs" if "list_all isDigit xs" for xs
    using that by (auto simp: list_all_iff isDigit_def)
  let ?tail = "\<lambda>b. dropWhile isDigit b = [] \<or> (length (dropWhile isDigit b) = 4 \<and>
      hd (dropWhile isDigit b) = CHR ''-'' \<and> list_all isDigit (tl (dropWhile isDigit b)))"
  obtain h b where i: "i = h @ b" "h = ''manual-'' \<or> h = ''cron-''" "?tail b"
  proof (cases "HasPrefix i ''manual-''")
    case True
    then show thesis
      using p that [of "''manual-''" "drop 7 i"] by (auto simp: version3JobIDPattern_def Let_def HasPrefix_iff)
  next
    case False
    then have "HasPrefix i ''cron-''" using p by (auto simp: version3JobIDPattern_def Let_def split: if_splits)
    then show thesis
      using False p that [of "''cron-''" "drop 5 i"] by (auto simp: version3JobIDPattern_def Let_def HasPrefix_iff)
  qed
  have "SEP \<notin> set (takeWhile isDigit b)" by (rule digits) (auto simp: list_all_iff dest: set_takeWhileD)
  moreover have "SEP \<notin> set t" if "t = [] \<or> (length t = 4 \<and> hd t = CHR ''-'' \<and> list_all isDigit (tl t))" for t
    using that digits [of "tl t"] by (cases t) auto
  then have "SEP \<notin> set (dropWhile isDigit b)" using i(3) by blast
  ultimately have "SEP \<notin> set b" by (metis Un_iff set_append takeWhile_dropWhile_id)
  then show ?thesis using i by (auto simp: goodComp_def)
qed

section \<open>The index as a map\<close>

text \<open>
  What the tables say about a job file: its row and its detections. The operations on the tables
  are updates of this map.
\<close>

definition jobDetections :: "historyDB \<Rightarrow> string \<Rightarrow> detectionItem list" where
  "jobDetections db i = map dr_item (filter (\<lambda>d. dr_job d = i) (h_detections db))"

definition historyView :: "historyDB \<Rightarrow> string \<rightharpoonup> (jobRow \<times> detectionItem list)" where
  "historyView db p =
     map_option (\<lambda>r. (r, jobDetections db (hj_id r))) (find (\<lambda>r. hj_json r = p) (h_jobs db))"

definition historyInv :: "string \<Rightarrow> historyDB \<Rightarrow> bool" where
  "historyInv dir db \<longleftrightarrow>
     distinct (map hj_id (h_jobs db)) \<and>
     (\<forall>r \<in> set (h_jobs db). version3JobIDPattern (hj_id r) \<and> hj_json r = filepath_Join dir (hj_id r @ ''.json'') \<and>
        validUserID (hj_user r)) \<and>
     (\<forall>d \<in> set (h_detections db). \<exists>r \<in> set (h_jobs db). hj_id r = dr_job d)"

lemma find_on_filter: "find P (filter Q xs) = find (\<lambda>x. Q x \<and> P x) xs"
  by (induction xs) auto

lemma find_cong_set: "(\<And>x. x \<in> set xs \<Longrightarrow> P x = Q x) \<Longrightarrow> find P xs = find Q xs"
  by (induction xs) auto

lemma find_map_same:
  "(\<And>x. x \<in> set xs \<Longrightarrow> P (f x) = P x) \<Longrightarrow> (\<And>x. x \<in> set xs \<Longrightarrow> P x \<Longrightarrow> f x = x) \<Longrightarrow> find P (map f xs) = find P xs"
  by (induction xs) auto

lemma find_SomeD: "find P xs = Some x \<Longrightarrow> x \<in> set xs \<and> P x"
  by (induction xs) (auto split: if_splits)

lemma historyInv_json_id:
  assumes "historyInv dir db" and "cleanDir dir" and "r \<in> set (h_jobs db)"
    and "version3JobIDPattern i" and "hj_json r = filepath_Join dir (i @ ''.json'')"
  shows "hj_id r = i"
proof -
  have r: "hj_json r = filepath_Join dir (hj_id r @ ''.json'')" "version3JobIDPattern (hj_id r)"
    using assms(1,3) by (auto simp: historyInv_def)
  then have "Base (filepath_Join dir (hj_id r @ ''.json'')) = Base (filepath_Join dir (i @ ''.json''))"
    using assms(5) by simp
  then show ?thesis using r(2) assms(2,4) by (simp add: jobFile_good)
qed

lemma distinct_same_id:
  "distinct (map hj_id rs) \<Longrightarrow> r \<in> set rs \<Longrightarrow> r' \<in> set rs \<Longrightarrow> hj_id r = hj_id r' \<Longrightarrow> r = r'"
  by (induction rs) (auto simp: image_iff)

lemma deleteJobs_view:
  assumes "historyInv dir db"
  shows "historyView (deleteJobs (\<lambda>r. Q (hj_json r)) db) = (\<lambda>p. if Q p then None else historyView db p)"
    and "historyInv dir (deleteJobs (\<lambda>r. Q (hj_json r)) db)"
proof -
  let ?db = "deleteJobs (\<lambda>r. Q (hj_json r)) db"
  have kept: "jobDetections ?db (hj_id r) = jobDetections db (hj_id r)"
    if "r \<in> set (h_jobs db)" "\<not> Q (hj_json r)" for r
    using that distinct_same_id [of "h_jobs db" r] assms
    by (auto simp: jobDetections_def deleteJobs_def list_ex_iff historyInv_def intro!: arg_cong [of _ _ "map dr_item"] filter_cong)
  have "find (\<lambda>r. hj_json r = p) (h_jobs ?db) = (if Q p then None else find (\<lambda>r. hj_json r = p) (h_jobs db))" for p
    by (auto simp: deleteJobs_def find_on_filter find_None_iff intro: find_cong_set)
  note found = this
  show "historyView ?db = (\<lambda>p. if Q p then None else historyView db p)"
  proof
    fix p
    show "historyView ?db p = (if Q p then None else historyView db p)"
      using found [of p] kept
      by (auto simp: historyView_def dest!: find_SomeD intro!: option.map_cong)
  qed
  show "historyInv dir ?db"
    using assms by (auto simp: historyInv_def deleteJobs_def list_ex_iff distinct_map_filter) (metis (no_types, lifting))
qed

lemma filter_other_id [simp]: "filter (\<lambda>d. dr_job d = i) (filter (\<lambda>d. dr_job d \<noteq> i) ds) = []"
  by (auto simp: filter_empty_conv)

lemma setDetections_items [simp]:
  "jobDetections (setDetections i items db) j = (if j = i then items else jobDetections db j)"
proof -
  let ?new = "map (\<lambda>(n, item). \<lparr> dr_job = i, dr_sequence = n, dr_item = item \<rparr>) (enumerate 0 items)"
  have all: "filter (\<lambda>d. dr_job d = i) ?new = ?new" by (rule filter_True) auto
  have none: "filter (\<lambda>d. dr_job d = j) ?new = []" if "j \<noteq> i" using that by (auto simp: filter_empty_conv)
  have items: "map dr_item ?new = items" by (rule nth_equalityI) (simp_all add: nth_enumerate_eq)
  show ?thesis
  proof (cases "j = i")
    case True
    then show ?thesis using all items by (simp add: jobDetections_def setDetections_def del: filter_map map_map)
  next
    case False
    then have "filter (\<lambda>d. dr_job d = j) (filter (\<lambda>d. dr_job d \<noteq> i) ds) = filter (\<lambda>d. dr_job d = j) ds"
      for ds :: "detectionRow list"
      by (induction ds) auto
    then show ?thesis using False none by (simp add: jobDetections_def setDetections_def del: filter_filter)
  qed
qed

text \<open>Writing a row and its detections is one update of the map.\<close>

lemma upsertJob_view:
  assumes inv: "historyInv dir db" and dir: "cleanDir dir" and id: "version3JobIDPattern (hj_id row)"
    and json: "hj_json row = filepath_Join dir (hj_id row @ ''.json'')" and user: "validUserID (hj_user row)"
  obtains db1 where "upsertJob row db = Inr db1"
    and "historyView (setDetections (hj_id row) items db1) = (historyView db)(hj_json row \<mapsto> (row, items))"
    and "historyInv dir (setDetections (hj_id row) items db1)"
proof -
  have same: "hj_id r = hj_id row" if "r \<in> set (h_jobs db)" "hj_json r = hj_json row" for r
    using historyInv_json_id [OF inv dir that(1) id] that(2) json by simp
  have same': "hj_json r = hj_json row" if "r \<in> set (h_jobs db)" "hj_id r = hj_id row" for r
    using inv that json by (auto simp: historyInv_def)
  have ok: "\<not> list_ex (\<lambda>r. hj_json r = hj_json row \<and> hj_id r \<noteq> hj_id row) (h_jobs db)"
    using same by (auto simp: list_ex_iff)
  define rs where "rs = (if list_ex (\<lambda>r. hj_id r = hj_id row) (h_jobs db)
      then map (\<lambda>r. if hj_id r = hj_id row then row else r) (h_jobs db) else h_jobs db @ [row])"
  define db1 where "db1 = db\<lparr>h_jobs := rs\<rparr>"
  have up: "upsertJob row db = Inr db1" using ok by (simp add: upsertJob_def db1_def rs_def)
  have members: "set rs = {r \<in> set (h_jobs db). hj_id r \<noteq> hj_id row} \<union> {row}"
    by (auto simp: rs_def list_ex_iff)
  have ids: "distinct (map hj_id rs)"
  proof (cases "list_ex (\<lambda>r. hj_id r = hj_id row) (h_jobs db)")
    case True
    then have "map hj_id rs = map hj_id (h_jobs db)" by (auto simp: rs_def)
    then show ?thesis using inv by (simp add: historyInv_def)
  next
    case False
    then show ?thesis using inv by (auto simp: rs_def historyInv_def list_ex_iff)
  qed
  have own: "find (\<lambda>r. hj_json r = hj_json row) rs = Some row"
  proof -
    obtain r where r: "find (\<lambda>r. hj_json r = hj_json row) rs = Some r"
      using members by (cases "find (\<lambda>r. hj_json r = hj_json row) rs") (auto simp: find_None_iff)
    then have "r \<in> set rs" "hj_json r = hj_json row" by (auto dest: find_SomeD)
    then have "r = row" using members same by auto
    then show ?thesis using r by simp
  qed
  have other: "find (\<lambda>r. hj_json r = p) rs = find (\<lambda>r. hj_json r = p) (h_jobs db)" if "p \<noteq> hj_json row" for p
  proof (cases "list_ex (\<lambda>r. hj_id r = hj_id row) (h_jobs db)")
    case True
    then show ?thesis
      using that same' by (auto simp: rs_def intro!: find_map_same)
  next
    case False
    moreover have "find P (xs @ [row]) = find P xs" if "\<not> P row" for P xs using that by (induction xs) auto
    ultimately show ?thesis using that by (simp add: rs_def)
  qed
  have jobs: "h_jobs (setDetections (hj_id row) items db1) = rs" by (simp add: setDetections_def db1_def)
  have dets: "jobDetections db1 = jobDetections db" by (auto simp: jobDetections_def db1_def)
  show ?thesis
  proof (rule that [OF up])
    show "historyView (setDetections (hj_id row) items db1) = (historyView db)(hj_json row \<mapsto> (row, items))"
    proof
      fix p
      show "historyView (setDetections (hj_id row) items db1) p = ((historyView db)(hj_json row \<mapsto> (row, items))) p"
        using own other [of p] same' by (auto simp: historyView_def jobs dets dest!: find_SomeD intro!: option.map_cong)
    qed
    show "historyInv dir (setDetections (hj_id row) items db1)"
      using inv ids id json user
      by (auto simp: historyInv_def jobs members setDetections_def db1_def in_set_enumerate_eq) metis
  qed
qed

section \<open>The specification of a refresh\<close>

definition noFaults :: "historyWorld \<Rightarrow> bool" where
  "noFaults w \<longleftrightarrow> (\<forall>site. hw_fault w site = None)"

text \<open>What a job file should contribute to the index: its own contents, or nothing when it is not acceptable.\<close>

definition fileView :: "historyWorld \<Rightarrow> string \<Rightarrow> string \<Rightarrow> fileinfo \<Rightarrow> (jobRow \<times> detectionItem list) option" where
  "fileView w logDir path fi =
     (if fi_mode fi \<noteq> ModeRegular then None
      else case readJob w logDir path (Base path) (UnixNano (fi_mtime fi)) of Inl _ \<Rightarrow> None | Inr x \<Rightarrow> Some x)"

definition jobEntry :: "direntry \<times> fileinfo res \<Rightarrow> bool" where
  "jobEntry x \<longleftrightarrow> de_mode (fst x) \<noteq> ModeDir \<and> HasSuffix (de_name (fst x)) ''.json''"

definition entryAt :: "string \<Rightarrow> (direntry \<times> fileinfo res) list \<Rightarrow> string \<Rightarrow> (direntry \<times> fileinfo res) option" where
  "entryAt dir es p = find (\<lambda>x. jobEntry x \<and> filepath_Join dir (de_name (fst x)) = p) es"

definition refreshSpec ::
    "historyWorld \<Rightarrow> string \<Rightarrow> string \<Rightarrow> (direntry \<times> fileinfo res) list \<Rightarrow>
     (string \<rightharpoonup> (jobRow \<times> detectionItem list)) \<Rightarrow> string \<rightharpoonup> (jobRow \<times> detectionItem list)" where
  "refreshSpec w dir logDir es old p =
     (case entryAt dir es p of
        None \<Rightarrow> None
      | Some (_, Inl _) \<Rightarrow> old p
      | Some (_, Inr fi) \<Rightarrow>
          if map_option (hj_mtime \<circ> fst) (old p) = Some (UnixNano (fi_mtime fi)) then old p
          else fileView w logDir p fi)"

lemma readJob_row:
  assumes "readJob w logDir path name m = Inr (row, items)"
  shows "version3JobIDPattern (hj_id row)" and "name = hj_id row @ ''.json''" and "hj_json row = path"
    and "validUserID (hj_user row)"
  using assms
  by (auto simp: readJob_def checkJob_def jobRowOf_def bind_res_def split: sum.splits if_splits option.splits)

lemma indexCurrent_view:
  assumes inv: "historyInv dir db" and dir: "cleanDir dir" and "noFaults w" and n: "goodComp n"
  defines "p \<equiv> filepath_Join dir n"
  shows "historyView (snd (indexCurrentFileLocked w logDir p fi True db)) = (historyView db)(p := fileView w logDir p fi)"
    and "historyInv dir (snd (indexCurrentFileLocked w logDir p fi True db))"
proof -
  have f [simp]: "hw_fault w site = None" for site using assms(3) by (simp add: noFaults_def)
  have del: "historyView (deleteByFile p db) = (historyView db)(p := None)" "historyInv dir (deleteByFile p db)"
    using deleteJobs_view [OF inv, of "\<lambda>q. q = p"] by (auto simp: deleteByFile_def)
  have base: "Base p = n" using dir n by (simp add: p_def)
  let ?r = "indexCurrentFileLocked w logDir p fi True db"
  have "historyView (snd ?r) = (historyView db)(p := fileView w logDir p fi) \<and> historyInv dir (snd ?r)"
  proof (cases "fi_mode fi = ModeRegular")
    case False
    then show ?thesis using del by (simp add: indexCurrentFileLocked_def deleteInvalid_def fileView_def)
  next
    case reg: True
    show ?thesis
    proof (cases "readJob w logDir p n (UnixNano (fi_mtime fi))")
      case (Inl e)
      then show ?thesis
        using reg del base by (simp add: indexCurrentFileLocked_def deleteInvalid_def fileView_def indexFile_def)
    next
      case (Inr x)
      obtain row items where x: "x = (row, items)" by (cases x)
      note row = readJob_row [OF Inr [unfolded x]]
      obtain db1 where "upsertJob row db = Inr db1"
        and "historyView (setDetections (hj_id row) items db1) = (historyView db)(p \<mapsto> (row, items))"
        and "historyInv dir (setDetections (hj_id row) items db1)"
        using upsertJob_view [OF inv dir, of row items] row by (metis p_def)
      then show ?thesis
        using reg base Inr by (cases items) (simp_all add: indexCurrentFileLocked_def fileView_def indexFile_def x atSite_def)
    qed
  qed
  then show "historyView (snd ?r) = (historyView db)(p := fileView w logDir p fi)" "historyInv dir (snd ?r)" by simp_all
qed

definition refreshOptions :: historyRefreshOptions where
  "refreshOptions = \<lparr> opt_force = False, opt_reconcileDeleted = True, opt_removeInvalid = True \<rparr>"

text \<open>What the loop over the directory does to one path, given the modification times it starts from.\<close>

definition loopSpec ::
    "historyWorld \<Rightarrow> string \<Rightarrow> string \<Rightarrow> (direntry \<times> fileinfo res) list \<Rightarrow> (string \<rightharpoonup> int) \<Rightarrow>
     (string \<rightharpoonup> (jobRow \<times> detectionItem list)) \<Rightarrow> string \<rightharpoonup> (jobRow \<times> detectionItem list)" where
  "loopSpec w dir logDir es mtimes old p =
     (case entryAt dir es p of
        None \<Rightarrow> old p
      | Some (_, Inl _) \<Rightarrow> old p
      | Some (_, Inr fi) \<Rightarrow> if mtimes p = Some (UnixNano (fi_mtime fi)) then old p else fileView w logDir p fi)"

lemma entryAt_simps [simp]:
  "entryAt dir [] p = None"
  "entryAt dir (x # es) p =
     (if jobEntry x \<and> filepath_Join dir (de_name (fst x)) = p then Some x else entryAt dir es p)"
  by (simp_all add: entryAt_def)

lemma entryAt_fresh:
  assumes "cleanDir dir" and "goodComp n" and "n \<notin> (de_name \<circ> fst) ` set es"
    and "\<forall>x \<in> set es. goodComp (de_name (fst x))"
  shows "entryAt dir es (filepath_Join dir n) = None"
proof -
  have "filepath_Join dir m \<noteq> filepath_Join dir n" if "m \<noteq> n" "goodComp m" for m
    using that assms(1,2) Base_in_dir by metis
  then have "filepath_Join dir (de_name (fst x)) \<noteq> filepath_Join dir n" if "x \<in> set es" for x
    using assms(3,4) that by (metis comp_apply image_eqI)
  then show ?thesis by (auto simp: entryAt_def find_None_iff)
qed

lemma refreshEntries_spec:
  fixes mtimes :: "string \<rightharpoonup> int" and logDir :: string
  assumes "cleanDir dir" and "noFaults w" and "historyInv dir db"
    and "\<forall>x \<in> set es. goodComp (de_name (fst x))" and "distinct (map (de_name \<circ> fst) es)"
  defines "r \<equiv> refreshEntries w dir logDir refreshOptions es (mtimes, db)"
  shows "fst r = (\<lambda>p. if entryAt dir es p = None then mtimes p else None) \<and>
    historyView (snd r) = loopSpec w dir logDir es mtimes (historyView db) \<and> historyInv dir (snd r)"
  unfolding r_def using assms(3-5)
proof (induction es arbitrary: mtimes db)
  case Nil
  then show ?case by (auto simp: loopSpec_def)
next
  case (Cons x es)
  obtain e info where x: "x = (e, info)" by (cases x)
  have IH: "fst (refreshEntries w dir logDir refreshOptions es (m, d)) = (\<lambda>p. if entryAt dir es p = None then m p else None) \<and>
      historyView (snd (refreshEntries w dir logDir refreshOptions es (m, d))) = loopSpec w dir logDir es m (historyView d) \<and>
      historyInv dir (snd (refreshEntries w dir logDir refreshOptions es (m, d)))" if "historyInv dir d" for m d
    using Cons.IH [OF that] Cons.prems by simp
  show ?case
  proof (cases "jobEntry x")
    case False
    then show ?thesis
      using IH [of db mtimes] Cons.prems(1) by (auto simp: x jobEntry_def loopSpec_def)
  next
    case job: True
    let ?p = "filepath_Join dir (de_name e)"
    have fresh: "entryAt dir es ?p = None"
      using entryAt_fresh [OF assms(1), of "de_name e" es] Cons.prems by (simp add: x)
    have keep: "\<not> (de_mode e = ModeDir \<or> \<not> HasSuffix (de_name e) ''.json'')" using job by (simp add: jobEntry_def x)
    let ?m = "mtimes(?p := None)"
    show ?thesis
    proof (cases "\<exists>fi. info = Inr fi \<and> mtimes ?p \<noteq> Some (UnixNano (fi_mtime fi))")
      case True
      then obtain fi where fi: "info = Inr fi" "mtimes ?p \<noteq> Some (UnixNano (fi_mtime fi))" by blast
      let ?d = "snd (indexCurrentFileLocked w logDir ?p fi True db)"
      note ind = indexCurrent_view [OF Cons.prems(1) assms(1,2), of "de_name e" logDir fi]
      have "refreshEntries w dir logDir refreshOptions (x # es) (mtimes, db) =
          refreshEntries w dir logDir refreshOptions es (?m, ?d)"
        using keep fi by (simp add: x Let_def refreshOptions_def)
      then show ?thesis
        using IH [of ?d ?m] ind Cons.prems(2) job fresh fi
        by (auto simp: x loopSpec_def fun_eq_iff split: option.splits sum.splits)
    next
      case False
      then have "refreshEntries w dir logDir refreshOptions (x # es) (mtimes, db) =
          refreshEntries w dir logDir refreshOptions es (?m, db)"
        using keep by (auto simp: x Let_def refreshOptions_def split: sum.splits)
      then show ?thesis
        using IH [of db ?m] Cons.prems(1) job fresh False
        by (auto simp: x loopSpec_def fun_eq_iff split: option.splits sum.splits)
    qed
  qed
qed

lemma mtimes_find:
  "distinct (map k rs) \<Longrightarrow>
   foldl (\<lambda>m r. m(k r \<mapsto> v r)) m0 rs p = (case find (\<lambda>r. k r = p) rs of Some r \<Rightarrow> Some (v r) | None \<Rightarrow> m0 p)"
proof (induction rs arbitrary: m0)
  case (Cons r rs)
  have "find (\<lambda>s. k s = k r) rs = None" using Cons.prems by (auto simp: find_None_iff image_iff)
  then show ?case using Cons by (auto split: option.splits)
qed simp

lemma historyInv_distinct_json:
  assumes "historyInv dir db" and "cleanDir dir"
  shows "distinct (map hj_json (h_jobs db))"
proof -
  have "inj_on hj_json (set (h_jobs db))"
  proof (rule inj_onI)
    fix r r' assume r: "r \<in> set (h_jobs db)" "r' \<in> set (h_jobs db)" "hj_json r = hj_json r'"
    have "hj_id r = hj_id r'"
      using historyInv_json_id [OF assms r(1), of "hj_id r'"] assms(1) r by (simp add: historyInv_def)
    then show "r = r'" using distinct_same_id [of "h_jobs db" r r'] assms(1) r by (simp add: historyInv_def)
  qed
  moreover have "distinct (h_jobs db)" using assms(1) by (simp add: historyInv_def distinct_map)
  ultimately show ?thesis by (simp add: distinct_map)
qed

lemma loadIndexedMtimes_view:
  assumes "historyInv dir db" and "cleanDir dir" and "noFaults w"
  shows "loadIndexedMtimesLocked w db = Inr (map_option (hj_mtime \<circ> fst) \<circ> historyView db)"
proof -
  have "foldl (\<lambda>m r. m(hj_json r \<mapsto> hj_mtime r)) Map.empty (h_jobs db) = map_option (hj_mtime \<circ> fst) \<circ> historyView db"
    using mtimes_find [OF historyInv_distinct_json [OF assms(1,2)], of hj_mtime Map.empty]
    by (auto simp: fun_eq_iff historyView_def split: option.splits)
  then show ?thesis using assms(3) by (simp add: loadIndexedMtimesLocked_def atSite_def noFaults_def)
qed

lemma refreshLocked_spec:
  assumes dir: "cleanDir dir" and nf: "noFaults w" and inv: "historyInv dir db" and es: "hw_ReadDir w = Inr es"
    and "\<forall>x \<in> set es. goodComp (de_name (fst x))" and "distinct (map (de_name \<circ> fst) es)"
  obtains db' where "refreshLocked w dir logDir refreshOptions db = (None, db')"
    and "historyView db' = refreshSpec w dir logDir es (historyView db)" and "historyInv dir db'"
proof -
  let ?m = "map_option (hj_mtime \<circ> fst) \<circ> historyView db"
  obtain stale db1 where r: "refreshEntries w dir logDir refreshOptions es (?m, db) = (stale, db1)" by fastforce
  have loop: "stale = (\<lambda>p. if entryAt dir es p = None then ?m p else None)"
      "historyView db1 = loopSpec w dir logDir es ?m (historyView db)" "historyInv dir db1"
    using refreshEntries_spec [OF dir nf inv assms(5,6), of logDir ?m] by (simp_all add: r)
  define db' where "db' = (if list_ex (\<lambda>r. stale (hj_json r) \<noteq> None) (h_jobs db)
      then deleteJobs (\<lambda>r. stale (hj_json r) \<noteq> None) db1 else db1)"
  have none: "stale p = None" if "\<not> list_ex (\<lambda>r. stale (hj_json r) \<noteq> None) (h_jobs db)" for p
  proof (cases "find (\<lambda>r. hj_json r = p) (h_jobs db)")
    case None
    then show ?thesis by (simp add: loop(1) historyView_def)
  next
    case (Some r)
    then show ?thesis using that by (auto simp: list_ex_iff dest!: find_SomeD)
  qed
  have view: "historyView db' = (\<lambda>p. if stale p \<noteq> None then None else historyView db1 p)"
    using deleteJobs_view(1) [OF loop(3), of "\<lambda>p. stale p \<noteq> None"] none by (auto simp: db'_def)
  show ?thesis
  proof (rule that)
    show "refreshLocked w dir logDir refreshOptions db = (None, db')"
      using loadIndexedMtimes_view [OF inv dir nf] es nf
      by (simp add: refreshLocked_def db'_def r refreshOptions_def [symmetric] noFaults_def)
        (simp add: refreshOptions_def)
    show "historyView db' = refreshSpec w dir logDir es (historyView db)"
    proof
      fix p
      show "historyView db' p = refreshSpec w dir logDir es (historyView db) p"
        unfolding view loop(1,2)
        by (cases "historyView db p") (auto simp: loopSpec_def refreshSpec_def split: option.splits sum.splits)
    qed
    show "historyInv dir db'"
      using deleteJobs_view(2) [OF loop(3), of "\<lambda>p. stale p \<noteq> None"] loop(3) by (simp add: db'_def)
  qed
qed

text \<open>
  C24: A refresh of the history index refines its specification: afterwards the index, read as a map
  from job file to row and detections, holds for every job file of the directory what the file
  says (nothing when the file is not an acceptable job document), keeps the entry of a file whose modification time is
  the recorded one or that cannot be inspected, and holds nothing else; the keys stay unique and every detection belongs to a job.
\<close>

theorem refresh_refines:
  assumes "cleanDir dir" and "noFaults w" and "historyInv dir db" and "hw_ReadDir w = Inr es"
    and "\<forall>x \<in> set es. goodComp (de_name (fst x))" and "distinct (map (de_name \<circ> fst) es)"
  shows "fst (refresh w dir logDir db) = None \<and>
    historyView (snd (refresh w dir logDir db)) = refreshSpec w dir logDir es (historyView db) \<and>
    historyInv dir (snd (refresh w dir logDir db))"
  by (rule refreshLocked_spec [OF assms, of logDir]) (simp add: refresh_def refreshOptions_def [symmetric])

definition exampleDoc :: indexedJobDocument where
  "exampleDoc = \<lparr> doc_Version = 3, doc_JobID = ''manual-1700000001'', doc_Type = ''manual'', doc_Status = ''finished'',
     doc_Result = ''clean'', doc_Action = ''warn'', doc_StartedAt = 1700000001, doc_FinishedAt = Some 1700000009,
     doc_UserID = ''abcdefg1'', doc_DetectionLog = None \<rparr>"

definition exampleWorld :: historyWorld where
  "exampleWorld = \<lparr> hw_ReadFile = (\<lambda>_. Inr []), hw_Unmarshal = (\<lambda>_. Inr exampleDoc), hw_Stat = (\<lambda>_. Inl (ErrNotExist [])),
     hw_ReadDir = Inr [(\<lparr> de_name = ''manual-1700000001.json'', de_mode = ModeRegular \<rparr>,
                        Inr \<lparr> fi_mode = ModeRegular, fi_size = 9, fi_mtime = 62135596800 * Second + 7 \<rparr>)],
     hw_fault = (\<lambda>_. None), hw_now = 1 \<rparr>"

definition exampleDB :: historyDB where
  "exampleDB = \<lparr> h_versions = [3],
     h_jobs = [\<lparr> hj_id = ''cron-1600000000'', hj_type = ''cron'', hj_status = ''finished'', hj_result = ''clean'',
       hj_action = ''warn'', hj_started = 1600000000, hj_finished = None, hj_user = ''abcdefg1'',
       hj_json = ''/jobs/cron-1600000000.json'', hj_mtime = 3, hj_indexed = 1 \<rparr>],
     h_detections = [] \<rparr>"

lemma exampleDir: "cleanDir ''/jobs''"
  unfolding cleanDir_def by (rule exI [of _ "[''jobs'']"]) (simp add: goodComp_def absPath_def)

theorem refresh_refines_witness:
  "historyView (snd (refresh exampleWorld ''/jobs'' ''/logs'' exampleDB)) ''/jobs/cron-1600000000.json'' = None \<and>
   historyView (snd (refresh exampleWorld ''/jobs'' ''/logs'' exampleDB)) ''/jobs/manual-1700000001.json'' =
     Some (jobRowOf exampleWorld ''/jobs/manual-1700000001.json'' 7 exampleDoc, [])"
proof -
  let ?es = "[(\<lparr> de_name = ''manual-1700000001.json'', de_mode = ModeRegular \<rparr> :: direntry,
      Inr \<lparr> fi_mode = ModeRegular, fi_size = 9, fi_mtime = 62135596800 * Second + 7 \<rparr> :: fileinfo res)]"
  have join: "filepath_Join ''/jobs'' ''cron-1600000000.json'' = ''/jobs/cron-1600000000.json''" by code_simp
  have id: "version3JobIDPattern ''cron-1600000000''" by code_simp
  have user: "validUserID ''abcdefg1''" by code_simp
  have inv: "historyInv ''/jobs'' exampleDB" by (simp add: historyInv_def exampleDB_def join id user)
  have nf: "noFaults exampleWorld" by (simp add: noFaults_def exampleWorld_def)
  have es: "hw_ReadDir exampleWorld = Inr ?es" by (simp add: exampleWorld_def)
  have spec: "historyView (snd (refresh exampleWorld ''/jobs'' ''/logs'' exampleDB)) =
      refreshSpec exampleWorld ''/jobs'' ''/logs'' ?es (historyView exampleDB)"
    using refresh_refines [OF exampleDir nf inv es, of "''/logs''"] by (simp add: goodComp_def)
  have "refreshSpec exampleWorld ''/jobs'' ''/logs'' ?es (historyView exampleDB) ''/jobs/cron-1600000000.json'' = None" by code_simp
  moreover have "refreshSpec exampleWorld ''/jobs'' ''/logs'' ?es (historyView exampleDB) ''/jobs/manual-1700000001.json'' =
     Some (jobRowOf exampleWorld ''/jobs/manual-1700000001.json'' 7 exampleDoc, [])" by code_simp
  ultimately show ?thesis using spec by simp
qed

section \<open>Reading back what the scan script logs\<close>

text \<open>
  The lines of one detection as \<^verbatim>\<open>log_detections_from_output\<close> in \<^verbatim>\<open>scan_once.sh\<close> writes them, each after the time.
\<close>

definition detectionBlock :: "string \<Rightarrow> string \<Rightarrow> string \<Rightarrow> detectionItem \<Rightarrow> string list" where
  "detectionBlock stamp source_dir quarantine_dir item = map (\<lambda>text. stamp @ '' '' @ text)
     [''------------ ClamAV Detection ------------'',
      ''[DETECTION] Source file      : '' @ det_SourceFile item,
      ''[DETECTION] Source directory : '' @ source_dir,
      ''[DETECTION] Detection reason : '' @ det_Reason item,
      ''[DETECTION] Quarantine dir   : '' @ quarantine_dir,
      ''------------------------------------------'']"

definition silentLine :: "string \<Rightarrow> bool" where
  "silentLine line \<longleftrightarrow> \<not> Contains line ''Source file'' \<and> \<not> Contains line ''Detection reason''"

definition readableValue :: "string \<Rightarrow> bool" where
  "readableValue v \<longleftrightarrow> v \<noteq> [] \<and> CHR '':'' \<notin> set v \<and> spaceLen v = 0 \<and> spaceEnd v = 0"

text \<open>A block whose lines can be told apart: only the line of the source file and that of the reason carry the labels.\<close>

definition readableBlock :: "string \<Rightarrow> string \<Rightarrow> string \<Rightarrow> detectionItem \<Rightarrow> bool" where
  "readableBlock stamp source_dir quarantine_dir item \<longleftrightarrow>
     readableValue (det_SourceFile item) \<and> readableValue (det_Reason item) \<and>
     (let ls = detectionBlock stamp source_dir quarantine_dir item in
      list_all (\<lambda>l. LF \<notin> set l) ls \<and> silentLine (ls ! 0) \<and> silentLine (ls ! 2) \<and> silentLine (ls ! 4) \<and> silentLine (ls ! 5) \<and>
      \<not> Contains (ls ! 3) ''Source file'')"

lemma Contains_append1: "Contains t p \<Longrightarrow> Contains (s @ t) p"
proof (induction s)
  case (Cons c s)
  then show ?case by (cases "s @ t") auto
qed simp

lemma detectionLineValue_last:
  "readableValue v \<Longrightarrow> detectionLineValue (a @ '': '' @ v) = v"
  by (simp add: detectionLineValue_def readableValue_def LastIndexByte_append TrimSpace_id)

lemma labelled_value:
  "readableValue v \<Longrightarrow> detectionLineValue (stamp @ '' [DETECTION] Source file      : '' @ v) = v"
  "readableValue v \<Longrightarrow> detectionLineValue (stamp @ '' [DETECTION] Detection reason : '' @ v) = v"
  using detectionLineValue_last [of v "stamp @ '' [DETECTION] Source file      ''"]
    detectionLineValue_last [of v "stamp @ '' [DETECTION] Detection reason ''"] by simp_all

lemma labelled_line:
  "Contains (stamp @ '' [DETECTION] Source file      : '' @ v) ''Source file''"
  "Contains (stamp @ '' [DETECTION] Detection reason : '' @ v) ''Detection reason''"
  by (rule Contains_append1, simp add: HasPrefix_def)+

lemma parseDetections_silent: "silentLine l \<Longrightarrow> parseDetections c (l # ls) = parseDetections c ls"
  by (simp add: silentLine_def)

lemma parseDetections_block:
  assumes "readableBlock stamp sd qd item"
  shows "parseDetections c (detectionBlock stamp sd qd item @ ls) = flushItem c @ parseDetections item ls"
proof -
  let ?b = "detectionBlock stamp sd qd item"
  have silent: "silentLine (?b ! 0)" "silentLine (?b ! 2)" "silentLine (?b ! 4)" "silentLine (?b ! 5)"
    and reason: "\<not> Contains (?b ! 3) ''Source file''"
    and v: "readableValue (det_SourceFile item)" "readableValue (det_Reason item)"
    using assms by (simp_all add: readableBlock_def Let_def)
  have b: "?b = [?b ! 0, ?b ! 1, ?b ! 2, ?b ! 3, ?b ! 4, ?b ! 5]" by (simp add: detectionBlock_def numeral_eq_Suc)
  have b1: "?b ! 1 = stamp @ '' [DETECTION] Source file      : '' @ det_SourceFile item"
    and b3: "?b ! 3 = stamp @ '' [DETECTION] Detection reason : '' @ det_Reason item"
    by (simp_all add: detectionBlock_def numeral_eq_Suc)
  have source: "parseDetections c' (?b ! 1 # ls') =
      flushItem c' @ parseDetections (emptyItem\<lparr>det_SourceFile := det_SourceFile item\<rparr>) ls'" for c' ls'
    using labelled_line(1) labelled_value(1) [OF v(1)] unfolding b1 by simp
  have why: "parseDetections c' (?b ! 3 # ls') = parseDetections (c'\<lparr>det_Reason := det_Reason item\<rparr>) ls'" for c' ls'
    using reason labelled_line(2) labelled_value(2) [OF v(2)] unfolding b3 by simp
  have item: "emptyItem\<lparr>det_SourceFile := det_SourceFile item, det_Reason := det_Reason item\<rparr> = item"
    by (simp add: emptyItem_def)
  have "parseDetections c (?b @ ls) =
      parseDetections c (?b ! 0 # ?b ! 1 # ?b ! 2 # ?b ! 3 # ?b ! 4 # ?b ! 5 # ls)" by (subst b) simp
  then show ?thesis using item by (simp only: parseDetections_silent silent source why)
qed

lemma flush_readable: "readableBlock stamp sd qd item \<Longrightarrow> flushItem item = [item]"
  by (simp add: readableBlock_def readableValue_def flushItem_def)

lemma parseDetections_blocks:
  "\<forall>(stamp, sd, qd, item) \<in> set bs. readableBlock stamp sd qd item \<Longrightarrow>
   parseDetections c (concat (map (\<lambda>(stamp, sd, qd, item). detectionBlock stamp sd qd item) bs) @ [[]]) =
     flushItem c @ map (\<lambda>(stamp, sd, qd, item). item) bs"
  by (induction bs arbitrary: c) (auto simp: parseDetections_block flush_readable)

lemma Split_lines: "list_all (\<lambda>l. LF \<notin> set l) ls \<Longrightarrow> Split (concat (map (\<lambda>l. l @ [LF]) ls)) LF = ls @ [[]]"
  by (induction ls) (auto simp: Split_append_sep Split_no_sep)

text \<open>
  Reading a detection log back gives the detections that the scan script wrote, in order, whenever the
  paths and reasons hold no colon or line break and have no outer space and no other line of the block repeats a label.
\<close>

theorem detection_log_roundtrip:
  assumes "\<forall>(stamp, sd, qd, item) \<in> set bs. readableBlock stamp sd qd item"
  shows "parse_detection_log
      (concat (map (\<lambda>l. l @ [LF]) (concat (map (\<lambda>(stamp, sd, qd, item). detectionBlock stamp sd qd item) bs)))) =
    map (\<lambda>(stamp, sd, qd, item). item) bs"
proof -
  have "list_all (\<lambda>l. LF \<notin> set l) (concat (map (\<lambda>(stamp, sd, qd, item). detectionBlock stamp sd qd item) bs))"
    using assms by (induction bs) (auto simp: readableBlock_def Let_def list_all_iff)
  then show ?thesis
    using parseDetections_blocks [OF assms, of emptyItem]
    by (simp add: parse_detection_log_def Split_lines) (simp add: flushItem_def emptyItem_def)
qed

theorem detection_log_roundtrip_witness:
  "parse_detection_log (concat (map (\<lambda>l. l @ [LF])
      (detectionBlock ''2026-08-24 10:00:00'' ''/scan'' ''/quarantine''
        \<lparr> det_SourceFile = ''/scan/eicar.txt'', det_Reason = ''Eicar-Test-Signature'' \<rparr>))) =
    [\<lparr> det_SourceFile = ''/scan/eicar.txt'', det_Reason = ''Eicar-Test-Signature'' \<rparr>]"
proof -
  let ?i = "\<lparr> det_SourceFile = ''/scan/eicar.txt'', det_Reason = ''Eicar-Test-Signature'' \<rparr>"
  have "readableBlock ''2026-08-24 10:00:00'' ''/scan'' ''/quarantine'' ?i" by code_simp
  then show ?thesis
    using detection_log_roundtrip [of "[(''2026-08-24 10:00:00'', ''/scan'', ''/quarantine'', ?i)]"] by simp
qed

text \<open>
  The value of a line is taken from behind its last colon, so the index records a path that holds a colon
  only in part: for the file \<^verbatim>\<open>/scan/a:b\<close> the record names \<^verbatim>\<open>b\<close>.
\<close>

theorem detection_path_with_colon_is_cut:
  "parse_detection_log (concat (map (\<lambda>l. l @ [LF])
      (detectionBlock ''2026-08-24 10:00:00'' ''/scan'' ''/quarantine''
        \<lparr> det_SourceFile = ''/scan/a:b'', det_Reason = ''Eicar-Test-Signature'' \<rparr>))) =
    [\<lparr> det_SourceFile = ''b'', det_Reason = ''Eicar-Test-Signature'' \<rparr>]"
  by code_simp

section \<open>Retry delays\<close>

lemma retryLoop_pow:
  "0 < d \<Longrightarrow> d \<le> historyWatchMaxRetryInterval \<Longrightarrow> retryLoop n d = min historyWatchMaxRetryInterval (d * 2 ^ n)"
proof (induction n arbitrary: d)
  case (Suc n)
  have big: "x \<le> x * 2 ^ k" if "0 < x" for x :: int and k :: nat using that by (simp add: mult_le_cancel_left1)
  show ?case
  proof (cases "d * 2 > historyWatchMaxRetryInterval")
    case True
    have "retryLoop n historyWatchMaxRetryInterval = historyWatchMaxRetryInterval" by (cases n) simp_all
    moreover have "historyWatchMaxRetryInterval \<le> d * 2 * 2 ^ n" using True big [of "d * 2" n] Suc.prems by linarith
    ultimately show ?thesis using True Suc.prems by (auto simp: mult_ac min_def)
  next
    case False
    then show ?thesis using Suc.IH [of "d * 2"] Suc.prems by (auto simp: mult_ac)
  qed
qed simp

text \<open>
  The delay before the next attempt to watch the job directory doubles from five seconds with every failure in a row and
  never exceeds one minute.
\<close>

theorem historyWatchRetryDelay_exponential:
  "historyWatchRetryDelay failureCount = min (60 * Second) (5 * Second * 2 ^ nat (max 1 failureCount - 1))"
  unfolding historyWatchRetryDelay_def Let_def
  by (subst retryLoop_pow) (simp_all add: historyWatchRetryInterval_def historyWatchMaxRetryInterval_def Second_def max_def)

end
