(* ===== verification/User_Admin.thy ===== *)
theory User_Admin
  imports Auth_Handlers Cron_Handlers
begin

text \<open>
  The administration of users (\<^verbatim>\<open>server/users.go\<close>): listing, creation through the registration handler, and
  changes of role, status, TimeDock account and password, which may disable the user's cron rules. Deletion is in
  \<^verbatim>\<open>Account_Deletion\<close>. A change reads the row, decides, and only then writes all columns: \<open>patchCheck\<close> is what
  happens up to the decision and \<open>patchApply\<close> the statement, so that two requests can interleave.
\<close>

section \<open>Requests\<close>

record userPatchRequest =
  patch_Role :: "string option"
  patch_Status :: "string option"
  patch_TimeDockAccount :: "string option"
  patch_Password :: "string option"

record userChange =
  ch_id :: string
  ch_role :: string
  ch_status :: string
  ch_account :: string
  ch_accountChanged :: bool
  ch_password :: "string option"

section \<open>Deciding\<close>

text \<open>An error of the query counts as zero administrators found, and the request is refused.\<close>

definition lastOrUnknown :: "authWorld \<Rightarrow> string \<Rightarrow> userDB \<Rightarrow> bool" where
  "lastOrUnknown w username db \<longleftrightarrow> aw_faults w PatchLastAdmin \<noteq> None \<or> isLastActiveAdmin username db"

definition patchRole :: "authWorld \<Rightarrow> string option \<Rightarrow> string \<Rightarrow> string \<Rightarrow> userDB \<Rightarrow> response + string" where
  "patchRole w asked username role db =
     (case asked of
        None \<Rightarrow> Inr role
      | Some text \<Rightarrow>
          let next = TrimSpace text in
          if next \<noteq> ''user'' \<and> next \<noteq> ''admin''
          then Inl (writeError StatusBadRequest (ErrText ''role must be user or admin''))
          else if role = ''admin'' \<and> next \<noteq> ''admin'' \<and> lastOrUnknown w username db
          then Inl (writeError StatusConflict (ErrText ''the last active administrator cannot be demoted''))
          else Inr next)"

definition patchStatus :: "authWorld \<Rightarrow> string option \<Rightarrow> string \<Rightarrow> string \<Rightarrow> string \<Rightarrow> userDB \<Rightarrow> response + string" where
  "patchStatus w asked username role status db =
     (case asked of
        None \<Rightarrow> Inr status
      | Some text \<Rightarrow>
          let next = TrimSpace text in
          if next \<noteq> ''active'' \<and> next \<noteq> ''disabled''
          then Inl (writeError StatusBadRequest (ErrText ''status must be active or disabled''))
          else if next = ''disabled'' \<and> role = ''admin'' \<and> lastOrUnknown w username db
          then Inl (writeError StatusConflict (ErrText ''the last active administrator cannot be disabled''))
          else Inr next)"

definition patchPassword :: "authWorld \<Rightarrow> string option \<Rightarrow> string option \<Rightarrow> reply + string option" where
  "patchPassword w asked password =
     (case asked of
        None \<Rightarrow> Inr password
      | Some text \<Rightarrow>
          if text = [] then Inr None
          else case server_hashPassword (aw_IDKey w) (aw_slots w) (aw_salt w) text of
            Inl ErrArgon2Busy \<Rightarrow> Inl writeArgon2Busy
          | Inl e \<Rightarrow> Inl (plain (writeError StatusBadRequest e))
          | Inr hash \<Rightarrow> Inr (Some hash))"

definition patchCheck :: "authWorld \<Rightarrow> userPatchRequest res \<Rightarrow> string \<Rightarrow> userDB \<Rightarrow> reply + userChange" where
  "patchCheck w body username db =
     (case body of
        Inl e \<Rightarrow> Inl (plain (writeError StatusBadRequest e))
      | Inr req \<Rightarrow>
     (case (if aw_faults w PatchQuery \<noteq> None then None else userByName username db) of
        None \<Rightarrow> Inl (plain (writeError StatusNotFound (ErrText ''user not found'')))
      | Some u \<Rightarrow>
     (case patchRole w (patch_Role req) username (usr_role u) db of
        Inl r \<Rightarrow> Inl (plain r)
      | Inr role \<Rightarrow>
     (case patchStatus w (patch_Status req) username role (usr_status u) db of
        Inl r \<Rightarrow> Inl (plain r)
      | Inr status \<Rightarrow>
     (case (case patch_TimeDockAccount req of
              None \<Rightarrow> Inr (usr_timedock u)
            | Some a \<Rightarrow> normalizeTimeDockAccount (aw_isHan w) a) of
        Inl e \<Rightarrow> Inl (plain (writeError StatusBadRequest e))
      | Inr account \<Rightarrow>
     (case patchPassword w (patch_Password req) (usr_password u) of
        Inl rp \<Rightarrow> Inl rp
      | Inr password \<Rightarrow>
          Inr \<lparr> ch_id = usr_id u, ch_role = role, ch_status = status, ch_account = account,
                ch_accountChanged = (account \<noteq> usr_timedock u), ch_password = password \<rparr>))))))"

section \<open>Applying\<close>

text \<open>The schema checks the role and the status; \<^verbatim>\<open>revoked_at\<close> is kept where it is already set.\<close>

definition applyChange :: "userChange \<Rightarrow> int \<Rightarrow> userRow \<Rightarrow> userRow" where
  "applyChange c now u =
     u\<lparr>usr_role := ch_role c, usr_status := ch_status c, usr_timedock := ch_account c,
       usr_password := ch_password c, usr_updated := now\<rparr>"

definition revokeUser :: "string \<Rightarrow> int \<Rightarrow> userDB \<Rightarrow> userDB" where
  "revokeUser userID now db =
     updateSessions (\<lambda>x. ses_user x = userID \<and> ses_revoked x = None) (\<lambda>x. x\<lparr>ses_revoked := Some now\<rparr>) db"

definition patchApply :: "authWorld \<Rightarrow> bool \<Rightarrow> userChange \<Rightarrow> int \<Rightarrow> userDB \<Rightarrow> userDB res" where
  "patchApply w passwordGiven c now db =
     (case aw_faults w PatchUpdate of
        Some e \<Rightarrow> Inl e
      | None \<Rightarrow>
          let db1 = updateUser (ch_id c) (applyChange c now) db in
          Inr (if (ch_status c = ''disabled'' \<or> passwordGiven) \<and> aw_faults w PatchRevoke = None
               then revokeUser (ch_id c) now db1 else db1))"

record adminState =
  ad_db :: userDB
  ad_cron :: "string res"

definition disableCron :: "cronWorld \<Rightarrow> string \<Rightarrow> string \<Rightarrow> adminState \<Rightarrow> goerror option \<times> adminState" where
  "disableCron cw tmpPath userID st =
     (case disableCronRulesForUser cw tmpPath userID (ad_cron st) of (e, file) \<Rightarrow> (e, st\<lparr>ad_cron := file\<rparr>))"

definition patchAdminUser ::
    "authWorld \<Rightarrow> cronWorld \<Rightarrow> string \<Rightarrow> config \<Rightarrow> userPatchRequest res \<Rightarrow> string \<Rightarrow> int \<Rightarrow> adminState \<Rightarrow>
     reply \<times> adminState" where
  "patchAdminUser w cw tmpPath cfg body username now st =
     (case patchCheck w body username (ad_db st) of
        Inl rp \<Rightarrow> (rp, st)
      | Inr c \<Rightarrow>
     (case patchApply w (case body of Inl _ \<Rightarrow> False | Inr req \<Rightarrow> patch_Password req \<noteq> None) c now (ad_db st) of
        Inl e \<Rightarrow> (plain (writeError StatusInternalServerError e), st)
      | Inr db1 \<Rightarrow>
          let st1 = st\<lparr>ad_db := db1\<rparr>;
              disable = ch_status c = ''disabled'' \<or> (IsTimeDock cfg \<and> ch_accountChanged c);
              done = plain (writeJSON StatusOK
                (JObject [(''status'', JString ''success''), (''username'', JString username),
                  (''role'', JString (ch_role c)), (''timedock_account'', JString (ch_account c))])) in
          if \<not> disable then (done, st1)
          else case disableCron cw tmpPath (ch_id c) st1 of
            (Some e, st2) \<Rightarrow> (plain (writeError StatusInternalServerError e), st2)
          | (None, st2) \<Rightarrow> (done, st2)))"

section \<open>Listing and creating\<close>

definition userRecord :: "userRow \<Rightarrow> json" where
  "userRecord u =
     JObject [(''username'', JString (usr_username u)), (''role'', JString (usr_role u)), (''status'', JString (usr_status u)),
       (''timedock_account'', JString (usr_timedock u)),
       (''password_set'', JBool (usr_password u \<noteq> None \<and> usr_password u \<noteq> Some [])),
       (''created_at'', JNumber (usr_created u)), (''updated_at'', JNumber (usr_updated u))]"

definition handleAdminUsers ::
    "authWorld \<Rightarrow> config \<Rightarrow> appConfig \<Rightarrow> httpMethod \<Rightarrow> actor option \<Rightarrow> string \<Rightarrow> string \<Rightarrow> string option \<Rightarrow>
     authRequest res \<Rightarrow> string res list \<Rightarrow> int \<Rightarrow> userDB \<Rightarrow> reply \<times> userDB" where
  "handleAdminUsers w cfg appCfg method ctx origin host cookie body candidates now db =
     (case requireAdminActor ctx of
        Inl e \<Rightarrow> (plain (writeError StatusForbidden e), db)
      | Inr _ \<Rightarrow>
          if method = MethodPost
          then handleAuthRegister w cfg appCfg method origin host cookie body candidates now db
          else if method \<noteq> MethodGet then (plain methodNotAllowed, db)
          else case aw_faults w ListQuery of
            Some e \<Rightarrow> (plain (writeError StatusInternalServerError e), db)
          | None \<Rightarrow>
              (plain (writeJSON StatusOK (JObject [(''status'', JString ''success''),
                 (''users'', JArray (map userRecord
                    (sortSlice (\<lambda>a b. strLess (usr_username a) (usr_username b)) (db_users db))))])), db))"

definition userDeletionStatus :: "goerror \<Rightarrow> nat" where
  "userDeletionStatus e =
     (if e = ErrUserBusy \<or> e = ErrLastAdmin then StatusConflict
      else if e = ErrNoRows then StatusNotFound else StatusInternalServerError)"

end
