(* ===== verification/User_Statements.thy ===== *)
theory User_Statements
  imports User_Admin
begin

text \<open>
  Every change of the user database is one of a few SQL statements. This theory lists them, gives the
  invariant of the tables that each of them keeps, and shows what they can do to a session: the handlers of
  \<^verbatim>\<open>auth.go\<close>, \<^verbatim>\<open>users.go\<close> and \<^verbatim>\<open>cleanup.go\<close> are sequences of such statements, so what holds of all sequences holds
  of the handlers, however they interleave.
\<close>

section \<open>The invariant of the tables\<close>

definition userOK :: "userRow \<Rightarrow> bool" where
  "userOK u \<longleftrightarrow> validUserID (usr_id u) \<and> usr_role u \<in> {''user'', ''admin''} \<and>
     usr_status u \<in> {''active'', ''disabled'', ''deleting''}"

definition sessionOK :: "sessionRow \<Rightarrow> bool" where
  "sessionOK x \<longleftrightarrow> ses_absolute x = ses_created x + sessionAbsoluteTTL \<and> ses_idle x \<le> ses_absolute x \<and>
     ses_idle x \<le> ses_lastSeen x + sessionIdleTTL"

definition dbInv :: "userDB \<Rightarrow> bool" where
  "dbInv db \<longleftrightarrow>
     distinct (map usr_id (db_users db)) \<and> distinct (map usr_username (db_users db)) \<and>
     (\<forall>u \<in> set (db_users db). userOK u) \<and>
     distinct (map ses_hash (db_sessions db)) \<and> distinct (map ses_id (db_sessions db)) \<and>
     (\<forall>x \<in> set (db_sessions db). sessionOK x \<and> ses_id x < db_nextSession db \<and> ses_user x \<in> usr_id ` set (db_users db))"

lemma dbInv_empty: "dbInv emptyDB"
  by (simp add: dbInv_def emptyDB_def)

lemma userByID_iff:
  assumes "dbInv db"
  shows "userByID i db = Some u \<longleftrightarrow> u \<in> set (db_users db) \<and> usr_id u = i"
proof -
  have "distinct (map usr_id us) \<Longrightarrow> find (\<lambda>u. usr_id u = i) us = Some u \<longleftrightarrow> u \<in> set us \<and> usr_id u = i" for us
    by (induction us) auto
  then show ?thesis using assms by (simp add: userByID_def dbInv_def)
qed

lemma userByName_iff:
  assumes "dbInv db"
  shows "userByName n db = Some u \<longleftrightarrow> u \<in> set (db_users db) \<and> usr_username u = n"
proof -
  have "distinct (map usr_username us) \<Longrightarrow> find (\<lambda>u. usr_username u = n) us = Some u \<longleftrightarrow> u \<in> set us \<and> usr_username u = n" for us
    by (induction us) auto
  then show ?thesis using assms by (simp add: userByName_def dbInv_def)
qed

lemma same_user:
  "dbInv db \<Longrightarrow> u \<in> set (db_users db) \<Longrightarrow> v \<in> set (db_users db) \<Longrightarrow> usr_id u = usr_id v \<longleftrightarrow> u = v"
  by (auto simp: dbInv_def distinct_map dest: inj_onD)

lemma same_username:
  "dbInv db \<Longrightarrow> u \<in> set (db_users db) \<Longrightarrow> v \<in> set (db_users db) \<Longrightarrow> usr_username u = usr_username v \<longleftrightarrow> u = v"
  by (auto simp: dbInv_def distinct_map dest: inj_onD)

section \<open>Statements\<close>

datatype statement =
    RefreshSession nat int
  | InsertUser userRow
  | InsertSession string string int
  | RevokeHash string int
  | SetPassword string string int
  | RevokeAll string int
  | PatchUser userChange int
  | RevokeLive string int
  | MarkDeleting string int
  | DeleteUserRow string
  | DeleteExpired int

fun exec :: "statement \<Rightarrow> userDB \<Rightarrow> userDB" where
  "exec (RefreshSession i now) db = updateSessions (\<lambda>y. ses_id y = i) (refreshSession now) db"
| "exec (InsertUser row) db = (case insertUser row db of Inl _ \<Rightarrow> db | Inr db1 \<Rightarrow> db1)"
| "exec (InsertSession hash u now) db = (case insertSession hash u now db of Inl _ \<Rightarrow> db | Inr db1 \<Rightarrow> db1)"
| "exec (RevokeHash hash now) db = updateSessions (\<lambda>x. ses_hash x = hash) (\<lambda>x. x\<lparr>ses_revoked := Some now\<rparr>) db"
| "exec (SetPassword u hash now) db = updateUser u (\<lambda>r. r\<lparr>usr_password := Some hash, usr_updated := now\<rparr>) db"
| "exec (RevokeAll u now) db = updateSessions (\<lambda>x. ses_user x = u) (\<lambda>x. x\<lparr>ses_revoked := Some now\<rparr>) db"
| "exec (PatchUser c now) db = updateUser (ch_id c) (applyChange c now) db"
| "exec (RevokeLive u now) db = revokeUser u now db"
| "exec (MarkDeleting u now) db = updateUser u (\<lambda>r. r\<lparr>usr_status := ''deleting'', usr_updated := now\<rparr>) db"
| "exec (DeleteUserRow u) db = deleteUserRow u db"
| "exec (DeleteExpired now) db = sessionJanitor (\<lambda>_. None) now db"

text \<open>What the code has checked before it runs a statement.\<close>

fun checkedStatement :: "statement \<Rightarrow> bool" where
  "checkedStatement (InsertUser row) = (usr_status row = ''active'')"
| "checkedStatement (PatchUser c now) =
     (ch_role c \<in> {''user'', ''admin''} \<and> ch_status c \<in> {''active'', ''disabled'', ''deleting''})"
| "checkedStatement _ = True"

fun issues :: "string \<Rightarrow> statement \<Rightarrow> bool" where
  "issues h (InsertSession hash u now) = (hash = h)"
| "issues h _ = False"

definition execAll :: "statement list \<Rightarrow> userDB \<Rightarrow> userDB" where
  "execAll ss db = foldl (\<lambda>db s. exec s db) db ss"

lemma execAll_simps [simp]:
  "execAll [] db = db" "execAll (s # ss) db = execAll ss (exec s db)" "execAll (ss @ ts) db = execAll ts (execAll ss db)"
  by (simp_all add: execAll_def)

section \<open>Statements keep the invariant\<close>

lemma updateUser_inv:
  assumes "dbInv db" and "\<And>u. usr_id (f u) = usr_id u" and "\<And>u. usr_username (f u) = usr_username u"
    and "\<And>u. userOK u \<Longrightarrow> userOK (f u)"
  shows "dbInv (updateUser i f db)"
proof -
  let ?g = "\<lambda>u. if usr_id u = i then f u else u"
  have keys: "map usr_id (map ?g us) = map usr_id us" "map usr_username (map ?g us) = map usr_username us" for us
    using assms(2,3) by simp_all
  have "usr_id ` set (map ?g us) = usr_id ` set us" for us using keys(1) [of us] by (metis set_map)
  moreover have "\<forall>u \<in> set (map ?g us). userOK u" if "\<forall>u \<in> set us. userOK u" for us
    using that assms(4) by auto
  ultimately show ?thesis
    using assms(1) keys unfolding dbInv_def updateUser_def by (simp del: map_map set_map) blast
qed

lemma updateSessions_inv:
  assumes "dbInv db" and "\<And>x. ses_id (f x) = ses_id x" and "\<And>x. ses_hash (f x) = ses_hash x"
    and "\<And>x. ses_user (f x) = ses_user x" and "\<And>x. sessionOK x \<Longrightarrow> sessionOK (f x)"
  shows "dbInv (updateSessions P f db)"
proof -
  let ?g = "\<lambda>x. if P x then f x else x"
  have "map ses_id (map ?g xs) = map ses_id xs" "map ses_hash (map ?g xs) = map ses_hash xs" for xs
    using assms(2,3) by simp_all
  then show ?thesis
    using assms(1,2,4,5) by (auto simp: dbInv_def updateSessions_def simp del: map_map)
qed

lemma sessionOK_refresh: "sessionOK x \<Longrightarrow> sessionOK (refreshSession now x)"
  by (simp add: sessionOK_def refreshSession_def)

lemma sessionOK_revoke: "sessionOK x \<Longrightarrow> sessionOK (x\<lparr>ses_revoked := r\<rparr>)"
  by (simp add: sessionOK_def)

lemma insertUser_inv:
  assumes "dbInv db" and "usr_status row = ''active''" and "insertUser row db = Inr db'"
  shows "dbInv db'"
proof -
  have "usr_id row \<notin> usr_id ` set (db_users db)" "usr_username row \<notin> usr_username ` set (db_users db)"
    "validUserID (usr_id row)" "usr_role row \<in> {''user'', ''admin''}" "db' = db\<lparr>db_users := db_users db @ [row]\<rparr>"
    using assms(3) by (auto simp: insertUser_def userByID_def userByName_def find_None_iff split: if_splits)
  then show ?thesis using assms(1,2) by (auto simp: dbInv_def userOK_def)
qed

lemma insertSession_inv:
  assumes "dbInv db" and "insertSession h u now db = Inr db'"
  shows "dbInv db'"
proof -
  have "h \<notin> ses_hash ` set (db_sessions db)" "u \<in> usr_id ` set (db_users db)"
    and db': "db' = db\<lparr>db_sessions := db_sessions db @
                  [\<lparr> ses_id = db_nextSession db, ses_hash = h, ses_user = u, ses_created = now,
                     ses_lastSeen = now, ses_idle = now + sessionIdleTTL,
                     ses_absolute = now + sessionAbsoluteTTL, ses_revoked = None \<rparr>],
                  db_nextSession := Suc (db_nextSession db)\<rparr>"
    using assms(2) by (auto simp: insertSession_def userByID_def list_ex_iff find_None_iff image_iff split: if_splits)
  then show ?thesis
    using assms(1) by (auto simp: dbInv_def sessionOK_def sessionIdleTTL_def sessionAbsoluteTTL_def less_Suc_eq)
qed

lemma filter_sessions_inv:
  "dbInv db \<Longrightarrow> dbInv (db\<lparr>db_sessions := filter P (db_sessions db)\<rparr>)"
  by (auto simp: dbInv_def distinct_map_filter)

lemma deleteUserRow_inv: "dbInv db \<Longrightarrow> dbInv (deleteUserRow i db)"
  by (auto simp: dbInv_def deleteUserRow_def distinct_map_filter image_iff)

lemma exec_inv: "dbInv db \<Longrightarrow> checkedStatement s \<Longrightarrow> dbInv (exec s db)"
proof (induction s db rule: exec.induct)
  case (2 row db)
  then show ?case by (auto split: sum.splits intro: insertUser_inv)
next
  case (3 hash u now db)
  then show ?case by (auto split: sum.splits intro: insertSession_inv)
qed (auto simp: refreshSession_def sessionOK_refresh [unfolded refreshSession_def] sessionOK_revoke revokeUser_def applyChange_def userOK_def
       sessionJanitor_def intro!: updateSessions_inv updateUser_inv deleteUserRow_inv filter_sessions_inv)

lemma execAll_inv: "dbInv db \<Longrightarrow> list_all checkedStatement ss \<Longrightarrow> dbInv (execAll ss db)"
  by (induction ss arbitrary: db) (auto intro: exec_inv)

section \<open>Revoked tokens\<close>

definition dead :: "string \<Rightarrow> userDB \<Rightarrow> bool" where
  "dead h db \<longleftrightarrow> (\<forall>x \<in> set (db_sessions db). ses_hash x = h \<longrightarrow> ses_revoked x \<noteq> None)"

lemma dead_exec: "dead h db \<Longrightarrow> \<not> issues h s \<Longrightarrow> dead h (exec s db)"
proof (induction s db rule: exec.induct)
  case (2 row db)
  then show ?case by (auto simp: dead_def insertUser_def split: sum.splits if_splits)
next
  case (3 hash u now db)
  then show ?case by (auto simp: dead_def insertSession_def split: sum.splits if_splits)
qed (auto simp: refreshSession_def revokeUser_def updateUser_def updateSessions_def deleteUserRow_def sessionJanitor_def dead_def
       split: if_splits)

lemma dead_execAll: "dead h db \<Longrightarrow> \<not> list_ex (issues h) ss \<Longrightarrow> dead h (execAll ss db)"
  by (induction ss arbitrary: db) (auto intro: dead_exec)

lemma dead_authRow: "dead h db \<Longrightarrow> authRow h now db = None"
  by (fastforce simp: dead_def authRow_def liveSession_def find_Some_iff split: option.splits)

end
