(* ===== verification/Results.thy ===== *)
theory Results
  imports History_Index Lookups
begin

text \<open>
  Results read from the history index: the pages of \<^verbatim>\<open>server/result_lookup.go\<close>, the detections and logs of one job, the
  statistics of \<^verbatim>\<open>server/history_statistics.go\<close>, and the clean-up of a user's results in \<^verbatim>\<open>server/cleanup.go\<close>. The local calendar
  (\<^verbatim>\<open>time.Date\<close>, \<^verbatim>\<open>AddDate\<close>, \<^verbatim>\<open>Format\<close>) is an argument.
\<close>

section \<open>Pages of results\<close>

record resultLogItem =
  item_id :: string
  item_type :: string
  item_date :: string
  item_result :: string
  item_action :: string

text \<open>\<^verbatim>\<open>ORDER BY started_at DESC, job_id DESC\<close>; text compares byte by byte.\<close>

definition newerJob :: "jobRow \<Rightarrow> jobRow \<Rightarrow> bool" where
  "newerJob a b \<longleftrightarrow> hj_started a > hj_started b \<or> hj_started a = hj_started b \<and> strLess (hj_id b) (hj_id a)"

definition jobsOf :: "string \<Rightarrow> historyDB \<Rightarrow> jobRow list" where
  "jobsOf userID db = filter (\<lambda>r. hj_user r = userID) (h_jobs db)"

definition resultItem :: "(int \<Rightarrow> string) \<Rightarrow> jobRow \<Rightarrow> resultLogItem" where
  "resultItem formatDate r =
     \<lparr> item_id = hj_id r, item_type = hj_type r, item_date = formatDate (hj_started r),
       item_result = hj_result r, item_action = hj_action r \<rparr>"

text \<open>\<open>None\<close> is the scope \<^verbatim>\<open>All\<close>.\<close>

definition readResultLogItems ::
    "historyWorld \<Rightarrow> (int \<Rightarrow> string) \<Rightarrow> resultScope option \<Rightarrow> string \<Rightarrow> historyDB \<Rightarrow> (resultLogItem list \<times> nat) res" where
  "readResultLogItems w formatDate scope userID db =
     atSite w CountJobs (atSite w SelectJobs
       (let rows = sortSlice newerJob (jobsOf userID db);
            page = (case scope of
                      None \<Rightarrow> rows
                    | Some sc \<Rightarrow> take (nat (scope_End sc - scope_Start sc + 1)) (drop (nat (scope_Start sc - 1)) rows))
        in Inr (map (resultItem formatDate) page, length (jobsOf userID db))))"

definition applyResultScope :: "'a list \<Rightarrow> resultScope option \<Rightarrow> 'a list" where
  "applyResultScope xs scope =
     (case scope of
        None \<Rightarrow> xs
      | Some sc \<Rightarrow>
          let start = nat (scope_Start sc - 1) in
          if start \<ge> length xs then []
          else let end' = (if scope_End sc > int (length xs) then length xs else nat (scope_End sc))
               in take (end' - start) (drop start xs))"

section \<open>One job\<close>

record detectionLookupResponse =
  det_JobID :: string
  det_Detections :: "detectionItem list"
  det_Original :: string
  det_Log :: string

definition readIndexedDetections :: "historyWorld \<Rightarrow> string \<Rightarrow> historyDB \<Rightarrow> detectionItem list res" where
  "readIndexedDetections w jobID db =
     atSite w SelectDetections
       (Inr (map dr_item (sortSlice (\<lambda>a b. dr_sequence a < dr_sequence b)
               (filter (\<lambda>d. dr_job d = jobID) (h_detections db)))))"

definition readJobLog :: "historyWorld \<Rightarrow> config \<Rightarrow> string \<Rightarrow> string res" where
  "readJobLog w cfg jobID =
     (case hw_ReadFile w (filepath_Join (LogDir cfg) (jobID @ ''.log'')) of
        Inl e \<Rightarrow> if is_not_exist e then Inr [] else Inl e
      | Inr data \<Rightarrow> Inr data)"

definition readDetectionResult ::
    "historyWorld \<Rightarrow> config \<Rightarrow> string \<Rightarrow> string \<Rightarrow> historyDB \<Rightarrow> detectionLookupResponse option res" where
  "readDetectionResult w cfg jobID userID db =
     (case hw_fault w OwnJob of
        Some e \<Rightarrow> Inl e
      | None \<Rightarrow>
     (case find (\<lambda>r. hj_id r = jobID \<and> hj_user r = userID) (h_jobs db) of
        None \<Rightarrow> Inr None
      | Some r \<Rightarrow>
          if Dir (hj_json r) \<noteq> Clean (JobsDir cfg)
          then Inl (ErrText ''indexed job path is outside jobs directory'')
          else bind_res (readIndexedDetections w jobID db) (\<lambda>detections.
            bind_res (readJobLog w cfg jobID) (\<lambda>logText.
              case hw_ReadFile w (filepath_Join (LogDir cfg) (''clamav_detection_'' @ jobID @ ''.log'')) of
                Inl e \<Rightarrow>
                  if is_not_exist e
                  then Inr (Some \<lparr> det_JobID = jobID, det_Detections = detections, det_Original = [], det_Log = logText \<rparr>)
                  else Inl e
              | Inr data \<Rightarrow>
                  Inr (Some \<lparr> det_JobID = jobID, det_Detections = detections, det_Original = data, det_Log = logText \<rparr>)))))"

definition detectionJSON :: "detectionItem \<Rightarrow> json" where
  "detectionJSON d =
     JObject [(''source_file'', JString (det_SourceFile d)), (''detection_reason'', JString (det_Reason d))]"

definition detectionResponseJSON :: "detectionLookupResponse \<Rightarrow> json" where
  "detectionResponseJSON r =
     JObject [(''job_id'', JString (det_JobID r)), (''detections'', JArray (map detectionJSON (det_Detections r))),
       (''original'', JString (det_Original r)), (''log'', JString (det_Log r))]"

text \<open>\<open>body\<close> is the decoded \<^verbatim>\<open>job_id\<close>.\<close>

definition handleDetectionResult ::
    "historyWorld \<Rightarrow> config \<Rightarrow> httpMethod \<Rightarrow> string res \<Rightarrow> actor option \<Rightarrow> historyDB \<Rightarrow> response" where
  "handleDetectionResult w cfg method body ctx db =
     (if method \<noteq> MethodPost then methodNotAllowed
      else case body of
        Inl e \<Rightarrow> writeError StatusBadRequest e
      | Inr text \<Rightarrow>
          let jobID = TrimSpace text in
          if \<not> version3JobIDPattern jobID then writeError StatusBadRequest (ErrText ''invalid job_id'')
          else case readDetectionResult w cfg jobID (ID (actorOrZero ctx)) db of
            Inl e \<Rightarrow> writeError StatusInternalServerError e
          | Inr None \<Rightarrow> writeJSON StatusOK JNull
          | Inr (Some r) \<Rightarrow> writeJSON StatusOK (detectionResponseJSON r))"

section \<open>Statistics\<close>

record historyStatisticsDay =
  day_unknown :: nat
  day_clean :: nat
  day_found :: nat
  day_error :: nat

definition zeroDay :: historyStatisticsDay where
  "zeroDay = \<lparr> day_unknown = 0, day_clean = 0, day_found = 0, day_error = 0 \<rparr>"

definition maxHistoryStatisticsScope :: int where "maxHistoryStatisticsScope = 31"

definition parseHistoryStatisticsScope :: "string \<Rightarrow> int res" where
  "parseHistoryStatisticsScope text0 =
     (let text = TrimSpace text0 in
      if text = [] then Inl (ErrText ''scope is required'')
      else case Atoi text of
        None \<Rightarrow> Inl (ErrText ''scope must be a positive integer between 1 and 31'')
      | Some scope \<Rightarrow>
          if scope < 1 \<or> scope > maxHistoryStatisticsScope
          then Inl (ErrText ''scope must be a positive integer between 1 and 31'') else Inr scope)"

text \<open>
  What the local calendar answers: the midnight that begins the day of a time, the same clock time some days on
  (\<^verbatim>\<open>AddDate\<close>), the Unix time and the date as text. The time of the request is also given in nanoseconds since the Unix epoch.
\<close>

record 't calendar =
  cal_midnight :: "'t \<Rightarrow> 't"
  cal_AddDate :: "'t \<Rightarrow> int \<Rightarrow> 't"
  cal_Unix :: "'t \<Rightarrow> int"
  cal_dateKey :: "'t \<Rightarrow> string"

definition dayWindow :: "'t calendar \<Rightarrow> int \<Rightarrow> 't \<Rightarrow> int \<Rightarrow> string \<times> int \<times> int" where
  "dayWindow cal nowNs first offset =
     (let dayStart = cal_AddDate cal first offset;
          dayEnd = cal_AddDate cal dayStart 1;
          endUnix = (if cal_Unix cal dayEnd * Second > nowNs then nowNs div Second + 1 else cal_Unix cal dayEnd)
      in (cal_dateKey cal dayStart, cal_Unix cal dayStart, endUnix))"

definition firstDay :: "'t calendar \<Rightarrow> int \<Rightarrow> 't \<Rightarrow> 't" where
  "firstDay cal scope now = cal_AddDate cal (cal_midnight cal now) (- (scope - 1))"

definition windows :: "'t calendar \<Rightarrow> int \<Rightarrow> 't \<Rightarrow> int \<Rightarrow> (string \<times> int \<times> int) list" where
  "windows cal scope now nowNs =
     map (\<lambda>offset. dayWindow cal nowNs (firstDay cal scope now) (int offset)) [0..<nat scope]"

text \<open>One branch of the query: \<^verbatim>\<open>GROUP BY result\<close> over a user's jobs of one day.\<close>

definition dayJobs :: "string \<Rightarrow> int \<Rightarrow> int \<Rightarrow> historyDB \<Rightarrow> jobRow list" where
  "dayJobs userID start end' db = filter (\<lambda>r. start \<le> hj_started r \<and> hj_started r < end') (jobsOf userID db)"

definition groupRows :: "string \<Rightarrow> jobRow list \<Rightarrow> (string \<times> string \<times> nat) list" where
  "groupRows dateKey rs =
     map (\<lambda>result. (dateKey, result, length (filter (\<lambda>r. hj_result r = result) rs))) (remdups (map hj_result rs))"

definition addCount :: "string \<Rightarrow> nat \<Rightarrow> historyStatisticsDay \<Rightarrow> historyStatisticsDay" where
  "addCount result n counts =
     (if result = ''clean'' then counts\<lparr>day_clean := day_clean counts + n\<rparr>
      else if result = ''found'' then counts\<lparr>day_found := day_found counts + n\<rparr>
      else if result = ''error'' then counts\<lparr>day_error := day_error counts + n\<rparr>
      else counts\<lparr>day_unknown := day_unknown counts + n\<rparr>)"

fun countRows ::
    "(string \<times> string \<times> nat) list \<Rightarrow> (string \<rightharpoonup> historyStatisticsDay) \<times> nat \<Rightarrow>
     (string \<rightharpoonup> historyStatisticsDay) \<times> nat" where
  "countRows [] s = s"
| "countRows ((dateKey, result, n) # rows) (days, total') =
     countRows rows
       (days(dateKey \<mapsto> addCount result n (case days dateKey of None \<Rightarrow> zeroDay | Some c \<Rightarrow> c)), total' + n)"

definition readHistoryStatistics ::
    "historyWorld \<Rightarrow> 't calendar \<Rightarrow> int \<Rightarrow> string \<Rightarrow> 't \<Rightarrow> int \<Rightarrow> historyDB \<Rightarrow> ((string \<rightharpoonup> historyStatisticsDay) \<times> nat) res" where
  "readHistoryStatistics w cal scope userID now nowNs db =
     atSite w StatisticsQuery
       (let ws = windows cal scope now nowNs in
        Inr (countRows (concat (map (\<lambda>(key, start, end'). groupRows key (dayJobs userID start end' db)) ws))
               (foldl (\<lambda>m (key, _). m(key \<mapsto> zeroDay)) Map.empty ws, 0)))"

section \<open>Removing a user's results\<close>

definition jobFiles :: "config \<Rightarrow> jobRow \<Rightarrow> string list" where
  "jobFiles cfg r =
     [hj_json r, filepath_Join (LogDir cfg) (hj_id r @ ''.log''),
      filepath_Join (LogDir cfg) (''clamav_detection_'' @ hj_id r @ ''.log'')]"

fun removeFiles :: "quarantineWorld \<Rightarrow> string list \<Rightarrow> nat \<Rightarrow> files \<Rightarrow> (nat \<times> goerror option) \<times> files" where
  "removeFiles w [] deleted fs = ((deleted, None), fs)"
| "removeFiles w (path # paths) deleted fs =
     (case osRemove w path fs of
        (None, fs1) \<Rightarrow> removeFiles w paths (Suc deleted) fs1
      | (Some e, fs1) \<Rightarrow>
          if is_not_exist e then removeFiles w paths deleted fs1 else ((deleted, Some e), fs1))"

definition cleanUserResults ::
    "historyWorld \<Rightarrow> quarantineWorld \<Rightarrow> config \<Rightarrow> string \<Rightarrow> historyDB \<times> files \<Rightarrow>
     (nat \<times> goerror option) \<times> historyDB \<times> files" where
  "cleanUserResults hw w cfg userID s =
     (case s of (db, fs) \<Rightarrow>
        let db1 = snd (refresh hw (JobsDir cfg) (LogDir cfg) db) in
        case hw_fault hw OwnedJobs of
          Some e \<Rightarrow> ((0, Some e), db1, fs)
        | None \<Rightarrow>
            (case removeFiles w (concat (map (jobFiles cfg) (jobsOf userID db1))) 0 fs of
               ((deleted, Some e), fs1) \<Rightarrow> ((deleted, Some e), db1, fs1)
             | ((deleted, None), fs1) \<Rightarrow>
                 (case hw_fault hw DeleteOwned of
                    Some e \<Rightarrow> ((deleted, Some e), db1, fs1)
                  | None \<Rightarrow> ((deleted, None), deleteJobs (\<lambda>r. hj_user r = userID) db1, fs1))))"

text \<open>\<^verbatim>\<open>clean_all=Y\<close> in the query or, failing that, in the body; \<^verbatim>\<open>EqualFold\<close> with one ASCII letter.\<close>

definition saysY :: "string \<Rightarrow> bool" where
  "saysY text \<longleftrightarrow> TrimSpace text = ''Y'' \<or> TrimSpace text = ''y''"

definition cleanAllRequested :: "string \<Rightarrow> string res \<Rightarrow> bool" where
  "cleanAllRequested query body \<longleftrightarrow>
     saysY query \<or> (case body of Inl _ \<Rightarrow> False | Inr text \<Rightarrow> saysY text)"

definition writeCleanResponse :: "nat \<Rightarrow> string \<Rightarrow> nat \<Rightarrow> goerror option \<Rightarrow> response" where
  "writeCleanResponse statusCode status deleted err =
     writeJSON statusCode (JObject ([(''status'', JString status), (''deleted'', JNumber (int deleted))] @
       omitEmpty [(''error'', JString (case err of None \<Rightarrow> [] | Some e \<Rightarrow> errText e))]))"

definition cleanReply :: "nat \<times> goerror option \<Rightarrow> response" where
  "cleanReply r =
     (case r of
        (deleted, Some e) \<Rightarrow> writeCleanResponse StatusInternalServerError ''failed'' deleted (Some e)
      | (deleted, None) \<Rightarrow> writeCleanResponse StatusOK ''success'' deleted None)"

definition handleResultsClean ::
    "historyWorld \<Rightarrow> quarantineWorld \<Rightarrow> config \<Rightarrow> httpMethod \<Rightarrow> string \<Rightarrow> string res \<Rightarrow> actor option \<Rightarrow>
     historyDB \<times> files \<Rightarrow> response \<times> historyDB \<times> files" where
  "handleResultsClean hw w cfg method query body ctx s =
     (if method \<noteq> MethodPost then (methodNotAllowed, s)
      else if \<not> cleanAllRequested query body
      then (writeCleanResponse StatusBadRequest ''failed'' 0 (Some (ErrText ''clean_all must be Y'')), s)
      else case cleanUserResults hw w cfg (ID (actorOrZero ctx)) s of (r, s1) \<Rightarrow> (cleanReply r, s1))"

definition handleQuarantineClean ::
    "quarantineWorld \<Rightarrow> config \<Rightarrow> direntry list res \<Rightarrow> httpMethod \<Rightarrow> string \<Rightarrow> string res \<Rightarrow> actor option \<Rightarrow>
     files \<Rightarrow> response \<times> files" where
  "handleQuarantineClean w cfg entries method query body ctx fs =
     (if method \<noteq> MethodPost then (methodNotAllowed, fs)
      else if \<not> cleanAllRequested query body
      then (writeCleanResponse StatusBadRequest ''failed'' 0 (Some (ErrText ''clean_all must be Y'')), fs)
      else case cleanUserQuarantine w cfg entries (ID (actorOrZero ctx)) fs of (r, fs1) \<Rightarrow> (cleanReply r, fs1))"

section \<open>Lemmas on pages\<close>

lemma page_scope:
  assumes "1 \<le> scope_Start sc" and "scope_Start sc \<le> scope_End sc"
  shows "take (nat (scope_End sc - scope_Start sc + 1)) (drop (nat (scope_Start sc - 1)) xs) = applyResultScope xs (Some sc)"
proof (cases "nat (scope_Start sc - 1) \<ge> length xs")
  case False
  then show ?thesis
    using assms by (auto simp: applyResultScope_def Let_def intro!: arg_cong [of _ _ "\<lambda>n. take n _"])
qed (simp add: applyResultScope_def)

lemma applyResultScope_map: "applyResultScope (map f xs) sc = map f (applyResultScope xs sc)"
  by (auto simp: applyResultScope_def Let_def take_map drop_map split: option.splits)

lemma parseResultScope_range:
  "parseResultScope text = Inr sc \<Longrightarrow> 1 \<le> scope_Start sc \<and> scope_Start sc \<le> scope_End sc \<and> scope_End sc - scope_Start sc < 500"
  by (auto simp: parseResultScope_def Let_def maxResultLookupItems_def split: if_splits option.splits prod.splits)

lemma newerJob_trans: "newerJob a b \<Longrightarrow> newerJob b c \<Longrightarrow> newerJob a c"
  by (auto simp: newerJob_def dest: strLess_trans)

lemma newerJob_total: "newerJob a b \<or> newerJob b a \<or> hj_id a = hj_id b"
  using strLess_total [of "hj_id a" "hj_id b"] by (auto simp: newerJob_def)

lemma insertSorted_sorted:
  assumes trans: "\<And>a b c. lt a b \<Longrightarrow> lt b c \<Longrightarrow> lt a c"
  shows "sorted_wrt lt ys \<Longrightarrow> \<forall>y \<in> set ys. lt x y \<or> lt y x \<Longrightarrow> sorted_wrt lt (insertSorted lt x ys)"
proof (induction ys)
  case (Cons y ys)
  then have tail: "sorted_wrt lt (insertSorted lt x ys)" "\<forall>z \<in> set ys. lt y z" by simp_all
  show ?case
  proof (cases "lt y x")
    case True
    then show ?thesis using tail by simp
  next
    case False
    then have "lt x y" using Cons.prems(2) by simp
    then show ?thesis using False tail(2) Cons.prems(1) trans [of x y] by simp
  qed
qed simp

lemma sortSlice_sorted:
  assumes "\<And>a b c. lt a b \<Longrightarrow> lt b c \<Longrightarrow> lt a c" and "\<And>a b. lt a b \<or> lt b a \<or> k a = k b" and "distinct (map k xs)"
  shows "sorted_wrt lt (sortSlice lt xs)"
  using assms(3)
proof (induction xs)
  case (Cons x xs)
  have "sorted_wrt lt (insertSorted lt x (sortSlice lt xs))"
  proof (rule insertSorted_sorted [OF assms(1)])
    show "\<forall>y \<in> set (sortSlice lt xs). lt x y \<or> lt y x"
      using Cons.prems assms(2) by (metis distinct.simps(2) image_eqI list.simps(9) set_map sortSlice_set(1))
  qed (use Cons in auto)
  then show ?case by (simp add: sortSlice_def)
qed (simp add: sortSlice_def)

lemma sortSlice_distinct:
  assumes "\<And>a. \<not> lt a a" and "sorted_wrt lt (sortSlice lt xs)"
  shows "distinct (sortSlice lt xs)"
proof -
  have "sorted_wrt lt ys \<Longrightarrow> distinct ys" for ys using assms(1) by (induction ys) auto
  then show ?thesis using assms(2) .
qed

text \<open>
  A page of results shows exactly the requested positions of the caller's own jobs, newest first: the rows behind it
  are the caller's jobs of the index, strictly ordered by start time and then by identifier, the page is the requested range of them, at most
  500 items, and the total is their number.
\<close>

theorem result_page_exact:
  assumes "noFaults w" and "historyInv dir db" and "parseResultScope text = Inr sc"
  shows "\<exists>rows. set rows = {r \<in> set (h_jobs db). hj_user r = u} \<and> distinct rows \<and> sorted_wrt newerJob rows \<and>
    readResultLogItems w fmt (Some sc) u db = Inr (map (resultItem fmt) (applyResultScope rows (Some sc)), length rows) \<and>
    length (applyResultScope rows (Some sc)) \<le> 500"
proof -
  let ?rows = "sortSlice newerJob (jobsOf u db)"
  have ids: "distinct (map hj_id (jobsOf u db))" using assms(2) by (simp add: historyInv_def jobsOf_def distinct_map_filter)
  have sorted: "sorted_wrt newerJob ?rows"
    by (rule sortSlice_sorted [of newerJob hj_id, OF newerJob_trans newerJob_total ids])
  then have "distinct ?rows" by (rule sortSlice_distinct [rotated]) (simp add: newerJob_def)
  moreover have "length (applyResultScope ?rows (Some sc)) \<le> 500"
  proof -
    have "nat (scope_End sc - scope_Start sc + 1) \<le> 500" using parseResultScope_range [OF assms(3)] by linarith
    then show ?thesis
      using page_scope [of sc ?rows, symmetric] parseResultScope_range [OF assms(3)] by (simp add: min_le_iff_disj)
  qed
  moreover have "readResultLogItems w fmt (Some sc) u db =
      Inr (map (resultItem fmt) (applyResultScope ?rows (Some sc)), length ?rows)"
    using assms(1) page_scope [of sc ?rows] parseResultScope_range [OF assms(3)]
    by (simp add: readResultLogItems_def atSite_def noFaults_def)
  ultimately show ?thesis using sorted by (intro exI [of _ ?rows]) (auto simp: jobsOf_def)
qed

theorem result_page_exact_witness:
  "map_sum id snd (readResultLogItems exampleWorld (\<lambda>_. []) (Some \<lparr> scope_Start = 1, scope_End = 20 \<rparr>) ''abcdefg1'' exampleDB) = Inr 1"
proof -
  have join: "filepath_Join ''/jobs'' ''cron-1600000000.json'' = ''/jobs/cron-1600000000.json''" by code_simp
  have id: "version3JobIDPattern ''cron-1600000000''" by code_simp
  have user: "validUserID ''abcdefg1''" by code_simp
  have inv: "historyInv ''/jobs'' exampleDB" by (simp add: historyInv_def exampleDB_def join id user)
  have nf: "noFaults exampleWorld" by (simp add: noFaults_def exampleWorld_def)
  have sc: "parseResultScope ''1-20'' = Inr \<lparr> scope_Start = 1, scope_End = 20 \<rparr>" by code_simp
  obtain rows where rows: "set rows = {r \<in> set (h_jobs exampleDB). hj_user r = ''abcdefg1''}" "distinct rows"
      "readResultLogItems exampleWorld (\<lambda>_. []) (Some \<lparr> scope_Start = 1, scope_End = 20 \<rparr>) ''abcdefg1'' exampleDB =
        Inr (map (resultItem (\<lambda>_. [])) (applyResultScope rows (Some \<lparr> scope_Start = 1, scope_End = 20 \<rparr>)), length rows)"
    using result_page_exact [OF nf inv sc] by blast
  have "set rows = set (h_jobs exampleDB)" unfolding rows(1) by (auto simp: exampleDB_def)
  then have "card (set rows) = 1" by (simp add: exampleDB_def)
  then have "length rows = 1" using rows(2) distinct_card by fastforce
  then show ?thesis using rows(3) by simp
qed

section \<open>Clean-up\<close>

lemma removeFiles_effect:
  assumes "\<And>p. qw_removeErr w p = None"
  shows "\<exists>n. removeFiles w ps k fs = ((n, None), fs |` (- set ps))"
proof (induction ps arbitrary: k fs)
  case (Cons p ps)
  show ?case
  proof (cases "fs p")
    case None
    then have "fs |` (- set ps) = fs |` (- set (p # ps))" by (auto simp: restrict_map_def)
    then show ?thesis using Cons.IH [of k fs] None by (simp add: osRemove_def)
  next
    case (Some a)
    have "(fs(p := None)) |` (- set ps) = fs |` (- set (p # ps))" by (auto simp: restrict_map_def)
    moreover have "removeFiles w (p # ps) k fs = removeFiles w ps (Suc k) (fs(p := None))"
      using Some assms by (simp add: osRemove_def)
    ultimately show ?thesis using Cons.IH [of "Suc k" "fs(p := None)"] by (simp only:)
  qed
qed (auto simp: restrict_map_def)

text \<open>
  Removing a user's results leaves no job and no detection of the user in the index and none of the files of those jobs, while
  the jobs and detections of everybody else and all other files stay as they are.
\<close>

theorem results_clean_exact:
  assumes "\<And>p. qw_removeErr w p = None" and "noFaults hw"
    and "cleanUserResults hw w cfg u (db, fs) = (r, db', fs')"
  defines "db1 \<equiv> snd (refresh hw (JobsDir cfg) (LogDir cfg) db)"
  shows "snd r = None \<and> h_jobs db' = filter (\<lambda>j. hj_user j \<noteq> u) (h_jobs db1) \<and>
    h_detections db' = filter (\<lambda>d. \<forall>j \<in> set (h_jobs db1). hj_user j = u \<longrightarrow> hj_id j \<noteq> dr_job d) (h_detections db1) \<and>
    fs' = fs |` (- (\<Union>j \<in> {j \<in> set (h_jobs db1). hj_user j = u}. set (jobFiles cfg j)))"
proof -
  obtain n where n: "removeFiles w (concat (map (jobFiles cfg) (jobsOf u db1))) 0 fs =
      ((n, None), fs |` (- set (concat (map (jobFiles cfg) (jobsOf u db1)))))"
    using removeFiles_effect [OF assms(1)] by blast
  have paths: "set (concat (map (jobFiles cfg) (jobsOf u db1))) = (\<Union>j \<in> {j \<in> set (h_jobs db1). hj_user j = u}. set (jobFiles cfg j))"
    by (simp add: jobsOf_def)
  have run: "r = (n, None)" "db' = deleteJobs (\<lambda>j. hj_user j = u) db1"
      "fs' = fs |` (- set (concat (map (jobFiles cfg) (jobsOf u db1))))"
    using assms(2,3) n by (auto simp: cleanUserResults_def db1_def [symmetric] Let_def noFaults_def)
  have "h_detections db' = filter (\<lambda>d. \<forall>j \<in> set (h_jobs db1). hj_user j = u \<longrightarrow> hj_id j \<noteq> dr_job d) (h_detections db1)"
    unfolding run(2) deleteJobs_def by (auto simp: list_ex_iff intro!: filter_cong)
  moreover have "h_jobs db' = filter (\<lambda>j. hj_user j \<noteq> u) (h_jobs db1)" by (simp add: run(2) deleteJobs_def)
  ultimately show ?thesis using run(1) run(3) unfolding paths by simp
qed

theorem results_clean_exact_witness:
  "h_jobs (fst (snd (cleanUserResults exampleWorld quietWorld (sampleConfig False) ''abcdefg1'' (exampleDB, Map.empty)))) = []"
proof -
  let ?c = "cleanUserResults exampleWorld quietWorld (sampleConfig False) ''abcdefg1'' (exampleDB, Map.empty)"
  let ?db = "snd (refresh exampleWorld (JobsDir (sampleConfig False)) (LogDir (sampleConfig False)) exampleDB)"
  obtain r db' fs' where c: "?c = (r, db', fs')" by (metis surj_pair)
  have "list_all (\<lambda>j. hj_user j = ''abcdefg1'') (h_jobs ?db)" by code_simp
  moreover have "h_jobs db' = filter (\<lambda>j. hj_user j \<noteq> ''abcdefg1'') (h_jobs ?db)"
    using results_clean_exact [OF _ _ c] by (simp add: quietWorld_def noFaults_def exampleWorld_def)
  ultimately have "h_jobs db' = []" by (auto simp: filter_empty_conv list_all_iff)
  then show ?thesis using c by simp
qed

section \<open>Counting\<close>

definition dayCounts :: "jobRow list \<Rightarrow> historyStatisticsDay" where
  "dayCounts rs =
     \<lparr> day_unknown = length (filter (\<lambda>r. hj_result r \<notin> {''clean'', ''found'', ''error''}) rs),
       day_clean = length (filter (\<lambda>r. hj_result r = ''clean'') rs),
       day_found = length (filter (\<lambda>r. hj_result r = ''found'') rs),
       day_error = length (filter (\<lambda>r. hj_result r = ''error'') rs) \<rparr>"

lemma countRows_append: "countRows (xs @ ys) s = countRows ys (countRows xs s)"
  by (induction xs s rule: countRows.induct) auto

lemma countRows_key:
  "days key = Some c \<Longrightarrow>
   countRows (map (\<lambda>x. (key, x, n x)) xs) (days, t) =
     (days(key \<mapsto> foldl (\<lambda>c x. addCount x (n x) c) c xs), t + sum_list (map n xs))"
  by (induction xs arbitrary: days c t) (auto simp: map_upd_triv)

lemma addCount_fold:
  fixes n :: "string \<Rightarrow> nat"
  defines "f \<equiv> foldl (\<lambda>c x. addCount x (n x) c)"
  shows "day_clean (f c xs) = day_clean c + sum_list (map n (filter (\<lambda>x. x = ''clean'') xs))"
    and "day_found (f c xs) = day_found c + sum_list (map n (filter (\<lambda>x. x = ''found'') xs))"
    and "day_error (f c xs) = day_error c + sum_list (map n (filter (\<lambda>x. x = ''error'') xs))"
    and "day_unknown (f c xs) = day_unknown c + sum_list (map n (filter (\<lambda>x. x \<notin> {''clean'', ''found'', ''error''}) xs))"
  unfolding f_def by (induction xs arbitrary: c) (auto simp: addCount_def)

lemma group_sum:
  "sum_list (map (\<lambda>x. length (filter (\<lambda>r. k r = x) rs)) (filter P (remdups (map k rs)))) = length (filter (\<lambda>r. P (k r)) rs)"
proof -
  have one: "(\<Sum>x \<in> {x \<in> A. P x}. length (filter (\<lambda>r. k r = x) rs)) = length (filter (\<lambda>r. P (k r)) rs)"
    if "finite A" "k ` set rs \<subseteq> A" for A rs
    using that(2)
  proof (induction rs)
    case (Cons r rs)
    have "(\<Sum>x \<in> {x \<in> A. P x}. length (filter (\<lambda>r. k r = x) (r # rs))) =
        (\<Sum>x \<in> {x \<in> A. P x}. length (filter (\<lambda>r. k r = x) rs) + (if x = k r then 1 else 0))"
      by (intro sum.cong) auto
    also have "\<dots> = length (filter (\<lambda>r. P (k r)) rs) + (if P (k r) then 1 else 0)"
      using Cons that(1) by (simp add: sum.distrib)
    finally show ?case by simp
  qed simp
  have "sum_list (map (\<lambda>x. length (filter (\<lambda>r. k r = x) rs)) (filter P (remdups (map k rs)))) =
      (\<Sum>x \<in> {x \<in> k ` set rs. P x}. length (filter (\<lambda>r. k r = x) rs))"
    by (subst sum_list_distinct_conv_sum_set) auto
  then show ?thesis using one [of "k ` set rs" rs] by simp
qed

lemma countRows_group:
  assumes "days key = Some zeroDay"
  shows "countRows (groupRows key rs) (days, t) = (days(key \<mapsto> dayCounts rs), t + length rs)"
proof -
  let ?n = "\<lambda>x. length (filter (\<lambda>r. hj_result r = x) rs)"
  have "foldl (\<lambda>c x. addCount x (?n x) c) zeroDay (remdups (map hj_result rs)) = dayCounts rs"
    by (rule historyStatisticsDay.equality)
      (simp_all add: addCount_fold group_sum dayCounts_def zeroDay_def del: remdups_filter)
  moreover have "sum_list (map ?n (remdups (map hj_result rs))) = length rs"
    using group_sum [of hj_result rs "\<lambda>_. True"] by simp
  ultimately show ?thesis unfolding groupRows_def using countRows_key [where days = days and key = key and n = ?n, OF assms] by simp
qed

lemma countRows_windows:
  "distinct (map fst ws) \<Longrightarrow> \<forall>x \<in> set ws. days (fst x) = Some zeroDay \<Longrightarrow>
   countRows (concat (map (\<lambda>(key, a, b). groupRows key (J a b)) ws)) (days, t) =
     (days ++ map_of (map (\<lambda>(key, a, b). (key, dayCounts (J a b))) ws), t + sum_list (map (\<lambda>(key, a, b). length (J a b)) ws))"
proof (induction ws arbitrary: days t)
  case (Cons x ws)
  obtain key a b where x: "x = (key, a, b)" by (cases x)
  let ?m = "map_of (map (\<lambda>(key, a, b). (key, dayCounts (J a b))) ws)"
  have fresh: "key \<notin> fst ` set ws" using Cons.prems(1) by (simp add: x)
  then have "?m key = None" by (force simp: map_of_eq_None_iff)
  then have m: "days(key \<mapsto> d) ++ ?m = days ++ ?m(key \<mapsto> d)" for d
    by (auto simp: map_add_def fun_eq_iff split: option.splits)
  have "\<forall>y \<in> set ws. (days(key \<mapsto> dayCounts (J a b))) (fst y) = Some zeroDay" using Cons.prems fresh by auto
  then have "countRows (concat (map (\<lambda>(key, a, b). groupRows key (J a b)) ws)) (days(key \<mapsto> dayCounts (J a b)), t + length (J a b)) =
      (days ++ ?m(key \<mapsto> dayCounts (J a b)), t + length (J a b) + sum_list (map (\<lambda>(key, a, b). length (J a b)) ws))"
    using Cons.IH Cons.prems(1) m by simp
  then show ?case using countRows_group [of days key] Cons.prems(2) by (simp add: x countRows_append) (simp add: map_add_def fun_eq_iff)
qed simp

lemma zero_days:
  "foldl (\<lambda>m (key, _). m(key \<mapsto> zeroDay)) m0 ws p = (if p \<in> fst ` set ws then Some zeroDay else m0 p)"
  by (induction ws arbitrary: m0) (auto simp: case_prod_unfold)

lemma consecutive_count:
  fixes b :: "nat \<Rightarrow> int"
  assumes "\<And>k. k < n \<Longrightarrow> b k \<le> b (Suc k)"
  shows "sum_list (map (\<lambda>k. length (filter (\<lambda>r. b k \<le> f r \<and> f r < b (Suc k)) rs)) [0..<n]) =
     length (filter (\<lambda>r. b 0 \<le> f r \<and> f r < b n) rs) \<and> b 0 \<le> b n"
  using assms
proof (induction n)
  case (Suc n)
  have le: "b 0 \<le> b n" "b n \<le> b (Suc n)" using Suc by auto
  have "length (filter (\<lambda>r. b 0 \<le> f r \<and> f r < b n) rs) + length (filter (\<lambda>r. b n \<le> f r \<and> f r < b (Suc n)) rs) =
      length (filter (\<lambda>r. b 0 \<le> f r \<and> f r < b (Suc n)) rs)"
    using le by (induction rs) auto
  then show ?case using Suc le by (auto intro: order_trans)
qed simp

text \<open>
  A calendar without surprises around a request: counting days one by one agrees with counting them at once, days begin one after the other,
  their dates differ, and the request falls on its own day. A time zone that skips a midnight breaks this.
\<close>

definition regularCalendar :: "'t calendar \<Rightarrow> int \<Rightarrow> 't \<Rightarrow> int \<Rightarrow> bool" where
  "regularCalendar cal scope now nowNs \<longleftrightarrow>
     (let first = firstDay cal scope now;
          start = (\<lambda>k. cal_Unix cal (cal_AddDate cal first (int k))) in
      (\<forall>k < nat scope. cal_Unix cal (cal_AddDate cal (cal_AddDate cal first (int k)) 1) = start (Suc k) \<and> start k < start (Suc k)) \<and>
      distinct (map (\<lambda>k. cal_dateKey cal (cal_AddDate cal first (int k))) [0..<nat scope]) \<and>
      start (nat scope - 1) * Second \<le> nowNs \<and> nowNs < start (nat scope) * Second)"

text \<open>The window boundaries: midnights, and the second after the request at the end.\<close>

definition bound :: "'t calendar \<Rightarrow> int \<Rightarrow> 't \<Rightarrow> int \<Rightarrow> nat \<Rightarrow> int" where
  "bound cal scope now nowNs k =
     (if int k < scope then cal_Unix cal (cal_AddDate cal (firstDay cal scope now) (int k))
      else nowNs div Second + 1)"

definition dayKey :: "'t calendar \<Rightarrow> int \<Rightarrow> 't \<Rightarrow> nat \<Rightarrow> string" where
  "dayKey cal scope now k = cal_dateKey cal (cal_AddDate cal (firstDay cal scope now) (int k))"

lemma windows_bounds:
  assumes "regularCalendar cal scope now nowNs" and "1 \<le> scope"
  shows "windows cal scope now nowNs =
    map (\<lambda>k. (dayKey cal scope now k, bound cal scope now nowNs k, bound cal scope now nowNs (Suc k))) [0..<nat scope]"
    and "\<And>k. k < nat scope \<Longrightarrow> bound cal scope now nowNs k \<le> bound cal scope now nowNs (Suc k)"
proof -
  define first where "first = firstDay cal scope now"
  define start where "start = (\<lambda>k. cal_Unix cal (cal_AddDate cal first (int k)))"
  have reg: "\<And>k. k < nat scope \<Longrightarrow> cal_Unix cal (cal_AddDate cal (cal_AddDate cal first (int k)) 1) = start (Suc k)"
      "\<And>k. k < nat scope \<Longrightarrow> start k < start (Suc k)"
      "start (nat scope - 1) * Second \<le> nowNs" "nowNs < start (nat scope) * Second"
    using assms(1) by (simp_all add: regularCalendar_def Let_def first_def [symmetric] start_def)
  have pos: "0 < Second" by simp
  have b: "bound cal scope now nowNs k = (if k < nat scope then start k else nowNs div Second + 1)" for k
    using assms(2) by (auto simp: bound_def start_def first_def [symmetric])
  have mono: "start j \<le> start k" if "j \<le> k" "k \<le> nat scope" for j k
    using that
  proof (induction k)
    case (Suc k)
    then show ?case using reg(2) [of k] by (cases "j = Suc k") auto
  qed simp
  have last: "start (nat scope - 1) \<le> nowNs div Second" 
    using zdiv_mono1 [OF reg(3) pos] pos by simp
  have ends: "(if start (Suc k) * Second > nowNs then nowNs div Second + 1 else start (Suc k)) =
      (if Suc k < nat scope then start (Suc k) else nowNs div Second + 1)" if "k < nat scope" for k
  proof (cases "Suc k < nat scope")
    case True
    then have "start (Suc k) \<le> start (nat scope - 1)" by (intro mono) auto
    then have "start (Suc k) * Second \<le> nowNs" using reg(3) pos by (meson mult_right_mono order_trans order_less_imp_le)
    then show ?thesis using True by simp
  next
    case False
    then have "Suc k = nat scope" using that by simp
    then show ?thesis using reg(4) by simp
  qed
  show "windows cal scope now nowNs =
    map (\<lambda>k. (dayKey cal scope now k, bound cal scope now nowNs k, bound cal scope now nowNs (Suc k))) [0..<nat scope]"
  proof -
    have "dayWindow cal nowNs first (int k) =
        (dayKey cal scope now k, bound cal scope now nowNs k, bound cal scope now nowNs (Suc k))" if "k < nat scope" for k
      unfolding dayWindow_def Let_def reg(1) [OF that] ends [OF that] b
      using that by (simp add: start_def dayKey_def first_def)
    then show ?thesis by (simp add: windows_def first_def)
  qed
  show "bound cal scope now nowNs k \<le> bound cal scope now nowNs (Suc k)" if "k < nat scope" for k
  proof (cases "Suc k < nat scope")
    case True
    then show ?thesis using reg(2) [OF that] by (simp add: b)
  next
    case False
    then have "k = nat scope - 1" using that by simp
    then show ?thesis using last that False by (simp add: b)
  qed
qed


definition utcCalendar :: "int calendar" where
  "utcCalendar = \<lparr> cal_midnight = (\<lambda>t. (t div 86400) * 86400), cal_AddDate = (\<lambda>t d. t + d * 86400), cal_Unix = (\<lambda>t. t),
     cal_dateKey = (\<lambda>t. if t div 86400 = 18518 then ''20200913'' else ''20200912'') \<rparr>"


end
