(* ===== verification/Lookup_Handlers.thy ===== *)
theory Lookup_Handlers
  imports Results
begin

text \<open>
  The lookups end to end: the workers that read the history index or the quarantine (\<^verbatim>\<open>runResultLookup\<close>,
  \<^verbatim>\<open>runHistoryStatisticsLookup\<close>, \<^verbatim>\<open>runQuarantineLookup\<close>) and the handlers that start and poll statistics and quarantine
  lookups; those of result lookups are in \<^verbatim>\<open>Lookups\<close>. A worker reads the lookup when it starts and writes it when
  its query is done, so it takes the store at both times.
\<close>

section \<open>Workers\<close>

definition runLookup ::
    "lookupKind \<Rightarrow> (lookupEntry \<Rightarrow> queryOutcome) \<Rightarrow> string \<Rightarrow> gotime \<Rightarrow> lookupStore \<Rightarrow> lookupStore \<Rightarrow> lookupStore" where
  "runLookup kind query i now st0 st1 =
     (case find (\<lambda>e. lk_ID e = i) (lookupsOf kind st0) of
        None \<Rightarrow> st1
      | Some e \<Rightarrow> finishLookup kind i now (query e) st1)"

definition resultItemJSON :: "resultLogItem \<Rightarrow> json" where
  "resultItemJSON item =
     JObject [(''id'', JString (item_id item)), (''type'', JString (item_type item)), (''date'', JString (item_date item)),
       (''result'', JString (item_result item)), (''action'', JString (item_action item))]"

definition entryScope :: "lookupEntry \<Rightarrow> resultScope option" where
  "entryScope e =
     (case lk_Scope e of RangeScope a b \<Rightarrow> Some \<lparr> scope_Start = a, scope_End = b \<rparr> | _ \<Rightarrow> None)"

definition resultQuery ::
    "historyWorld \<Rightarrow> (int \<Rightarrow> string) \<Rightarrow> bool \<Rightarrow> historyDB \<Rightarrow> lookupEntry \<Rightarrow> queryOutcome" where
  "resultQuery w formatDate canceled db e =
     (if canceled then QueryCanceled
      else case readResultLogItems w formatDate (entryScope e) (lk_UserID e) db of
        Inl err \<Rightarrow> QueryFailed err
      | Inr (items, n) \<Rightarrow> QueryDone (JArray (map resultItemJSON items)) (int n))"

definition runResultLookup where
  "runResultLookup w formatDate canceled db = runLookup resultLookupKind (resultQuery w formatDate canceled db)"

definition statisticsDayJSON :: "historyStatisticsDay \<Rightarrow> json" where
  "statisticsDayJSON d =
     JObject [(''unknown'', JNumber (int (day_unknown d))), (''clean'', JNumber (int (day_clean d))),
       (''found'', JNumber (int (day_found d))), (''error'', JNumber (int (day_error d)))]"

text \<open>The map of days as an object; its keys are the dates of the window, in order.\<close>

definition daysJSON :: "(string \<times> int \<times> int) list \<Rightarrow> (string \<rightharpoonup> historyStatisticsDay) \<Rightarrow> json" where
  "daysJSON ws days =
     JObject (List.map_filter (\<lambda>key. map_option (\<lambda>d. (key, statisticsDayJSON d)) (days key)) (remdups (map fst ws)))"

text \<open>\<open>local\<close> is \<^verbatim>\<open>StartedAt.In(time.Local)\<close> for the calendar; times of the server count nanoseconds from year one.\<close>

definition statisticsQuery ::
    "historyWorld \<Rightarrow> 't calendar \<Rightarrow> (gotime \<Rightarrow> 't) \<Rightarrow> bool \<Rightarrow> historyDB \<Rightarrow> lookupEntry \<Rightarrow> queryOutcome" where
  "statisticsQuery w cal local canceled db e =
     (case lk_Scope e of
        DaysScope scope \<Rightarrow>
          if canceled then QueryCanceled
          else (case readHistoryStatistics w cal scope (lk_UserID e) (local (lk_StartedAt e)) (UnixNano (lk_StartedAt e)) db of
             Inl err \<Rightarrow> QueryFailed err
           | Inr (days, n) \<Rightarrow>
               QueryDone (daysJSON (windows cal scope (local (lk_StartedAt e)) (UnixNano (lk_StartedAt e))) days) (int n))
      | _ \<Rightarrow> QueryCanceled)"

definition runHistoryStatisticsLookup where
  "runHistoryStatisticsLookup w cal local canceled db =
     runLookup historyStatisticsLookupKind (statisticsQuery w cal local canceled db)"

definition subjectJSON :: "quarantineSubject \<Rightarrow> json" where
  "subjectJSON x = JObject [(''name'', JString (subj_Name x)), (''source_file'', JString (subj_SourceFile x))]"

definition quarantineQuery ::
    "quarantineWorld \<Rightarrow> config \<Rightarrow> bool \<Rightarrow> direntry list res \<Rightarrow> files \<Rightarrow> lookupEntry \<Rightarrow> queryOutcome" where
  "quarantineQuery w cfg canceled entries fs e =
     (if canceled then QueryCanceled
      else case readQuarantineSubjects w cfg entries (lk_UserID e) fs of
        Inl err \<Rightarrow> QueryFailed err
      | Inr subjects \<Rightarrow> QueryDone (JArray (map subjectJSON subjects)) 0)"

definition runQuarantineLookup where
  "runQuarantineLookup w cfg canceled entries fs =
     runLookup quarantineLookupKind (quarantineQuery w cfg canceled entries fs)"

section \<open>Handlers\<close>

definition newLookup :: "string \<Rightarrow> string \<Rightarrow> gotime \<Rightarrow> lookupScope \<Rightarrow> lookupEntry" where
  "newLookup i userID now scope =
     \<lparr> lk_ID = i, lk_Status = ''pending'', lk_UserID = userID, lk_StartedAt = now, lk_UpdatedAt = now,
       lk_Scope = scope, lk_Results = JNull, lk_Total = 0, lk_Error = [] \<rparr>"

definition handleHistoryStatisticsStart ::
    "httpMethod \<Rightarrow> string \<Rightarrow> actor option \<Rightarrow> string \<Rightarrow> gotime \<Rightarrow> bool \<Rightarrow> lookupSystem \<Rightarrow> response \<times> lookupSystem" where
  "handleHistoryStatisticsStart method scopeText ctx hex now stopping s =
     (if method \<noteq> MethodPost then (methodNotAllowed, s)
      else case parseHistoryStatisticsScope scopeText of
        Inl e \<Rightarrow> (writeError StatusBadRequest e, s)
      | Inr scope \<Rightarrow>
          (let lookup = newLookup (''statistics-'' @ hex) (ID (actorOrZero ctx)) now (DaysScope scope)
           in case startLookup now stopping historyStatisticsLookupKind lookup s of
                (False, s') \<Rightarrow>
                  (writeError StatusTooManyRequests (ErrText ''too many pending lookups for this user''), s')
              | (True, s') \<Rightarrow>
                  (writeJSON StatusAccepted
                     (JObject [(''status'', JString ''pending''), (''lookup_id'', JString (lk_ID lookup)),
                        (''scope'', JNumber scope),
                        (''message'', JString (''history statistics are loading; poll /api/results/statistics/lookups/'' @ lk_ID lookup))]),
                   s')))"

definition handleQuarantineLookupStart ::
    "httpMethod \<Rightarrow> actor option \<Rightarrow> string \<Rightarrow> gotime \<Rightarrow> bool \<Rightarrow> lookupSystem \<Rightarrow> response \<times> lookupSystem" where
  "handleQuarantineLookupStart method ctx hex now stopping s =
     (if method \<noteq> MethodPost then (methodNotAllowed, s)
      else
        let lookup = newLookup (''quarantine-'' @ hex) (ID (actorOrZero ctx)) now NoScope
        in case startLookup now stopping quarantineLookupKind lookup s of
             (False, s') \<Rightarrow>
               (writeError StatusTooManyRequests (ErrText ''too many pending lookups for this user''), s')
           | (True, s') \<Rightarrow>
               (writeJSON StatusAccepted
                  (JObject [(''status'', JString ''pending''), (''lookup_id'', JString (lk_ID lookup)),
                     (''message'', JString (''quarantine list is loading; poll /api/quarantine/lookups/'' @ lk_ID lookup))]),
                s'))"

text \<open>The common part of polling: the caller's lookup of a kind, or none.\<close>

definition pollLookup ::
    "lookupKind \<Rightarrow> string \<Rightarrow> (lookupEntry \<Rightarrow> json) \<Rightarrow> httpMethod \<Rightarrow> string \<Rightarrow> actor option \<Rightarrow> lookupStore \<Rightarrow> response" where
  "pollLookup kind base render method urlPath ctx st =
     (if method \<noteq> MethodGet then methodNotAllowed
      else let i = TrimPrefix urlPath base in
        if i = [] \<or> Contains i ''/'' then httpNotFound
        else case find (\<lambda>e. lk_ID e = i) (lookupsOf kind st) of
          None \<Rightarrow> httpNotFound
        | Some lookup \<Rightarrow>
            if lk_UserID lookup \<noteq> ID (actorOrZero ctx) then httpNotFound
            else if lk_Status lookup = ''pending'' then writeJSON StatusAccepted (render lookup)
            else if lk_Status lookup = ''failed'' then writeJSON StatusInternalServerError (render lookup)
            else writeJSON StatusOK (render lookup))"

definition quarantineLookupJSON :: "lookupEntry \<Rightarrow> json" where
  "quarantineLookupJSON e =
     JObject ([(''lookup_id'', JString (lk_ID e)), (''status'', JString (lk_Status e))] @
       omitEmpty [(''subjects'', lk_Results e), (''error'', JString (lk_Error e))] @
       [(''started_at'', JNumber (lk_StartedAt e)), (''updated_at'', JNumber (lk_UpdatedAt e))])"

definition historyStatisticsResponse :: "lookupEntry \<Rightarrow> json" where
  "historyStatisticsResponse e =
     JObject ([(''lookup_id'', JString (lk_ID e)), (''status'', JString (lk_Status e)),
        (''scope'', JNumber (case lk_Scope e of DaysScope n \<Rightarrow> n | _ \<Rightarrow> 0)), (''total'', JNumber (lk_Total e)),
        (''started_at'', JNumber (lk_StartedAt e)), (''updated_at'', JNumber (lk_UpdatedAt e))] @
       omitEmpty [(''error'', JString (lk_Error e))] @
       (case lk_Results e of JObject days \<Rightarrow> days | _ \<Rightarrow> []))"

definition handleHistoryStatisticsLookup where
  "handleHistoryStatisticsLookup =
     pollLookup historyStatisticsLookupKind ''/api/results/statistics/lookups/'' historyStatisticsResponse"

definition handleQuarantineLookup where
  "handleQuarantineLookup = pollLookup quarantineLookupKind ''/api/quarantine/lookups/'' quarantineLookupJSON"

lemma handleResultLookup_poll:
  "handleResultLookup = pollLookup resultLookupKind ''/api/results/lookups/'' lookupJSON"
  by (intro ext) (simp add: handleResultLookup_def pollLookup_def lookupsOf_def Let_def)

section \<open>From start to poll\<close>

lemma find_inserted: "find (\<lambda>x. lk_ID x = lk_ID e) (lookupsOf kind (insertLookup kind e st)) = Some e"
proof -
  have "find (\<lambda>x. lk_ID x = lk_ID e) (without (lk_ID e) es @ [e]) = Some e" for es
    by (induction es) (auto simp: without_def)
  then show ?thesis by (cases kind) (simp_all add: lookupsOf_def insertLookup_def)
qed

lemma startLookup_stored:
  assumes "startLookup now stopping kind e s = (True, st, rt)"
  shows "find (\<lambda>x. lk_ID x = lk_ID e) (lookupsOf kind st) = Some e"
  using assms find_inserted [of e kind]
  by (auto simp: startLookup_def Let_def split: prod.splits bool.splits if_splits)

lemma find_published:
  assumes "\<And>x. lk_ID (f x) = lk_ID x"
  shows "find (\<lambda>x. lk_ID x = i) (lookupsOf kind (publish kind i f st)) =
    map_option f (find (\<lambda>x. lk_ID x = i) (lookupsOf kind st))"
proof -
  have "find (\<lambda>x. lk_ID x = i) (publishIn i f es) = map_option f (find (\<lambda>x. lk_ID x = i) es)" for es
    using assms by (induction es) (auto simp: publishIn_def)
  then show ?thesis by (cases kind) (simp_all add: lookupsOf_def publish_def)
qed

lemma runLookup_done:
  assumes "find (\<lambda>x. lk_ID x = i) (lookupsOf kind st0) = Some e" and "query e = QueryDone v n"
    and "find (\<lambda>x. lk_ID x = i) (lookupsOf kind st1) = Some e'"
  shows "find (\<lambda>x. lk_ID x = i) (lookupsOf kind (runLookup kind query i now st0 st1)) =
    Some (e'\<lparr>lk_UpdatedAt := now, lk_Status := ''success'', lk_Results := v, lk_Total := n\<rparr>)"
  using assms by (simp add: runLookup_def finishLookup_def find_published)

lemma runLookup_failed:
  assumes "find (\<lambda>x. lk_ID x = i) (lookupsOf kind st0) = Some e" and "query e = QueryFailed err"
    and "find (\<lambda>x. lk_ID x = i) (lookupsOf kind st1) = Some e'"
  shows "find (\<lambda>x. lk_ID x = i) (lookupsOf kind (runLookup kind query i now st0 st1)) =
    Some (e'\<lparr>lk_UpdatedAt := now, lk_Status := ''failed'', lk_Error := errText err\<rparr>)"
  using assms by (simp add: runLookup_def finishLookup_def find_published)

text \<open>
  An endpoint for one kind of lookups: where it is polled and how an entry is shown. The owner of an entry sees it, with
  a status code that tells its state, and to everybody else it does not exist.
\<close>

locale lookup_endpoint =
  fixes kind :: lookupKind
    and base :: string
    and render :: "lookupEntry \<Rightarrow> json"
    and poll :: "httpMethod \<Rightarrow> string \<Rightarrow> actor option \<Rightarrow> lookupStore \<Rightarrow> response"
    and run :: "string \<Rightarrow> gotime \<Rightarrow> lookupStore \<Rightarrow> lookupStore \<Rightarrow> lookupStore"
    and query :: "lookupEntry \<Rightarrow> queryOutcome"
  assumes poll_eq: "poll = pollLookup kind base render"
    and run_eq: "run = runLookup kind query"
begin

lemma poll_stored:
  assumes "find (\<lambda>x. lk_ID x = i) (lookupsOf kind st) = Some e" and "i \<noteq> []" and "\<not> Contains i ''/''"
  shows "poll MethodGet (base @ i) ctx st =
    (if lk_UserID e \<noteq> ID (actorOrZero ctx) then httpNotFound
     else writeJSON (if lk_Status e = ''pending'' then StatusAccepted
                     else if lk_Status e = ''failed'' then StatusInternalServerError else StatusOK) (render e))"
  using assms by (simp add: poll_eq pollLookup_def TrimPrefix_def HasPrefix_iff)

lemma served:
  assumes started: "startLookup now stopping kind e s = (True, st, rt)" and q: "query e = QueryDone v n"
    and i: "lk_ID e \<noteq> []" "\<not> Contains (lk_ID e) ''/''"
  shows "poll MethodGet (base @ lk_ID e) ctx (run (lk_ID e) later st st) =
    (if lk_UserID e \<noteq> ID (actorOrZero ctx) then httpNotFound
     else writeJSON StatusOK (render (e\<lparr>lk_UpdatedAt := later, lk_Status := ''success'', lk_Results := v, lk_Total := n\<rparr>)))"
proof -
  note stored = startLookup_stored [OF started]
  show ?thesis
    using poll_stored [OF runLookup_done [where query = query, OF stored q stored, of later] i, of ctx] by (simp add: run_eq)
qed

end

interpretation resultEndpoint: lookup_endpoint resultLookupKind "''/api/results/lookups/''" lookupJSON handleResultLookup
    "runResultLookup w formatDate canceled db" "resultQuery w formatDate canceled db" for w formatDate canceled db
  by unfold_locales (simp_all add: handleResultLookup_poll runResultLookup_def)

interpretation statisticsEndpoint: lookup_endpoint historyStatisticsLookupKind "''/api/results/statistics/lookups/''"
    historyStatisticsResponse handleHistoryStatisticsLookup
    "runHistoryStatisticsLookup w cal local canceled db" "statisticsQuery w cal local canceled db" for w cal local canceled db
  by unfold_locales (simp_all add: handleHistoryStatisticsLookup_def runHistoryStatisticsLookup_def)

interpretation quarantineEndpoint: lookup_endpoint quarantineLookupKind "''/api/quarantine/lookups/''"
    quarantineLookupJSON handleQuarantineLookup
    "runQuarantineLookup w cfg canceled entries fs" "quarantineQuery w cfg canceled entries fs" for w cfg canceled entries fs
  by unfold_locales (simp_all add: handleQuarantineLookup_def runQuarantineLookup_def)

section \<open>Quarantine lookups\<close>

lemma subjectOf_name: "subjectOf w cfg u fs e = Some x \<Longrightarrow> subj_Name x = de_name e"
  by (auto simp: subjectOf_def split: if_splits sum.splits prod.splits)

lemma subjects_distinct:
  assumes "distinct (map de_name es)"
  shows "distinct (map subj_Name (List.map_filter (subjectOf w cfg u fs) es))"
  using assms
proof (induction es)
  case (Cons e es)
  have "subj_Name ` set (List.map_filter (subjectOf w cfg u fs) es) \<subseteq> de_name ` set es"
    using subjectOf_name by (fastforce simp: List.map_filter_def)
  note names = this
  show ?case
  proof (cases "subjectOf w cfg u fs e")
    case (Some a)
    then have "subj_Name a \<notin> subj_Name ` set (List.map_filter (subjectOf w cfg u fs) es)"
      using names Cons.prems subjectOf_name [OF Some] by auto
    then show ?thesis using Cons Some by (simp add: List.map_filter_simps)
  qed (use Cons in \<open>simp add: List.map_filter_simps\<close>)
qed (simp add: List.map_filter_simps)

lemma accepted_quarantine_lookup:
  assumes "handleQuarantineLookupStart MethodPost ctx hex now stopping s = (r, st, rt)" and "rsp_status r = StatusAccepted"
  shows "startLookup now stopping quarantineLookupKind (newLookup (''quarantine-'' @ hex) (ID (actorOrZero ctx)) now NoScope) s = (True, st, rt)"
  using assms by (auto simp: handleQuarantineLookupStart_def Let_def writeError_def split: prod.splits bool.splits)

lemma quarantine_id_path: "CHR ''/'' \<notin> set hex \<Longrightarrow> \<not> Contains (''quarantine-'' @ hex) ''/''"
  by (simp only: Contains_byte) simp

text \<open>
  An accepted quarantine lookup serves its owner and nobody else: once the worker is done, polling answers the caller with the quarantined
  files whose record names the caller as owner, ordered by name, and answers every other user as if the lookup did not exist.
\<close>

theorem quarantine_lookup_serves_owner:
  fixes w :: quarantineWorld and cfg :: config and fs :: files and later :: gotime
  assumes "handleQuarantineLookupStart MethodPost ctx hex now stopping s = (r, st, rt)" and "rsp_status r = StatusAccepted"
    and "validUserID (ID (actorOrZero ctx))" and "CHR ''/'' \<notin> set hex" and "distinct (map de_name es)"
  defines "i \<equiv> ''quarantine-'' @ hex"
  defines "st' \<equiv> runQuarantineLookup w cfg False (Inr es) fs i later st st"
  shows "\<exists>subjects. set subjects = {x. \<exists>e \<in> set es. subjectOf w cfg (ID (actorOrZero ctx)) fs e = Some x} \<and>
    sorted_wrt (\<lambda>a b. strLess (subj_Name a) (subj_Name b)) subjects \<and>
    (\<forall>other. handleQuarantineLookup MethodGet (''/api/quarantine/lookups/'' @ i) other st' =
      (if ID (actorOrZero other) \<noteq> ID (actorOrZero ctx) then httpNotFound
       else writeJSON StatusOK (quarantineLookupJSON ((newLookup i (ID (actorOrZero ctx)) now NoScope)
         \<lparr>lk_UpdatedAt := later, lk_Status := ''success'', lk_Results := JArray (map subjectJSON subjects), lk_Total := 0\<rparr>))))"
proof -
  let ?u = "ID (actorOrZero ctx)" and ?lt = "\<lambda>a b. strLess (subj_Name a) (subj_Name b)"
  let ?subjects = "sortSlice ?lt (List.map_filter (subjectOf w cfg ?u fs) es)"
  let ?e = "newLookup i ?u now NoScope"
  have q: "quarantineQuery w cfg False (Inr es) fs ?e = QueryDone (JArray (map subjectJSON ?subjects)) 0"
    using assms(3) by (simp add: quarantineQuery_def readQuarantineSubjects_def newLookup_def)
  have "set ?subjects = {x. \<exists>e \<in> set es. subjectOf w cfg ?u fs e = Some x}"
    by (force simp: List.map_filter_def)
  moreover have "sorted_wrt ?lt ?subjects"
    by (rule sortSlice_sorted [of ?lt subj_Name, OF strLess_trans _ subjects_distinct [OF assms(5)]]) (use strLess_total in auto)
  moreover have "handleQuarantineLookup MethodGet (''/api/quarantine/lookups/'' @ i) other st' =
      (if ID (actorOrZero other) \<noteq> ?u then httpNotFound
       else writeJSON StatusOK (quarantineLookupJSON (?e\<lparr>lk_UpdatedAt := later, lk_Status := ''success'',
         lk_Results := JArray (map subjectJSON ?subjects), lk_Total := 0\<rparr>)))" for other
    using quarantineEndpoint.served [OF accepted_quarantine_lookup [OF assms(1,2)], folded i_def, OF q, of other later]
      quarantine_id_path [OF assms(4)]
    by (auto simp: newLookup_def st'_def i_def)
  ultimately show ?thesis by blast
qed

theorem quarantine_lookup_serves_owner_witness:
  "\<exists>subjects st rt. subjects = [\<lparr> subj_Name = ''evil'', subj_SourceFile = ''/scan/docs/evil'' \<rparr>] \<and>
     snd (handleQuarantineLookupStart MethodPost (Some aliceActor) ''aa'' 5 False emptyLookups) = (st, rt) \<and>
     handleQuarantineLookup MethodGet ''/api/quarantine/lookups/quarantine-aa'' (Some aliceActor)
       (runQuarantineLookup quietWorld (sampleConfig False) False (Inr [\<lparr> de_name = ''evil'', de_mode = ModeRegular \<rparr>])
          sampleFiles ''quarantine-aa'' 9 st st) =
     writeJSON StatusOK (quarantineLookupJSON ((newLookup ''quarantine-aa'' alice 5 NoScope)
       \<lparr>lk_UpdatedAt := 9, lk_Status := ''success'', lk_Results := JArray (map subjectJSON subjects), lk_Total := 0\<rparr>))"
proof -
  let ?x = "\<lparr> subj_Name = ''evil'', subj_SourceFile = ''/scan/docs/evil'' \<rparr>"
  let ?e = "\<lparr> de_name = ''evil'', de_mode = ModeRegular \<rparr>"
  obtain r st rt where h: "handleQuarantineLookupStart MethodPost (Some aliceActor) ''aa'' 5 False emptyLookups = (r, st, rt)"
    by (metis surj_pair)
  have "rsp_status (fst (handleQuarantineLookupStart MethodPost (Some aliceActor) ''aa'' 5 False emptyLookups)) = StatusAccepted"
    by code_simp
  then have acc: "rsp_status r = StatusAccepted" by (simp add: h)
  have who: "ID (actorOrZero (Some aliceActor)) = alice" and valid: "validUserID alice" by code_simp+
  have sub: "subjectOf quietWorld (sampleConfig False) alice sampleFiles ?e = Some ?x" by code_simp
  obtain subjects where s: "set subjects = {?x}" "sorted_wrt (\<lambda>a b. strLess (subj_Name a) (subj_Name b)) subjects"
    "\<forall>other. handleQuarantineLookup MethodGet (''/api/quarantine/lookups/'' @ ''quarantine-'' @ ''aa'') other
       (runQuarantineLookup quietWorld (sampleConfig False) False (Inr [?e]) sampleFiles (''quarantine-'' @ ''aa'') 9 st st) =
     (if ID (actorOrZero other) \<noteq> alice then httpNotFound
      else writeJSON StatusOK (quarantineLookupJSON ((newLookup (''quarantine-'' @ ''aa'') alice 5 NoScope)
       \<lparr>lk_UpdatedAt := 9, lk_Status := ''success'', lk_Results := JArray (map subjectJSON subjects), lk_Total := 0\<rparr>)))"
  proof -
    have "{x. \<exists>e \<in> set [?e]. subjectOf quietWorld (sampleConfig False) alice sampleFiles e = Some x} = {?x}" using sub by auto
    then show thesis
      using quarantine_lookup_serves_owner [OF h acc, of "[?e]" quietWorld "sampleConfig False" sampleFiles 9, unfolded who] valid that
      by simp metis
  qed
  have "subjects = [?x]"
  proof (cases subjects)
    case (Cons a as)
    then have "a = ?x" "set as \<subseteq> {?x}" using s(1) by auto
    moreover have "as = []" using s(2) calculation Cons by (cases as) auto
    ultimately show ?thesis using Cons by simp
  qed (use s(1) in simp)
  then show ?thesis using s(3) [rule_format, of "Some aliceActor", unfolded who] h by simp
qed

end
