(* ===== verification/Account_Deletion.thy ===== *)
theory Account_Deletion
  imports User_Admin Lookup_Handlers Whitelist
begin

text \<open>
  The deletion of an account (\<^verbatim>\<open>cleanDeleteUser\<close> in \<^verbatim>\<open>server/cleanup.go\<close> and the handlers of \<^verbatim>\<open>server/users.go\<close> that lead to it):
  the one operation that goes through every component. \<open>serverState\<close> puts the components' states together, \<open>serverWorld\<close>
  what they get from outside. The history indexer is present, as in \<^verbatim>\<open>main\<close>.
\<close>

section \<open>State\<close>

record serverState =
  sv_db :: userDB
  sv_queue :: queueState
  sv_lookups :: lookupSystem
  sv_cron :: "string res"
  sv_whitelist :: "string res"
  sv_files :: files
  sv_history :: historyDB

record serverWorld =
  sw_auth :: authWorld
  sw_cron :: cronWorld
  sw_tmp :: string
  sw_whitelist :: whitelistWorld
  sw_files :: quarantineWorld
  sw_quarantine :: "direntry list res"
  sw_history1 :: historyWorld
  sw_history2 :: historyWorld

section \<open>Deletion\<close>

definition activeJobs :: "string \<Rightarrow> historyDB \<Rightarrow> nat" where
  "activeJobs userID db =
     length (filter (\<lambda>r. hj_user r = userID \<and> (hj_status r = ''waiting'' \<or> hj_status r = ''running'')) (h_jobs db))"

text \<open>The checks at the start: the user's identifier, or the error.\<close>

definition deletable :: "serverWorld \<Rightarrow> string \<Rightarrow> userDB \<Rightarrow> string res" where
  "deletable w username db =
     (case (case aw_faults (sw_auth w) DeleteQuery of
              Some e \<Rightarrow> Inl e
            | None \<Rightarrow> (case userByName username db of None \<Rightarrow> Inl ErrNoRows | Some u \<Rightarrow> Inr u)) of
        Inl e \<Rightarrow> Inl e
      | Inr u \<Rightarrow>
          if activeAdmin u
          then (case aw_faults (sw_auth w) DeleteLastAdmin of
                  Some e \<Rightarrow> Inl e
                | None \<Rightarrow> if isLastActiveAdmin username db then Inl ErrLastAdmin else Inr (usr_id u))
          else Inr (usr_id u))"

text \<open>The user is marked, so that no session of it is accepted any more, and loses the sessions.\<close>

definition markDeleting :: "serverWorld \<Rightarrow> string \<Rightarrow> int \<Rightarrow> userDB \<Rightarrow> userDB res" where
  "markDeleting w userID now db =
     (case aw_faults (sw_auth w) DeleteMark of
        Some e \<Rightarrow> Inl e
      | None \<Rightarrow>
          let db1 = updateUser userID (\<lambda>u. u\<lparr>usr_status := ''deleting'', usr_updated := now\<rparr>) db in
          Inr (if aw_faults (sw_auth w) DeleteRevoke = None then revokeUser userID now db1 else db1))"

text \<open>What follows the mark: each step ends the deletion when it fails, and what was removed stays removed.\<close>

definition removeAssets :: "serverWorld \<Rightarrow> config \<Rightarrow> string \<Rightarrow> serverState \<Rightarrow> goerror option \<times> serverState" where
  "removeAssets w cfg userID st0 =
     (let st = st0\<lparr>sv_lookups := removeLookupsForUser userID (sv_lookups st0)\<rparr> in
      case removeCronRulesForUser (sw_cron w) (sw_tmp w) userID (sv_cron st) of
        (Some e, cron) \<Rightarrow> (Some e, st\<lparr>sv_cron := cron\<rparr>)
      | (None, cron) \<Rightarrow>
     (let st1 = st\<lparr>sv_cron := cron\<rparr> in
      case removeWhitelistForUser (sw_whitelist w) userID (sv_whitelist st1) of
        (Some e, wl) \<Rightarrow> (Some e, st1\<lparr>sv_whitelist := wl\<rparr>)
      | (None, wl) \<Rightarrow>
     (let st2 = st1\<lparr>sv_whitelist := wl\<rparr> in
      case cleanUserQuarantine (sw_files w) cfg (sw_quarantine w) userID (sv_files st2) of
        ((_, Some e), fs) \<Rightarrow> (Some e, st2\<lparr>sv_files := fs\<rparr>)
      | ((_, None), fs) \<Rightarrow>
     (case cleanUserResults (sw_history2 w) (sw_files w) cfg userID (sv_history st2, fs) of
        ((_, err), hdb, fs1) \<Rightarrow>
          (let st3 = st2\<lparr>sv_files := fs1, sv_history := hdb\<rparr> in
           case err of
             Some e \<Rightarrow> (Some e, st3)
           | None \<Rightarrow>
               (case aw_faults (sw_auth w) DeleteUser of
                  Some e \<Rightarrow> (Some e, st3)
                | None \<Rightarrow> (None, st3\<lparr>sv_db := deleteUserRow userID (sv_db st3)\<rparr>)))))))"

definition cleanDeleteUser :: "serverWorld \<Rightarrow> config \<Rightarrow> string \<Rightarrow> int \<Rightarrow> serverState \<Rightarrow> goerror option \<times> serverState" where
  "cleanDeleteUser w cfg username now st =
     (case deletable w username (sv_db st) of
        Inl e \<Rightarrow> (Some e, st)
      | Inr userID \<Rightarrow>
     (let st1 = st\<lparr>sv_history := snd (refresh (sw_history1 w) (JobsDir cfg) (LogDir cfg) (sv_history st))\<rparr> in
      case hw_fault (sw_history1 w) CountActive of
        Some e \<Rightarrow> (Some e, st1)
      | None \<Rightarrow>
          if activeJobs userID (sv_history st1) > 0 then (Some ErrUserBusy, st1)
          else case dropUserBatches userID (sv_queue st1) of
            None \<Rightarrow> (Some ErrUserBusy, st1)
          | Some q \<Rightarrow>
              (let st2 = st1\<lparr>sv_queue := q\<rparr> in
               case markDeleting w userID now (sv_db st2) of
                 Inl e \<Rightarrow> (Some e, st2)
               | Inr db \<Rightarrow> removeAssets w cfg userID (st2\<lparr>sv_db := db\<rparr>))))"

section \<open>The handlers\<close>

definition handleAdminUser ::
    "serverWorld \<Rightarrow> config \<Rightarrow> httpMethod \<Rightarrow> string \<Rightarrow> actor option \<Rightarrow> userPatchRequest res \<Rightarrow> int \<Rightarrow> serverState \<Rightarrow>
     reply \<times> serverState" where
  "handleAdminUser w cfg method urlPath ctx body now st =
     (case requireAdminActor ctx of
        Inl e \<Rightarrow> (plain (writeError StatusForbidden e), st)
      | Inr who \<Rightarrow>
          let username = TrimPrefix urlPath ''/api/admin/users/'' in
          if \<not> usernamePattern username then (plain httpNotFound, st)
          else if method = MethodPatch then
            (case patchAdminUser (sw_auth w) (sw_cron w) (sw_tmp w) cfg body username now
                    \<lparr> ad_db = sv_db st, ad_cron = sv_cron st \<rparr> of
               (rp, ad) \<Rightarrow> (rp, st\<lparr>sv_db := ad_db ad, sv_cron := ad_cron ad\<rparr>))
          else if method = MethodDelete then
            (if username = Username who
             then (plain (writeError StatusBadRequest
                    (ErrText ''use the account deletion endpoint to delete your own account'')), st)
             else case cleanDeleteUser w cfg username now st of
               (Some e, st1) \<Rightarrow> (plain (writeError (userDeletionStatus e) e), st1)
             | (None, st1) \<Rightarrow> (plain (writeJSON StatusOK (JObject [(''status'', JString ''success'')])), st1))
          else (plain methodNotAllowed, st))"

text \<open>\<open>body\<close> is the password of \<^verbatim>\<open>accountDeleteRequest\<close>.\<close>

definition handleAuthAccount ::
    "serverWorld \<Rightarrow> config \<Rightarrow> httpMethod \<Rightarrow> actor option \<Rightarrow> string res \<Rightarrow> int \<Rightarrow> serverState \<Rightarrow> reply \<times> serverState" where
  "handleAuthAccount w cfg method ctx body now st =
     (if method \<noteq> MethodDelete then (plain methodNotAllowed, st)
      else case body of
        Inl e \<Rightarrow> (plain (writeError StatusBadRequest e), st)
      | Inr password \<Rightarrow>
          let who = actorOrZero ctx; aw = sw_auth w;
              wrong = (plain (writeError StatusUnauthorized (ErrText ''password is incorrect'')), st) in
          (case (if aw_faults aw AccountQuery \<noteq> None then None
                 else Option.bind (userByID (ID who) (sv_db st)) usr_password) of
             None \<Rightarrow> wrong
           | Some hash \<Rightarrow>
               (case server_verifyPassword (aw_IDKey aw) (aw_slots aw) password hash of
                  Inl _ \<Rightarrow> (writeArgon2Busy, st)
                | Inr False \<Rightarrow> wrong
                | Inr True \<Rightarrow>
                    (case cleanDeleteUser w cfg (Username who) now st of
                       (Some e, st1) \<Rightarrow> (plain (writeError (userDeletionStatus e) e), st1)
                     | (None, st1) \<Rightarrow>
                         (\<lparr> rp_response = writeJSON StatusOK (JObject [(''status'', JString ''success'')]),
                            rp_cookie = ClearSession, rp_retryAfter = None \<rparr>, st1)))))"

end
