(* ===== verification/Account_System.thy ===== *)
theory Account_System
  imports Account_Deletion User_Statements
begin

text \<open>
  The user database under all requests: each handler of \<^verbatim>\<open>auth.go\<close>, \<^verbatim>\<open>users.go\<close> and \<^verbatim>\<open>cleanup.go\<close> is shown to be a sequence of the
  statements of \<^verbatim>\<open>User_Statements\<close>, and a step relation lets requests and the session janitor follow each other in any order. The
  properties concern the tables, sessions and their revocation, registration, and the last administrator.
\<close>

section \<open>Handlers as sequences of statements\<close>

text \<open>\<open>dbChange H\<close>: checked statements lead from one database to the other and issue only session tokens with a hash in \<open>H\<close>.\<close>

definition dbChange :: "string set \<Rightarrow> userDB \<Rightarrow> userDB \<Rightarrow> bool" where
  "dbChange H db db' \<longleftrightarrow>
     (\<exists>ss. list_all checkedStatement ss \<and> (\<forall>h. list_ex (issues h) ss \<longrightarrow> h \<in> H) \<and> db' = execAll ss db)"

lemma dbChange_refl [simp]: "dbChange H db db"
  unfolding dbChange_def by (rule exI [of _ "[]"]) simp

lemma dbChange_trans: "dbChange H a b \<Longrightarrow> dbChange H b c \<Longrightarrow> dbChange H a c"
  unfolding dbChange_def by (metis execAll_simps(3) list_all_append list_ex_append)

lemma dbChange_mono: "dbChange H a b \<Longrightarrow> H \<subseteq> H' \<Longrightarrow> dbChange H' a b"
  unfolding dbChange_def by blast

lemma dbChange_exec: "checkedStatement s \<Longrightarrow> (\<And>h. issues h s \<Longrightarrow> h \<in> H) \<Longrightarrow> dbChange H db (exec s db)"
  unfolding dbChange_def by (rule exI [of _ "[s]"]) simp

lemma dbChange_inv: "dbChange H db db' \<Longrightarrow> dbInv db \<Longrightarrow> dbInv db'"
  unfolding dbChange_def by (auto intro: execAll_inv)

lemma dbChange_dead: "dbChange H db db' \<Longrightarrow> h \<notin> H \<Longrightarrow> dead h db \<Longrightarrow> dead h db'"
  unfolding dbChange_def by (auto intro!: dead_execAll)

lemma authenticateRequest_change: "dbChange {} db (snd (authenticateRequest sha faults cookie now db))"
proof -
  have "dbChange {} db (updateSessions (\<lambda>y. ses_id y = i) (refreshSession now) db)" for i
    using dbChange_exec [of "RefreshSession i now" "{}" db] by simp
  then show ?thesis by (auto simp: authenticateRequest_def split: option.splits)
qed

lemma requireAuth_change: "dbChange {} db (snd (requireAuth sha faults parse path meth origin host cookie now db))"
  using authenticateRequest_change [of db sha faults cookie now]
  by (auto simp: requireAuth_def split: prod.splits sum.splits)

lemma registerRole_change: "dbChange {} db (snd (registerRole w cfg app origin host cookie now req db))"
  using authenticateRequest_change [of db "aw_sha256 w" "aw_faults w" cookie now]
  by (auto simp: registerRole_def Let_def split: prod.splits sum.splits)

lemma allocateUser_insert:
  "allocateUser w row n gs db = Inr db' \<Longrightarrow> \<exists>i. insertUser (row\<lparr>usr_id := i\<rparr>) db = Inr db'"
  by (induction w row n gs db rule: allocateUser.induct)
    (auto simp: authFault_def bind_res_def split: if_splits sum.splits option.splits)

lemma createUser_insert:
  assumes "createUser w username role account encoded gs now db = Inr db'"
  shows "\<exists>row. insertUser row db = Inr db' \<and> usr_username row = username \<and> usr_role row = role \<and> usr_status row = ''active'' \<and>
    usr_password row = encoded"
proof -
  let ?row = "\<lparr> usr_id = [], usr_username = username, usr_password = encoded, usr_role = role,
      usr_timedock = account, usr_status = ''active'', usr_created = now, usr_updated = now \<rparr>"
  have "allocateUser w ?row 32 gs db = Inr db'"
    using assms by (auto simp: createUser_def split: option.splits if_splits sum.splits)
  then obtain i where "insertUser (?row\<lparr>usr_id := i\<rparr>) db = Inr db'" using allocateUser_insert by blast
  then show ?thesis by (intro exI [of _ "?row\<lparr>usr_id := i\<rparr>"]) simp
qed

lemma insertUser_change: "insertUser row db = Inr db' \<Longrightarrow> usr_status row = ''active'' \<Longrightarrow> dbChange {} db db'"
  using dbChange_exec [of "InsertUser row" "{}" db] by simp

lemma authenticateRequest_users: "authenticateRequest sha faults cookie now db = (r, db1) \<Longrightarrow> db_users db1 = db_users db"
  by (auto simp: authenticateRequest_def updateSessions_def split: if_splits option.splits)

lemma registerRole_users: "registerRole w cfg app origin host cookie now req db = (r, db1) \<Longrightarrow> db_users db1 = db_users db"
  by (auto simp: registerRole_def Let_def split: if_splits prod.splits sum.splits dest: authenticateRequest_users)

lemma registerRole_refusal:
  "registerRole w cfg app origin host cookie now req db = (Inl r, db1) \<Longrightarrow> rsp_status r \<noteq> StatusCreated"
  by (auto simp: registerRole_def Let_def writeError_def split: if_splits prod.splits sum.splits)

lemma registerPassword_refusal: "registerPassword w req db = Inl rp \<Longrightarrow> rsp_status (rp_response rp) \<noteq> StatusCreated"
  by (auto simp: registerPassword_def writeError_def plain_def writeArgon2Busy_def split: if_splits sum.splits goerror.splits)

lemma registerPassword_first: "registerPassword w req db = Inr None \<Longrightarrow> db_users db \<noteq> []"
  by (auto simp: registerPassword_def split: if_splits sum.splits goerror.splits)

lemma createUser_refusal: "createUser w username role account encoded gs now db = Inl r \<Longrightarrow> rsp_status r \<noteq> StatusCreated"
  by (auto simp: createUser_def writeError_def split: if_splits option.splits sum.splits)

text \<open>A registration either only authenticates the caller or, answered 201, also adds one user.\<close>

lemma handleAuthRegister_cases:
  fixes w cfg app meth origin host cookie body gs now db
  defines "r \<equiv> handleAuthRegister w cfg app meth origin host cookie body gs now db"
  obtains (same) "rsp_status (rp_response (fst r)) \<noteq> StatusCreated" "dbChange {} db (snd r)" "db_users (snd r) = db_users db"
  | (created) req role db1 row where "rsp_status (rp_response (fst r)) = StatusCreated" "body = Inr req"
      "registerRole w cfg app origin host cookie now req db = (Inr role, db1)"
      "insertUser row db1 = Inr (snd r)" "usr_role row = role" "usr_status row = ''active''"
      "usr_username row = TrimSpace (req_Username req)" "db_users db = [] \<longrightarrow> usr_password row \<noteq> None"
proof -
  let ?refused = "rsp_status (rp_response (fst r)) \<noteq> StatusCreated \<and> snd r = db"
  have "?refused \<or> (\<exists>req account. body = Inr req \<and>
      r = (case registerRole w cfg app origin host cookie now req db of
             (Inl r, db1) \<Rightarrow> (plain r, db1)
           | (Inr role, db1) \<Rightarrow>
               (case registerPassword w req db of
                  Inl rp \<Rightarrow> (rp, db1)
                | Inr encoded \<Rightarrow>
                    (case createUser w (TrimSpace (req_Username req)) role account encoded gs now db1 of
                       Inl r \<Rightarrow> (plain r, db1)
                     | Inr db2 \<Rightarrow>
                         (plain (writeJSON StatusCreated
                            (JObject [(''status'', JString ''success''), (''username'', JString (TrimSpace (req_Username req))),
                              (''role'', JString role), (''timedock_account'', JString account),
                              (''password_set'', JBool (encoded \<noteq> None))])), db2)))))"
    by (auto simp: r_def handleAuthRegister_def Let_def writeError_def methodNotAllowed_def plain_def split: sum.splits option.splits)
  then consider ?refused | req account where "body = Inr req" and
      "r = (case registerRole w cfg app origin host cookie now req db of
             (Inl r, db1) \<Rightarrow> (plain r, db1)
           | (Inr role, db1) \<Rightarrow>
               (case registerPassword w req db of
                  Inl rp \<Rightarrow> (rp, db1)
                | Inr encoded \<Rightarrow>
                    (case createUser w (TrimSpace (req_Username req)) role account encoded gs now db1 of
                       Inl r \<Rightarrow> (plain r, db1)
                     | Inr db2 \<Rightarrow>
                         (plain (writeJSON StatusCreated
                            (JObject [(''status'', JString ''success''), (''username'', JString (TrimSpace (req_Username req))),
                              (''role'', JString role), (''timedock_account'', JString account),
                              (''password_set'', JBool (encoded \<noteq> None))])), db2))))" by blast
  then show thesis
  proof cases
    case 1
    then show ?thesis using same by simp
  next
    case (2 req account)
    obtain x db1 where role: "registerRole w cfg app origin host cookie now req db = (x, db1)" by fastforce
    have db1: "dbChange {} db db1" "db_users db1 = db_users db"
      using registerRole_change [of db w cfg app origin host cookie now req] registerRole_users [OF role] by (simp_all add: role)
    show ?thesis
    proof (cases "(\<exists>role enc db2. x = Inr role \<and> registerPassword w req db = Inr enc \<and>
        createUser w (TrimSpace (req_Username req)) role account enc gs now db1 = Inr db2)")
      case False
      then have "snd r = db1" "rsp_status (rp_response (fst r)) \<noteq> StatusCreated"
        using 2(2) registerRole_refusal [of w cfg app origin host cookie now req db] role registerPassword_refusal [of w req db]
          createUser_refusal [of w "TrimSpace (req_Username req)"]
        by (auto simp: plain_def split: sum.splits)
      then show ?thesis using same db1 by simp
    next
      case True
      then obtain role' enc db2 where t: "x = Inr role'" "registerPassword w req db = Inr enc"
          "createUser w (TrimSpace (req_Username req)) role' account enc gs now db1 = Inr db2" by blast
      then have r: "snd r = db2" "rsp_status (rp_response (fst r)) = StatusCreated" using 2(2) role by (simp_all add: plain_def)
      obtain row where row: "insertUser row db1 = Inr db2" "usr_username row = TrimSpace (req_Username req)" "usr_role row = role'"
          "usr_status row = ''active''" "usr_password row = enc" using createUser_insert [OF t(3)] by blast
      have "db_users db = [] \<longrightarrow> usr_password row \<noteq> None" using t(2) row(5) registerPassword_first [of w req db] by auto
      then show ?thesis using created [OF r(2) 2(1) role [unfolded t(1)], of row] row r(1) by simp
    qed
  qed
qed

lemma handleAuthRegister_change:
  "dbChange {} db (snd (handleAuthRegister w cfg app meth origin host cookie body gs now db))"
proof (rule handleAuthRegister_cases [of w cfg app meth origin host cookie body gs now db])
  fix req role db1 row
  assume role: "registerRole w cfg app origin host cookie now req db = (Inr role, db1)"
    and row: "insertUser row db1 = Inr (snd (handleAuthRegister w cfg app meth origin host cookie body gs now db))"
      "usr_status row = ''active''"
  have "dbChange {} db db1"
    using registerRole_change [of db w cfg app origin host cookie now req] by (simp add: role)
  then show ?thesis using insertUser_change [OF row] dbChange_trans by blast
qed

definition loginHashes :: "authWorld \<Rightarrow> string set" where
  "loginHashes w = (case newSessionToken (aw_sha256 w) (aw_rawToken w) of Inl _ \<Rightarrow> {} | Inr (_, h) \<Rightarrow> {h})"

lemma openSession_change: "dbChange (loginHashes w) db (snd (openSession w u now db))"
proof -
  have "dbChange {h} db db'" if "insertSession h i now db = Inr db'" for h i db'
    using dbChange_exec [of "InsertSession h i now" "{h}" db] that by simp
  then show ?thesis
    by (auto simp: openSession_def loginHashes_def authFault_def split: sum.splits prod.splits option.splits)
qed

lemma handleAuthLogin_change:
  "dbChange (loginHashes w) (as_db st) (as_db (snd (handleAuthLogin w app meth remote fwd body nowNs now st)))"
proof -
  have "dbChange (loginHashes w) (as_db st) db" if "openSession w u now (as_db st) = (rp, db)" for u rp db
    using openSession_change [of w "as_db st" u now] that by simp
  then show ?thesis by (auto simp: handleAuthLogin_def Let_def split: prod.splits sum.splits option.splits)
qed

lemma handleAuthLogout_change: "dbChange {} db (snd (handleAuthLogout w meth cookie now db))"
  using dbChange_exec [of "RevokeHash (aw_sha256 w (the cookie)) now" "{}" db]
  by (auto simp: handleAuthLogout_def split: option.splits)

lemma changePassword_change: "changePassword w u hash now db = Inr db' \<Longrightarrow> dbChange {} db db'"
  using dbChange_exec [of "SetPassword u hash now" "{}" db]
    dbChange_exec [of "RevokeAll u now" "{}" "exec (SetPassword u hash now) db"]
  by (auto simp: changePassword_def authFault_def split: option.splits intro: dbChange_trans)

lemma handleAuthPassword_change: "dbChange {} db (snd (handleAuthPassword w meth ctx body now db))"
proof -
  have "snd (handleAuthPassword w meth ctx body now db) = db \<or>
      (\<exists>u hash. changePassword w u hash now db = Inr (snd (handleAuthPassword w meth ctx body now db)))"
    by (auto simp: handleAuthPassword_def Let_def split: sum.splits option.splits bool.splits goerror.splits)
  then show ?thesis using changePassword_change by fastforce
qed

lemma patchRole_range: "patchRole w asked n role db = Inr r \<Longrightarrow> role \<in> {''user'', ''admin''} \<Longrightarrow> r \<in> {''user'', ''admin''}"
  by (auto simp: patchRole_def Let_def split: option.splits if_splits)

lemma patchStatus_range:
  "patchStatus w asked n role st db = Inr r \<Longrightarrow> st \<in> {''active'', ''disabled'', ''deleting''} \<Longrightarrow> r \<in> {''active'', ''disabled'', ''deleting''}"
  by (auto simp: patchStatus_def Let_def split: option.splits if_splits)

lemma patchCheck_Inr:
  assumes "patchCheck w body username db = Inr c"
  obtains req u where "body = Inr req" and "userByName username db = Some u" and "ch_id c = usr_id u"
    and "patchRole w (patch_Role req) username (usr_role u) db = Inr (ch_role c)"
    and "patchStatus w (patch_Status req) username (ch_role c) (usr_status u) db = Inr (ch_status c)"
  using assms by (auto simp: patchCheck_def split: sum.splits option.splits if_splits)

lemma patchCheck_admissible:
  assumes "dbInv db" and "patchCheck w body username db = Inr c"
  shows "checkedStatement (PatchUser c now)"
proof (rule patchCheck_Inr [OF assms(2)])
  fix req u
  assume u: "userByName username db = Some u"
    and role: "patchRole w (patch_Role req) username (usr_role u) db = Inr (ch_role c)"
    and st: "patchStatus w (patch_Status req) username (ch_role c) (usr_status u) db = Inr (ch_status c)"
  have "userOK u" using u assms(1) by (auto simp: userByName_iff [OF assms(1)]) (simp add: dbInv_def)
  then show ?thesis using patchRole_range [OF role] patchStatus_range [OF st] by (simp add: userOK_def)
qed

lemma patchApply_change: "patchApply w given c now db = Inr db' \<Longrightarrow> checkedStatement (PatchUser c now) \<Longrightarrow> dbChange {} db db'"
  using dbChange_exec [of "PatchUser c now" "{}" db] dbChange_exec [of "RevokeLive (ch_id c) now" "{}" "exec (PatchUser c now) db"]
  by (auto simp: patchApply_def Let_def split: option.splits if_splits intro: dbChange_trans)

lemma patchAdminUser_db:
  "ad_db (snd (patchAdminUser w cw tmp cfg body username now st)) = ad_db st \<or>
   (\<exists>c given. patchCheck w body username (ad_db st) = Inr c \<and>
      patchApply w given c now (ad_db st) = Inr (ad_db (snd (patchAdminUser w cw tmp cfg body username now st))))"
  by (auto simp: patchAdminUser_def disableCron_def Let_def split: sum.splits option.splits prod.splits)

lemma patchAdminUser_change:
  "dbInv (ad_db st) \<Longrightarrow> dbChange {} (ad_db st) (ad_db (snd (patchAdminUser w cw tmp cfg body username now st)))"
  using patchAdminUser_db [of w cw tmp cfg body username now st] patchApply_change patchCheck_admissible by fastforce

lemma markDeleting_change: "markDeleting w u now db = Inr db' \<Longrightarrow> dbChange {} db db'"
  using dbChange_exec [of "MarkDeleting u now" "{}" db] dbChange_exec [of "RevokeLive u now" "{}" "exec (MarkDeleting u now) db"]
  by (auto simp: markDeleting_def Let_def split: option.splits if_splits intro: dbChange_trans)

lemma removeAssets_db: "sv_db (snd (removeAssets w cfg u st)) \<in> {sv_db st, deleteUserRow u (sv_db st)}"
  by (auto simp: removeAssets_def Let_def split: prod.splits option.splits)

lemma cleanDeleteUser_db:
  obtains (same) "sv_db (snd (cleanDeleteUser w cfg username now st)) = sv_db st"
  | (deleted) u db where "deletable w username (sv_db st) = Inr u" "markDeleting w u now (sv_db st) = Inr db"
      "sv_db (snd (cleanDeleteUser w cfg username now st)) \<in> {db, deleteUserRow u db}"
proof (cases "deletable w username (sv_db st)")
  case (Inl e)
  then show thesis using same by (simp add: cleanDeleteUser_def)
next
  case (Inr u)
  show thesis
  proof (cases "markDeleting w u now (sv_db st)")
    case (Inl e)
    then show thesis using same Inr by (auto simp: cleanDeleteUser_def Let_def split: option.splits)
  next
    case db: (Inr db)
    have "sv_db (snd (removeAssets w cfg u (s\<lparr>sv_db := db\<rparr>))) \<in> {db, deleteUserRow u db}" for s
      using removeAssets_db [of w cfg u "s\<lparr>sv_db := db\<rparr>"] by simp
    then have "sv_db (snd (cleanDeleteUser w cfg username now st)) \<in> {sv_db st, db, deleteUserRow u db}"
      using Inr db by (auto simp: cleanDeleteUser_def Let_def split: option.splits)
    then show thesis using same deleted [OF Inr db] by auto
  qed
qed

lemma cleanDeleteUser_change: "dbChange {} (sv_db st) (sv_db (snd (cleanDeleteUser w cfg username now st)))"
proof (rule cleanDeleteUser_db [of w cfg username now st])
  fix u db
  assume m: "markDeleting w u now (sv_db st) = Inr db"
    and d: "sv_db (snd (cleanDeleteUser w cfg username now st)) \<in> {db, deleteUserRow u db}"
  have "dbChange {} db (deleteUserRow u db)" using dbChange_exec [of "DeleteUserRow u" "{}" db] by simp
  then show ?thesis using markDeleting_change [OF m] d dbChange_trans by auto
qed simp

lemma handleAdminUser_change:
  "dbInv (sv_db st) \<Longrightarrow> dbChange {} (sv_db st) (sv_db (snd (handleAdminUser w cfg meth path ctx body now st)))"
  using cleanDeleteUser_change [of st w cfg "TrimPrefix path ''/api/admin/users/''" now]
    patchAdminUser_change [of "\<lparr> ad_db = sv_db st, ad_cron = sv_cron st \<rparr>" "sw_auth w" "sw_cron w" "sw_tmp w" cfg body
      "TrimPrefix path ''/api/admin/users/''" now]
  by (auto simp: handleAdminUser_def Let_def split: sum.splits prod.splits option.splits)

lemma handleAuthAccount_change: "dbChange {} (sv_db st) (sv_db (snd (handleAuthAccount w cfg meth ctx body now st)))"
  using cleanDeleteUser_change [of st w cfg "Username (actorOrZero ctx)" now]
  by (auto simp: handleAuthAccount_def Let_def split: sum.splits prod.splits option.splits bool.splits)

lemma sessionJanitor_change: "dbChange {} db (sessionJanitor faults now db)"
  using dbChange_exec [of "DeleteExpired now" "{}" db] by (auto simp: sessionJanitor_def split: option.splits)

section \<open>Requests in any order\<close>

text \<open>
  One request or one run of the janitor. The set holds the hash of the session token that a login may issue. Everything from outside may
  differ from step to step, except the hash function.
\<close>

inductive accountStep :: "(string \<Rightarrow> string) \<Rightarrow> string set \<Rightarrow> serverState \<Rightarrow> serverState \<Rightarrow> bool" for sha where
  request: "accountStep sha {} st
     (st\<lparr>sv_db := snd (requireAuth sha faults parse path meth origin host cookie now (sv_db st))\<rparr>)"
| register: "aw_sha256 w = sha \<Longrightarrow> accountStep sha {} st
     (st\<lparr>sv_db := snd (handleAuthRegister w cfg app hmethod origin host cookie rbody gs now (sv_db st))\<rparr>)"
| login: "aw_sha256 w = sha \<Longrightarrow> accountStep sha (loginHashes w) st
     (st\<lparr>sv_db := as_db (snd (handleAuthLogin w app hmethod remote fwd rbody nowNs now \<lparr> as_db = sv_db st, as_limiter = limiter \<rparr>))\<rparr>)"
| logout: "aw_sha256 w = sha \<Longrightarrow> accountStep sha {} st (st\<lparr>sv_db := snd (handleAuthLogout w hmethod cookie now (sv_db st))\<rparr>)"
| password: "accountStep sha {} st (st\<lparr>sv_db := snd (handleAuthPassword w hmethod ctx pbody now (sv_db st))\<rparr>)"
| adminUser: "accountStep sha {} st (snd (handleAdminUser sw cfg hmethod path ctx ubody now st))"
| account: "accountStep sha {} st (snd (handleAuthAccount sw cfg hmethod ctx abody now st))"
| janitor: "accountStep sha {} st (st\<lparr>sv_db := sessionJanitor faults now (sv_db st)\<rparr>)"

inductive accountRun :: "(string \<Rightarrow> string) \<Rightarrow> string set \<Rightarrow> serverState \<Rightarrow> serverState \<Rightarrow> bool" for sha where
  none: "accountRun sha {} st st"
| more: "accountRun sha H st st1 \<Longrightarrow> accountStep sha H' st1 st2 \<Longrightarrow> accountRun sha (H \<union> H') st st2"

lemma login_change:
  "dbChange (loginHashes w) db (as_db (snd (handleAuthLogin w app m remote fwd body nowNs now \<lparr> as_db = db, as_limiter = l \<rparr>)))"
  using handleAuthLogin_change [of w "\<lparr> as_db = db, as_limiter = l \<rparr>" app m remote fwd body nowNs now] by simp

lemma accountStep_change: "accountStep sha H st st' \<Longrightarrow> dbInv (sv_db st) \<Longrightarrow> dbChange H (sv_db st) (sv_db st')"
  by (induction rule: accountStep.induct)
    (simp_all add: requireAuth_change handleAuthRegister_change login_change handleAuthLogout_change handleAuthPassword_change
       handleAdminUser_change handleAuthAccount_change sessionJanitor_change)

lemma accountStep_inv: "accountStep sha H st st' \<Longrightarrow> dbInv (sv_db st) \<Longrightarrow> dbInv (sv_db st')"
  using accountStep_change dbChange_inv by blast

lemma accountRun_inv: "accountRun sha H st st' \<Longrightarrow> dbInv (sv_db st) \<Longrightarrow> dbInv (sv_db st')"
  by (induction rule: accountRun.induct) (auto intro: accountStep_inv)

lemma accountRun_dead: "accountRun sha H st st' \<Longrightarrow> dbInv (sv_db st) \<Longrightarrow> h \<notin> H \<Longrightarrow> dead h (sv_db st) \<Longrightarrow> dead h (sv_db st')"
proof (induction rule: accountRun.induct)
  case (more H st st1 H' st2)
  then show ?case using accountRun_inv accountStep_change dbChange_dead by blast
qed

section \<open>Sessions\<close>

lemma dead_rejected:
  assumes "dead (sha token) db" and "HasPrefix path ''/api/''" and "\<not> publicAPIPath path"
  shows "fst (requireAuth sha faults parse path meth origin host (Some token) now db) =
    Rejected (writeError StatusUnauthorized (ErrText ''authentication required''))"
  using assms dead_authRow [OF assms(1), of now]
  by (auto simp: requireAuth_def authenticateRequest_def split: option.splits)

lemma logout_kills:
  assumes "aw_faults w LogoutUpdate = None"
  shows "dead (aw_sha256 w token) (snd (handleAuthLogout w MethodPost (Some token) now db))"
  using assms by (auto simp: dead_def handleAuthLogout_def updateSessions_def)

lemma password_kills:
  assumes "handleAuthPassword w MethodPut ctx body now db = (rp, db')" and "rsp_status (rp_response rp) = StatusOK"
    and "\<forall>x \<in> set (db_sessions db). ses_hash x = h \<longrightarrow> ses_user x = ID (actorOrZero ctx)"
  shows "dead h db'"
proof -
  obtain hash where "changePassword w (ID (actorOrZero ctx)) hash now db = Inr db'"
    using assms(1,2)
    by (auto simp: handleAuthPassword_def Let_def writeError_def plain_def writeArgon2Busy_def
        split: sum.splits option.splits bool.splits goerror.splits)
  then show ?thesis
    using assms(3) by (auto simp: changePassword_def authFault_def dead_def updateSessions_def updateUser_def split: option.splits)
qed

text \<open>
  C9: A session that was ended stays ended: after a logout, or after the owner changed the password, a request with that session's
  token to any protected path is answered 401, whatever requests of whatever users, password changes, deletions and janitor runs
  come in between, as long as no login issues the same token again.
\<close>

theorem ended_sessions_stay_ended:
  assumes "dbInv (sv_db st)"
    and "(\<exists>w now. aw_sha256 w = sha \<and> aw_faults w LogoutUpdate = None \<and> db = snd (handleAuthLogout w MethodPost (Some token) now (sv_db st))) \<or>
      (\<exists>w ctx body now rp. aw_sha256 w = sha \<and> handleAuthPassword w MethodPut ctx body now (sv_db st) = (rp, db) \<and>
         rsp_status (rp_response rp) = StatusOK \<and>
         (\<forall>x \<in> set (db_sessions (sv_db st)). ses_hash x = sha token \<longrightarrow> ses_user x = ID (actorOrZero ctx)))"
    and "accountRun sha H (st\<lparr>sv_db := db\<rparr>) st'" and "sha token \<notin> H"
    and "HasPrefix path ''/api/''" and "\<not> publicAPIPath path"
  shows "fst (requireAuth sha faults parse path meth origin host (Some token) now (sv_db st')) =
    Rejected (writeError StatusUnauthorized (ErrText ''authentication required''))"
proof -
  have "dbInv db"
    using assms(1,2) dbChange_inv handleAuthLogout_change handleAuthPassword_change by (metis snd_conv)
  moreover have "dead (sha token) db" using assms(2) logout_kills password_kills by blast
  ultimately have "dead (sha token) (sv_db st')" using accountRun_dead [OF assms(3), of "sha token"] assms(4) by simp
  then show ?thesis by (rule dead_rejected [OF _ assms(5,6)])
qed

text \<open>
  In every state the system can reach, a request is only accepted for an active user of the table and with a session of that user that is
  not revoked, was opened less than 24 hours ago and used less than two hours ago; the actor has the identity and the role of the table.
\<close>

theorem accepted_sessions_are_fresh:
  assumes "accountRun sha H st st'" and "dbInv (sv_db st)"
    and "fst (authenticateRequest sha faults cookie now (sv_db st')) = Inr who"
  shows "\<exists>x u token. cookie = Some token \<and> x \<in> set (db_sessions (sv_db st')) \<and> u \<in> set (db_users (sv_db st')) \<and>
    ses_hash x = sha token \<and> ses_user x = usr_id u \<and> ses_revoked x = None \<and>
    now < ses_created x + 24 * 60 * 60 \<and> now < ses_lastSeen x + 2 * 60 * 60 \<and> usr_status u = ''active'' \<and>
    who = \<lparr> ID = usr_id u, Username = usr_username u, Role = usr_role u, TimeDockAccount = usr_timedock u \<rparr>"
proof -
  have inv: "dbInv (sv_db st')" by (rule accountRun_inv [OF assms(1,2)])
  obtain token x u where c: "cookie = Some token" "authRow (sha token) now (sv_db st') = Some (x, u)"
      "who = \<lparr> ID = usr_id u, Username = usr_username u, Role = usr_role u, TimeDockAccount = usr_timedock u \<rparr>"
  proof (cases cookie)
    case (Some token)
    then show thesis
      using assms(3) that [of token] by (auto simp: authenticateRequest_def split: option.splits if_splits)
  qed (use assms(3) in \<open>simp add: authenticateRequest_def\<close>)
  then have x: "x \<in> set (db_sessions (sv_db st'))" "ses_hash x = sha token" "liveSession now (sv_db st') x"
      "userByID (ses_user x) (sv_db st') = Some u"
    by (auto simp: authRow_def find_Some_iff split: option.splits)
  then have "sessionOK x" using inv by (simp add: dbInv_def)
  then have "now < ses_created x + 24 * 60 * 60" "now < ses_lastSeen x + 2 * 60 * 60"
    using x(3) by (auto simp: liveSession_def sessionOK_def sessionIdleTTL_def sessionAbsoluteTTL_def)
  moreover have "u \<in> set (db_users (sv_db st'))" "usr_id u = ses_user x" "usr_status u = ''active''" "ses_revoked x = None"
    using x(3,4) by (auto simp: liveSession_def userByID_iff [OF inv])
  ultimately show ?thesis using c x by (intro exI [of _ x] exI [of _ u] exI [of _ token]) simp
qed

section \<open>The last administrator\<close>

definition hasActiveAdmin :: "userDB \<Rightarrow> bool" where
  "hasActiveAdmin db \<longleftrightarrow> (\<exists>u \<in> set (db_users db). activeAdmin u)"

lemma updateUser_other:
  "u \<in> set (db_users db) \<Longrightarrow> usr_id u \<noteq> i \<Longrightarrow> u \<in> set (db_users (updateUser i f db))"
  by (auto simp: updateUser_def image_iff)

lemma updateUser_kept:
  "u \<in> set (db_users db) \<Longrightarrow> (usr_id u = i \<Longrightarrow> activeAdmin (f u)) \<Longrightarrow> activeAdmin u \<Longrightarrow> hasActiveAdmin (updateUser i f db)"
  by (auto simp: hasActiveAdmin_def updateUser_def)

lemma sessions_only [simp]:
  "hasActiveAdmin (updateSessions P f db) = hasActiveAdmin db" "hasActiveAdmin (revokeUser u now db) = hasActiveAdmin db"
  "hasActiveAdmin (sessionJanitor faults now db) = hasActiveAdmin db"
  by (auto simp: hasActiveAdmin_def updateSessions_def revokeUser_def sessionJanitor_def split: option.splits)

lemma otherAdmin:
  assumes "dbInv db" and "u \<in> set (db_users db)" and "\<not> isLastActiveAdmin (usr_username u) db"
  obtains a where "a \<in> set (db_users db)" and "activeAdmin a" and "usr_id a \<noteq> usr_id u"
proof -
  obtain a where a: "a \<in> set (db_users db)" "activeAdmin a" "usr_username a \<noteq> usr_username u"
    using assms(3) by (auto simp: isLastActiveAdmin_def list_ex_iff)
  then have "usr_id a \<noteq> usr_id u" using same_user [OF assms(1) a(1) assms(2)] by auto
  then show thesis using that a by blast
qed

lemma patch_keeps_admin:
  assumes inv: "dbInv db" and "hasActiveAdmin db" and c: "patchCheck w body username db = Inr c" and "patchApply w' given c now db = Inr db'"
  shows "hasActiveAdmin db'"
proof (rule patchCheck_Inr [OF c])
  fix req u
  assume u: "userByName username db = Some u" "ch_id c = usr_id u"
    and role: "patchRole w (patch_Role req) username (usr_role u) db = Inr (ch_role c)"
    and st: "patchStatus w (patch_Status req) username (ch_role c) (usr_status u) db = Inr (ch_status c)"
  have m: "u \<in> set (db_users db)" "usr_username u = username" using u by (simp_all add: userByName_iff [OF inv])
  let ?db = "updateUser (ch_id c) (applyChange c now) db"
  have "hasActiveAdmin ?db"
  proof (cases "\<exists>a \<in> set (db_users db). activeAdmin a \<and> usr_id a \<noteq> usr_id u")
    case True
    then show ?thesis using updateUser_other [of _ db "ch_id c"] u(2) by (auto simp: hasActiveAdmin_def)
  next
    case False
    then have "activeAdmin u" using assms(2) same_user [OF inv] m(1) by (metis hasActiveAdmin_def)
    moreover have "isLastActiveAdmin username db" using False otherAdmin [OF inv m(1)] m(2) by metis
    ultimately have "ch_role c = ''admin''" "ch_status c = ''active''"
      using role st by (auto simp: patchRole_def patchStatus_def lastOrUnknown_def activeAdmin_def Let_def split: option.splits if_splits)
    then show ?thesis using \<open>activeAdmin u\<close> m(1) by (intro updateUser_kept [of u]) (simp_all add: activeAdmin_def applyChange_def)
  qed
  then show ?thesis using assms(4) by (auto simp: patchApply_def Let_def split: option.splits if_splits)
qed

lemma delete_keeps_admin:
  assumes inv: "dbInv (sv_db st)" and "hasActiveAdmin (sv_db st)"
  shows "hasActiveAdmin (sv_db (snd (cleanDeleteUser w cfg username now st)))"
proof (rule cleanDeleteUser_db [of w cfg username now st])
  fix i db
  assume d: "deletable w username (sv_db st) = Inr i" and mk: "markDeleting w i now (sv_db st) = Inr db"
    and r: "sv_db (snd (cleanDeleteUser w cfg username now st)) \<in> {db, deleteUserRow i db}"
  obtain u where u: "userByName username (sv_db st) = Some u" "usr_id u = i" "activeAdmin u \<Longrightarrow> \<not> isLastActiveAdmin username (sv_db st)"
    using d by (auto simp: deletable_def split: option.splits sum.splits if_splits)
  then have m: "u \<in> set (db_users (sv_db st))" "usr_username u = username" by (simp_all add: userByName_iff [OF inv])
  obtain a where a: "a \<in> set (db_users (sv_db st))" "activeAdmin a" "usr_id a \<noteq> i"
  proof (cases "activeAdmin u")
    case True
    then show thesis using otherAdmin [OF inv m(1)] u(2,3) m(2) that by metis
  next
    case False
    then show thesis using assms(2) same_user [OF inv _ m(1)] u(2) that by (metis hasActiveAdmin_def)
  qed
  have "a \<in> set (db_users db)"
    using mk updateUser_other [OF a(1,3)] by (auto simp: markDeleting_def Let_def revokeUser_def updateSessions_def split: option.splits if_splits)
  then have "hasActiveAdmin db" "hasActiveAdmin (deleteUserRow i db)"
    using a(2,3) by (auto simp: hasActiveAdmin_def deleteUserRow_def)
  then show ?thesis using r by auto
qed (use assms(2) in simp)

lemma password_keeps_admin:
  "hasActiveAdmin db \<Longrightarrow> hasActiveAdmin (snd (handleAuthPassword w meth ctx body now db))"
proof -
  assume adm: "hasActiveAdmin db"
  have "hasActiveAdmin (updateUser u (\<lambda>r. r\<lparr>usr_password := p, usr_updated := t\<rparr>) db)" for u p t
  proof -
    obtain a where "a \<in> set (db_users db)" "activeAdmin a" using adm by (auto simp: hasActiveAdmin_def)
    then show ?thesis by (intro updateUser_kept [of a]) (simp_all add: activeAdmin_def)
  qed
  then have "changePassword w u hash now db = Inr db' \<Longrightarrow> hasActiveAdmin db'" for u hash db'
    by (auto simp: changePassword_def authFault_def split: option.splits)
  moreover have "snd (handleAuthPassword w meth ctx body now db) = db \<or>
      (\<exists>u hash. changePassword w u hash now db = Inr (snd (handleAuthPassword w meth ctx body now db)))"
    by (auto simp: handleAuthPassword_def Let_def split: sum.splits option.splits bool.splits goerror.splits)
  ultimately show ?thesis using adm by fastforce
qed

lemma users_keep_admin: "set (db_users db) \<subseteq> set (db_users db') \<Longrightarrow> hasActiveAdmin db \<Longrightarrow> hasActiveAdmin db'"
  by (auto simp: hasActiveAdmin_def)

lemma insertUser_users: "insertUser row db = Inr db' \<Longrightarrow> db_users db' = db_users db @ [row]"
  by (auto simp: insertUser_def split: if_splits)

lemma register_keeps_users:
  "set (db_users db) \<subseteq> set (db_users (snd (handleAuthRegister w cfg app meth origin host cookie body gs now db)))"
proof (rule handleAuthRegister_cases [of w cfg app meth origin host cookie body gs now db])
  fix req role db1 row
  assume role: "registerRole w cfg app origin host cookie now req db = (Inr role, db1)"
    and row: "insertUser row db1 = Inr (snd (handleAuthRegister w cfg app meth origin host cookie body gs now db))"
  show ?thesis using insertUser_users [OF row] registerRole_users [OF role] by auto
qed simp

lemma login_keeps_users:
  "db_users (as_db (snd (handleAuthLogin w app m remote fwd body nowNs now st))) = db_users (as_db st)"
  by (auto simp: handleAuthLogin_def openSession_def authFault_def insertSession_def Let_def
      split: prod.splits sum.splits option.splits if_splits)

lemma adminUser_keeps_admin:
  assumes "dbInv (sv_db st)" and "hasActiveAdmin (sv_db st)"
  shows "hasActiveAdmin (sv_db (snd (handleAdminUser w cfg meth path ctx body now st)))"
proof -
  let ?n = "TrimPrefix path ''/api/admin/users/''" and ?ad = "\<lparr> ad_db = sv_db st, ad_cron = sv_cron st \<rparr>"
  have "hasActiveAdmin (ad_db (snd (patchAdminUser (sw_auth w) (sw_cron w) (sw_tmp w) cfg body ?n now ?ad)))"
    using patchAdminUser_db [of "sw_auth w" "sw_cron w" "sw_tmp w" cfg body ?n now ?ad] patch_keeps_admin [OF assms] assms(2) by fastforce
  then show ?thesis
    using delete_keeps_admin [OF assms, of w cfg ?n now] assms(2)
    by (auto simp: handleAdminUser_def Let_def split: sum.splits prod.splits option.splits)
qed

lemma account_keeps_admin:
  assumes "dbInv (sv_db st)" and "hasActiveAdmin (sv_db st)"
  shows "hasActiveAdmin (sv_db (snd (handleAuthAccount w cfg meth ctx body now st)))"
  using delete_keeps_admin [OF assms, of w cfg "Username (actorOrZero ctx)" now] assms(2)
  by (auto simp: handleAuthAccount_def Let_def split: sum.splits prod.splits option.splits bool.splits)

lemma gate_keeps_admin:
  "hasActiveAdmin db \<Longrightarrow> hasActiveAdmin (snd (requireAuth sha faults parse path meth origin host cookie now db))"
  by (auto simp: requireAuth_def dest!: authenticateRequest_users split: prod.splits sum.splits intro: users_keep_admin)

lemma logout_keeps_admin: "hasActiveAdmin db \<Longrightarrow> hasActiveAdmin (snd (handleAuthLogout w meth cookie now db))"
  by (auto simp: handleAuthLogout_def split: option.splits)

lemma login_keeps_admin:
  "hasActiveAdmin db \<Longrightarrow> hasActiveAdmin (as_db (snd (handleAuthLogin w app m remote fwd body nowNs now \<lparr> as_db = db, as_limiter = l \<rparr>)))"
  by (rule users_keep_admin) (simp_all add: login_keeps_users)

lemma accountStep_keeps_admin:
  "accountStep sha H st st' \<Longrightarrow> dbInv (sv_db st) \<Longrightarrow> hasActiveAdmin (sv_db st) \<Longrightarrow> hasActiveAdmin (sv_db st')"
  by (induction rule: accountStep.induct)
    (simp_all add: gate_keeps_admin users_keep_admin [OF register_keeps_users] login_keeps_admin logout_keeps_admin password_keeps_admin
       adminUser_keeps_admin account_keeps_admin)

text \<open>
  C11: The administrators cannot lock themselves out: no sequence of requests, each run to its end before the next, leaves the server without an
  active administrator when it had one.
\<close>

theorem an_administrator_remains:
  assumes "accountRun sha H st st'" and "dbInv (sv_db st)" and "hasActiveAdmin (sv_db st)"
  shows "hasActiveAdmin (sv_db st')"
  using assms
proof (induction rule: accountRun.induct)
  case (more H st st1 H' st2)
  then show ?case using accountStep_keeps_admin accountRun_inv by blast
qed

section \<open>Logging in and registering\<close>

text \<open>
  C12: A login is answered 200 only when the limiter lets the attempt through and an active user's stored hash accepts the password; then exactly one
  session of that user is added, under the hash of the token in the cookie. Every other answer leaves the tables as they were and sets no cookie.
\<close>

theorem login_needs_the_password:
  assumes "handleAuthLogin w app meth remote fwd body nowNs now st = (rp, st')"
  shows "if rsp_status (rp_response rp) = StatusOK
    then \<exists>req u hash token h. body = Inr req \<and>
        fst (fst (allow (requestClientIP remote fwd (ServerTrustedReverseProxy app)) nowNs app (as_limiter st))) \<and>
        userByName (TrimSpace (req_Username req)) (as_db st) = Some u \<and> usr_status u = ''active'' \<and>
        usr_password u = Some hash \<and> verifyPassword (aw_IDKey w) (req_Password req) hash \<and>
        newSessionToken (aw_sha256 w) (aw_rawToken w) = Inr (token, h) \<and>
        rp_cookie rp = SetSession token (now + sessionAbsoluteTTL) \<and>
        insertSession h (usr_id u) now (as_db st) = Inr (as_db st')
    else as_db st' = as_db st \<and> rp_cookie rp = KeepCookie"
proof -
  have valid: "\<exists>hash. userByName (TrimSpace (req_Username req)) db = Some u \<and> usr_status u = ''active'' \<and> usr_password u = Some hash \<and>
      verifyPassword (aw_IDKey w) (req_Password req) hash" if "loginValid w req db = Inr (Some u)" for req db u
    using that by (auto simp: loginValid_def Let_def server_verifyPassword_def split: option.splits sum.splits if_splits)
  have busy: "rsp_status (rp_response r) \<noteq> StatusOK \<and> rp_cookie r = KeepCookie" if "loginValid w req db = Inl r" for req db r
    using that by (auto simp: loginValid_def Let_def writeArgon2Busy_def writeError_def split: option.splits sum.splits if_splits)
  let ?a = "allow (requestClientIP remote fwd (ServerTrustedReverseProxy app)) nowNs app (as_limiter st)"
  let ?st = "st\<lparr>as_limiter := snd ?a\<rparr>"
  show ?thesis
  proof (cases "meth = MethodPost \<and> fst (fst ?a) \<and> (\<exists>req u. body = Inr req \<and> loginValid w req (as_db st) = Inr (Some u))")
    case False
    then show ?thesis
      using assms busy
      by (auto simp: handleAuthLogin_def Let_def plain_def writeError_def methodNotAllowed_def
          split: if_splits prod.splits sum.splits option.splits)
  next
    case True
    then obtain req u where t: "meth = MethodPost" "fst (fst ?a)" "body = Inr req" "loginValid w req (as_db st) = Inr (Some u)" by blast
    obtain hash where h: "userByName (TrimSpace (req_Username req)) (as_db st) = Some u" "usr_status u = ''active''" "usr_password u = Some hash"
        "verifyPassword (aw_IDKey w) (req_Password req) hash" using valid [OF t(4)] by blast
    have r: "rp = fst (openSession w u now (as_db st))" "as_db st' = snd (openSession w u now (as_db st))"
      using assms t by (auto simp: handleAuthLogin_def Let_def case_prod_unfold)
    show ?thesis
      using t(2,3) h r
      by (auto simp: openSession_def authFault_def plain_def writeError_def split: sum.splits prod.splits option.splits)
  qed
qed

text \<open>
  C13: Users are created only by those who may: a registration answered 201 adds exactly one active user, and it was either the first one, with
  the configured token, before the first run was completed, as administrator and with a password, or the request came from a logged-in
  administrator of the same origin. Every other answer leaves the users as they were.
\<close>

theorem users_are_added_only_by_administrators:
  fixes w cfg app meth origin host cookie body gs now db
  defines "r \<equiv> handleAuthRegister w cfg app meth origin host cookie body gs now db"
  shows "if rsp_status (rp_response (fst r)) = StatusCreated
    then \<exists>req row. body = Inr req \<and> db_users (snd r) = db_users db @ [row] \<and> usr_username row = TrimSpace (req_Username req) \<and>
        usr_status row = ''active'' \<and>
        ((db_users db = [] \<and> WebFirstRunCompleted app = 0 \<and> AdminRegisterToken cfg \<noteq> [] \<and>
          aw_sha256 w (req_Token req) = aw_sha256 w (AdminRegisterToken cfg) \<and> usr_role row = ''admin'' \<and> usr_password row \<noteq> None) \<or>
         (\<exists>who. fst (authenticateRequest (aw_sha256 w) (aw_faults w) cookie now db) = Inr who \<and> Role who = ''admin'' \<and>
          sameOriginRequest (aw_parseURL w) origin host \<and> usr_role row \<in> {''user'', ''admin''}))
    else db_users (snd r) = db_users db"
proof (rule handleAuthRegister_cases [of w cfg app meth origin host cookie body gs now db], fold r_def)
  fix req role db1 row
  assume st: "rsp_status (rp_response (fst r)) = StatusCreated" and body: "body = Inr req"
    and role: "registerRole w cfg app origin host cookie now req db = (Inr role, db1)"
    and row: "insertUser row db1 = Inr (snd r)" "usr_role row = role" "usr_status row = ''active''"
      "usr_username row = TrimSpace (req_Username req)" "db_users db = [] \<longrightarrow> usr_password row \<noteq> None"
  have "db_users (snd r) = db_users db @ [row]" using insertUser_users [OF row(1)] registerRole_users [OF role] by simp
  moreover have "(db_users db = [] \<and> WebFirstRunCompleted app = 0 \<and> AdminRegisterToken cfg \<noteq> [] \<and>
          aw_sha256 w (req_Token req) = aw_sha256 w (AdminRegisterToken cfg) \<and> role = ''admin'') \<or>
         (\<exists>who. fst (authenticateRequest (aw_sha256 w) (aw_faults w) cookie now db) = Inr who \<and> Role who = ''admin'' \<and>
          sameOriginRequest (aw_parseURL w) origin host \<and> role \<in> {''user'', ''admin''})"
    using role by (auto simp: registerRole_def validAdminRegisterToken_def Let_def split: if_splits prod.splits sum.splits)
  ultimately show ?thesis using st body row by auto
qed simp

section \<open>Two demotions at once\<close>

definition toyAuth :: authWorld where
  "toyAuth = \<lparr> aw_sha256 = (\<lambda>x. x), aw_IDKey = toyKey, aw_faults = (\<lambda>_. None), aw_parseURL = (\<lambda>_. None), aw_isHan = (\<lambda>_. False),
     aw_slots = 0, aw_slots2 = 0, aw_salt = Inr ''0123456789abcdef'', aw_rawToken = Inr ''abc'', aw_dummyHash = [] \<rparr>"

definition toyUser :: "string \<Rightarrow> string \<Rightarrow> userRow" where
  "toyUser i name = \<lparr> usr_id = i, usr_username = name, usr_password = Some ''$argon2id$v=19$m=1,t=1,p=1$QUFB$YWJj'', usr_role = ''admin'',
     usr_timedock = [], usr_status = ''active'', usr_created = 1, usr_updated = 1 \<rparr>"

definition toySession :: sessionRow where
  "toySession = \<lparr> ses_id = 1, ses_hash = ''token'', ses_user = ''anneann1'', ses_created = 0, ses_lastSeen = 0, ses_idle = sessionIdleTTL,
     ses_absolute = sessionAbsoluteTTL, ses_revoked = None \<rparr>"

definition toyDB :: userDB where
  "toyDB = \<lparr> db_users = [toyUser ''anneann1'' ''ann'', toyUser ''bobbbob2'' ''bob''], db_sessions = [toySession], db_nextSession = 2 \<rparr>"

definition demotion :: userPatchRequest where
  "demotion = \<lparr> patch_Role = Some ''user'', patch_Status = None, patch_TimeDockAccount = None, patch_Password = None \<rparr>"

definition demoted :: "string \<Rightarrow> userDB \<Rightarrow> userDB \<Rightarrow> userDB" where
  "demoted name seen db =
     (case patchCheck toyAuth (Inr demotion) name seen of
        Inl _ \<Rightarrow> db
      | Inr c \<Rightarrow> (case patchApply toyAuth False c 5 db of Inl _ \<Rightarrow> db | Inr db1 \<Rightarrow> db1))"


section \<open>Examples\<close>

lemma toyDB_inv: "dbInv toyDB"
proof -
  have "validUserID ''anneann1''" "validUserID ''bobbbob2''" by code_simp+
  then show ?thesis
    by (simp add: dbInv_def toyDB_def toyUser_def toySession_def userOK_def sessionOK_def sessionIdleTTL_def sessionAbsoluteTTL_def)
qed

definition toyState :: "userDB \<Rightarrow> serverState" where
  "toyState db = \<lparr> sv_db = db, sv_queue = emptyQueue, sv_lookups = emptyLookups, sv_cron = Inr [], sv_whitelist = Inr [],
     sv_files = Map.empty, sv_history = exampleDB \<rparr>"

lemma toyRun: "accountRun (\<lambda>x. x) {} (toyState db) (toyState (sessionJanitor (\<lambda>_. None) 9 db))"
proof -
  have "accountStep (\<lambda>x. x) {} (toyState db) (toyState (sessionJanitor (\<lambda>_. None) 9 db))"
    using accountStep.janitor [of "\<lambda>x. x" "toyState db" "\<lambda>_. None" 9] by (simp add: toyState_def)
  then show ?thesis using accountRun.more [OF accountRun.none] by fastforce
qed

theorem ended_sessions_stay_ended_witness:
  "fst (requireAuth (\<lambda>x. x) (\<lambda>_. None) (\<lambda>_. None) ''/api/scans'' ''GET'' [] [] (Some ''token'') 10
     (sessionJanitor (\<lambda>_. None) 9 (snd (handleAuthLogout toyAuth MethodPost (Some ''token'') 5 toyDB)))) =
   Rejected (writeError StatusUnauthorized (ErrText ''authentication required''))"
proof -
  let ?db = "snd (handleAuthLogout toyAuth MethodPost (Some ''token'') 5 toyDB)"
  have out: "\<exists>w now. aw_sha256 w = (\<lambda>x. x) \<and> aw_faults w LogoutUpdate = None \<and>
      ?db = snd (handleAuthLogout w MethodPost (Some ''token'') now (sv_db (toyState toyDB)))"
    by (rule exI [of _ toyAuth], rule exI [of _ 5]) (simp add: toyAuth_def toyState_def)
  have run: "accountRun (\<lambda>x. x) {} ((toyState toyDB)\<lparr>sv_db := ?db\<rparr>) (toyState (sessionJanitor (\<lambda>_. None) 9 ?db))"
    using toyRun [of ?db] by (simp add: toyState_def)
  have path: "HasPrefix ''/api/scans'' ''/api/''" "\<not> publicAPIPath ''/api/scans''" by code_simp+
  from ended_sessions_stay_ended [OF _ disjI1 [OF out] run _ path] show ?thesis
    using toyDB_inv by (simp add: toyState_def)
qed

theorem accepted_sessions_are_fresh_witness:
  "\<exists>x \<in> set (db_sessions toyDB). 10 < ses_created x + 24 * 60 * 60 \<and> ses_revoked x = None"
proof -
  have "\<not> (case fst (authenticateRequest (\<lambda>x. x) (\<lambda>_. None) (Some ''token'') 10 toyDB) of Inl _ \<Rightarrow> True | Inr _ \<Rightarrow> False)" by code_simp
  then obtain who where "fst (authenticateRequest (\<lambda>x. x) (\<lambda>_. None) (Some ''token'') 10 toyDB) = Inr who" by (auto split: sum.splits)
  then have "fst (authenticateRequest (\<lambda>x. x) (\<lambda>_. None) (Some ''token'') 10 (sv_db (toyState toyDB))) = Inr who" by (simp add: toyState_def)
  from accepted_sessions_are_fresh [OF accountRun.none _ this] toyDB_inv show ?thesis by (auto simp: toyState_def)
qed

theorem an_administrator_remains_witness: "hasActiveAdmin (sessionJanitor (\<lambda>_. None) 9 toyDB)"
proof -
  have "hasActiveAdmin toyDB" by code_simp
  from an_administrator_remains [OF toyRun [of toyDB]] this toyDB_inv show ?thesis by (simp add: toyState_def)
qed

text \<open>
  C14: The tables stay consistent: in every state that requests and the janitor can reach from an empty database, user identifiers, user names,
  session hashes and session numbers are unique, every user has a valid identifier, role and status, and every session belongs to a user, ends 24 hours
  after it was opened and at most two hours after it was last used.
\<close>

theorem tables_stay_consistent:
  assumes "accountRun sha H st st'" and "sv_db st = emptyDB"
  shows "dbInv (sv_db st')"
  using accountRun_inv [OF assms(1)] assms(2) dbInv_empty by simp

theorem tables_stay_consistent_witness: "dbInv (sessionJanitor (\<lambda>_. None) 9 emptyDB)"
  using tables_stay_consistent [OF toyRun [of emptyDB]] by (simp add: toyState_def)

theorem login_needs_the_password_witness:
  "\<exists>h. insertSession h ''anneann1'' 7 toyDB = Inr (as_db (snd (handleAuthLogin toyAuth defaultAppConfig MethodPost ''pipe'' []
     (Inr \<lparr> req_Username = ''ann'', req_Password = ''abcdefgh'', req_Role = [], req_TimeDockAccount = [], req_Token = [] \<rparr>) 7 7
     \<lparr> as_db = toyDB, as_limiter = newLoginLimiter \<rparr>)))"
proof -
  let ?r = "handleAuthLogin toyAuth defaultAppConfig MethodPost ''pipe'' []
     (Inr \<lparr> req_Username = ''ann'', req_Password = ''abcdefgh'', req_Role = [], req_TimeDockAccount = [], req_Token = [] \<rparr>) 7 7
     \<lparr> as_db = toyDB, as_limiter = newLoginLimiter \<rparr>"
  obtain rp st' where r: "?r = (rp, st')" by fastforce
  have "rsp_status (rp_response (fst ?r)) = StatusOK" by code_simp
  then have ok: "rsp_status (rp_response rp) = StatusOK" by (simp add: r)
  have ann: "userByName (TrimSpace ''ann'') toyDB = Some (toyUser ''anneann1'' ''ann'')" by code_simp
  show ?thesis using login_needs_the_password [OF r] ok ann r by (auto simp: toyUser_def)
qed

end
