(* ===== verification/Deletion_Complete.thy ===== *)
theory Deletion_Complete
  imports Account_System
begin

text \<open>
  The deletion of an account as a whole: what a successful \<^verbatim>\<open>cleanDeleteUser\<close> leaves in the components, put together
  from what the components' theories show of their part.
\<close>

section \<open>Statement\<close>

definition nothingLeft :: "quarantineWorld \<Rightarrow> config \<Rightarrow> direntry list \<Rightarrow> string \<Rightarrow> serverState \<Rightarrow> bool" where
  "nothingLeft w cfg es i st \<longleftrightarrow>
     (\<forall>u \<in> set (db_users (sv_db st)). usr_id u \<noteq> i) \<and> (\<forall>x \<in> set (db_sessions (sv_db st)). ses_user x \<noteq> i) \<and>
     (\<forall>b. \<not> ownedBy (sv_queue st) i b) \<and>
     retained (fst (sv_lookups st)) i = 0 \<and> workersOf (snd (sv_lookups st)) i = 0 \<and>
     rulesFor (sv_cron st) i = Some [] \<and> whitelistFor (sv_whitelist st) i = [] \<and>
     (\<forall>e \<in> set es. isSubject e \<longrightarrow> \<not> ownsRecord w cfg i (sv_files st) (de_name e)) \<and>
     (\<forall>j \<in> set (h_jobs (sv_history st)). hj_user j \<noteq> i)"

definition othersUnchanged :: "string \<Rightarrow> serverState \<Rightarrow> serverState \<Rightarrow> bool" where
  "othersUnchanged i st st' \<longleftrightarrow>
     db_users (sv_db st') = filter (\<lambda>u. usr_id u \<noteq> i) (db_users (sv_db st)) \<and>
     db_sessions (sv_db st') = filter (\<lambda>x. ses_user x \<noteq> i) (db_sessions (sv_db st)) \<and>
     (\<forall>v. v \<noteq> i \<longrightarrow> pending (sv_queue st') v = pending (sv_queue st) v \<and>
        workersOf (snd (sv_lookups st')) v = workersOf (snd (sv_lookups st)) v \<and>
        rulesFor (sv_cron st') v = rulesFor (sv_cron st) v \<and>
        whitelistFor (sv_whitelist st') v = whitelistFor (sv_whitelist st) v)"

section \<open>The parts\<close>

lemma marked_then_deleted:
  assumes "markDeleting w i now db = Inr db1"
  shows "db_users (deleteUserRow i db1) = filter (\<lambda>u. usr_id u \<noteq> i) (db_users db)"
    and "db_sessions (deleteUserRow i db1) = filter (\<lambda>x. ses_user x \<noteq> i) (db_sessions db)"
proof -
  have us: "filter (\<lambda>u. usr_id u \<noteq> i) (map (\<lambda>u. if usr_id u = i then f u else u) us) = filter (\<lambda>u. usr_id u \<noteq> i) us"
    if "\<And>u. usr_id (f u) = usr_id u" for f and us :: "userRow list"
    using that by (induction us) auto
  have xs: "filter (\<lambda>x. ses_user x \<noteq> i) (map (\<lambda>x. if ses_user x = i \<and> P x then f x else x) xs) = filter (\<lambda>x. ses_user x \<noteq> i) xs"
    if "\<And>x. ses_user (f x) = ses_user x" for P f and xs :: "sessionRow list"
    using that by (induction xs) auto
  show "db_users (deleteUserRow i db1) = filter (\<lambda>u. usr_id u \<noteq> i) (db_users db)"
    and "db_sessions (deleteUserRow i db1) = filter (\<lambda>x. ses_user x \<noteq> i) (db_sessions db)"
    using assms us xs
    by (auto simp: markDeleting_def Let_def deleteUserRow_def updateUser_def updateSessions_def revokeUser_def split: option.splits if_splits)
qed

lemma dropped_queue:
  assumes "queueInv q" and "dropUserBatches i q = Some q'"
  shows "\<not> ownedBy q' i b" and "v \<noteq> i \<Longrightarrow> pending q' v = pending q v"
proof -
  note d = dropUserBatches_Some [OF assms]
  show "\<not> ownedBy q' i b" unfolding d(2) by (auto simp: ownedBy_def split: option.splits if_splits)
  show "pending q' v = pending q v" if "v \<noteq> i"
    unfolding d(2) pending_def using that by (auto simp: ownedBy_def intro!: filter_cong split: option.splits if_splits)
qed

lemma cleaned_results:
  assumes "cleanUserResults hw w cfg i (db, fs) = ((n, None), db', fs')"
  shows "\<forall>j \<in> set (h_jobs db'). hj_user j \<noteq> i" and "fs' p \<in> {None, fs p}"
proof -
  have shrink: "snd (removeFiles w ps k fs) p \<in> {None, fs p}" for ps k fs
  proof (induction ps arbitrary: k fs)
    case (Cons q ps)
    obtain e fs1 where o: "osRemove w q fs = (e, fs1)" by fastforce
    then have "fs1 p \<in> {None, fs p}" by (auto simp: osRemove_def split: option.splits if_splits)
    moreover have "snd (removeFiles w ps (Suc k) fs1) p \<in> {None, fs1 p}" "snd (removeFiles w ps k fs1) p \<in> {None, fs1 p}"
      by (rule Cons.IH)+
    ultimately show ?case by (cases e) (auto simp: o)
  qed simp
  show "\<forall>j \<in> set (h_jobs db'). hj_user j \<noteq> i"
    using assms by (auto simp: cleanUserResults_def Let_def deleteJobs_def split: option.splits prod.splits)
  show "fs' p \<in> {None, fs p}"
    using assms shrink [of "concat (map (jobFiles cfg) (jobsOf i (snd (refresh hw (JobsDir cfg) (LogDir cfg) db))))" 0 fs]
    by (auto simp: cleanUserResults_def Let_def split: option.splits prod.splits)
qed

lemma removeAssets_success:
  assumes "removeAssets w cfg i st = (None, st')"
  obtains cron wl n fs m fs1 hdb where
    "removeCronRulesForUser (sw_cron w) (sw_tmp w) i (sv_cron st) = (None, cron)"
    "removeWhitelistForUser (sw_whitelist w) i (sv_whitelist st) = (None, wl)"
    "cleanUserQuarantine (sw_files w) cfg (sw_quarantine w) i (sv_files st) = ((n, None), fs)"
    "cleanUserResults (sw_history2 w) (sw_files w) cfg i (sv_history st, fs) = ((m, None), hdb, fs1)"
    "st' = st\<lparr>sv_lookups := removeLookupsForUser i (sv_lookups st), sv_cron := cron, sv_whitelist := wl, sv_files := fs1,
       sv_history := hdb, sv_db := deleteUserRow i (sv_db st)\<rparr>"
  using assms by (auto simp: removeAssets_def Let_def split: prod.splits option.splits)

lemma cleanDeleteUser_success:
  assumes "cleanDeleteUser w cfg username now st = (None, st')"
  obtains i q db where "deletable w username (sv_db st) = Inr i" "dropUserBatches i (sv_queue st) = Some q"
    "markDeleting w i now (sv_db st) = Inr db"
    "removeAssets w cfg i (st\<lparr>sv_history := snd (refresh (sw_history1 w) (JobsDir cfg) (LogDir cfg) (sv_history st)), sv_queue := q,
       sv_db := db\<rparr>) = (None, st')"
  using assms by (auto simp: cleanDeleteUser_def Let_def split: sum.splits option.splits if_splits)


definition toyServer :: serverWorld where
  "toyServer = \<lparr> sw_auth = toyAuth, sw_cron = okScript, sw_tmp = ''/tmp/cron'', sw_whitelist = okWhitelist, sw_files = quietWorld,
     sw_quarantine = Inr [], sw_history1 = exampleWorld, sw_history2 = exampleWorld \<rparr>"


end
