(* ===== verification/Engine_Status.thy ===== *)
theory Engine_Status
  imports Results App_Config "HOL-Library.AList"
begin

text \<open>
  The status endpoint of \<^verbatim>\<open>status.go\<close>: the ping and the version query of the scanner daemon, the
  cache that serves them for five seconds, and the status document that the scan script writes,
  with the job fields rewritten for the caller. The daemon, its socket and the clock are
  arguments.
\<close>

section \<open>Conversations with the daemon\<close>

text \<open>
  A run of \<^verbatim>\<open>clamdscan --ping\<close>: its output, its error, and whether the context's deadline had
  passed when it ended.
\<close>

record commandRun =
  run_output :: string
  run_err :: "goerror option"
  run_late :: bool

definition pingClamd :: "commandRun \<Rightarrow> string \<times> string" where
  "pingClamd run =
     (let msg = TrimSpace (run_output run) in
      if run_late run then (''timeout'', ''clamd ping timed out'')
      else case run_err run of
        Some e \<Rightarrow> (''error'', if msg = [] then errText e else msg)
      | None \<Rightarrow> (''ready'', if msg = [] then ''clamd is ready'' else msg))"

text \<open>
  A connection to the daemon's socket: the errors of dialling, of setting the deadline and of
  writing, the bytes the daemon sends and how the stream ends after them. \<open>EndSilent\<close> is a read
  that returns neither a byte nor an error.
\<close>

datatype streamEnd = EndEOF | EndErr goerror | EndSilent

record clamdConn =
  cn_dialErr :: "goerror option"
  cn_deadlineErr :: "goerror option"
  cn_writeErr :: "goerror option"
  cn_sent :: string
  cn_end :: streamEnd

text \<open>\<^verbatim>\<open>setClamdSocketDeadline\<close>: the instant the deadline is set to.\<close>

definition socketDeadline :: "gotime \<Rightarrow> duration \<Rightarrow> gotime option \<Rightarrow> gotime" where
  "socketDeadline now timeout requestDeadline =
     (case requestDeadline of
        Some d \<Rightarrow> if d < now + timeout then d else now + timeout
      | None \<Rightarrow> now + timeout)"

text \<open>The command reaches the daemon when neither dialling, nor the deadline, nor the write fails.\<close>

definition commandErr :: "clamdConn \<Rightarrow> goerror option" where
  "commandErr c =
     (case cn_dialErr c of Some e \<Rightarrow> Some e | None \<Rightarrow>
     (case cn_deadlineErr c of Some e \<Rightarrow> Some e | None \<Rightarrow> cn_writeErr c))"

definition maxClamdVersionResponseBytes :: nat where "maxClamdVersionResponseBytes = 4096"

text \<open>
  \<^verbatim>\<open>ReadString('\n')\<close> on the stream behind \<^verbatim>\<open>io.LimitReader\<close>: the text up to and with the first
  line feed, and the error that ended it before one came. After the limit the reader sees the
  end of the file.
\<close>

definition readLine :: "nat \<Rightarrow> string \<Rightarrow> streamEnd \<Rightarrow> string \<times> streamEnd option" where
  "readLine limit sent end =
     (let seen = take limit sent in
      case IndexByte seen LF of
        Some pos \<Rightarrow> (take (Suc pos) seen, None)
      | None \<Rightarrow> (seen, Some (if limit \<le> length sent then EndEOF else end)))"

record clamdVersionInfo =
  vi_clamd :: string
  vi_database :: string
  vi_date :: string

text \<open>\<^verbatim>\<open>strings.SplitN\<close> for a one-byte separator and a positive count.\<close>

fun SplitN :: "string \<Rightarrow> char \<Rightarrow> nat \<Rightarrow> string list" where
  "SplitN s sep 0 = []"
| "SplitN s sep (Suc 0) = [s]"
| "SplitN s sep (Suc (Suc n)) = (case Cut s sep of (a, b, found) \<Rightarrow> if found then a # SplitN b sep (Suc n) else [s])"

text \<open>The error's quotation of the response only reaches the log and is left out.\<close>

definition unexpectedVersion :: goerror where
  "unexpectedVersion = ErrText ''unexpected clamd VERSION response''"

definition parseClamdVersionResponse :: "string \<Rightarrow> clamdVersionInfo res" where
  "parseClamdVersionResponse raw =
     (let response = TrimSpace (TrimSuffix (TrimSpace raw) [CHR 0x00]) in
      case SplitN response SEP 3 of
        [engine, db, date] \<Rightarrow>
          (let clamdVersion = TrimSpace (TrimPrefix engine ''ClamAV '');
               databaseVersion = TrimSpace db;
               databaseDate = TrimSpace date
           in if \<not> HasPrefix engine ''ClamAV '' \<or> clamdVersion = [] \<or> databaseVersion = [] \<or> databaseDate = []
              then Inl unexpectedVersion
              else Inr \<lparr> vi_clamd = clamdVersion, vi_database = databaseVersion, vi_date = databaseDate \<rparr>)
      | _ \<Rightarrow> Inl unexpectedVersion)"

definition queryClamdVersion :: "clamdConn \<Rightarrow> clamdVersionInfo res" where
  "queryClamdVersion c =
     (case commandErr c of
        Some e \<Rightarrow> Inl e
      | None \<Rightarrow>
          (case readLine (maxClamdVersionResponseBytes + 1) (cn_sent c) (cn_end c) of (response, err) \<Rightarrow>
             if length response > maxClamdVersionResponseBytes
             then Inl (ErrText (''clamd VERSION response exceeds '' @ Itoa (int maxClamdVersionResponseBytes) @ '' bytes''))
             else case err of
               Some (EndErr e) \<Rightarrow> Inl e
             | Some EndSilent \<Rightarrow> Inl (ErrText ''multiple Read calls return no data or error'')
             | _ \<Rightarrow> parseClamdVersionResponse response))"

section \<open>The cache\<close>

record clamdStatusCacheEntry =
  cs_ping :: string
  cs_pingMessage :: string
  cs_clamdVersion :: string
  cs_databaseVersion :: string
  cs_databaseDate :: string
  cs_checkedAt :: gotime

definition clamdStatusCacheTTL :: duration where "clamdStatusCacheTTL = 5 * Second"

definition invalidateClamdStatusCache :: clamdStatusCacheEntry where
  "invalidateClamdStatusCache =
     \<lparr> cs_ping = [], cs_pingMessage = [], cs_clamdVersion = [], cs_databaseVersion = [], cs_databaseDate = [],
       cs_checkedAt = 0 \<rparr>"

definition probeEntry :: "commandRun \<Rightarrow> clamdConn \<Rightarrow> gotime \<Rightarrow> clamdStatusCacheEntry" where
  "probeEntry run conn finished =
     (case pingClamd run of (status, message) \<Rightarrow>
       (let entry = invalidateClamdStatusCache\<lparr>cs_ping := status, cs_pingMessage := message\<rparr>;
            entry1 = (if status = ''ready'' then
                        (case queryClamdVersion conn of
                           Inl _ \<Rightarrow> entry
                         | Inr v \<Rightarrow> entry\<lparr>cs_clamdVersion := vi_clamd v, cs_databaseVersion := vi_database v,
                                           cs_databaseDate := vi_date v\<rparr>)
                      else entry)
        in entry1\<lparr>cs_checkedAt := finished\<rparr>))"

text \<open>The instants are those of the cache test and of the end of the probe.\<close>

definition cachedClamdStatus ::
    "gotime \<Rightarrow> commandRun \<Rightarrow> clamdConn \<Rightarrow> gotime \<Rightarrow> clamdStatusCacheEntry \<Rightarrow>
     clamdStatusCacheEntry \<times> clamdStatusCacheEntry" where
  "cachedClamdStatus now run conn finished cache =
     (if \<not> IsZero (cs_checkedAt cache) \<and> now - cs_checkedAt cache < clamdStatusCacheTTL
      then (cache, cache)
      else (let entry = probeEntry run conn finished in (entry, entry)))"

section \<open>The status document\<close>

text \<open>
  The status file as \<^verbatim>\<open>os.ReadFile\<close> and \<^verbatim>\<open>json.Unmarshal\<close> see it: missing, unreadable, not JSON
  (its text and the decoder's error), or a value. Objects are association lists that are read
  through \<open>map_of\<close>; the order of their keys is immaterial. Numbers are integers that the
  decoder's \<^verbatim>\<open>float64\<close> represents exactly.
\<close>

datatype statusFile = StatusAbsent | StatusUnreadable goerror | StatusGarbled string goerror | StatusValue json

definition jobOwner :: "config \<Rightarrow> (string \<Rightarrow> jobRead) \<Rightarrow> string \<Rightarrow> string" where
  "jobOwner cfg files jobID =
     (case jobState cfg files jobID of
        StateMap job \<Rightarrow> (case stringField job ''user_id'' of Some owner \<Rightarrow> owner | None \<Rightarrow> [])
      | StateText _ \<Rightarrow> [])"

definition fieldText :: "jobject \<Rightarrow> string \<Rightarrow> string" where
  "fieldText m key = (case stringField m key of Some t \<Rightarrow> t | None \<Rightarrow> [])"

definition hideActiveJob :: "config \<Rightarrow> (string \<Rightarrow> jobRead) \<Rightarrow> string \<Rightarrow> jobject \<Rightarrow> jobject" where
  "hideActiveJob cfg files userID scan =
     (let activeID = fieldText scan ''active_job_id'' in
      if activeID \<noteq> [] \<and> userID \<noteq> [] \<and> jobOwner cfg files activeID \<noteq> userID
      then AList.update ''active_job_id'' JNull scan else scan)"

definition setLastJob :: "json \<Rightarrow> json \<Rightarrow> json \<Rightarrow> jobject \<Rightarrow> jobject" where
  "setLastJob i status result scan =
     AList.update ''last_job_result'' result (AList.update ''last_job_status'' status (AList.update ''last_job_id'' i scan))"

text \<open>The newest job of the user: \<^verbatim>\<open>ORDER BY started_at DESC, job_id DESC LIMIT 1\<close>.\<close>

definition newestJob :: "goerror option \<Rightarrow> string \<Rightarrow> historyDB \<Rightarrow> jobRow res" where
  "newestJob fault userID db =
     (case fault of
        Some e \<Rightarrow> Inl e
      | None \<Rightarrow> (case sortSlice newerJob (jobsOf userID db) of [] \<Rightarrow> Inl ErrNoRows | r # _ \<Rightarrow> Inr r))"

text \<open>Without a user or a database: the job's own file says how the last job ended.\<close>

definition lastJobFromFile :: "config \<Rightarrow> (string \<Rightarrow> jobRead) \<Rightarrow> string \<Rightarrow> jobject \<Rightarrow> jobject" where
  "lastJobFromFile cfg files jobID scan =
     (let scan1 = AList.update ''last_job_result'' JNull (AList.update ''last_job_status'' JNull scan) in
      case jobState cfg files jobID of
        StateText _ \<Rightarrow> scan1
      | StateMap job \<Rightarrow>
          (let scan2 = (case stringField job ''status'' of
                          Some status \<Rightarrow> if status \<in> {''running'', ''finished'', ''failed''}
                                         then AList.update ''last_job_status'' (JString status) scan1 else scan1
                        | None \<Rightarrow> scan1)
           in case stringField job ''result'' of
                Some result \<Rightarrow> AList.update ''last_job_result'' (JString result) scan2
              | None \<Rightarrow> scan2))"

definition enrichScan ::
    "config \<Rightarrow> (string \<Rightarrow> jobRead) \<Rightarrow> goerror option \<Rightarrow> historyDB option \<Rightarrow> string \<Rightarrow> jobject \<Rightarrow> jobject" where
  "enrichScan cfg files fault db userID scan =
     (let scan1 = hideActiveJob cfg files userID scan;
          jobID = fieldText scan1 ''last_job_id''
      in if db \<noteq> None \<and> userID \<noteq> [] then
           (case newestJob fault userID (the db) of
              Inl _ \<Rightarrow> setLastJob JNull JNull JNull scan1
            | Inr r \<Rightarrow> setLastJob (JString (hj_id r)) (JString (hj_status r)) (JString (hj_result r)) scan1)
         else if jobID = [] then scan1
         else lastJobFromFile cfg files jobID scan1)"

definition enrichStatusSource ::
    "config \<Rightarrow> (string \<Rightarrow> jobRead) \<Rightarrow> goerror option \<Rightarrow> historyDB option \<Rightarrow> string \<Rightarrow> json \<Rightarrow> json" where
  "enrichStatusSource cfg files fault db userID source =
     (case source of
        JObject root \<Rightarrow>
          (case map_of root ''scan'' of
             Some (JObject scan) \<Rightarrow>
               JObject (AList.update ''scan'' (JObject (enrichScan cfg files fault db userID scan)) root)
           | _ \<Rightarrow> source)
      | _ \<Rightarrow> source)"

definition statusResponse ::
    "config \<Rightarrow> (gotime \<Rightarrow> string) \<Rightarrow> json \<Rightarrow> clamdStatusCacheEntry \<Rightarrow> string \<Rightarrow> json" where
  "statusResponse cfg rfc3339 source e firstRun =
     JObject [(''source'', source), (''ping'', JString (cs_ping e)), (''ping_message'', JString (cs_pingMessage e)),
       (''clamd_version'', JString (cs_clamdVersion e)), (''database_version'', JString (cs_databaseVersion e)),
       (''database_date'', JString (cs_databaseDate e)), (''checked_at'', JString (rfc3339 (cs_checkedAt e))),
       (''first_run'', JString firstRun), (''is_timedock'', JBool (IsTimeDock cfg))]"

definition statusSource ::
    "config \<Rightarrow> (string \<Rightarrow> jobRead) \<Rightarrow> goerror option \<Rightarrow> historyDB option \<Rightarrow> actor option \<Rightarrow> statusFile \<Rightarrow> json" where
  "statusSource cfg files fault db ctx file =
     (case file of
        StatusValue decoded \<Rightarrow> enrichStatusSource cfg files fault db (ID (actorOrZero ctx)) decoded
      | StatusGarbled text _ \<Rightarrow> JString text
      | _ \<Rightarrow> JObject [(''message'', JString ''status file is not available yet'')])"

definition firstRunText :: "appConfig option \<Rightarrow> string" where
  "firstRunText appCfg =
     (if appCfg \<noteq> None \<and> WebFirstRunCompleted (the appCfg) = 2 then ''completed'' else ''not_completed'')"

definition handleStatus ::
    "config \<Rightarrow> (gotime \<Rightarrow> string) \<Rightarrow> httpMethod \<Rightarrow> (string \<Rightarrow> jobRead) \<Rightarrow> goerror option \<Rightarrow> historyDB option \<Rightarrow>
     appConfig option \<Rightarrow> actor option \<Rightarrow> statusFile \<Rightarrow> gotime \<Rightarrow> commandRun \<Rightarrow> clamdConn \<Rightarrow> gotime \<Rightarrow>
     clamdStatusCacheEntry \<Rightarrow> response \<times> clamdStatusCacheEntry" where
  "handleStatus cfg rfc3339 method files fault db appCfg ctx file now run conn finished cache =
     (if method \<noteq> MethodGet then (methodNotAllowed, cache)
      else (case cachedClamdStatus now run conn finished cache of (entry, cache1) \<Rightarrow>
        (writeJSON StatusOK (statusResponse cfg rfc3339 (statusSource cfg files fault db ctx file) entry
           (firstRunText appCfg)), cache1)))"

section \<open>What the status tells a user\<close>

lemma stringField_update_other:
  "k \<noteq> k' \<Longrightarrow> stringField (AList.update k v m) k' = stringField m k'"
  by (simp add: stringField_def update_conv')

lemma map_of_setLastJob:
  "map_of (setLastJob i st r scan) = (map_of scan)(''last_job_id'' \<mapsto> i, ''last_job_status'' \<mapsto> st, ''last_job_result'' \<mapsto> r)"
  by (simp add: setLastJob_def update_conv')

lemma stringField_setLastJob_active: "stringField (setLastJob i st r scan) ''active_job_id'' = stringField scan ''active_job_id''"
  by (simp add: stringField_def map_of_setLastJob)

lemma hideActiveJob_owner:
  assumes "stringField (hideActiveJob cfg files u scan) ''active_job_id'' = Some i" and "u \<noteq> []" and "i \<noteq> []"
  shows "jobOwner cfg files i = u"
  using assms by (auto simp: hideActiveJob_def fieldText_def stringField_def update_conv' Let_def split: if_splits option.splits json.splits)

lemma newestJob_first:
  assumes "newestJob fault u db = Inr r" and "distinct (map hj_id (h_jobs db))"
  shows "r \<in> set (h_jobs db) \<and> hj_user r = u \<and> (\<forall>q \<in> set (h_jobs db). hj_user q = u \<longrightarrow> q = r \<or> newerJob r q)"
proof -
  let ?rows = "sortSlice newerJob (jobsOf u db)"
  obtain rest where rows: "?rows = r # rest"
    using assms(1) by (auto simp: newestJob_def split: option.splits list.splits)
  have ids: "distinct (map hj_id (jobsOf u db))"
    using assms(2) by (simp add: jobsOf_def distinct_map_filter)
  have "sorted_wrt newerJob ?rows"
    by (rule sortSlice_sorted [of newerJob hj_id, OF newerJob_trans newerJob_total ids])
  then have "\<forall>q \<in> set rest. newerJob r q" by (simp add: rows)
  moreover have "set (r # rest) = set (jobsOf u db)" using rows sortSlice_set(1) by metis
  ultimately show ?thesis by (auto simp: jobsOf_def)
qed

lemma enrichScan_cases:
  assumes "u \<noteq> []"
  shows "enrichScan cfg files fault (Some db) u scan =
     (case newestJob fault u db of
        Inl _ \<Rightarrow> setLastJob JNull JNull JNull (hideActiveJob cfg files u scan)
      | Inr r \<Rightarrow> setLastJob (JString (hj_id r)) (JString (hj_status r)) (JString (hj_result r))
                  (hideActiveJob cfg files u scan))"
  using assms by (simp add: enrichScan_def Let_def)

lemma enrichStatusSource_scan:
  assumes "enrichStatusSource cfg files fault db u source = JObject root" and "map_of root ''scan'' = Some (JObject scan)"
  obtains scan0 where "scan = enrichScan cfg files fault db u scan0"
  using assms by (fastforce simp: enrichStatusSource_def update_conv' split: json.splits option.splits)

text \<open>
  C20: the status page shows a user no job of anybody else. In the document served to a logged-in
  user, the active job is blank unless its job file names the user as its owner, and the last
  job is the newest of the user's own indexed jobs with its status and result, or null when
  there is none or the index cannot be read.
\<close>

theorem status_hides_other_users:
  assumes "handleStatus cfg rfc3339 MethodGet files fault (Some db) appCfg ctx file now run conn finished cache = (r, cache')"
    and "actorFromRequest ctx = Inr who" and "distinct (map hj_id (h_jobs db))" and "file = StatusValue doc"
    and "rsp_body r = JObject body" and "map_of body ''source'' = Some (JObject root)"
    and "map_of root ''scan'' = Some (JObject scan)"
  shows "(\<forall>i. map_of scan ''active_job_id'' = Some (JString i) \<longrightarrow> i = [] \<or> jobOwner cfg files i = ID who) \<and>
         (map_of scan ''last_job_id'' = Some JNull \<and> map_of scan ''last_job_status'' = Some JNull \<and>
            map_of scan ''last_job_result'' = Some JNull \<or>
          (\<exists>j \<in> set (h_jobs db). hj_user j = ID who \<and>
             (\<forall>q \<in> set (h_jobs db). hj_user q = ID who \<longrightarrow> q = j \<or> newerJob j q) \<and>
             map_of scan ''last_job_id'' = Some (JString (hj_id j)) \<and>
             map_of scan ''last_job_status'' = Some (JString (hj_status j)) \<and>
             map_of scan ''last_job_result'' = Some (JString (hj_result j))))"
proof -
  let ?u = "ID who"
  have user: "?u \<noteq> []" using assms(2) by (auto simp: actorFromRequest_def validUserID_def split: option.splits if_splits)
  have "enrichStatusSource cfg files fault (Some db) ?u doc = JObject root"
    using assms by (auto simp: handleStatus_def statusResponse_def statusSource_def actorOrZero_def
        split: prod.splits)
  then obtain scan0 where "scan = enrichScan cfg files fault (Some db) ?u scan0"
    using assms(7) by (rule enrichStatusSource_scan)
  then have scan: "scan = (case newestJob fault ?u db of
        Inl _ \<Rightarrow> setLastJob JNull JNull JNull (hideActiveJob cfg files ?u scan0)
      | Inr r \<Rightarrow> setLastJob (JString (hj_id r)) (JString (hj_status r)) (JString (hj_result r))
                  (hideActiveJob cfg files ?u scan0))"
    by (simp add: enrichScan_cases user)
  have active: "stringField scan ''active_job_id'' = stringField (hideActiveJob cfg files ?u scan0) ''active_job_id''"
    by (simp add: scan stringField_setLastJob_active split: sum.splits)
  have "i = [] \<or> jobOwner cfg files i = ?u" if "map_of scan ''active_job_id'' = Some (JString i)" for i
  proof -
    have "stringField scan ''active_job_id'' = Some i" using that by (simp add: stringField_def)
    then show ?thesis using hideActiveJob_owner [of cfg files ?u scan0 i] user active by auto
  qed
  moreover have "map_of scan ''last_job_id'' = Some JNull \<and> map_of scan ''last_job_status'' = Some JNull \<and>
      map_of scan ''last_job_result'' = Some JNull" if "newestJob fault ?u db = Inl e" for e
    using that by (simp add: scan map_of_setLastJob)
  moreover have "map_of scan ''last_job_id'' = Some (JString (hj_id j)) \<and>
      map_of scan ''last_job_status'' = Some (JString (hj_status j)) \<and>
      map_of scan ''last_job_result'' = Some (JString (hj_result j))" if "newestJob fault ?u db = Inr j" for j
    using that by (simp add: scan map_of_setLastJob)
  ultimately show ?thesis
    using newestJob_first [of fault ?u db, OF _ assms(3)] by (cases "newestJob fault ?u db") blast+
qed

definition sampleUser :: actor where
  "sampleUser = \<lparr> ID = ''abcdefg1'', Username = ''carol'', Role = ''user'', TimeDockAccount = [] \<rparr>"

definition sampleStatusFile :: statusFile where
  "sampleStatusFile = StatusValue (JObject [(''version'', JNumber 1), (''scan'', JObject
     [(''active_job_id'', JString ''manual-9''), (''last_job_id'', JString ''manual-8'')])])"

definition sampleJobFiles :: "string \<Rightarrow> jobRead" where
  "sampleJobFiles = (\<lambda>_. JobDecoded [(''user_id'', JString ''zzzzzzz9'')])"

definition sampleRun :: commandRun where
  "sampleRun = \<lparr> run_output = ''PONG'', run_err = None, run_late = False \<rparr>"

definition sampleConn :: clamdConn where
  "sampleConn = \<lparr> cn_dialErr = None, cn_deadlineErr = None, cn_writeErr = None,
     cn_sent = ''ClamAV 1.4/2/Mon'', cn_end = EndEOF \<rparr>"

definition sampleScan :: jobject where
  "sampleScan = [(''active_job_id'', JNull), (''last_job_id'', JString ''cron-1600000000''),
     (''last_job_status'', JString ''finished''), (''last_job_result'', JString ''clean'')]"

theorem status_hides_other_users_witness:
  "\<exists>j \<in> set (h_jobs exampleDB). hj_user j = ID sampleUser \<and> map_of sampleScan ''last_job_id'' = Some (JString (hj_id j))"
proof -
  let ?out = "handleStatus (sampleConfig False) (\<lambda>_. []) MethodGet sampleJobFiles None (Some exampleDB) None (Some sampleUser)
    sampleStatusFile 1 sampleRun sampleConn 2 invalidateClamdStatusCache"
  let ?root = "[(''version'', JNumber 1), (''scan'', JObject sampleScan)]"
  have src: "statusSource (sampleConfig False) sampleJobFiles None (Some exampleDB) (Some sampleUser) sampleStatusFile =
      JObject ?root"
    by code_simp
  obtain body where body: "rsp_body (fst ?out) = JObject body" "map_of body ''source'' = Some (JObject ?root)"
    by (cases "cachedClamdStatus 1 sampleRun sampleConn 2 invalidateClamdStatusCache")
      (auto simp: handleStatus_def statusResponse_def src)
  have who: "actorFromRequest (Some sampleUser) = Inr sampleUser" by code_simp
  have jobs: "distinct (map hj_id (h_jobs exampleDB))" by code_simp
  have some: "map_of sampleScan ''last_job_id'' \<noteq> Some JNull" by (simp add: sampleScan_def)
  show ?thesis
    using some status_hides_other_users [OF _ who jobs sampleStatusFile_def body(1) body(2), of "sampleConfig False" "\<lambda>_. []"
        sampleJobFiles None None 1 sampleRun sampleConn 2 invalidateClamdStatusCache "snd ?out" sampleScan]
    by auto
qed

end
