(* ===== verification/Sleep_Wake.thy ===== *)
theory Sleep_Wake
  imports Engine_Status Scan_Handlers
begin

text \<open>
  Putting the scanner daemon to sleep and waking it (\<^verbatim>\<open>sleep_wake.go\<close>): the shutdown command on
  the daemon's socket, the sleep lock and the status file, the two handlers, and the goroutine
  that puts an idle engine to sleep. The goroutine is a step relation in which every read of
  shared state is a step of its own, interleaved with requests, scans and the clock.
\<close>

section \<open>The shutdown command\<close>

text \<open>\<^verbatim>\<open>sendClamdShutdown\<close>: success is the end of the stream with no byte read.\<close>

definition sendClamdShutdown :: "clamdConn \<Rightarrow> goerror option" where
  "sendClamdShutdown c =
     (case commandErr c of
        Some e \<Rightarrow> Some e
      | None \<Rightarrow>
          if cn_sent c \<noteq> [] then Some (ErrText ''clamd returned an unexpected SHUTDOWN response'')
          else (case cn_end c of
                  EndEOF \<Rightarrow> None
                | EndErr e \<Rightarrow> Some e
                | EndSilent \<Rightarrow> Some (ErrText ''clamd did not close the SHUTDOWN connection'')))"

section \<open>The engine's state on disk\<close>

text \<open>
  What the server keeps of the engine's power state: what stands at the path of the sleep lock
  (\<open>None\<close>: nothing), the status file, the status cache and the timer's notification state. The
  last field counts the shutdown commands that were written to the daemon's socket.
\<close>

record sleepTimerState =
  st_generation :: "64 word"
  st_changed :: bool

definition newClamAVSleepTimerState :: sleepTimerState where
  "newClamAVSleepTimerState = \<lparr> st_generation = 0, st_changed = False \<rparr>"

text \<open>\<^verbatim>\<open>advance\<close>: the channel has room for one notification, a second one is dropped.\<close>

definition advance :: "sleepTimerState \<Rightarrow> sleepTimerState" where
  "advance s = \<lparr> st_generation = st_generation s + 1, st_changed = True \<rparr>"

record engineState =
  en_lock :: "filemode option"
  en_status :: statusFile
  en_cache :: clamdStatusCacheEntry
  en_timer :: "sleepTimerState option"
  en_shutdowns :: nat

definition notifyClamAVSleepTimerChanged :: "engineState \<Rightarrow> engineState" where
  "notifyClamAVSleepTimerChanged s = s\<lparr>en_timer := map_option advance (en_timer s)\<rparr>"

text \<open>
  What one power operation meets: failures of the calls to the operating system, the ping, the
  connection, the rest of the file system, whether the request's deadline has passed and which
  network errors are timeouts; and, for a wake, how the start-up script ends and what it leaves
  at the path of the sleep lock.
\<close>

record powerWorld =
  pw_os :: osview
  pw_statErr :: "goerror option"
  pw_restatErr :: "goerror option"
  pw_mkdirErr :: "goerror option"
  pw_createErr :: "goerror option"
  pw_encodeErr :: "goerror option"
  pw_closeErr :: "goerror option"
  pw_renameErr :: "goerror option"
  pw_ping :: commandRun
  pw_conn :: clamdConn
  pw_late :: bool
  pw_isTimeout :: "goerror \<Rightarrow> bool"
  pw_wakeErr :: "goerror option"
  pw_wakeLate :: bool
  pw_wakeLock :: "filemode option"

text \<open>The file system as \<^verbatim>\<open>os.Stat\<close> sees it, with the sleep lock taken from the state.\<close>

definition engineView :: "config \<Rightarrow> powerWorld \<Rightarrow> goerror option \<Rightarrow> engineState \<Rightarrow> osview" where
  "engineView cfg w fault s =
     (pw_os w)\<lparr>os_Stat := (\<lambda>p.
        if p = SleepLockDir cfg then
          (case fault of
             Some e \<Rightarrow> Inl e
           | None \<Rightarrow> (case en_lock s of
                         None \<Rightarrow> Inl (ErrNotExist (''stat '' @ p @ '': no such file or directory''))
                       | Some m \<Rightarrow> Inr \<lparr> fi_mode = m, fi_size = 0, fi_mtime = 0 \<rparr>))
        else os_Stat (pw_os w) p)\<rparr>"

text \<open>\<^verbatim>\<open>os.Mkdir\<close> makes the directory, or says that something stands there already, or fails.\<close>

definition createDirectoryLock :: "config \<Rightarrow> powerWorld \<Rightarrow> engineState \<Rightarrow> goerror option \<times> engineState" where
  "createDirectoryLock cfg w s =
     (case pw_mkdirErr w of
        Some e \<Rightarrow> (Some e, s)
      | None \<Rightarrow>
          (case en_lock s of
             None \<Rightarrow> (None, s\<lparr>en_lock := Some ModeDir\<rparr>)
           | Some _ \<Rightarrow>
               (case directoryLockExists (engineView cfg w (pw_restatErr w) s) (SleepLockDir cfg) of
                  Inl e \<Rightarrow> (Some e, s)
                | Inr True \<Rightarrow> (None, s)
                | Inr False \<Rightarrow> (Some (ErrExist (''mkdir '' @ SleepLockDir cfg @ '': file exists'')), s))))"

text \<open>
  \<^verbatim>\<open>writeClamdSleepStatus\<close>: the document is read, \<^verbatim>\<open>clamd.status\<close> is set to \<^verbatim>\<open>sleep\<close>, and the file
  is replaced by renaming a temporary file over it.
\<close>

definition jsonKind :: "json \<Rightarrow> string" where
  "jsonKind v =
     (case v of JNull \<Rightarrow> ''null'' | JBool _ \<Rightarrow> ''bool'' | JNumber _ \<Rightarrow> ''number'' | JString _ \<Rightarrow> ''string''
              | JArray _ \<Rightarrow> ''array'' | JObject _ \<Rightarrow> ''object'')"

definition statusRoot :: "statusFile \<Rightarrow> jobject res" where
  "statusRoot file =
     (case file of
        StatusAbsent \<Rightarrow> Inr [(''version'', JNumber 1),
                             (''scan'', JObject [(''active_job_id'', JNull), (''last_job_id'', JNull)])]
      | StatusUnreadable e \<Rightarrow> Inl e
      | StatusGarbled _ e \<Rightarrow> Inl (wrapErr ''decode status file'' e)
      | StatusValue JNull \<Rightarrow> Inl (ErrText ''decode status file: root must be an object'')
      | StatusValue (JObject root) \<Rightarrow> Inr root
      | StatusValue v \<Rightarrow>
          Inl (wrapErr ''decode status file'' (ErrText (''json: cannot unmarshal '' @ jsonKind v @
                 '' into Go value of type map[string]interface {}''))))"

definition sleepRoot :: "jobject \<Rightarrow> jobject" where
  "sleepRoot root =
     (let clamd = (case map_of root ''clamd'' of Some (JObject m) \<Rightarrow> m | _ \<Rightarrow> [])
      in AList.update ''clamd'' (JObject (AList.update ''status'' (JString ''sleep'') clamd)) root)"

definition replaceErr :: "powerWorld \<Rightarrow> goerror option" where
  "replaceErr w =
     (case pw_createErr w of Some e \<Rightarrow> Some e | None \<Rightarrow>
     (case pw_encodeErr w of Some e \<Rightarrow> Some e | None \<Rightarrow>
     (case pw_closeErr w of Some e \<Rightarrow> Some e | None \<Rightarrow> pw_renameErr w)))"

definition writeClamdSleepStatus :: "powerWorld \<Rightarrow> engineState \<Rightarrow> goerror option \<times> engineState" where
  "writeClamdSleepStatus w s =
     (case statusRoot (en_status s) of
        Inl e \<Rightarrow> (Some e, s)
      | Inr root \<Rightarrow>
          (case replaceErr w of
             Some e \<Rightarrow> (Some e, s)
           | None \<Rightarrow> (None, s\<lparr>en_status := StatusValue (JObject (sleepRoot root))\<rparr>)))"

section \<open>Sleep and wake\<close>

abbreviation StatusGatewayTimeout :: nat where "StatusGatewayTimeout \<equiv> 504"

definition powerErrorStatus :: "powerWorld \<Rightarrow> goerror \<Rightarrow> nat" where
  "powerErrorStatus w err =
     (if pw_late w \<or> pw_isTimeout w err then StatusGatewayTimeout else StatusInternalServerError)"

text \<open>The state, the message, the HTTP status and the error that the two operations return.\<close>

type_synonym powerResult = "string \<times> string \<times> nat \<times> goerror option"

definition powerFailed :: "nat \<Rightarrow> goerror \<Rightarrow> powerResult" where
  "powerFailed code err = (''failed'', [], code, Some err)"

text \<open>The tail of \<^verbatim>\<open>sleepClamAV\<close>: writing the status file ends every successful path.\<close>

definition finishSleep :: "powerWorld \<Rightarrow> string \<Rightarrow> engineState \<Rightarrow> powerResult \<times> engineState" where
  "finishSleep w message s =
     (case writeClamdSleepStatus w s of
        (Some e, t) \<Rightarrow> (powerFailed StatusInternalServerError (wrapErr ''write ClamAV sleep status'' e), t)
      | (None, t) \<Rightarrow> ((''sleeping'', message, StatusOK, None), t))"

definition shutdownAndLock :: "config \<Rightarrow> powerWorld \<Rightarrow> engineState \<Rightarrow> powerResult \<times> engineState" where
  "shutdownAndLock cfg w s =
     (let sent = (if commandErr (pw_conn w) = None then s\<lparr>en_shutdowns := Suc (en_shutdowns s)\<rparr> else s) in
      case sendClamdShutdown (pw_conn w) of
        Some e \<Rightarrow> (powerFailed (powerErrorStatus w e) (wrapErr ''put ClamAV to sleep'' e), sent)
      | None \<Rightarrow>
          (case createDirectoryLock cfg w (sent\<lparr>en_cache := invalidateClamdStatusCache\<rparr>) of
             (Some e, t) \<Rightarrow> (powerFailed StatusInternalServerError (wrapErr ''create sleep lock'' e), t)
           | (None, t) \<Rightarrow> finishSleep w ''ClamAV entered sleep mode.'' t))"

definition sleepClamAV :: "config \<Rightarrow> powerWorld \<Rightarrow> engineState \<Rightarrow> powerResult \<times> engineState" where
  "sleepClamAV cfg w s =
     (case directoryLockExists (engineView cfg w (pw_statErr w) s) (SleepLockDir cfg) of
        Inl e \<Rightarrow> (powerFailed StatusInternalServerError e, s)
      | Inr sleeping \<Rightarrow>
          if sleeping \<and> fst (pingClamd (pw_ping w)) \<noteq> ''ready''
          then finishSleep w ''ClamAV is already sleeping.'' (s\<lparr>en_cache := invalidateClamdStatusCache\<rparr>)
          else (case scanLockActive (engineView cfg w (pw_statErr w) s) cfg of
                  Inl e \<Rightarrow> (powerFailed StatusInternalServerError (wrapErr ''check active scan lock'' e), s)
                | Inr True \<Rightarrow>
                    (powerFailed StatusConflict (ErrText ''ClamAV cannot sleep while a scan is active''), s)
                | Inr False \<Rightarrow> shutdownAndLock cfg w s))"

text \<open>\<^verbatim>\<open>wakeClamAV\<close>: the start-up script owns the transition of the sleep lock, also when it fails.\<close>

definition wakeClamAV :: "powerWorld \<Rightarrow> engineState \<Rightarrow> powerResult \<times> engineState" where
  "wakeClamAV w s =
     (let alreadyAwake = (fst (pingClamd (pw_ping w)) = ''ready'');
          t = s\<lparr>en_lock := pw_wakeLock w\<rparr>
      in case pw_wakeErr w of
           Some e \<Rightarrow>
             if pw_wakeLate w then (powerFailed StatusGatewayTimeout (ErrText ''ClamAV wake timed out''), t)
             else (powerFailed StatusInternalServerError (wrapErr ''wake ClamAV'' e), t)
         | None \<Rightarrow>
             ((''awake'', if alreadyAwake then ''ClamAV is already awake.'' else ''ClamAV woke successfully.'', StatusOK, None),
              t\<lparr>en_cache := invalidateClamdStatusCache\<rparr>))"

definition clamavPowerResponse :: "string \<Rightarrow> string \<Rightarrow> json" where
  "clamavPowerResponse status message = JObject [(''status'', JString status), (''message'', JString message)]"

text \<open>Both handlers end alike: an error is answered, a success resets the sleep timer.\<close>

definition powerReply :: "powerResult \<times> engineState \<Rightarrow> response \<times> engineState" where
  "powerReply out =
     (case out of ((status, message, code, err), s) \<Rightarrow>
        case err of
          Some e \<Rightarrow> (writeError code e, s)
        | None \<Rightarrow> (writeJSON code (clamavPowerResponse status message), notifyClamAVSleepTimerChanged s))"

definition handleClamAVSleep :: "httpMethod \<Rightarrow> config \<Rightarrow> powerWorld \<Rightarrow> engineState \<Rightarrow> response \<times> engineState" where
  "handleClamAVSleep method cfg w s =
     (if method \<noteq> MethodPost then (methodNotAllowed, s) else powerReply (sleepClamAV cfg w s))"

definition handleClamAVWake :: "httpMethod \<Rightarrow> powerWorld \<Rightarrow> engineState \<Rightarrow> response \<times> engineState" where
  "handleClamAVWake method w s =
     (if method \<noteq> MethodPost then (methodNotAllowed, s) else powerReply (wakeClamAV w s))"

section \<open>The sleep timer\<close>

text \<open>
  Where \<^verbatim>\<open>runClamAVSleepTimerWithAction\<close> stands. From \<open>CheckGeneration\<close> to \<open>SleepNow\<close> it holds
  \<^verbatim>\<open>clamavPowerMu\<close>; the arguments are the interval it has read.
\<close>

datatype timerPC =
    AtSelect
  | ArmStart
  | ArmCheckLock int
  | ArmReadGeneration int
  | ArmSetTimer
  | Expired
  | CheckGeneration int
  | CheckQueue
  | SleepNow
  | Returned

text \<open>
  The goroutine's local variables and the shared state it reads. \<open>sy_owed\<close> counts the
  configuration requests that have stored a new interval and have not yet sent their
  notification.
\<close>

record sleepSystem =
  sy_now :: gotime
  sy_interval :: int
  sy_owed :: nat
  sy_engine :: engineState
  sy_queue :: queueState
  sy_pc :: timerPC
  sy_timer :: "gotime option"
  sy_armedGeneration :: "64 word"
  sy_armedInterval :: int

definition generation :: "sleepSystem \<Rightarrow> 64 word" where
  "generation s = (case en_timer (sy_engine s) of Some ts \<Rightarrow> st_generation ts | None \<Rightarrow> 0)"

definition changed :: "sleepSystem \<Rightarrow> bool" where
  "changed s \<longleftrightarrow> (case en_timer (sy_engine s) of Some ts \<Rightarrow> st_changed ts | None \<Rightarrow> False)"

definition takeChanged :: "engineState \<Rightarrow> engineState" where
  "takeChanged e = e\<lparr>en_timer := map_option (\<lambda>ts. ts\<lparr>st_changed := False\<rparr>) (en_timer e)\<rparr>"

definition holdsPowerMu :: "sleepSystem \<Rightarrow> bool" where
  "holdsPowerMu s \<longleftrightarrow> (case sy_pc s of CheckGeneration _ \<Rightarrow> True | CheckQueue \<Rightarrow> True | SleepNow \<Rightarrow> True | _ \<Rightarrow> False)"

text \<open>
  One step of the goroutine. \<open>None\<close>: it waits, at \<^verbatim>\<open>select\<close> with nothing to receive, or it has
  returned. At \<^verbatim>\<open>select\<close> the first argument chooses among the ready channels.
\<close>

datatype ready = CtxDone | Notification | TimerTick

definition atSelect :: "ready \<Rightarrow> sleepSystem \<Rightarrow> sleepSystem option" where
  "atSelect choice s =
     (case choice of
        CtxDone \<Rightarrow> Some (s\<lparr>sy_pc := Returned\<rparr>)
      | Notification \<Rightarrow>
          if changed s then Some (s\<lparr>sy_pc := ArmStart, sy_engine := takeChanged (sy_engine s)\<rparr>) else None
      | TimerTick \<Rightarrow>
          (case sy_timer s of
             Some deadline \<Rightarrow> if deadline \<le> sy_now s then Some (s\<lparr>sy_pc := Expired, sy_timer := None\<rparr>) else None
           | None \<Rightarrow> None))"

definition arm :: "config \<Rightarrow> powerWorld \<Rightarrow> sleepSystem \<Rightarrow> sleepSystem option" where
  "arm cfg w s =
     (case sy_pc s of
        ArmStart \<Rightarrow>
          (let t = s\<lparr>sy_timer := None\<rparr> in
           if sy_interval s = 0 then Some (t\<lparr>sy_pc := AtSelect\<rparr>)
           else Some (t\<lparr>sy_pc := ArmCheckLock (sy_interval s)\<rparr>))
      | ArmCheckLock interval \<Rightarrow>
          (case directoryLockExists (engineView cfg w (pw_statErr w) (sy_engine s)) (SleepLockDir cfg) of
             Inr True \<Rightarrow> Some (s\<lparr>sy_pc := AtSelect\<rparr>)
           | _ \<Rightarrow> Some (s\<lparr>sy_pc := ArmReadGeneration interval\<rparr>))
      | ArmReadGeneration interval \<Rightarrow>
          Some (s\<lparr>sy_pc := ArmSetTimer, sy_armedGeneration := generation s, sy_armedInterval := interval\<rparr>)
      | ArmSetTimer \<Rightarrow>
          Some (s\<lparr>sy_pc := AtSelect, sy_timer := Some (sy_now s + sy_armedInterval s * Second)\<rparr>)
      | _ \<Rightarrow> None)"

definition onExpiry :: "sleepSystem \<Rightarrow> sleepSystem option" where
  "onExpiry s =
     (case sy_pc s of
        Expired \<Rightarrow> Some (s\<lparr>sy_pc := CheckGeneration (sy_interval s)\<rparr>)
      | CheckGeneration interval \<Rightarrow>
          if sy_armedGeneration s \<noteq> generation s \<or> interval = 0 \<or> interval \<noteq> sy_armedInterval s
          then Some (s\<lparr>sy_pc := ArmStart\<rparr>)
          else Some (s\<lparr>sy_pc := CheckQueue\<rparr>)
      | CheckQueue \<Rightarrow>
          if manualScanPendingOrActive (sy_queue s) then Some (s\<lparr>sy_pc := ArmStart\<rparr>)
          else Some (s\<lparr>sy_pc := SleepNow\<rparr>)
      | _ \<Rightarrow> None)"

text \<open>The call of \<^verbatim>\<open>sleepClamAV\<close>; \<open>cancelled\<close> says that the server is shutting down.\<close>

definition autoSleep :: "config \<Rightarrow> powerWorld \<Rightarrow> bool \<Rightarrow> sleepSystem \<Rightarrow> sleepSystem option" where
  "autoSleep cfg w cancelled s =
     (if sy_pc s = SleepNow then
        (case sleepClamAV cfg w (sy_engine s) of ((status, _, _, err), e) \<Rightarrow>
           Some (s\<lparr>sy_engine := e,
                   sy_pc := (if err = None \<and> status = ''sleeping'' then AtSelect
                             else if cancelled then Returned else ArmStart)\<rparr>))
      else None)"

text \<open>
  The steps of the system: the clock, the goroutine, and what happens around it. A manual scan is
  started, and a power request is served, only while \<^verbatim>\<open>clamavPowerMu\<close> is free. A configuration
  request stores a valid configuration and later notifies the timer when the interval differs
  from the one it had read before (\<open>ConfigStored True\<close>: no other request stored one in between).
  The queue changes at any time. \<open>Outside\<close> is a change of the lock or the status file that is
  not the server's own, or is left behind by a start-up script that failed.
\<close>

datatype sleepEvent =
    Tick | LoopStep | AutoSleep | ScanStarted | PowerDone | PowerFailed | ConfigStored bool | ConfigNotified
  | QueueChanged | Outside

inductive sleepStep :: "config \<Rightarrow> sleepEvent \<Rightarrow> sleepSystem \<Rightarrow> sleepSystem \<Rightarrow> bool" for cfg where
  Clock: "sy_now s \<le> t \<Longrightarrow> sleepStep cfg Tick s (s\<lparr>sy_now := t\<rparr>)"
| Select: "sy_pc s = AtSelect \<Longrightarrow> atSelect choice s = Some t \<Longrightarrow> sleepStep cfg LoopStep s t"
| Arm: "arm cfg w s = Some t \<Longrightarrow> sleepStep cfg LoopStep s t"
| Expire: "onExpiry s = Some t \<Longrightarrow> sleepStep cfg LoopStep s t"
| Auto: "autoSleep cfg w cancelled s = Some t \<Longrightarrow> sleepStep cfg AutoSleep s t"
| Scan: "\<not> holdsPowerMu s \<Longrightarrow>
    sleepStep cfg ScanStarted s (s\<lparr>sy_engine := notifyClamAVSleepTimerChanged (sy_engine s)\<rparr>)"
| Sleep: "\<not> holdsPowerMu s \<Longrightarrow> handleClamAVSleep MethodPost cfg w (sy_engine s) = (r, e) \<Longrightarrow>
    sleepStep cfg (if rsp_status r = StatusOK then PowerDone else PowerFailed) s (s\<lparr>sy_engine := e\<rparr>)"
| Wake: "\<not> holdsPowerMu s \<Longrightarrow> handleClamAVWake MethodPost w (sy_engine s) = (r, e) \<Longrightarrow>
    sleepStep cfg (if rsp_status r = StatusOK then PowerDone
                   else if en_lock e = en_lock (sy_engine s) then PowerFailed else Outside) s (s\<lparr>sy_engine := e\<rparr>)"
| Store: "validateAppConfig c = None \<Longrightarrow>
    sleepStep cfg (ConfigStored (old = sy_interval s)) s
      (s\<lparr>sy_interval := ClamAVSleepTimer c,
         sy_owed := (if ClamAVSleepTimer c \<noteq> old then Suc (sy_owed s) else sy_owed s)\<rparr>)"
| Notify: "sy_owed s = Suc n \<Longrightarrow>
    sleepStep cfg ConfigNotified s (s\<lparr>sy_owed := n, sy_engine := notifyClamAVSleepTimerChanged (sy_engine s)\<rparr>)"
| Queue: "sleepStep cfg QueueChanged s (s\<lparr>sy_queue := q\<rparr>)"
| Else: "sleepStep cfg Outside s (s\<lparr>sy_engine := (sy_engine s)\<lparr>en_lock := l, en_status := f\<rparr>\<rparr>)"

text \<open>The server starts with a valid configuration, and the goroutine begins by arming the timer.\<close>

definition sleepInit :: "sleepSystem \<Rightarrow> bool" where
  "sleepInit s \<longleftrightarrow> sy_pc s = ArmStart \<and> sy_timer s = None \<and> sy_owed s = 0 \<and>
     sy_armedGeneration s = 0 \<and> sy_armedInterval s = 0 \<and>
     (sy_interval s = 0 \<or> 600 \<le> sy_interval s) \<and> en_timer (sy_engine s) = Some newClamAVSleepTimerState"

text \<open>A run, with the instant of every step.\<close>

inductive sleepRun :: "config \<Rightarrow> (gotime \<times> sleepEvent) list \<Rightarrow> sleepSystem \<Rightarrow> bool" for cfg where
  start: "sleepInit s \<Longrightarrow> sleepRun cfg [] s"
| extend: "sleepRun cfg tr s \<Longrightarrow> sleepStep cfg e s t \<Longrightarrow> sleepRun cfg (tr @ [(sy_now s, e)]) t"

section \<open>Effects of the power operations\<close>

lemma createDirectoryLock_frame:
  assumes "createDirectoryLock cfg w s = (err, t)"
  shows "en_timer t = en_timer s \<and> en_status t = en_status s \<and> en_shutdowns t = en_shutdowns s \<and>
    (err = None \<longrightarrow> en_lock t = Some ModeDir) \<and> (en_lock s \<noteq> None \<longrightarrow> en_lock t = en_lock s)"
  using assms
  by (auto simp: createDirectoryLock_def directoryLockExists_def engineView_def split: option.splits sum.splits bool.splits if_splits)

lemma writeClamdSleepStatus_frame:
  assumes "writeClamdSleepStatus w s = (err, t)"
  shows "en_timer t = en_timer s \<and> en_lock t = en_lock s \<and> en_shutdowns t = en_shutdowns s \<and>
    (err \<noteq> None \<longrightarrow> en_status t = en_status s) \<and>
    (err = None \<longrightarrow> (\<exists>root. statusRoot (en_status s) = Inr root \<and> en_status t = StatusValue (JObject (sleepRoot root))))"
  using assms by (auto simp: writeClamdSleepStatus_def split: sum.splits option.splits)

lemma finishSleep_frame:
  assumes "finishSleep w message s = ((status, msg, code, err), t)"
  shows "en_timer t = en_timer s \<and> en_lock t = en_lock s \<and> en_shutdowns t = en_shutdowns s \<and>
    (err = None \<longleftrightarrow> status = ''sleeping'') \<and> (err = None \<longleftrightarrow> code = StatusOK) \<and>
    (err \<noteq> None \<longrightarrow> en_status t = en_status s) \<and>
    (err = None \<longrightarrow> (\<exists>root. statusRoot (en_status s) = Inr root \<and> en_status t = StatusValue (JObject (sleepRoot root))))"
proof (cases "writeClamdSleepStatus w s")
  case (Pair e u)
  then show ?thesis
    using assms writeClamdSleepStatus_frame [OF Pair] by (cases e) (auto simp: finishSleep_def powerFailed_def)
qed

lemma powerErrorStatus_code [simp]: "powerErrorStatus w e \<noteq> StatusOK"
  by (simp add: powerErrorStatus_def)

lemma shutdownAndLock_frame:
  assumes "shutdownAndLock cfg w s = ((status, msg, code, err), t)"
  shows "en_timer t = en_timer s \<and> (en_lock s \<noteq> None \<longrightarrow> en_lock t = en_lock s) \<and>
    en_shutdowns t = en_shutdowns s + (if commandErr (pw_conn w) = None then 1 else 0) \<and>
    (err = None \<longleftrightarrow> status = ''sleeping'') \<and> (err = None \<longleftrightarrow> code = StatusOK) \<and>
    (err = None \<longrightarrow> en_lock t = Some ModeDir) \<and> (err \<noteq> None \<longrightarrow> en_status t = en_status s) \<and>
    (err = None \<longrightarrow> (\<exists>root. statusRoot (en_status s) = Inr root \<and> en_status t = StatusValue (JObject (sleepRoot root))))"
proof -
  define u where "u = (if commandErr (pw_conn w) = None then s\<lparr>en_shutdowns := Suc (en_shutdowns s)\<rparr> else s)"
  have u: "en_timer u = en_timer s" "en_lock u = en_lock s" "en_status u = en_status s"
      "en_shutdowns u = en_shutdowns s + (if commandErr (pw_conn w) = None then 1 else 0)"
    by (auto simp: u_def)
  show ?thesis
  proof (cases "sendClamdShutdown (pw_conn w)")
    case (Some e)
    then show ?thesis using assms u by (auto simp: shutdownAndLock_def Let_def u_def [symmetric] powerFailed_def)
  next
    case None
    obtain lockErr v where lock: "createDirectoryLock cfg w (u\<lparr>en_cache := invalidateClamdStatusCache\<rparr>) = (lockErr, v)"
      by fastforce
    show ?thesis
    proof (cases lockErr)
      case (Some e)
      then show ?thesis
        using assms u None lock createDirectoryLock_frame [OF lock]
        by (auto simp: shutdownAndLock_def Let_def u_def [symmetric] powerFailed_def)
    next
      case None2: None
      then have "finishSleep w ''ClamAV entered sleep mode.'' v = ((status, msg, code, err), t)"
        using assms None lock by (simp add: shutdownAndLock_def Let_def u_def [symmetric])
      from finishSleep_frame [OF this] show ?thesis
        using u createDirectoryLock_frame [OF lock] None2 by auto
    qed
  qed
qed

lemma directoryLockExists_engine:
  "directoryLockExists (engineView cfg w fault s) (SleepLockDir cfg) = Inr b \<Longrightarrow> b \<Longrightarrow> en_lock s = Some ModeDir"
  by (auto simp: directoryLockExists_def engineView_def split: option.splits if_splits)

lemma sleepClamAV_frame:
  assumes "sleepClamAV cfg w s = ((status, msg, code, err), t)"
  shows "en_timer t = en_timer s \<and> (en_lock s \<noteq> None \<longrightarrow> en_lock t = en_lock s) \<and>
    (err = None \<longleftrightarrow> status = ''sleeping'') \<and> (err = None \<longleftrightarrow> code = StatusOK) \<and>
    (err = None \<longrightarrow> en_lock t = Some ModeDir) \<and> (err \<noteq> None \<longrightarrow> en_status t = en_status s) \<and>
    (err = None \<longrightarrow> (\<exists>root. statusRoot (en_status s) = Inr root \<and> en_status t = StatusValue (JObject (sleepRoot root)))) \<and>
    (en_shutdowns t = en_shutdowns s \<or>
     en_shutdowns t = Suc (en_shutdowns s) \<and> scanLockActive (engineView cfg w (pw_statErr w) s) cfg = Inr False)"
proof (cases "directoryLockExists (engineView cfg w (pw_statErr w) s) (SleepLockDir cfg)")
  case (Inl e)
  then show ?thesis using assms by (auto simp: sleepClamAV_def powerFailed_def)
next
  case (Inr sleeping)
  note lock = directoryLockExists_engine [OF Inr]
  consider (already) "sleeping" "fst (pingClamd (pw_ping w)) \<noteq> ''ready''"
    | (stat) e where "\<not> (sleeping \<and> fst (pingClamd (pw_ping w)) \<noteq> ''ready'')"
        "scanLockActive (engineView cfg w (pw_statErr w) s) cfg = Inl e"
    | (busy) "\<not> (sleeping \<and> fst (pingClamd (pw_ping w)) \<noteq> ''ready'')"
        "scanLockActive (engineView cfg w (pw_statErr w) s) cfg = Inr True"
    | (free) "\<not> (sleeping \<and> fst (pingClamd (pw_ping w)) \<noteq> ''ready'')"
        "scanLockActive (engineView cfg w (pw_statErr w) s) cfg = Inr False"
    by (cases "scanLockActive (engineView cfg w (pw_statErr w) s) cfg") (auto split: bool.splits)
  then show ?thesis
  proof cases
    case already
    then have "finishSleep w ''ClamAV is already sleeping.'' (s\<lparr>en_cache := invalidateClamdStatusCache\<rparr>) = ((status, msg, code, err), t)"
      using assms Inr by (simp add: sleepClamAV_def)
    from finishSleep_frame [OF this] show ?thesis using lock already by auto
  next
    case stat
    then show ?thesis using assms Inr by (auto simp: sleepClamAV_def powerFailed_def)
  next
    case busy
    then show ?thesis using assms Inr by (auto simp: sleepClamAV_def powerFailed_def)
  next
    case free
    then have "shutdownAndLock cfg w s = ((status, msg, code, err), t)"
      using assms Inr by (auto simp: sleepClamAV_def split: if_splits)
    from shutdownAndLock_frame [OF this] show ?thesis using free by (auto split: if_splits)
  qed
qed

lemma sleepHandler_effect:
  assumes "handleClamAVSleep MethodPost cfg w s = (r, t)"
  shows "en_timer t = (if rsp_status r = StatusOK then map_option advance (en_timer s) else en_timer s) \<and>
    (en_lock s \<noteq> None \<longrightarrow> en_lock t = en_lock s)"
proof -
  obtain status msg code err u where out: "sleepClamAV cfg w s = ((status, msg, code, err), u)"
    by (metis surj_pair)
  show ?thesis
    using assms sleepClamAV_frame [OF out]
    by (cases err) (auto simp: handleClamAVSleep_def powerReply_def out notifyClamAVSleepTimerChanged_def)
qed

lemma wakeHandler_effect:
  assumes "handleClamAVWake MethodPost w s = (r, t)"
  shows "en_timer t = (if rsp_status r = StatusOK then map_option advance (en_timer s) else en_timer s)"
  using assms
  by (auto simp: handleClamAVWake_def powerReply_def wakeClamAV_def Let_def powerFailed_def
      notifyClamAVSleepTimerChanged_def split: option.splits if_splits)

section \<open>The timer's invariants\<close>

text \<open>
  Which generation the timer was armed with, counted without wrap-around: \<open>armedFor T tr N s\<close> says
  that it is the \<open>n\<close>-th, and that when the current one is still the \<open>n\<close>-th, no manual scan and no
  power request came after \<open>T\<close>.
\<close>

type_synonym timedTrace = "(gotime \<times> sleepEvent) list"

definition quietSince :: "gotime \<Rightarrow> timedTrace \<Rightarrow> bool" where
  "quietSince t tr \<longleftrightarrow> (\<forall>(u, e) \<in> set tr. e \<in> {ScanStarted, PowerDone} \<longrightarrow> u \<le> t)"

definition armedFor :: "gotime \<Rightarrow> timedTrace \<Rightarrow> nat \<Rightarrow> sleepSystem \<Rightarrow> bool" where
  "armedFor t tr N s \<longleftrightarrow> 600 \<le> sy_armedInterval s \<and>
     (\<exists>n \<le> N. sy_armedGeneration s = of_nat n \<and> (n = N \<longrightarrow> quietSince t tr))"

definition idleBy :: "sleepSystem \<Rightarrow> gotime" where
  "idleBy s = sy_now s - sy_armedInterval s * Second"

definition pcInv :: "timedTrace \<Rightarrow> nat \<Rightarrow> sleepSystem \<Rightarrow> bool" where
  "pcInv tr N s \<longleftrightarrow>
     (case sy_pc s of
        ArmCheckLock i \<Rightarrow> 600 \<le> i
      | ArmReadGeneration i \<Rightarrow> 600 \<le> i
      | ArmSetTimer \<Rightarrow> armedFor (sy_now s) tr N s
      | Expired \<Rightarrow> armedFor (idleBy s) tr N s
      | CheckGeneration i \<Rightarrow> armedFor (idleBy s) tr N s
      | CheckQueue \<Rightarrow> 600 \<le> sy_armedInterval s \<and> (length tr < 2 ^ 64 \<longrightarrow> quietSince (idleBy s) tr)
      | SleepNow \<Rightarrow> 600 \<le> sy_armedInterval s \<and> (length tr < 2 ^ 64 \<longrightarrow> quietSince (idleBy s) tr)
      | _ \<Rightarrow> True)"

definition generationIs :: "nat \<Rightarrow> engineState \<Rightarrow> bool" where
  "generationIs N e \<longleftrightarrow> (\<exists>ts. en_timer e = Some ts \<and> st_generation ts = of_nat N)"

definition mayHoldTimer :: "timerPC \<Rightarrow> bool" where
  "mayHoldTimer pc \<longleftrightarrow> pc \<in> {AtSelect, ArmStart, Returned}"

definition timerInv :: "timedTrace \<Rightarrow> nat \<Rightarrow> sleepSystem \<Rightarrow> bool" where
  "timerInv tr N s \<longleftrightarrow>
     generationIs N (sy_engine s) \<and> N \<le> length tr \<and> (\<forall>x \<in> set tr. fst x \<le> sy_now s) \<and>
     (sy_interval s = 0 \<or> 600 \<le> sy_interval s) \<and>
     (\<forall>d. sy_timer s = Some d \<longrightarrow> mayHoldTimer (sy_pc s) \<and> armedFor (d - sy_armedInterval s * Second) tr N s) \<and>
     pcInv tr N s"

lemma quietSince_mono: "quietSince t tr \<Longrightarrow> t \<le> t' \<Longrightarrow> quietSince t' tr"
  by (force simp: quietSince_def)

lemma quietSince_snoc: "e \<notin> {ScanStarted, PowerDone} \<Longrightarrow> quietSince t (tr @ [(u, e)]) = quietSince t tr"
  by (auto simp: quietSince_def)

lemma quietSince_all: "\<forall>x \<in> set tr. fst x \<le> t \<Longrightarrow> quietSince t tr"
  by (force simp: quietSince_def)

lemma armedFor_mono: "armedFor t tr N s \<Longrightarrow> t \<le> t' \<Longrightarrow> armedFor t' tr N s"
  by (auto simp: armedFor_def intro: quietSince_mono)

lemma armedFor_snoc:
  "e \<notin> {ScanStarted, PowerDone} \<Longrightarrow> armedFor t (tr @ [(u, e)]) N s = armedFor t tr N s"
  by (simp add: armedFor_def quietSince_snoc)

lemma armedFor_advanced: "armedFor t tr N s \<Longrightarrow> armedFor t' tr' (Suc N) s"
  unfolding armedFor_def by (metis Suc_n_not_le_n le_Suc_eq)

lemma armedFor_cong:
  "sy_armedGeneration s = sy_armedGeneration t \<Longrightarrow> sy_armedInterval s = sy_armedInterval t \<Longrightarrow>
     armedFor T tr N s = armedFor T tr N t"
  by (simp add: armedFor_def)

lemma armedFor_current:
  assumes "armedFor t tr N s" and "sy_armedGeneration s = of_nat N" and "N \<le> length tr" and "length tr < 2 ^ 64"
  shows "quietSince t tr"
proof -
  obtain n where n: "n \<le> N" "sy_armedGeneration s = of_nat n" "n = N \<longrightarrow> quietSince t tr"
    using assms(1) by (auto simp: armedFor_def)
  have "unat (of_nat n :: 64 word) = unat (of_nat N :: 64 word)" using n(2) assms(2) by simp
  then have "n = N" using n(1) assms(3,4) by (simp add: unat_of_nat take_bit_eq_mod)
  with n(3) show ?thesis by simp
qed

lemmas pcInv_simps = pcInv_def idleBy_def

text \<open>Steps that leave the goroutine where it is and do not advance the generation.\<close>

lemma timerInv_quiet_step:
  assumes "timerInv tr N s" and "e \<notin> {ScanStarted, PowerDone}" and "sy_now s \<le> sy_now t"
    and "sy_pc t = sy_pc s" and "sy_timer t = sy_timer s" and "sy_armedGeneration t = sy_armedGeneration s"
    and "sy_armedInterval t = sy_armedInterval s" and "sy_interval t = 0 \<or> 600 \<le> sy_interval t"
    and "en_timer (sy_engine t) = en_timer (sy_engine s)"
  shows "timerInv (tr @ [(sy_now s, e)]) N t"
proof -
  have cong: "armedFor T tr' N' t = armedFor T tr' N' s" for T tr' N'
    using assms by (intro armedFor_cong) auto
  have idle: "idleBy s \<le> idleBy t" using assms by (simp add: idleBy_def)
  have "pcInv (tr @ [(sy_now s, e)]) N t"
    using assms idle unfolding timerInv_def pcInv_def
    by (auto simp: cong armedFor_snoc quietSince_snoc split: timerPC.splits intro: armedFor_mono quietSince_mono)
  then show ?thesis
    using assms unfolding timerInv_def by (auto simp: cong armedFor_snoc generationIs_def intro: order_trans)
qed

text \<open>Steps that advance the generation; the goroutine does not hold the mutex if they are activity.\<close>

lemma timerInv_advance_step:
  assumes "timerInv tr N s" and "e \<notin> {ScanStarted, PowerDone} \<or> \<not> holdsPowerMu s" and "sy_now t = sy_now s"
    and "sy_pc t = sy_pc s" and "sy_timer t = sy_timer s" and "sy_armedGeneration t = sy_armedGeneration s"
    and "sy_armedInterval t = sy_armedInterval s" and "sy_interval t = sy_interval s"
    and "en_timer (sy_engine t) = map_option advance (en_timer (sy_engine s))"
  shows "timerInv (tr @ [(sy_now s, e)]) (Suc N) t"
proof -
  have cong: "armedFor T tr' N' t = armedFor T tr' N' s" for T tr' N'
    using assms by (intro armedFor_cong) auto
  have "pcInv (tr @ [(sy_now s, e)]) (Suc N) t"
    using assms unfolding timerInv_def pcInv_def
    by (auto simp: cong quietSince_snoc holdsPowerMu_def idleBy_def split: timerPC.splits intro: armedFor_advanced)
  moreover have "generationIs (Suc N) (sy_engine t)"
    using assms by (auto simp: timerInv_def generationIs_def advance_def add.commute)
  ultimately show ?thesis
    using assms unfolding timerInv_def by (auto simp: cong intro: armedFor_advanced)
qed

text \<open>The goroutine's own steps.\<close>

lemma generation_eq: "generationIs N (sy_engine s) \<Longrightarrow> generation s = of_nat N"
  by (auto simp: generationIs_def generation_def)

lemma timerInv_select_step:
  assumes "timerInv tr N s" and "sy_pc s = AtSelect" and "atSelect choice s = Some t"
  shows "timerInv (tr @ [(sy_now s, LoopStep)]) N t"
proof (cases choice)
  case TimerTick
  then obtain d where d: "sy_timer s = Some d" "d \<le> sy_now s" "t = s\<lparr>sy_pc := Expired, sy_timer := None\<rparr>"
    using assms(3) by (auto simp: atSelect_def split: option.splits if_splits)
  have "armedFor (d - sy_armedInterval s * Second) tr N s" using assms(1) d(1) by (auto simp: timerInv_def)
  then have "armedFor (sy_now s - sy_armedInterval s * Second) tr N s" by (rule armedFor_mono) (use d(2) in simp)
  then show ?thesis
    using assms(1) d by (auto simp: timerInv_def pcInv_simps armedFor_snoc generationIs_def intro: armedFor_cong [THEN iffD1])
qed (use assms in \<open>auto simp: atSelect_def timerInv_def pcInv_simps armedFor_snoc mayHoldTimer_def generationIs_def
      takeChanged_def armedFor_def quietSince_snoc split: if_splits\<close>)

lemma timerInv_arm_step:
  assumes "timerInv tr N s" and "arm cfg w s = Some t"
  shows "timerInv (tr @ [(sy_now s, LoopStep)]) N t"
proof (cases "sy_pc s")
  case ArmStart
  then show ?thesis
    using assms by (auto simp: arm_def timerInv_def pcInv_simps Let_def split: if_splits)
next
  case (ArmCheckLock i)
  then have "t = s\<lparr>sy_pc := AtSelect\<rparr> \<or> t = s\<lparr>sy_pc := ArmReadGeneration i\<rparr>"
    using assms(2) by (auto simp: arm_def split: sum.splits bool.splits)
  then show ?thesis using assms(1) ArmCheckLock by (auto simp: timerInv_def pcInv_simps mayHoldTimer_def)
next
  case (ArmReadGeneration i)
  then have t: "t = s\<lparr>sy_pc := ArmSetTimer, sy_armedGeneration := generation s, sy_armedInterval := i\<rparr>"
    using assms(2) by (simp add: arm_def)
  have "quietSince (sy_now s) tr" using assms(1) by (intro quietSince_all) (simp add: timerInv_def)
  then have "armedFor (sy_now s) tr N t"
    using assms(1) ArmReadGeneration
    by (auto simp: t armedFor_def timerInv_def pcInv_simps generation_eq)
  then show ?thesis
    using assms(1) ArmReadGeneration by (auto simp: t timerInv_def pcInv_simps mayHoldTimer_def armedFor_snoc)
next
  case ArmSetTimer
  then have t: "t = s\<lparr>sy_pc := AtSelect, sy_timer := Some (sy_now s + sy_armedInterval s * Second)\<rparr>"
    using assms(2) by (simp add: arm_def)
  have "armedFor (sy_now s) tr N t"
    using assms(1) ArmSetTimer by (auto simp: t timerInv_def pcInv_simps intro: armedFor_cong [THEN iffD1])
  then show ?thesis
    using assms(1) by (auto simp: t timerInv_def pcInv_simps mayHoldTimer_def armedFor_snoc)
qed (use assms in \<open>auto simp: arm_def\<close>)

lemma timerInv_expiry_step:
  assumes "timerInv tr N s" and "onExpiry s = Some t"
  shows "timerInv (tr @ [(sy_now s, LoopStep)]) N t"
proof (cases "sy_pc s")
  case Expired
  then have t: "t = s\<lparr>sy_pc := CheckGeneration (sy_interval s)\<rparr>" using assms(2) by (simp add: onExpiry_def)
  show ?thesis
    using assms(1) Expired by (auto simp: t timerInv_def pcInv_simps mayHoldTimer_def armedFor_def quietSince_snoc)
next
  case (CheckGeneration i)
  show ?thesis
  proof (cases "t = s\<lparr>sy_pc := ArmStart\<rparr>")
    case True
    then show ?thesis using assms(1) CheckGeneration by (auto simp: timerInv_def pcInv_simps mayHoldTimer_def)
  next
    case False
    then have t: "t = s\<lparr>sy_pc := CheckQueue\<rparr>" and gen: "sy_armedGeneration s = generation s"
      using assms(2) CheckGeneration by (auto simp: onExpiry_def split: if_splits)
    have "armedFor (idleBy s) tr N s" using assms(1) CheckGeneration by (simp add: timerInv_def pcInv_def)
    then have "600 \<le> sy_armedInterval s" "length tr < 2 ^ 64 \<longrightarrow> quietSince (idleBy s) tr"
      using armedFor_current [of "idleBy s" tr N s] gen assms(1)
      by (auto simp: armedFor_def timerInv_def generation_eq)
    then show ?thesis
      using assms(1) CheckGeneration by (auto simp: t timerInv_def pcInv_simps mayHoldTimer_def quietSince_snoc)
  qed
next
  case CheckQueue
  then have "t = s\<lparr>sy_pc := ArmStart\<rparr> \<or> t = s\<lparr>sy_pc := SleepNow\<rparr>"
    using assms(2) by (auto simp: onExpiry_def split: if_splits)
  then show ?thesis
    using assms(1) CheckQueue by (auto simp: timerInv_def pcInv_simps mayHoldTimer_def quietSince_snoc)
qed (use assms in \<open>auto simp: onExpiry_def\<close>)

lemma timerInv_auto_step:
  assumes "timerInv tr N s" and "autoSleep cfg w cancelled s = Some t"
  shows "timerInv (tr @ [(sy_now s, AutoSleep)]) N t"
proof -
  obtain status msg code err e where out: "sleepClamAV cfg w (sy_engine s) = ((status, msg, code, err), e)"
    by (metis surj_pair)
  have pc: "sy_pc s = SleepNow" using assms(2) by (auto simp: autoSleep_def split: if_splits)
  obtain pc' where t: "t = s\<lparr>sy_engine := e, sy_pc := pc'\<rparr>" "pc' \<in> {AtSelect, Returned, ArmStart}"
    using assms(2) pc out by (auto simp: autoSleep_def)
  have "generationIs N e" using assms(1) sleepClamAV_frame [OF out] by (simp add: timerInv_def generationIs_def)
  then show ?thesis
    using assms(1) pc t by (auto simp: timerInv_def pcInv_simps mayHoldTimer_def)
qed

lemma timerInv_power_step:
  assumes "timerInv tr N s" and "\<not> holdsPowerMu s" and "e \<noteq> ScanStarted"
    and "en_timer e' = (if e = PowerDone then map_option advance (en_timer (sy_engine s)) else en_timer (sy_engine s))"
  shows "\<exists>N'. timerInv (tr @ [(sy_now s, e)]) N' (s\<lparr>sy_engine := e'\<rparr>)"
proof (cases "e = PowerDone")
  case True
  then show ?thesis using timerInv_advance_step [OF assms(1), of e "s\<lparr>sy_engine := e'\<rparr>"] assms by auto
next
  case False
  then show ?thesis
    using timerInv_quiet_step [OF assms(1), of e "s\<lparr>sy_engine := e'\<rparr>"] assms by (auto simp: timerInv_def)
qed

lemma timerInv_step:
  assumes "sleepStep cfg e s t" and "timerInv tr N s"
  shows "\<exists>N'. timerInv (tr @ [(sy_now s, e)]) N' t"
  using assms(1)
proof cases
  case (Clock now)
  then show ?thesis using timerInv_quiet_step [OF assms(2), of Tick t] assms(2) by (auto simp: timerInv_def)
next
  case (Select choice)
  then show ?thesis using timerInv_select_step [OF assms(2)] by auto
next
  case (Arm w)
  then show ?thesis using timerInv_arm_step [OF assms(2)] by auto
next
  case Expire
  then show ?thesis using timerInv_expiry_step [OF assms(2)] by auto
next
  case (Auto w cancelled)
  then show ?thesis using timerInv_auto_step [OF assms(2)] by blast
next
  case Scan
  then show ?thesis
    using timerInv_advance_step [OF assms(2), of ScanStarted t] by (auto simp: notifyClamAVSleepTimerChanged_def)
next
  case (Sleep w r e')
  then show ?thesis using timerInv_power_step [OF assms(2), of e e'] sleepHandler_effect [OF Sleep(4)] by auto
next
  case (Wake w r e')
  then show ?thesis using timerInv_power_step [OF assms(2), of e e'] wakeHandler_effect [OF Wake(4)] by auto
next
  case (Store c old)
  have "ClamAVSleepTimer c = 0 \<or> 600 \<le> ClamAVSleepTimer c"
    using Store(3) by (auto simp: validateAppConfig_None withinLimits_def)
  then show ?thesis using timerInv_quiet_step [OF assms(2), of e t] Store by auto
next
  case (Notify n)
  then show ?thesis
    using timerInv_advance_step [OF assms(2), of ConfigNotified t] by (auto simp: notifyClamAVSleepTimerChanged_def)
next
  case (Queue q)
  then show ?thesis using timerInv_quiet_step [OF assms(2), of QueueChanged t] assms(2) by (auto simp: timerInv_def)
next
  case (Else l f)
  then show ?thesis using timerInv_quiet_step [OF assms(2), of Outside t] assms(2) by (auto simp: timerInv_def)
qed

lemma timerInv_run: "sleepRun cfg tr s \<Longrightarrow> \<exists>N. timerInv tr N s"
proof (induction rule: sleepRun.induct)
  case (start s)
  then have "timerInv [] 0 s"
    by (auto simp: sleepInit_def timerInv_def pcInv_def generationIs_def newClamAVSleepTimerState_def)
  then show ?case by blast
next
  case (extend tr s e t)
  then show ?case using timerInv_step by blast
qed

section \<open>Properties\<close>

text \<open>
  C17: the engine is put to sleep automatically only when it is idle. However the goroutine's reads
  of the generation, the interval and the lock interleave with requests, when it calls
  \<^verbatim>\<open>sleepClamAV\<close> the configured interval it was armed with is at least ten minutes, and for all of
  it no manual scan was started and no sleep or wake request was served. (The generation is a
  64-bit counter, so the run has fewer than \<open>2 ^ 64\<close> steps.)
\<close>

theorem automatic_sleep_only_when_idle:
  assumes "sleepRun cfg tr s" and "length tr < 2 ^ 64" and "sleepStep cfg AutoSleep s t"
  shows "600 \<le> sy_armedInterval s \<and>
    (\<forall>(u, e) \<in> set tr. e \<in> {ScanStarted, PowerDone} \<longrightarrow> u + sy_armedInterval s * Second \<le> sy_now s)"
proof -
  obtain N where inv: "timerInv tr N s" using timerInv_run [OF assms(1)] by blast
  have "sy_pc s = SleepNow"
    using assms(3) by cases (auto simp: autoSleep_def split: if_splits)
  then have "600 \<le> sy_armedInterval s" "quietSince (idleBy s) tr"
    using inv assms(2) by (auto simp: timerInv_def pcInv_def)
  then show ?thesis by (fastforce simp: quietSince_def idleBy_def)
qed

text \<open>A run for the example: a scan at the start, ten idle minutes, then the timer.\<close>

definition sampleEngine :: "bool \<Rightarrow> engineState" where
  "sampleEngine scanned =
     \<lparr> en_lock = None, en_status = StatusAbsent, en_cache = invalidateClamdStatusCache,
       en_timer = Some (if scanned then advance newClamAVSleepTimerState else newClamAVSleepTimerState), en_shutdowns = 0 \<rparr>"

definition samplePower :: powerWorld where
  "samplePower = \<lparr> pw_os = plainView\<lparr>os_Stat := (\<lambda>p. Inl (ErrNotExist p))\<rparr>, pw_statErr = None, pw_restatErr = None,
     pw_mkdirErr = None, pw_createErr = None, pw_encodeErr = None, pw_closeErr = None, pw_renameErr = None,
     pw_ping = sampleRun, pw_conn = sampleConn\<lparr>cn_sent := []\<rparr>, pw_late = False, pw_isTimeout = (\<lambda>_. False),
     pw_wakeErr = None, pw_wakeLate = False, pw_wakeLock = None \<rparr>"

definition sampleSystem :: "gotime \<Rightarrow> timerPC \<Rightarrow> gotime option \<Rightarrow> 64 word \<Rightarrow> int \<Rightarrow> bool \<Rightarrow> sleepSystem" where
  "sampleSystem now pc timer gen armed scanned =
     \<lparr> sy_now = now, sy_interval = 600, sy_owed = 0, sy_engine = sampleEngine scanned, sy_queue = emptyQueue,
       sy_pc = pc, sy_timer = timer, sy_armedGeneration = gen, sy_armedInterval = armed \<rparr>"

fun stepsFrom :: "config \<Rightarrow> sleepSystem \<Rightarrow> (sleepEvent \<times> sleepSystem) list \<Rightarrow> bool" where
  "stepsFrom cfg s [] = True"
| "stepsFrom cfg s ((e, t) # xs) = (sleepStep cfg e s t \<and> stepsFrom cfg t xs)"

fun stamps :: "sleepSystem \<Rightarrow> (sleepEvent \<times> sleepSystem) list \<Rightarrow> timedTrace" where
  "stamps s [] = []"
| "stamps s ((e, t) # xs) = (sy_now s, e) # stamps t xs"

lemma run_steps:
  "sleepRun cfg tr s \<Longrightarrow> stepsFrom cfg s xs \<Longrightarrow> sleepRun cfg (tr @ stamps s xs) (last (s # map snd xs))"
proof (induction xs arbitrary: tr s)
  case (Cons x xs)
  obtain e t where x: "x = (e, t)" by (cases x)
  then have "sleepRun cfg (tr @ [(sy_now s, e)]) t" using Cons.prems by (auto intro: sleepRun.extend)
  from Cons.IH [OF this] show ?case using Cons.prems x by simp
qed simp

definition sampleTrace :: timedTrace where
  "sampleTrace = [(0, ScanStarted), (0, LoopStep), (0, LoopStep), (0, LoopStep), (0, LoopStep), (0, Tick),
     (600 * Second, LoopStep), (600 * Second, LoopStep), (600 * Second, LoopStep), (600 * Second, LoopStep)]"

lemma sample_run: "sleepRun (sampleConfig False) sampleTrace (sampleSystem (600 * Second) SleepNow None 1 600 True)"
proof -
  let ?step = "sleepStep (sampleConfig False)" and ?t = "600 * Second"
  let ?S = sampleSystem
  note defs = sampleSystem_def sampleEngine_def
  have 0: "sleepRun (sampleConfig False) [] (?S 0 ArmStart None 0 0 False)"
    by (rule sleepRun.start) (simp add: sleepInit_def defs)
  have 1: "?step ScanStarted (?S 0 ArmStart None 0 0 False) (?S 0 ArmStart None 0 0 True)"
    using sleepStep.Scan [of "?S 0 ArmStart None 0 0 False"]
    by (simp add: defs holdsPowerMu_def notifyClamAVSleepTimerChanged_def)
  have 2: "?step LoopStep (?S 0 ArmStart None 0 0 True) (?S 0 (ArmCheckLock 600) None 0 0 True)"
    by (rule sleepStep.Arm [of _ samplePower]) (simp add: arm_def defs)
  have 3: "?step LoopStep (?S 0 (ArmCheckLock 600) None 0 0 True) (?S 0 (ArmReadGeneration 600) None 0 0 True)"
    by (rule sleepStep.Arm [of _ samplePower])
      (simp add: arm_def defs directoryLockExists_def engineView_def samplePower_def)
  have 4: "?step LoopStep (?S 0 (ArmReadGeneration 600) None 0 0 True) (?S 0 ArmSetTimer None 1 600 True)"
    by (rule sleepStep.Arm [of _ samplePower])
      (simp add: arm_def defs generation_def advance_def newClamAVSleepTimerState_def)
  have 5: "?step LoopStep (?S 0 ArmSetTimer None 1 600 True) (?S 0 AtSelect (Some ?t) 1 600 True)"
    by (rule sleepStep.Arm [of _ samplePower]) (simp add: arm_def defs)
  have 6: "?step Tick (?S 0 AtSelect (Some ?t) 1 600 True) (?S ?t AtSelect (Some ?t) 1 600 True)"
    using sleepStep.Clock [of "?S 0 AtSelect (Some ?t) 1 600 True" ?t] by (simp add: defs Second_def)
  have 7: "?step LoopStep (?S ?t AtSelect (Some ?t) 1 600 True) (?S ?t Expired None 1 600 True)"
    by (rule sleepStep.Select [of _ TimerTick]) (simp_all add: atSelect_def defs)
  have 8: "?step LoopStep (?S ?t Expired None 1 600 True) (?S ?t (CheckGeneration 600) None 1 600 True)"
    by (rule sleepStep.Expire) (simp add: onExpiry_def defs)
  have 9: "?step LoopStep (?S ?t (CheckGeneration 600) None 1 600 True) (?S ?t CheckQueue None 1 600 True)"
    by (rule sleepStep.Expire)
      (simp add: onExpiry_def defs generation_def advance_def newClamAVSleepTimerState_def)
  have 10: "?step LoopStep (?S ?t CheckQueue None 1 600 True) (?S ?t SleepNow None 1 600 True)"
    by (rule sleepStep.Expire) (simp add: onExpiry_def defs manualScanPendingOrActive_def emptyQueue_def)
  have now: "sy_now (?S n pc d g a b) = n" for n pc d g a b by (simp add: defs)
  show ?thesis
    using run_steps [OF 0, of "[(ScanStarted, ?S 0 ArmStart None 0 0 True), (LoopStep, ?S 0 (ArmCheckLock 600) None 0 0 True),
      (LoopStep, ?S 0 (ArmReadGeneration 600) None 0 0 True), (LoopStep, ?S 0 ArmSetTimer None 1 600 True),
      (LoopStep, ?S 0 AtSelect (Some ?t) 1 600 True), (Tick, ?S ?t AtSelect (Some ?t) 1 600 True),
      (LoopStep, ?S ?t Expired None 1 600 True), (LoopStep, ?S ?t (CheckGeneration 600) None 1 600 True),
      (LoopStep, ?S ?t CheckQueue None 1 600 True), (LoopStep, ?S ?t SleepNow None 1 600 True)]"]
    using 1 2 3 4 5 6 7 8 9 10 by (simp add: now sampleTrace_def)
qed

theorem automatic_sleep_only_when_idle_witness:
  "\<exists>s. sleepRun (sampleConfig False) sampleTrace s \<and> (0, ScanStarted) \<in> set sampleTrace \<and> 600 \<le> sy_armedInterval s \<and>
     0 + sy_armedInterval s * Second \<le> sy_now s"
proof -
  let ?s = "sampleSystem (600 * Second) SleepNow None 1 600 True"
  have "sleepStep (sampleConfig False) AutoSleep ?s (the (autoSleep (sampleConfig False) samplePower False ?s))"
    by (rule sleepStep.Auto [of _ samplePower False]) (simp add: autoSleep_def sampleSystem_def split: prod.splits)
  moreover have "length sampleTrace < 2 ^ 64" and scan: "(0, ScanStarted) \<in> set sampleTrace" by (simp_all add: sampleTrace_def)
  ultimately have "600 \<le> sy_armedInterval ?s \<and>
      (\<forall>(u, e) \<in> set sampleTrace. e \<in> {ScanStarted, PowerDone} \<longrightarrow> u + sy_armedInterval ?s * Second \<le> sy_now ?s)"
    using automatic_sleep_only_when_idle [OF sample_run] by blast
  then show ?thesis using sample_run scan by (intro exI [of _ ?s]) auto
qed

section \<open>The timer is never lost\<close>

definition waitsForNothing :: "sleepSystem \<Rightarrow> bool" where
  "waitsForNothing s \<longleftrightarrow> sy_pc s = AtSelect \<and> sy_timer s = None \<and> \<not> changed s \<and> sy_owed s = 0"

lemma changed_notified:
  "generationIs N e \<Longrightarrow> sy_engine s = notifyClamAVSleepTimerChanged e \<Longrightarrow> changed s"
  by (auto simp: generationIs_def changed_def notifyClamAVSleepTimerChanged_def advance_def)

lemma changed_power:
  assumes "generationIs N (sy_engine s)" and "en_timer e = map_option advance (en_timer (sy_engine s))"
  shows "changed (s\<lparr>sy_engine := e\<rparr>)"
  using assms by (auto simp: generationIs_def changed_def advance_def)

lemma loop_not_lost:
  assumes "arm cfg w s = Some t \<or> onExpiry s = Some t \<or> sy_pc s = AtSelect \<and> atSelect choice s = Some t"
    and "waitsForNothing t"
  shows "sy_interval t = 0 \<or> en_lock (sy_engine t) \<noteq> None"
  using assms directoryLockExists_engine [of cfg w "pw_statErr w" "sy_engine s"]
  by (auto simp: arm_def onExpiry_def atSelect_def waitsForNothing_def Let_def
      split: timerPC.splits if_splits sum.splits bool.splits option.splits ready.splits)

lemma auto_not_lost:
  assumes "autoSleep cfg w cancelled s = Some t" and "waitsForNothing t"
  shows "en_lock (sy_engine t) \<noteq> None"
proof -
  obtain status msg code err e where out: "sleepClamAV cfg w (sy_engine s) = ((status, msg, code, err), e)"
    by (metis surj_pair)
  have t: "sy_engine t = e" "err = None"
    using assms by (auto simp: autoSleep_def out waitsForNothing_def split: if_splits)
  then have "en_lock e = Some ModeDir" using sleepClamAV_frame [OF out] by blast
  then show ?thesis using t by simp
qed

definition undisturbed :: "sleepEvent \<Rightarrow> bool" where
  "undisturbed e \<longleftrightarrow> e \<noteq> Outside \<and> e \<noteq> ConfigStored False"

lemma step_not_lost:
  assumes "sleepStep cfg e s t" and "undisturbed e" and "generationIs N (sy_engine s)"
    and "waitsForNothing s \<longrightarrow> sy_interval s = 0 \<or> en_lock (sy_engine s) \<noteq> None" and wait: "waitsForNothing t"
  shows "sy_interval t = 0 \<or> en_lock (sy_engine t) \<noteq> None"
  using assms(1)
proof cases
  case (Clock now)
  then show ?thesis using assms(4) wait by (auto simp: waitsForNothing_def changed_def)
next
  case (Select choice)
  then show ?thesis using loop_not_lost wait by blast
next
  case (Arm w)
  then show ?thesis using loop_not_lost wait by blast
next
  case Expire
  then show ?thesis using loop_not_lost wait by blast
next
  case (Auto w cancelled)
  then show ?thesis using auto_not_lost wait by blast
next
  case Scan
  then have "changed t" by (intro changed_notified [OF assms(3)]) simp
  then show ?thesis using wait by (simp add: waitsForNothing_def)
next
  case (Sleep w r e')
  note eff = sleepHandler_effect [OF Sleep(4)]
  show ?thesis
  proof (cases "rsp_status r = StatusOK")
    case True
    then have "changed t" using changed_power [OF assms(3)] eff Sleep by simp
    then show ?thesis using wait by (simp add: waitsForNothing_def)
  next
    case False
    then have "waitsForNothing s" using wait eff Sleep by (simp add: waitsForNothing_def changed_def)
    then show ?thesis using assms(4) eff Sleep by auto
  qed
next
  case (Wake w r e')
  note eff = wakeHandler_effect [OF Wake(4)]
  show ?thesis
  proof (cases "rsp_status r = StatusOK")
    case True
    then have "changed t" using changed_power [OF assms(3)] eff Wake by simp
    then show ?thesis using wait by (simp add: waitsForNothing_def)
  next
    case False
    then have "waitsForNothing s" using wait eff Wake by (simp add: waitsForNothing_def changed_def)
    moreover have "en_lock e' = en_lock (sy_engine s)" using Wake(1) False assms(2) by (auto simp: undisturbed_def split: if_splits)
    ultimately show ?thesis using assms(4) Wake by auto
  qed
next
  case (Store c old)
  then have "old = sy_interval s" using assms(2) by (auto simp: undisturbed_def)
  then show ?thesis using Store assms(4) wait by (auto simp: waitsForNothing_def changed_def split: if_splits)
next
  case (Notify n)
  then have "changed t" by (intro changed_notified [OF assms(3)]) simp
  then show ?thesis using wait by (simp add: waitsForNothing_def)
next
  case (Queue q)
  then show ?thesis using assms(4) wait by (auto simp: waitsForNothing_def changed_def)
next
  case (Else l f)
  then show ?thesis using assms(2) by (simp add: undisturbed_def)
qed

text \<open>
  C18: the timer is never lost. In a run in which configuration requests do not overlap and nothing
  but the server's own handlers moves the sleep lock, the goroutine waits without a timer only
  when automatic sleep is switched off, the engine is asleep, or a notification is on its way.
\<close>

theorem sleep_timer_never_lost:
  assumes "sleepRun cfg tr s" and "\<forall>(u, e) \<in> set tr. undisturbed e" and "waitsForNothing s"
  shows "sy_interval s = 0 \<or> en_lock (sy_engine s) \<noteq> None"
  using assms
proof (induction rule: sleepRun.induct)
  case (start s)
  then show ?case by (simp add: sleepInit_def waitsForNothing_def)
next
  case (extend tr s e t)
  obtain N where "generationIs N (sy_engine s)" using timerInv_run [OF extend(1)] by (auto simp: timerInv_def)
  then show ?case using step_not_lost [OF extend(2)] extend by auto
qed

theorem sleep_timer_never_lost_witness:
  "\<exists>s. sleepRun (sampleConfig False) [(0, LoopStep)] s \<and> waitsForNothing s \<and> en_lock (sy_engine s) = None \<and> sy_interval s = 0"
proof -
  let ?s = "(sampleSystem 0 ArmStart None 0 0 False)\<lparr>sy_interval := 0\<rparr>"
  let ?t = "?s\<lparr>sy_timer := None, sy_pc := AtSelect\<rparr>"
  have "sleepRun (sampleConfig False) [] ?s"
    by (rule sleepRun.start) (simp add: sleepInit_def sampleSystem_def sampleEngine_def)
  moreover have "sleepStep (sampleConfig False) LoopStep ?s ?t"
    by (rule sleepStep.Arm [of _ samplePower]) (simp add: arm_def sampleSystem_def)
  ultimately have "sleepRun (sampleConfig False) ([] @ [(sy_now ?s, LoopStep)]) ?t" by (rule sleepRun.extend)
  then have run: "sleepRun (sampleConfig False) [(0, LoopStep)] ?t" by (simp add: sampleSystem_def)
  have wait: "waitsForNothing ?t"
    by (simp add: waitsForNothing_def changed_def sampleSystem_def sampleEngine_def newClamAVSleepTimerState_def)
  have "\<forall>(u, e) \<in> set [(0 :: gotime, LoopStep)]. undisturbed e" by (simp add: undisturbed_def)
  moreover have "en_lock (sy_engine ?t) = None" by (simp add: sampleSystem_def sampleEngine_def)
  ultimately show ?thesis using sleep_timer_never_lost [OF run _ wait] run wait by blast
qed

section \<open>What a sleep leaves behind\<close>

lemma sleepRoot_spec:
  "map_of (sleepRoot root) k = (if k = ''clamd'' then
     Some (JObject (AList.update ''status'' (JString ''sleep'') (case map_of root ''clamd'' of Some (JObject m) \<Rightarrow> m | _ \<Rightarrow> [])))
     else map_of root k)"
  by (simp add: sleepRoot_def Let_def update_conv')

text \<open>
  putting the engine to sleep never stops it under a scan that holds the scan lock when it is
  checked, and success is recorded completely. At most one shutdown command is sent, and only
  after the scan lock was found free; on success the sleep lock is a directory and the status
  file says \<^verbatim>\<open>sleep\<close> with every other field of it as it was; on failure the status file is
  untouched. The answer is 200 exactly on success.
\<close>

theorem sleep_is_safe_and_recorded:
  assumes "sleepClamAV cfg w s = ((status, message, code, err), t)"
  shows "(err = None \<longleftrightarrow> status = ''sleeping'') \<and> (err = None \<longleftrightarrow> code = StatusOK) \<and>
    (en_shutdowns t = en_shutdowns s \<or>
     en_shutdowns t = Suc (en_shutdowns s) \<and> scanLockActive (engineView cfg w (pw_statErr w) s) cfg = Inr False) \<and>
    (err \<noteq> None \<longrightarrow> en_status t = en_status s) \<and>
    (err = None \<longrightarrow> en_lock t = Some ModeDir \<and>
      (\<exists>root root' clamd. statusRoot (en_status s) = Inr root \<and> en_status t = StatusValue (JObject root') \<and>
         map_of root' ''clamd'' = Some (JObject clamd) \<and> map_of clamd ''status'' = Some (JString ''sleep'') \<and>
         (\<forall>k. k \<noteq> ''clamd'' \<longrightarrow> map_of root' k = map_of root k) \<and>
         (\<forall>m k. map_of root ''clamd'' = Some (JObject m) \<longrightarrow> k \<noteq> ''status'' \<longrightarrow> map_of clamd k = map_of m k)))"
proof -
  note f = sleepClamAV_frame [OF assms]
  have rec: "\<exists>root root' clamd. statusRoot (en_status s) = Inr root \<and> en_status t = StatusValue (JObject root') \<and>
         map_of root' ''clamd'' = Some (JObject clamd) \<and> map_of clamd ''status'' = Some (JString ''sleep'') \<and>
         (\<forall>k. k \<noteq> ''clamd'' \<longrightarrow> map_of root' k = map_of root k) \<and>
         (\<forall>m k. map_of root ''clamd'' = Some (JObject m) \<longrightarrow> k \<noteq> ''status'' \<longrightarrow> map_of clamd k = map_of m k)" if ok: "err = None"
  proof -
    obtain root where root: "statusRoot (en_status s) = Inr root" "en_status t = StatusValue (JObject (sleepRoot root))"
      using f ok by blast
    let ?clamd = "AList.update ''status'' (JString ''sleep'') (case map_of root ''clamd'' of Some (JObject m) \<Rightarrow> m | _ \<Rightarrow> [])"
    show ?thesis
      by (rule exI [of _ root], rule exI [of _ "sleepRoot root"], rule exI [of _ ?clamd])
        (use root in \<open>auto simp: sleepRoot_spec update_conv'\<close>)
  qed
  show ?thesis using f rec by blast
qed

theorem sleep_is_safe_and_recorded_witness:
  "\<exists>t. sleepClamAV (sampleConfig False) samplePower (sampleEngine False) =
      ((''sleeping'', ''ClamAV entered sleep mode.'', StatusOK, None), t) \<and> en_lock t = Some ModeDir"
proof -
  have "fst (sleepClamAV (sampleConfig False) samplePower (sampleEngine False)) =
      (''sleeping'', ''ClamAV entered sleep mode.'', StatusOK, None)"
    by code_simp
  then have out: "sleepClamAV (sampleConfig False) samplePower (sampleEngine False) =
      ((''sleeping'', ''ClamAV entered sleep mode.'', StatusOK, None), snd (sleepClamAV (sampleConfig False) samplePower (sampleEngine False)))"
    by (metis prod.collapse)
  with sleep_is_safe_and_recorded [OF out] show ?thesis by blast
qed

end
