(* ===== verification/Config_Roundtrip.thy ===== *)
theory Config_Roundtrip
  imports App_Config Go_Fields Go_Paths
begin

text \<open>
  Saving the service configuration: the file that \<^verbatim>\<open>appConfigStore.update\<close> writes, read back, is
  the configuration that was asked for. The file is seen as a list of lines, of which merging
  rewrites the values of the changed keys and to which it appends the missing ones.
\<close>

section \<open>Trimming around a character that is no space\<close>

definition solid :: "char \<Rightarrow> bool" where
  "solid c \<longleftrightarrow> ascii c \<and> \<not> asciiSpace c"

lemma spaceLen_before: "solid c \<Longrightarrow> spaceLen (a @ c # b) = spaceLen a"
  by (auto simp: spaceLen_def solid_def space_ascii space2_def space3_def ascii_def split: list.splits)

lemma TrimLeftSpace_before: "solid c \<Longrightarrow> TrimLeftSpace (a @ c # b) = TrimLeftSpace a @ c # b"
proof (induction a rule: TrimLeftSpace.induct)
  case (1 a)
  have le: "spaceLen a \<le> length a" by (rule spaceLen_le_length)
  show ?case
  proof (cases "spaceLen a = 0")
    case True
    then show ?thesis using 1(2) by (simp add: TrimLeftSpace_id spaceLen_before)
  next
    case False
    have "TrimLeftSpace (a @ c # b) = TrimLeftSpace (drop (spaceLen a) (a @ c # b))"
      using False 1(2) by (subst TrimLeftSpace.simps) (simp add: spaceLen_before)
    also have "\<dots> = TrimLeftSpace (drop (spaceLen a) a @ c # b)" using le by simp
    also have "\<dots> = TrimLeftSpace (drop (spaceLen a) a) @ c # b" using 1(1) [OF False 1(2)] .
    also have "\<dots> = TrimLeftSpace a @ c # b" using False by (subst (2) TrimLeftSpace.simps) simp
    finally show ?thesis .
  qed
qed

lemma spaceEnd_after:
  assumes "solid c"
  shows "spaceEnd (a @ c # b) = spaceEnd b"
proof -
  have no: "spaceLen (c # x) = 0" for x using spaceLen_before [OF assms, of "[]" x] by simp
  have no2: "spaceLen (y # c # x) \<noteq> 2" "spaceLen (y # c # x) \<noteq> 3" for x y
    using spaceLen_before [OF assms, of "[y]" x] by (auto simp: spaceLen_Cons)
  have tail: "drop (length (a @ c # b) - k) (a @ c # b) = drop (length b - k) b" if "k \<le> length b" for k
    using that by (simp add: Suc_diff_le)
  show ?thesis
  proof (cases "3 \<le> length b")
    case True
    then show ?thesis using tail [of 1] tail [of 2] tail [of 3] unfolding spaceEnd_def Let_def by simp
  next
    case False
    consider (0) "b = []" | (1) x where "b = [x]" | (2) x y where "b = [x, y]"
    proof -
      from False have "length b = 0 \<or> length b = Suc 0 \<or> length b = Suc (Suc 0)" by linarith
      then show ?thesis using that by (auto simp: length_Suc_conv)
    qed
    then show ?thesis
    proof cases
      case 0
      have "spaceEnd (a @ [c]) = 0" using assms by (intro spaceEnd_ascii) (auto simp: solid_def)
      then show ?thesis by (simp add: 0 spaceEnd_def)
    next
      case 1
      show ?thesis
      proof (cases a rule: rev_cases)
        case (snoc a' y)
        then show ?thesis using no no2 1 by (simp add: spaceEnd_def Let_def)
      qed (use no 1 in \<open>simp add: spaceEnd_def Let_def\<close>)
    next
      case 2
      then show ?thesis using no by (simp add: spaceEnd_def Let_def)
    qed
  qed
qed

lemma TrimRightSpace_after: "solid c \<Longrightarrow> TrimRightSpace (a @ c # b) = a @ c # TrimRightSpace b"
proof (induction b rule: TrimRightSpace.induct)
  case (1 b)
  have le: "spaceEnd b \<le> length b" by (rule spaceEnd_le_length)
  show ?case
  proof (cases "spaceEnd b = 0")
    case True
    then show ?thesis using 1(2) by (simp add: TrimRightSpace_id spaceEnd_after)
  next
    case False
    have "TrimRightSpace (a @ c # b) = TrimRightSpace (take (length (a @ c # b) - spaceEnd b) (a @ c # b))"
      using False 1(2) by (subst TrimRightSpace.simps) (simp add: spaceEnd_after)
    also have "take (length (a @ c # b) - spaceEnd b) (a @ c # b) = a @ c # take (length b - spaceEnd b) b"
      using le by (simp add: Suc_diff_le)
    also have "TrimRightSpace (a @ c # take (length b - spaceEnd b) b) = a @ c # TrimRightSpace (take (length b - spaceEnd b) b)"
      using 1(1) [OF False 1(2)] .
    also have "\<dots> = a @ c # TrimRightSpace b" using False by (subst (2) TrimRightSpace.simps) simp
    finally show ?thesis .
  qed
qed

lemma TrimSpace_mid: "solid c \<Longrightarrow> TrimSpace (a @ c # b) = TrimLeftSpace a @ c # TrimRightSpace b"
  by (simp add: TrimSpace_def TrimLeftSpace_before TrimRightSpace_after)

lemma set_TrimLeftSpace: "set (TrimLeftSpace s) \<subseteq> set s"
proof (induction s rule: TrimLeftSpace.induct)
  case (1 s)
  then show ?case
    by (cases "spaceLen s = 0") (auto simp: TrimLeftSpace.simps [of s] dest: in_set_dropD)
qed

lemma set_TrimRightSpace: "set (TrimRightSpace s) \<subseteq> set s"
proof (induction s rule: TrimRightSpace.induct)
  case (1 s)
  then show ?case
    by (cases "spaceEnd s = 0") (auto simp: TrimRightSpace.simps [of s] dest: in_set_takeD)
qed

lemma set_TrimSpace: "set (TrimSpace s) \<subseteq> set s"
  using set_TrimLeftSpace set_TrimRightSpace unfolding TrimSpace_def by blast

lemma TrimLeftSpace_idem: "TrimLeftSpace (TrimLeftSpace s) = TrimLeftSpace s"
proof (induction s rule: TrimLeftSpace.induct)
  case (1 s)
  then show ?case by (cases "spaceLen s = 0") (auto simp: TrimLeftSpace.simps [of s] TrimLeftSpace_id)
qed

lemma TrimSpace_TrimLeftSpace [simp]: "TrimSpace (TrimLeftSpace s) = TrimSpace s"
  by (simp add: TrimSpace_def TrimLeftSpace_idem)

text \<open>Printed values: graphic ASCII characters, or nothing.\<close>

lemma graphic_solid: "graphic c \<Longrightarrow> solid c"
  by (auto simp: graphic_def solid_def ascii_def asciiSpace_def)

lemma TrimRightSpace_graphic: "list_all graphic v \<Longrightarrow> TrimRightSpace v = v"
proof (cases v rule: rev_cases)
  case (snoc u c)
  assume "list_all graphic v"
  then have "solid c" using snoc graphic_solid by simp
  then show ?thesis using snoc TrimRightSpace_after [of c u "[]"] by (simp add: TrimRightSpace_id spaceEnd_def)
qed (simp add: TrimRightSpace_id spaceEnd_def)

lemma TrimSpace_graphic: "list_all graphic v \<Longrightarrow> TrimSpace v = v"
  using spaceFree_graphic [of v] by (cases v) (auto simp: TrimSpace_def TrimLeftSpace_id TrimRightSpace_graphic)

section \<open>Lines\<close>

text \<open>What the parser makes of one line of the file.\<close>

datatype lineKind = Blank | Malformed | Entry string string

abbreviation EQ :: char where "EQ \<equiv> CHR ''=''"

definition lineText :: "string \<Rightarrow> string" where
  "lineText raw = TrimSuffix raw [CR]"

definition kindOf :: "string \<Rightarrow> lineKind" where
  "kindOf raw =
     (let line = TrimSpace (lineText raw) in
      if line = [] \<or> HasPrefix line ''#'' then Blank
      else (case Cut line EQ of (k, v, ok) \<Rightarrow> if ok then Entry (TrimSpace k) (TrimSpace v) else Malformed))"

lemma solid_EQ [simp]: "solid EQ"
  by (simp add: solid_def ascii_def asciiSpace_def)

lemma Cut_first: "c \<notin> set a \<Longrightarrow> Cut (a @ c # b) c = (a, b, True)"
  by (induction a) auto

lemma Cut_none: "c \<notin> set a \<Longrightarrow> Cut a c = (a, [], False)"
  by (induction a) auto

lemma IndexByte_first: "c \<notin> set a \<Longrightarrow> IndexByte (a @ c # b) c = Some (length a)"
  by (induction a) auto

lemma kindOf_entry:
  assumes "lineText raw = a @ EQ # b" and "EQ \<notin> set a"
  shows "kindOf raw = (if HasPrefix (TrimLeftSpace a) ''#'' then Blank
                       else Entry (TrimSpace a) (TrimSpace (TrimRightSpace b)))"
proof -
  have line: "TrimSpace (lineText raw) = TrimLeftSpace a @ EQ # TrimRightSpace b"
    by (simp add: assms(1) TrimSpace_mid)
  have "EQ \<notin> set (TrimLeftSpace a)" using assms(2) set_TrimLeftSpace by blast
  then have cut: "Cut (TrimLeftSpace a @ EQ # TrimRightSpace b) EQ = (TrimLeftSpace a, TrimRightSpace b, True)"
    by (rule Cut_first)
  have "HasPrefix (x @ EQ # y) ''#'' = HasPrefix x ''#''" for x y by (cases x) (auto simp: HasPrefix_iff)
  then show ?thesis by (simp add: kindOf_def Let_def line cut)
qed

lemma kindOf_Entry:
  assumes "kindOf raw = Entry k v"
  obtains a b where "lineText raw = a @ EQ # b" "EQ \<notin> set a" "k = TrimSpace a" "\<not> HasPrefix (TrimLeftSpace a) ''#''"
    "v = TrimSpace (TrimRightSpace b)"
proof -
  have "EQ \<in> set (lineText raw)"
  proof (rule ccontr)
    assume "EQ \<notin> set (lineText raw)"
    then have "EQ \<notin> set (TrimSpace (lineText raw))" using set_TrimSpace by blast
    then show False using assms by (auto simp: kindOf_def Let_def Cut_none split: if_splits)
  qed
  then obtain a b where ab: "lineText raw = a @ EQ # b" "EQ \<notin> set a" by (meson split_list_first)
  from kindOf_entry [OF ab] assms show ?thesis by (intro that [OF ab]) (auto split: if_splits)
qed

text \<open>Replacing the value on a line keeps its key.\<close>

definition setValue :: "string \<Rightarrow> string \<Rightarrow> string" where
  "setValue v raw =
     (case IndexByte (lineText raw) EQ of
        None \<Rightarrow> raw
      | Some equals \<Rightarrow> take (Suc equals) (lineText raw) @ v @ (if HasSuffix raw [CR] then [CR] else []))"

lemma TrimSuffix_no: "\<not> HasSuffix s t \<Longrightarrow> TrimSuffix s t = s"
  by (simp add: TrimSuffix_def)

lemma TrimSuffix_append [simp]: "TrimSuffix (s @ t) t = s"
  by (simp add: TrimSuffix_def HasSuffix_def)

lemma HasSuffix_single: "HasSuffix s [c] \<longleftrightarrow> s \<noteq> [] \<and> last s = c"
  by (cases s rule: rev_cases) (auto simp: HasSuffix_def)

lemma lineText_setValue:
  assumes "lineText raw = a @ EQ # b" and "EQ \<notin> set a" and "list_all graphic v"
  shows "setValue v raw = a @ EQ # v @ (if HasSuffix raw [CR] then [CR] else [])"
    and "lineText (setValue v raw) = a @ EQ # v"
proof -
  show set: "setValue v raw = a @ EQ # v @ (if HasSuffix raw [CR] then [CR] else [])"
    by (simp add: setValue_def assms(1) IndexByte_first [OF assms(2)])
  have "last (a @ EQ # v) \<noteq> CR" using assms(3) by (cases v rule: rev_cases) (auto simp: graphic_def)
  then have no: "\<not> HasSuffix (a @ EQ # v) [CR]" by (simp only: HasSuffix_single) simp
  show "lineText (setValue v raw) = a @ EQ # v"
  proof (cases "HasSuffix raw [CR]")
    case True
    then show ?thesis using TrimSuffix_append [of "a @ EQ # v" "[CR]"] by (simp add: set lineText_def)
  next
    case False
    then show ?thesis using TrimSuffix_no [OF no] by (simp add: set lineText_def)
  qed
qed

lemma kindOf_setValue:
  assumes "kindOf raw = Entry k v0" and "list_all graphic v"
  shows "kindOf (setValue v raw) = Entry k v"
proof -
  obtain a b where ab: "lineText raw = a @ EQ # b" "EQ \<notin> set a" "k = TrimSpace a" "\<not> HasPrefix (TrimLeftSpace a) ''#''"
    using kindOf_Entry [OF assms(1)] by metis
  then show ?thesis
    using kindOf_entry [OF lineText_setValue(2) [OF ab(1,2) assms(2)] ab(2)] assms(2)
    by (simp add: TrimRightSpace_graphic TrimSpace_graphic)
qed

text \<open>Merging, line by line.\<close>

definition rewriteLine :: "(string \<times> string) list \<Rightarrow> string list \<Rightarrow> string \<Rightarrow> string" where
  "rewriteLine entries chg raw =
     (case kindOf raw of
        Entry k _ \<Rightarrow> (case map_of entries k of Some v \<Rightarrow> if k \<in> set chg then setValue v raw else raw | None \<Rightarrow> raw)
      | _ \<Rightarrow> raw)"

definition lineKey :: "(string \<times> string) list \<Rightarrow> string \<Rightarrow> string option" where
  "lineKey entries raw =
     (case kindOf raw of Entry k _ \<Rightarrow> if map_of entries k = None then None else Some k | _ \<Rightarrow> None)"

lemma TrimPrefix_append [simp]: "TrimPrefix (p @ s) p = s"
  by (simp add: TrimPrefix_def)

lemma mergeSegment_line:
  assumes "LF \<notin> set raw" and "e = [] \<or> e = [LF]"
  shows "mergeSegment entries chg (raw @ e) = (rewriteLine entries chg raw @ e, lineKey entries raw)"
proof -
  have "raw \<noteq> [] \<Longrightarrow> last raw \<noteq> LF" using assms(1) last_in_set [of raw] by metis
  then have trim: "TrimSuffix (raw @ e) [LF] = raw"
    using assms(2) by (auto simp: TrimSuffix_def HasSuffix_single)
  let ?ending = "(if HasSuffix raw [CR] then [CR] else []) @ e"
  have line: "(if HasSuffix raw [CR] then (TrimSuffix raw [CR], CR # e) else (raw, e)) = (lineText raw, ?ending)"
    by (simp add: lineText_def TrimSuffix_no)
  have merge: "mergeSegment entries chg (raw @ e) =
     (let trimmed = TrimSpace (lineText raw) in
      if trimmed = [] \<or> HasPrefix trimmed ''#'' then (raw @ e, None)
      else let (key0, _, ok) = Cut trimmed EQ; key = TrimSpace key0 in
        if \<not> ok then (raw @ e, None)
        else case map_of entries key of
          None \<Rightarrow> (raw @ e, None)
        | Some value \<Rightarrow>
            if key \<in> set chg then
              (case IndexByte (lineText raw) EQ of
                 None \<Rightarrow> (raw @ e, Some key)
               | Some equals \<Rightarrow> (take (Suc equals) (lineText raw) @ value @ ?ending, Some key))
            else (raw @ e, Some key))"
    unfolding mergeSegment_def trim Let_def TrimPrefix_append line by simp
  show ?thesis
  proof (cases "kindOf raw")
    case (Entry k v)
    then obtain a b where ab: "lineText raw = a @ EQ # b" "EQ \<notin> set a" by (metis kindOf_Entry)
    obtain k0 v0 where cut: "Cut (TrimSpace (lineText raw)) EQ = (k0, v0, True)" "TrimSpace k0 = k"
        "TrimSpace (lineText raw) \<noteq> []" "\<not> HasPrefix (TrimSpace (lineText raw)) ''#''"
      using Entry by (auto simp: kindOf_def Let_def split: if_splits prod.splits)
    show ?thesis
      using Entry ab cut unfolding merge
      by (auto simp: rewriteLine_def lineKey_def setValue_def Let_def IndexByte_first split: option.splits)
  qed (auto simp: merge rewriteLine_def lineKey_def kindOf_def Let_def split: if_splits prod.splits)
qed

section \<open>The lines of the merged file\<close>

definition entryLine :: "string \<times> string \<Rightarrow> string" where
  "entryLine e = fst e @ ''='' @ snd e"

lemma Split_LF_lines: "r \<in> set (Split s LF) \<Longrightarrow> LF \<notin> set r"
  by (rule Split_comps_no_sep)

lemma SplitAfterLF_Split:
  "SplitAfterLF s = map (\<lambda>r. r @ [LF]) (butlast (Split s LF)) @ [last (Split s LF)]"
proof (induction s)
  case (Cons c s)
  show ?case
  proof (cases "c = LF")
    case False
    obtain l ls where l: "Split s LF = l # ls" by (cases "Split s LF") auto
    then show ?thesis using Cons False by (cases ls) auto
  qed (use Cons in auto)
qed simp

lemma Split_of_lines:
  assumes "list_all (\<lambda>r. LF \<notin> set r) rs" and "rs \<noteq> []"
  shows "Split (concat (map (\<lambda>r. r @ [LF]) (butlast rs)) @ last rs) LF = rs"
  using assms
proof (induction rs)
  case (Cons r rs)
  show ?case
  proof (cases "rs = []")
    case True
    then show ?thesis using Cons.prems by (simp add: Split_no_sep)
  next
    case False
    then have "Split (concat (map (\<lambda>r. r @ [LF]) (butlast rs)) @ last rs) LF = rs" using Cons by simp
    then show ?thesis using Cons.prems False by (simp add: Split_append_sep Split_no_sep)
  qed
qed simp

lemma Split_Join_lines: "concat (map (\<lambda>r. r @ [LF]) (butlast (Split s LF))) @ last (Split s LF) = s"
  using SplitAfterLF_concat [of s] by (simp add: SplitAfterLF_Split)

lemma rewriteLine_LF:
  assumes "LF \<notin> set raw" and "\<forall>e \<in> set entries. list_all graphic (snd e)"
  shows "LF \<notin> set (rewriteLine entries chg raw)"
proof -
  have "LF \<notin> set (setValue v raw)" if "map_of entries k = Some v" for k v
  proof -
    have "list_all graphic v" using assms(2) map_of_SomeD [OF that] by auto
    then have "LF \<notin> set v" by (auto simp: list_all_iff graphic_def)
    moreover have "set (lineText raw) \<subseteq> set raw"
      by (auto simp: lineText_def TrimSuffix_def dest: in_set_takeD)
    ultimately show ?thesis using assms(1)
      by (auto simp: setValue_def split: option.splits dest: in_set_takeD)
  qed
  then show ?thesis using assms(1) by (auto simp: rewriteLine_def split: lineKind.splits option.splits)
qed

lemma rewriteLine_empty:
  "\<forall>e \<in> set entries. list_all graphic (snd e) \<Longrightarrow> rewriteLine entries chg raw = [] \<longleftrightarrow> raw = []"
proof -
  assume g: "\<forall>e \<in> set entries. list_all graphic (snd e)"
  have blank: "kindOf [] = Blank"
    by (simp add: kindOf_def Let_def lineText_def TrimSuffix_def HasSuffix_def TrimSpace_id [of "[]"] spaceEnd_def)
  have "setValue v raw \<noteq> []" if "kindOf raw = Entry k v0" "map_of entries k = Some v" for k v v0
  proof -
    have "list_all graphic v" using g map_of_SomeD [OF that(2)] by auto
    from kindOf_setValue [OF that(1) this] show ?thesis using blank by auto
  qed
  moreover have "raw \<noteq> []" if "kindOf raw = Entry k v0" for k v0 using that blank by auto
  ultimately show ?thesis by (auto simp: rewriteLine_def split: lineKind.splits option.splits)
qed

lemma butlast_last_map: "rs \<noteq> [] \<Longrightarrow> butlast (map f rs) = map f (butlast rs) \<and> last (map f rs) = f (last rs)"
  by (simp add: map_butlast last_map)

lemma merged_lines:
  assumes g: "\<forall>e \<in> set entries. list_all graphic (snd e)"
  shows "map (mergeSegment entries chg) (SplitAfterLF content) =
     map (\<lambda>r. (rewriteLine entries chg r @ [LF], lineKey entries r)) (butlast (Split content LF)) @
     [(rewriteLine entries chg (last (Split content LF)), lineKey entries (last (Split content LF)))]"
proof -
  have "mergeSegment entries chg (r @ [LF]) = (rewriteLine entries chg r @ [LF], lineKey entries r)"
    if "r \<in> set (butlast (Split content LF))" for r
    using that by (intro mergeSegment_line Split_LF_lines) (auto dest: in_set_butlastD)
  moreover have "mergeSegment entries chg (last (Split content LF)) =
      (rewriteLine entries chg (last (Split content LF)), lineKey entries (last (Split content LF)))"
    using mergeSegment_line [of "last (Split content LF)" "[]"] Split_LF_lines [of "last (Split content LF)" content] by simp
  ultimately show ?thesis by (simp add: SplitAfterLF_Split)
qed

lemma merged_Split:
  assumes g: "\<forall>e \<in> set entries. list_all graphic (snd e)"
  shows "Split (concat (map fst (map (mergeSegment entries chg) (SplitAfterLF content)))) LF =
     map (rewriteLine entries chg) (Split content LF)"
proof -
  let ?rs = "Split content LF" and ?f = "rewriteLine entries chg"
  have joined: "concat (map fst (map (mergeSegment entries chg) (SplitAfterLF content))) =
      concat (map (\<lambda>r. r @ [LF]) (butlast (map ?f ?rs))) @ last (map ?f ?rs)"
    unfolding merged_lines [OF g] by (simp add: butlast_last_map comp_def)
  have "list_all (\<lambda>r. LF \<notin> set r) (map ?f ?rs)"
    using rewriteLine_LF [OF Split_LF_lines g] by (auto simp: list_all_iff)
  then show ?thesis unfolding joined by (rule Split_of_lines) simp
qed

lemma scanRaw_lines: "scanRaw u = (if last (Split u LF) = [] then butlast (Split u LF) else Split u LF)"
  by (cases "Split u LF") auto

declare scanRaw.simps [simp del]

lemma scanRaw_map:
  assumes "Split t LF = map f (Split s LF)" and "\<And>r. f r = [] \<longleftrightarrow> r = []"
  shows "scanRaw t = map f (scanRaw s)"
proof -
  have ne: "Split s LF \<noteq> []" by simp
  then have "last (Split t LF) = f (last (Split s LF))" by (simp add: assms(1) last_map)
  then show ?thesis by (simp add: scanRaw_lines assms map_butlast)
qed

lemma scanRaw_append:
  assumes "list_all (\<lambda>r. LF \<notin> set r) ls" and "ls \<noteq> []"
  shows "scanRaw ((if t \<noteq> [] \<and> \<not> HasSuffix t [LF] then t @ [LF] else t) @ concat (map (\<lambda>r. r @ [LF]) ls)) = scanRaw t @ ls"
proof -
  have lines: "Split (concat (map (\<lambda>r. r @ [LF]) ls)) LF = ls @ [[]]"
    using Split_of_lines [of "ls @ [[]]"] assms(1) by (simp add: butlast_append)
  note scan = scanRaw_lines
  have after: "Split (u @ LF # x) LF = Split u LF @ Split x LF" for u x by (rule Split_append_sep)
  show ?thesis
  proof (cases "t = [] \<or> HasSuffix t [LF]")
    case True
    then consider "t = []" | u where "t = u @ [LF]"
      by (metis HasSuffix_single append_butlast_last_id)
    then show ?thesis
    proof cases
      case 1
      then show ?thesis using lines by (simp add: scan)
    next
      case 2
      have t: "Split t LF = Split u LF @ [[]]" using after [of u "[]"] by (simp add: 2)
      have "Split (t @ concat (map (\<lambda>r. r @ [LF]) ls)) LF = Split u LF @ ls @ [[]]"
        using after [of u "concat (map (\<lambda>r. r @ [LF]) ls)"] lines by (simp add: 2)
      then show ?thesis using t True 2 by (simp add: scan butlast_append HasSuffix_single)
    qed
  next
    case False
    have "Split ((t @ [LF]) @ concat (map (\<lambda>r. r @ [LF]) ls)) LF = Split t LF @ ls @ [[]]"
      using after [of t "concat (map (\<lambda>r. r @ [LF]) ls)"] lines by simp
    moreover have "last (Split t LF) \<noteq> []"
    proof
      assume "last (Split t LF) = []"
      then have "concat (map (\<lambda>r. r @ [LF]) (butlast (Split t LF))) = t" using Split_Join_lines [of t] by simp
      then show False using False by (cases "butlast (Split t LF)" rule: rev_cases) (auto simp: HasSuffix_single)
    qed
    ultimately show ?thesis using False by (simp add: scan butlast_append)
  qed
qed

lemma foldl_appendEntry:
  "es \<noteq> [] \<Longrightarrow> foldl appendEntry t es =
     (if t \<noteq> [] \<and> \<not> HasSuffix t [LF] then t @ [LF] else t) @ concat (map (\<lambda>r. r @ [LF]) (map entryLine es))"
proof (induction es arbitrary: t)
  case (Cons e es)
  have "HasSuffix (appendEntry t e) [LF]" "appendEntry t e \<noteq> []" by (simp_all add: appendEntry_def HasSuffix_single)
  then have "foldl appendEntry (appendEntry t e) es =
      appendEntry t e @ concat (map (\<lambda>r. r @ [LF]) (map entryLine es))"
    using Cons.IH [of "appendEntry t e"] by (cases "es = []") simp_all
  moreover have "appendEntry t e = (if t \<noteq> [] \<and> \<not> HasSuffix t [LF] then t @ [LF] else t) @ entryLine e @ [LF]"
    by (simp add: appendEntry_def entryLine_def)
  ultimately show ?case by (simp only: foldl.simps list.map concat.simps append_assoc)
qed simp

lemma set_map_filter_Some: "set (List.map_filter f xs) = {y. \<exists>x \<in> set xs. f x = Some y}"
  by (induction xs) (auto simp: List.map_filter_simps split: option.splits)

lemma map_filter_lineKey:
  "set (List.map_filter snd (map (mergeSegment entries chg) (SplitAfterLF content))) =
     {k. \<exists>raw \<in> set (Split content LF). lineKey entries raw = Some k}"
  if "\<forall>e \<in> set entries. list_all graphic (snd e)"
proof -
  have "set (Split content LF) = insert (last (Split content LF)) (set (butlast (Split content LF)))"
    using append_butlast_last_id [of "Split content LF"] by (metis Split_nonempty Un_insert_right list.simps(15) set_append sup_bot.right_neutral list.set(1))
  then show ?thesis unfolding merged_lines [OF that]
    by (auto simp: set_map_filter_Some)
qed

definition printable :: "appConfig \<Rightarrow> bool" where
  "printable cfg \<longleftrightarrow> list_all graphic (ServerTrustedReverseProxy cfg) \<and> list_all graphic (LogLevel cfg)"

lemma graphic_digit: "isDigit c \<Longrightarrow> graphic c"
  by (simp add: isDigit_def graphic_def)

lemma graphic_Itoa: "list_all graphic (Itoa n)"
  using natDigits_digits by (auto simp: Itoa_def list_all_iff graphic_digit) (simp_all add: graphic_def)

lemma entries_graphic: "printable cfg \<Longrightarrow> \<forall>e \<in> set (appConfigFileEntries cfg). list_all graphic (fst e) \<and> list_all graphic (snd e)"
  by (simp add: appConfigFileEntries_def printable_def graphic_Itoa) (simp add: graphic_def)

lemma entryLine_LF: "list_all graphic (fst e) \<Longrightarrow> list_all graphic (snd e) \<Longrightarrow> LF \<notin> set (entryLine e)"
  by (auto simp: entryLine_def list_all_iff graphic_def)

lemma merged_file_lines:
  assumes "printable cfg"
  defines "E \<equiv> appConfigFileEntries cfg"
  shows "scanRaw (mergeAppConfigContent content cfg chg) =
     map (rewriteLine E chg) (scanRaw content) @
     map entryLine (filter (\<lambda>e. \<forall>raw \<in> set (Split content LF). lineKey E raw \<noteq> Some (fst e)) E)"
proof -
  let ?segs = "map (mergeSegment E chg) (SplitAfterLF content)"
  let ?es = "filter (\<lambda>e. fst e \<notin> set (List.map_filter snd ?segs)) E"
  have g: "\<forall>e \<in> set E. list_all graphic (fst e) \<and> list_all graphic (snd e)"
    unfolding E_def by (rule entries_graphic [OF assms(1)])
  then have gv: "\<forall>e \<in> set E. list_all graphic (snd e)" by blast
  have es: "?es = filter (\<lambda>e. \<forall>raw \<in> set (Split content LF). lineKey E raw \<noteq> Some (fst e)) E"
    by (rule filter_cong) (auto simp: map_filter_lineKey [OF gv])
  have base: "scanRaw (concat (map fst ?segs)) = map (rewriteLine E chg) (scanRaw content)"
    by (rule scanRaw_map [OF merged_Split [OF gv] rewriteLine_empty [OF gv]])
  have merge: "mergeAppConfigContent content cfg chg = foldl appendEntry (concat (map fst ?segs)) ?es"
    by (simp add: mergeAppConfigContent_def Let_def E_def)
  show ?thesis
  proof (cases "?es = []")
    case True
    then show ?thesis using base merge es by simp
  next
    case False
    have "LF \<notin> set (entryLine e)" if "e \<in> set E" for e using g that by (intro entryLine_LF) auto
    then have "list_all (\<lambda>r. LF \<notin> set r) (map entryLine ?es)" by (auto simp: list_all_iff)
    then have "scanRaw (foldl appendEntry (concat (map fst ?segs)) ?es) = scanRaw (concat (map fst ?segs)) @ map entryLine ?es"
      unfolding foldl_appendEntry [OF False] using False by (intro scanRaw_append) auto
    then show ?thesis unfolding merge es [symmetric] base by simp
  qed
qed

section \<open>Parsing as a list of assignments\<close>

definition lineEntry :: "string \<Rightarrow> (string \<times> string) option" where
  "lineEntry raw = (case kindOf raw of Entry k v \<Rightarrow> Some (k, v) | _ \<Rightarrow> None)"

fun applyAll :: "(string \<times> string) list \<Rightarrow> appConfig \<Rightarrow> appConfig res" where
  "applyAll [] cfg = Inr cfg"
| "applyAll ((k, v) # es) cfg = bind_res (applyEntry k v cfg) (applyAll es)"

text \<open>Lines that the parser does not refuse for their form.\<close>

definition wellFormedLine :: "string \<Rightarrow> bool" where
  "wellFormedLine raw \<longleftrightarrow> (case kindOf raw of Blank \<Rightarrow> True | Malformed \<Rightarrow> False | Entry k _ \<Rightarrow> k \<noteq> [])"

lemma parseConfigLines_entries:
  "parseConfigLines n seen cfg ls = Inr d \<Longrightarrow>
     applyAll (List.map_filter lineEntry ls) cfg = Inr d \<and> distinct (map fst (List.map_filter lineEntry ls)) \<and>
     set (map fst (List.map_filter lineEntry ls)) \<inter> set seen = {} \<and> (\<forall>raw \<in> set ls. wellFormedLine raw \<and> length raw < 64 * 1024)"
proof (induction n seen cfg ls rule: parseConfigLines.induct)
  case (2 n seen cfg raw raws)
  let ?line = "TrimSpace (TrimSuffix raw [CR])"
  show ?case
  proof (cases "kindOf raw")
    case Blank
    then have line: "?line = [] \<or> HasPrefix ?line ''#''"
      by (auto simp: kindOf_def lineText_def Let_def split: if_splits prod.splits)
    then have "parseConfigLines (Suc n) seen cfg raws = Inr d"
      using 2(3) by (auto simp: Let_def split: if_splits)
    moreover have "lineEntry raw = None" "wellFormedLine raw" by (simp_all add: lineEntry_def wellFormedLine_def Blank)
    ultimately show ?thesis using 2(1) line 2(3) by (auto simp: List.map_filter_simps split: if_splits)
  next
    case Malformed
    then show ?thesis using 2(3)
      by (auto simp: kindOf_def lineText_def Let_def split: if_splits prod.splits)
  next
    case (Entry k v)
    then obtain k0 v0 where line: "\<not> (?line = [] \<or> HasPrefix ?line ''#'')" "Cut ?line EQ = (k0, v0, True)"
        "TrimSpace k0 = k" "TrimSpace v0 = v"
      by (auto simp: kindOf_def lineText_def Let_def split: if_splits prod.splits)
    then obtain cfg' where step: "applyEntry k v cfg = Inr cfg'" "parseConfigLines (Suc n) (k # seen) cfg' raws = Inr d"
        "k \<notin> set seen" "k \<noteq> []" "\<not> 64 * 1024 \<le> length raw"
      using 2(3) by (auto simp: Let_def split: if_splits)
    have "applyAll (List.map_filter lineEntry raws) cfg' = Inr d \<and> distinct (map fst (List.map_filter lineEntry raws)) \<and>
        set (map fst (List.map_filter lineEntry raws)) \<inter> set (k # seen) = {} \<and> (\<forall>raw \<in> set raws. wellFormedLine raw \<and> length raw < 64 * 1024)"
      using 2(2) [OF step(5) refl line(1) line(2) [symmetric] refl] line step by auto
    moreover have "lineEntry raw = Some (k, v)" "wellFormedLine raw"
      using step(4) by (simp_all add: lineEntry_def wellFormedLine_def Entry)
    ultimately show ?thesis using step by (auto simp: List.map_filter_simps)
  qed
qed (simp add: List.map_filter_simps)

lemma parseConfigLines_complete:
  "applyAll (List.map_filter lineEntry ls) cfg = Inr d \<Longrightarrow> distinct (map fst (List.map_filter lineEntry ls)) \<Longrightarrow>
     set (map fst (List.map_filter lineEntry ls)) \<inter> set seen = {} \<Longrightarrow>
     \<forall>raw \<in> set ls. wellFormedLine raw \<and> length raw < 64 * 1024 \<Longrightarrow> parseConfigLines n seen cfg ls = Inr d"
proof (induction ls arbitrary: n seen cfg)
  case (Cons raw raws)
  let ?line = "TrimSpace (TrimSuffix raw [CR])"
  show ?case
  proof (cases "kindOf raw")
    case Blank
    then have line: "?line = [] \<or> HasPrefix ?line ''#''" and "lineEntry raw = None"
      by (auto simp: kindOf_def lineText_def lineEntry_def Let_def split: if_splits prod.splits)
    then have "parseConfigLines (Suc n) seen cfg raws = Inr d" using Cons by (simp add: List.map_filter_simps)
    then show ?thesis using line Cons.prems(4) by (auto simp: Let_def)
  next
    case Malformed
    then show ?thesis using Cons.prems(4) by (simp add: wellFormedLine_def)
  next
    case (Entry k v)
    then obtain k0 v0 where line: "\<not> (?line = [] \<or> HasPrefix ?line ''#'')" "Cut ?line EQ = (k0, v0, True)"
        "TrimSpace k0 = k" "TrimSpace v0 = v"
      by (auto simp: kindOf_def lineText_def Let_def split: if_splits prod.splits)
    have e: "lineEntry raw = Some (k, v)" and k: "k \<noteq> []"
      using Entry Cons.prems(4) by (simp_all add: lineEntry_def wellFormedLine_def)
    then obtain cfg' where c: "applyEntry k v cfg = Inr cfg'" "applyAll (List.map_filter lineEntry raws) cfg' = Inr d"
      using Cons.prems(1) by (auto simp: List.map_filter_simps)
    have "parseConfigLines (Suc n) (k # seen) cfg' raws = Inr d"
      using Cons c(2) e by (auto simp: List.map_filter_simps)
    then show ?thesis using line k c(1) e Cons.prems(3,4) by (auto simp: Let_def List.map_filter_simps)
  qed
qed (simp add: List.map_filter_simps)

text \<open>What an accepted assignment leaves in the configuration, as it is printed.\<close>

definition settled :: "string \<Rightarrow> string \<Rightarrow> string" where
  "settled k v =
     (if k = ''SERVER_TRUSTED_REVERSEPROXY'' then
        (case normalizeTrustedReverseProxyList v of Inr x \<Rightarrow> x | Inl _ \<Rightarrow> [])
      else if k = ''LOG_LEVEL'' then ToLower v
      else Itoa (the (Atoi v)))"

text \<open>The eight numeric keys are treated alike.\<close>

definition numericFields :: "(string \<times> (int \<Rightarrow> appConfig \<Rightarrow> appConfig)) list" where
  "numericFields =
     [(''HISTORY_INDEX_REFRESH_INTERVAL'', \<lambda>n c. c\<lparr>HistoryIndexRefreshInterval := n\<rparr>),
      (''CLAMAV_SLEEP_TIMER'', \<lambda>n c. c\<lparr>ClamAVSleepTimer := n\<rparr>),
      (''WEB_FIRSTRUN_COMPLETED'', \<lambda>n c. c\<lparr>WebFirstRunCompleted := n\<rparr>),
      (''WEB_LOGIN_MAX_TRIES'', \<lambda>n c. c\<lparr>WebLoginMaxTries := n\<rparr>),
      (''WEB_LOGIN_MAX_TRIES_OVERALL'', \<lambda>n c. c\<lparr>WebLoginMaxTriesOverall := n\<rparr>),
      (''WEB_LOGIN_COOLDOWN_INTERVAL'', \<lambda>n c. c\<lparr>WebLoginCooldownInterval := n\<rparr>),
      (''LOG_FILE_MAX_SIZE'', \<lambda>n c. c\<lparr>LogFileMaxSize := n\<rparr>),
      (''LOG_FILE_NUM'', \<lambda>n c. c\<lparr>LogFileNum := n\<rparr>)]"

lemma applyEntry_fields:
  "applyEntry k v c =
     (case map_of numericFields k of
        Some f \<Rightarrow> bind_res (parseAppConfigInt k v) (\<lambda>n. Inr (f n c))
      | None \<Rightarrow>
          if k = ''SERVER_TRUSTED_REVERSEPROXY'' then
            bind_res (normalizeTrustedReverseProxyList v) (\<lambda>x. Inr (c\<lparr>ServerTrustedReverseProxy := x\<rparr>))
          else if k = ''LOG_LEVEL'' then Inr (c\<lparr>LogLevel := ToLower v\<rparr>)
          else Inl (ErrText (''unsupported clamavweb config key '' @ [DQ] @ k @ [DQ])))"
  unfolding applyEntry_def numericFields_def by simp

lemma numericFields_cases:
  assumes "(k, f) \<in> set numericFields"
  obtains "k = ''HISTORY_INDEX_REFRESH_INTERVAL''" "f = (\<lambda>n c. c\<lparr>HistoryIndexRefreshInterval := n\<rparr>)"
    | "k = ''CLAMAV_SLEEP_TIMER''" "f = (\<lambda>n c. c\<lparr>ClamAVSleepTimer := n\<rparr>)"
    | "k = ''WEB_FIRSTRUN_COMPLETED''" "f = (\<lambda>n c. c\<lparr>WebFirstRunCompleted := n\<rparr>)"
    | "k = ''WEB_LOGIN_MAX_TRIES''" "f = (\<lambda>n c. c\<lparr>WebLoginMaxTries := n\<rparr>)"
    | "k = ''WEB_LOGIN_MAX_TRIES_OVERALL''" "f = (\<lambda>n c. c\<lparr>WebLoginMaxTriesOverall := n\<rparr>)"
    | "k = ''WEB_LOGIN_COOLDOWN_INTERVAL''" "f = (\<lambda>n c. c\<lparr>WebLoginCooldownInterval := n\<rparr>)"
    | "k = ''LOG_FILE_MAX_SIZE''" "f = (\<lambda>n c. c\<lparr>LogFileMaxSize := n\<rparr>)"
    | "k = ''LOG_FILE_NUM''" "f = (\<lambda>n c. c\<lparr>LogFileNum := n\<rparr>)"
  using assms unfolding numericFields_def list.set
  by (elim insertE emptyE Pair_inject) (rule that, assumption, assumption)+

definition setEntry :: "string \<Rightarrow> string \<Rightarrow> (string \<times> string) list \<Rightarrow> (string \<times> string) list" where
  "setEntry k x es = map (\<lambda>(j, v). (j, if j = k then x else v)) es"

lemma map_of_setEntry: "map_of es k \<noteq> None \<Longrightarrow> map_of (setEntry k x es) = (map_of es)(k \<mapsto> x)"
proof -
  have "map_of (setEntry k x es) j = map_option (\<lambda>v. if j = k then x else v) (map_of es j)" for j
    unfolding setEntry_def by (induction es) auto
  then show "map_of es k \<noteq> None \<Longrightarrow> map_of (setEntry k x es) = (map_of es)(k \<mapsto> x)"
    by (auto simp: fun_eq_iff option.map_ident)
qed

lemma numericFields_entries:
  assumes "(k, f) \<in> set numericFields"
  shows "appConfigFileEntries (f n c) = setEntry k (Itoa n) (appConfigFileEntries c)"
  using assms by (elim numericFields_cases) (simp_all only: appConfigFileEntries_def setEntry_def, simp_all)

lemma numericFields_key:
  assumes "(k, f) \<in> set numericFields"
  shows "map_of (appConfigFileEntries c) k \<noteq> None \<and> k \<noteq> ''SERVER_TRUSTED_REVERSEPROXY'' \<and> k \<noteq> ''LOG_LEVEL''"
  using assms by (elim numericFields_cases) (simp_all only: appConfigFileEntries_def, simp_all)

lemma textFields_entries:
  "appConfigFileEntries (c\<lparr>ServerTrustedReverseProxy := x\<rparr>) = setEntry ''SERVER_TRUSTED_REVERSEPROXY'' x (appConfigFileEntries c)"
  "appConfigFileEntries (c\<lparr>LogLevel := x\<rparr>) = setEntry ''LOG_LEVEL'' x (appConfigFileEntries c)"
  "map_of (appConfigFileEntries c) ''SERVER_TRUSTED_REVERSEPROXY'' \<noteq> None" "map_of (appConfigFileEntries c) ''LOG_LEVEL'' \<noteq> None"
  by (simp_all add: appConfigFileEntries_def setEntry_def)

lemma applyEntry_cases:
  assumes "applyEntry k v c = Inr d"
  obtains (numeric) f n where "(k, f) \<in> set numericFields" "Atoi v = Some n" "d = f n c"
    | (proxies) x where "k = ''SERVER_TRUSTED_REVERSEPROXY''" "normalizeTrustedReverseProxyList v = Inr x"
        "d = c\<lparr>ServerTrustedReverseProxy := x\<rparr>"
    | (level) "k = ''LOG_LEVEL''" "d = c\<lparr>LogLevel := ToLower v\<rparr>"
proof (cases "map_of numericFields k")
  case (Some f)
  then obtain n where "Atoi v = Some n" "d = f n c"
    using assms by (auto simp: applyEntry_fields parseAppConfigInt_def split: if_splits option.splits)
  with numeric [OF map_of_SomeD [OF Some]] show thesis .
next
  case None
  show thesis
  proof (cases "k = ''SERVER_TRUSTED_REVERSEPROXY''")
    case True
    then show thesis using assms None proxies by (auto simp: applyEntry_fields)
  next
    case False
    then show thesis
      using assms None level by (simp only: applyEntry_fields option.case if_False split: if_splits) simp_all
  qed
qed

lemma applyEntry_settled:
  assumes "applyEntry k v c = Inr d"
  shows "map_of (appConfigFileEntries d) = (map_of (appConfigFileEntries c))(k \<mapsto> settled k v)"
    and "map_of (appConfigFileEntries c) k \<noteq> None"
proof -
  from assms have "appConfigFileEntries d = setEntry k (settled k v) (appConfigFileEntries c) \<and>
      map_of (appConfigFileEntries c) k \<noteq> None"
  proof (cases rule: applyEntry_cases)
    case (numeric f n)
    then show ?thesis using numericFields_entries numericFields_key by (simp add: settled_def)
  next
    case (proxies x)
    then show ?thesis using textFields_entries by (simp add: settled_def)
  next
    case level
    have "settled ''LOG_LEVEL'' v = ToLower v" by (simp add: settled_def)
    then show ?thesis using level textFields_entries by simp
  qed
  then show "map_of (appConfigFileEntries d) = (map_of (appConfigFileEntries c))(k \<mapsto> settled k v)"
    and "map_of (appConfigFileEntries c) k \<noteq> None" using map_of_setEntry by auto
qed

lemma applyAll_settled:
  "applyAll es c = Inr d \<Longrightarrow> distinct (map fst es) \<Longrightarrow>
     map_of (appConfigFileEntries d) k =
       (case map_of es k of Some v \<Rightarrow> Some (settled k v) | None \<Rightarrow> map_of (appConfigFileEntries c) k)"
proof (induction es arbitrary: c)
  case (Cons e es)
  obtain j v where e: "e = (j, v)" by (cases e)
  then obtain c' where c': "applyEntry j v c = Inr c'" "applyAll es c' = Inr d" using Cons.prems by auto
  have "map_of es j = None" using Cons.prems(2) e by (simp add: map_of_eq_None_iff)
  moreover have "map_of (appConfigFileEntries d) k =
      (case map_of es k of Some v \<Rightarrow> Some (settled k v) | None \<Rightarrow> map_of (appConfigFileEntries c') k)"
    using Cons c' by simp
  ultimately show ?case using applyEntry_settled(1) [OF c'(1)] e by (auto split: option.splits)
qed simp

lemma applyAll_known: "applyAll es c = Inr d \<Longrightarrow> (k, v) \<in> set es \<Longrightarrow> map_of (appConfigFileEntries d) k \<noteq> None"
proof -
  have keys: "(map_of (appConfigFileEntries x) k \<noteq> None) = (map_of (appConfigFileEntries y) k \<noteq> None)" for x y
    by (simp add: appConfigFileEntries_def)
  show "applyAll es c = Inr d \<Longrightarrow> (k, v) \<in> set es \<Longrightarrow> map_of (appConfigFileEntries d) k \<noteq> None"
  proof (induction es arbitrary: c)
    case (Cons e es)
    then show ?case using applyEntry_settled(2) keys by (cases e) (auto, metis)
  qed simp
qed

text \<open>Two configurations that print alike are equal.\<close>

lemma Itoa_inj: "- (2 ^ 63) \<le> m \<Longrightarrow> m < 2 ^ 63 \<Longrightarrow> - (2 ^ 63) \<le> n \<Longrightarrow> n < 2 ^ 63 \<Longrightarrow> Itoa m = Itoa n \<longleftrightarrow> m = n"
  by (metis Atoi_Itoa option.inject)

definition wordSized :: "appConfig \<Rightarrow> bool" where
  "wordSized cfg \<longleftrightarrow> (\<forall>n \<in> {HistoryIndexRefreshInterval cfg, ClamAVSleepTimer cfg, WebFirstRunCompleted cfg,
     WebLoginMaxTries cfg, WebLoginMaxTriesOverall cfg, WebLoginCooldownInterval cfg, LogFileMaxSize cfg, LogFileNum cfg}.
     - (2 ^ 63) \<le> n \<and> n < 2 ^ 63)"

lemma valid_wordSized: "validateAppConfig cfg = None \<Longrightarrow> wordSized cfg"
  by (auto simp: validateAppConfig_None withinLimits_def wordSized_def Second_def)

lemma entries_inj:
  assumes "wordSized c" and "wordSized d" and "map_of (appConfigFileEntries c) = map_of (appConfigFileEntries d)"
  shows "c = d"
proof -
  have eq: "map_of (appConfigFileEntries c) k = map_of (appConfigFileEntries d) k" for k using assms(3) by simp
  have "HistoryIndexRefreshInterval c = HistoryIndexRefreshInterval d \<and> ClamAVSleepTimer c = ClamAVSleepTimer d \<and>
      WebFirstRunCompleted c = WebFirstRunCompleted d \<and> WebLoginMaxTries c = WebLoginMaxTries d \<and>
      WebLoginMaxTriesOverall c = WebLoginMaxTriesOverall d \<and> WebLoginCooldownInterval c = WebLoginCooldownInterval d \<and>
      ServerTrustedReverseProxy c = ServerTrustedReverseProxy d \<and> LogFileMaxSize c = LogFileMaxSize d \<and>
      LogFileNum c = LogFileNum d \<and> LogLevel c = LogLevel d"
    using eq [of "''HISTORY_INDEX_REFRESH_INTERVAL''"] eq [of "''CLAMAV_SLEEP_TIMER''"] eq [of "''WEB_FIRSTRUN_COMPLETED''"]
      eq [of "''WEB_LOGIN_MAX_TRIES''"] eq [of "''WEB_LOGIN_MAX_TRIES_OVERALL''"] eq [of "''WEB_LOGIN_COOLDOWN_INTERVAL''"]
      eq [of "''SERVER_TRUSTED_REVERSEPROXY''"] eq [of "''LOG_FILE_MAX_SIZE''"] eq [of "''LOG_FILE_NUM''"] eq [of "''LOG_LEVEL''"]
      assms(1,2)
    by (simp add: appConfigFileEntries_def Itoa_inj wordSized_def)
  then show ?thesis by simp
qed

text \<open>Printed values settle on themselves.\<close>

lemma ToLower_level: "v \<in> {''debug'', ''info'', ''warn'', ''error''} \<Longrightarrow> ToLower v = v"
proof -
  have "ToLower ''debug'' = ''debug''" "ToLower ''info'' = ''info''" "ToLower ''warn'' = ''warn''" "ToLower ''error'' = ''error''"
    by code_simp+
  then show "v \<in> {''debug'', ''info'', ''warn'', ''error''} \<Longrightarrow> ToLower v = v" by auto
qed

lemma settled_printed:
  assumes "validateAppConfig cfg = None"
    and "normalizeTrustedReverseProxyList (ServerTrustedReverseProxy cfg) = Inr (ServerTrustedReverseProxy cfg)"
    and "map_of (appConfigFileEntries cfg) k = Some v"
  shows "settled k v = v"
  using assms valid_wordSized [OF assms(1)]
  by (auto simp: appConfigFileEntries_def settled_def wordSized_def Atoi_Itoa validateAppConfig_None withinLimits_def
      ToLower_level split: if_splits)

lemma zip_changed:
  "map fst xs = map fst ys \<Longrightarrow> distinct (map fst xs) \<Longrightarrow>
     k \<in> set (map (\<lambda>(c, n). fst n) (filter (\<lambda>(c, n). snd c \<noteq> snd n) (zip xs ys))) \<longleftrightarrow> map_of xs k \<noteq> map_of ys k"
proof (induction xs arbitrary: ys)
  case (Cons x xs)
  then obtain y ys' where ys: "ys = y # ys'" "fst x = fst y" "map fst xs = map fst ys'" by (cases ys) auto
  have "map_of xs (fst y) = None" "map_of ys' (fst y) = None"
    using Cons.prems ys by (auto simp: map_of_eq_None_iff simp flip: set_map)
  moreover have "fst y \<notin> fst ` set ys'" using calculation(2) by (simp add: map_of_eq_None_iff)
  then have "(c, (fst y, v)) \<notin> set (zip xs ys')" for c v
    by (metis fst_conv image_eqI set_zip_rightD)
  ultimately show ?case using Cons ys by (auto simp: case_prod_unfold)
qed simp

lemma changedAppConfigKeys_iff:
  "k \<in> set (changedAppConfigKeys c d) \<longleftrightarrow> map_of (appConfigFileEntries c) k \<noteq> map_of (appConfigFileEntries d) k"
  unfolding changedAppConfigKeys_def by (rule zip_changed) (simp_all add: appConfigFileEntries_def)

section \<open>The entries of the merged file\<close>

lemma kindOf_entryLine:
  assumes "list_all graphic k" and "EQ \<notin> set k" and "\<not> HasPrefix k ''#''" and "list_all graphic v"
  shows "kindOf (entryLine (k, v)) = Entry k v"
proof -
  have "\<not> HasSuffix (entryLine (k, v)) [CR]"
    using assms(4) by (cases v rule: rev_cases) (auto simp: entryLine_def HasSuffix_single graphic_def)
  then have "lineText (entryLine (k, v)) = k @ EQ # v" by (simp add: lineText_def TrimSuffix_no entryLine_def)
  moreover have "TrimLeftSpace k = k" using spaceFree_graphic [OF assms(1)] by (cases k) (auto intro: TrimLeftSpace_id)
  ultimately show ?thesis
    using kindOf_entry [of _ k v] assms by (simp add: TrimSpace_graphic TrimRightSpace_graphic)
qed

lemma entryLine_entry:
  assumes "printable cfg" and "e \<in> set (appConfigFileEntries cfg)"
  shows "lineEntry (entryLine e) = Some e"
proof -
  have "list_all graphic (fst e)" "list_all graphic (snd e)" using entries_graphic [OF assms(1)] assms(2) by auto
  moreover have "EQ \<notin> set (fst e)" "\<not> HasPrefix (fst e) ''#''"
    using assms(2) by (auto simp: appConfigFileEntries_def HasPrefix_def)
  ultimately show ?thesis using kindOf_entryLine [of "fst e" "snd e"] by (simp add: lineEntry_def)
qed

lemma lineEntry_rewrite:
  assumes "\<forall>e \<in> set E. list_all graphic (snd e)"
  shows "lineEntry (rewriteLine E chg raw) =
     map_option (\<lambda>(k, v). (k, if map_of E k \<noteq> None \<and> k \<in> set chg then the (map_of E k) else v)) (lineEntry raw)"
proof (cases "kindOf raw")
  case (Entry k v)
  show ?thesis
  proof (cases "map_of E k")
    case (Some w)
    then have "list_all graphic w" using assms map_of_SomeD by fastforce
    then show ?thesis using Entry Some kindOf_setValue [OF Entry, of w] by (simp add: lineEntry_def rewriteLine_def)
  qed (use Entry in \<open>simp add: lineEntry_def rewriteLine_def\<close>)
qed (simp_all add: lineEntry_def rewriteLine_def)

lemma map_filter_map_option:
  "(\<And>x. g (f x) = map_option h (g x)) \<Longrightarrow> List.map_filter g (map f xs) = map h (List.map_filter g xs)"
  by (induction xs) (auto simp: List.map_filter_simps split: option.splits)

lemma map_filter_id: "(\<And>x. x \<in> set xs \<Longrightarrow> g (f x) = Some x) \<Longrightarrow> List.map_filter g (map f xs) = xs"
  by (induction xs) (auto simp: List.map_filter_simps)

lemma map_of_map_values: "map_of (map (\<lambda>(k, v). (k, f k v)) xs) k = map_option (f k) (map_of xs k)"
  by (induction xs) auto

lemma map_filter_app: "List.map_filter f (xs @ ys) = List.map_filter f xs @ List.map_filter f ys"
  by (simp add: List.map_filter_def)

lemma merged_entries:
  assumes "printable cfg"
  defines "E \<equiv> appConfigFileEntries cfg"
  shows "List.map_filter lineEntry (scanRaw (mergeAppConfigContent content cfg chg)) =
     map (\<lambda>(k, v). (k, if map_of E k \<noteq> None \<and> k \<in> set chg then the (map_of E k) else v)) (List.map_filter lineEntry (scanRaw content)) @
     filter (\<lambda>e. \<forall>raw \<in> set (Split content LF). lineKey E raw \<noteq> Some (fst e)) E"
proof -
  have gv: "\<forall>e \<in> set E. list_all graphic (snd e)" using entries_graphic [OF assms(1)] by (simp add: E_def)
  have "List.map_filter lineEntry (map entryLine (filter P E)) = filter P E" for P
    by (rule map_filter_id) (simp add: entryLine_entry [OF assms(1)] E_def)
  then show ?thesis
    unfolding merged_file_lines [OF assms(1), folded E_def] map_filter_app
    using map_filter_map_option [of lineEntry, OF lineEntry_rewrite [OF gv]] by simp
qed

lemma file_keys:
  assumes "map_of E k \<noteq> None"
  shows "(\<exists>raw \<in> set (Split content LF). lineKey E raw = Some k) \<longleftrightarrow> k \<in> fst ` set (List.map_filter lineEntry (scanRaw content))"
proof -
  have blank: "lineEntry [] = None"
    by (simp add: lineEntry_def kindOf_def Let_def lineText_def TrimSuffix_def HasSuffix_def TrimSpace_id [of "[]"] spaceEnd_def)
  have "(\<exists>raw \<in> set (Split content LF). lineKey E raw = Some k) \<longleftrightarrow> (\<exists>raw \<in> set (Split content LF). \<exists>v. lineEntry raw = Some (k, v))"
    using assms by (auto simp: lineKey_def lineEntry_def split: lineKind.splits if_splits)
  also have "\<dots> \<longleftrightarrow> (\<exists>raw \<in> set (scanRaw content). \<exists>v. lineEntry raw = Some (k, v))"
  proof -
    obtain rs r where rs: "Split content LF = rs @ [r]" by (cases "Split content LF" rule: rev_cases) auto
    have "set (scanRaw content) = (if r = [] then set rs else insert r (set rs))"
      by (simp add: scanRaw_lines rs)
    moreover have "set (Split content LF) = insert r (set rs)" by (simp add: rs)
    ultimately show ?thesis using blank by (cases "r = []") simp_all
  qed
  also have "\<dots> \<longleftrightarrow> k \<in> fst ` set (List.map_filter lineEntry (scanRaw content))"
    by (force simp: set_map_filter_Some)
  finally show ?thesis .
qed

section \<open>Normalised addresses are printable\<close>

lemma graphic_hexDigits: "list_all graphic (hexDigits n)"
proof (induction n rule: hexDigits.induct)
  case (1 n)
  have "graphic (lowerHex m)" if "m < 16" for m using that by (auto simp: graphic_def lowerHex_def)
  then show ?case using 1 by (subst hexDigits.simps) auto
qed

lemma list_all_Join: "\<forall>x \<in> set xs. list_all P x \<Longrightarrow> list_all P sep \<Longrightarrow> list_all P (Join xs sep)"
  by (induction xs sep rule: Join.induct) auto

lemma graphic_ipString: "list_all graphic (ipString ip)"
proof -
  have sep: "graphic CHR '':''" "graphic CHR ''.''" by (simp_all add: graphic_def)
  have six: "list_all graphic (Join (map hexDigits gs) '':'')" for gs
    by (rule list_all_Join) (auto simp: graphic_hexDigits sep)
  then show ?thesis
    using sep by (auto simp: ipString_def ipv6String_def graphic_Itoa
        intro!: list_all_Join split: option.splits prod.splits)
qed

lemma normalizeProxies_graphic: "normalizeProxies parts = Inr ps \<Longrightarrow> \<forall>p \<in> set ps. list_all graphic p"
  by (induction parts arbitrary: ps) (auto simp: Let_def graphic_ipString split: option.splits if_splits)

lemma normalize_graphic: "normalizeTrustedReverseProxyList v = Inr p \<Longrightarrow> list_all graphic p"
proof -
  have "list_all graphic '',''" by (simp add: graphic_def)
  then show "normalizeTrustedReverseProxyList v = Inr p \<Longrightarrow> list_all graphic p"
    using normalizeProxies_graphic
    by (auto simp: normalizeTrustedReverseProxyList_def Let_def intro!: list_all_Join split: if_splits)
qed

lemma printable_config:
  assumes "validateAppConfig cfg = None" and "list_all graphic (ServerTrustedReverseProxy cfg)"
  shows "printable cfg"
  using assms by (auto simp: printable_def validateAppConfig_None withinLimits_def graphic_def)

section \<open>Saving and reading back\<close>

definition fileText :: "appConfigStore \<Rightarrow> string" where
  "fileText s = (case store_file s of None \<Rightarrow> [] | Some data \<Rightarrow> data)"

text \<open>The configuration in memory is what the file says.\<close>

definition storeConsistent :: "appConfigStore \<Rightarrow> bool" where
  "storeConsistent s \<longleftrightarrow> parseAppConfig (fileText s) = Inr (store_cfg s)"

lemma parseAppConfig_entries:
  assumes "parseAppConfig data = Inr cfg"
  shows "applyAll (List.map_filter lineEntry (scanRaw data)) defaultAppConfig = Inr cfg"
    and "distinct (map fst (List.map_filter lineEntry (scanRaw data)))"
    and "\<forall>raw \<in> set (scanRaw data). wellFormedLine raw \<and> length raw < 64 * 1024"
  using assms parseConfigLines_entries [of 1 "[]" defaultAppConfig "scanRaw data" cfg]
  by (auto simp: parseAppConfig_def split: option.splits)

text \<open>Whether an assignment is accepted does not depend on the configuration it changes.\<close>

definition accepted :: "string \<Rightarrow> string \<Rightarrow> bool" where
  "accepted k v \<longleftrightarrow> (\<forall>c. \<exists>d. applyEntry k v c = Inr d)"

lemma applyEntry_accepted: "applyEntry k v c = Inr d \<Longrightarrow> accepted k v"
  unfolding accepted_def applyEntry_fields parseAppConfigInt_def by (auto split: if_splits option.splits)

lemma applyAll_accepted: "applyAll es c = Inr d \<Longrightarrow> (k, v) \<in> set es \<Longrightarrow> accepted k v"
  by (induction es arbitrary: c) (auto dest: applyEntry_accepted)

lemma accepted_applyAll: "\<forall>(k, v) \<in> set es. accepted k v \<Longrightarrow> \<exists>d. applyAll es c = Inr d"
proof (induction es arbitrary: c)
  case (Cons e es)
  obtain k v where e: "e = (k, v)" by (cases e)
  then have "accepted k v" using Cons.prems by simp
  then obtain c' where "applyEntry k v c = Inr c'" unfolding accepted_def by blast
  then show ?case using Cons e by simp
qed simp

lemma accepted_printed:
  assumes "validateAppConfig cfg = None"
    and "normalizeTrustedReverseProxyList (ServerTrustedReverseProxy cfg) = Inr (ServerTrustedReverseProxy cfg)"
    and "map_of (appConfigFileEntries cfg) k = Some v"
  shows "accepted k v"
proof -
  have itoa: "Itoa n \<noteq> []" for n using natDigits_nonempty by (simp add: Itoa_def)
  show ?thesis
    using assms(2,3) valid_wordSized [OF assms(1)] itoa
    by (auto simp: accepted_def applyEntry_def parseAppConfigInt_def appConfigFileEntries_def wordSized_def Atoi_Itoa split: if_splits)
qed

lemma Atoi_range: "Atoi s = Some n \<Longrightarrow> - (2 ^ 63) \<le> n \<and> n < 2 ^ 63"
  unfolding Atoi_def by (auto simp: Let_def split: if_splits option.splits prod.splits)

lemma applyEntry_wordSized: "applyEntry k v c = Inr d \<Longrightarrow> wordSized c \<Longrightarrow> wordSized d"
proof (erule applyEntry_cases)
  fix f n
  assume "(k, f) \<in> set numericFields" "Atoi v = Some n" "d = f n c" and c: "wordSized c"
  then show "wordSized d" using Atoi_range [of v n] by (elim numericFields_cases) (simp_all add: wordSized_def)
qed (simp_all add: wordSized_def)

lemma applyAll_wordSized: "applyAll es c = Inr d \<Longrightarrow> wordSized c \<Longrightarrow> wordSized d"
proof (induction es arbitrary: c)
  case (Cons e es)
  obtain k v where e: "e = (k, v)" by (cases e)
  then obtain c' where "applyEntry k v c = Inr c'" "applyAll es c' = Inr d" using Cons.prems by auto
  then show ?case using Cons applyEntry_wordSized by blast
qed simp

lemma map_of_filter_fst: "map_of (filter (\<lambda>e. P (fst e)) xs) k = (if P k then map_of xs k else None)"
  by (induction xs) auto

lemma entries_keys: "map_of (appConfigFileEntries c) k = None \<longleftrightarrow> map_of (appConfigFileEntries d) k = None"
  by (simp add: appConfigFileEntries_def)

text \<open>A configuration that is saved: valid, with the proxy list in normal form.\<close>

definition savable :: "appConfig \<Rightarrow> bool" where
  "savable cfg \<longleftrightarrow> validateAppConfig cfg = None \<and>
     normalizeTrustedReverseProxyList (ServerTrustedReverseProxy cfg) = Inr (ServerTrustedReverseProxy cfg)"

lemma savable_printable: "savable cfg \<Longrightarrow> printable cfg"
  using printable_config normalize_graphic by (auto simp: savable_def)

text \<open>The assignments of the merged file, key by key.\<close>

lemma merged_lookup:
  assumes "savable nxt"
  shows "map_of (List.map_filter lineEntry (scanRaw (mergeAppConfigContent data nxt chg))) k =
     (case map_of (List.map_filter lineEntry (scanRaw data)) k of
        Some v \<Rightarrow> Some (if map_of (appConfigFileEntries nxt) k \<noteq> None \<and> k \<in> set chg then the (map_of (appConfigFileEntries nxt) k) else v)
      | None \<Rightarrow> map_of (appConfigFileEntries nxt) k)"
proof -
  let ?E = "appConfigFileEntries nxt" and ?es = "List.map_filter lineEntry (scanRaw data)"
  have "map_of (List.map_filter lineEntry (scanRaw (mergeAppConfigContent data nxt chg))) k =
     (case map_of ?es k of
        Some v \<Rightarrow> Some (if map_of ?E k \<noteq> None \<and> k \<in> set chg then the (map_of ?E k) else v)
      | None \<Rightarrow> if \<forall>raw \<in> set (Split data LF). lineKey ?E raw \<noteq> Some k then map_of ?E k else None)"
    unfolding merged_entries [OF savable_printable [OF assms]] map_of_append
      map_of_filter_fst [where P = "\<lambda>k. \<forall>raw \<in> set (Split data LF). lineKey ?E raw \<noteq> Some k"]
    by (simp add: map_of_map_values map_add_def del: not_None_eq split: option.splits)
  moreover have "\<forall>raw \<in> set (Split data LF). lineKey ?E raw \<noteq> Some k" if "map_of ?es k = None" "map_of ?E k \<noteq> None"
    using that file_keys [of ?E k data] by (auto simp: map_of_eq_None_iff)
  ultimately show ?thesis by (cases "map_of ?es k"; cases "map_of ?E k") simp_all
qed

lemma merged_distinct:
  assumes "savable nxt" and "distinct (map fst (List.map_filter lineEntry (scanRaw data)))"
    and "\<forall>k \<in> fst ` set (List.map_filter lineEntry (scanRaw data)). map_of (appConfigFileEntries nxt) k \<noteq> None"
  shows "distinct (map fst (List.map_filter lineEntry (scanRaw (mergeAppConfigContent data nxt chg))))"
proof -
  let ?E = "appConfigFileEntries nxt" and ?es = "List.map_filter lineEntry (scanRaw data)"
  let ?new = "filter (\<lambda>e. \<forall>raw \<in> set (Split data LF). lineKey ?E raw \<noteq> Some (fst e)) ?E"
  have "distinct (map fst ?E)" by (simp add: appConfigFileEntries_def)
  then have "distinct (map fst ?new)" by (rule distinct_map_filter)
  moreover have "fst ` set ?es \<inter> fst ` set ?new = {}"
  proof -
    have "k \<notin> fst ` set ?new" if k: "k \<in> fst ` set ?es" for k
      using k assms(3) file_keys [of ?E k data] by auto
    then show ?thesis by blast
  qed
  moreover have "map fst (map (\<lambda>(k, v). (k, if map_of ?E k \<noteq> None \<and> k \<in> set chg then the (map_of ?E k) else v)) ?es) = map fst ?es"
    by auto
  ultimately show ?thesis
    unfolding merged_entries [OF savable_printable [OF assms(1)]] map_append distinct_append using assms(2)
    by (metis (no_types, lifting) set_map)
qed

lemma merged_wellFormed:
  assumes "savable nxt" and "\<forall>raw \<in> set (scanRaw data). wellFormedLine raw"
  shows "\<forall>raw \<in> set (scanRaw (mergeAppConfigContent data nxt chg)). wellFormedLine raw"
proof -
  let ?E = "appConfigFileEntries nxt"
  have g: "\<forall>e \<in> set ?E. list_all graphic (snd e)" using entries_graphic savable_printable [OF assms(1)] by blast
  have "wellFormedLine (rewriteLine ?E chg raw)" if w: "wellFormedLine raw" for raw
  proof (cases "kindOf raw")
    case (Entry k v)
    show ?thesis
    proof (cases "map_of ?E k")
      case (Some x)
      then have "list_all graphic x" using g map_of_SomeD by fastforce
      then show ?thesis using w Entry Some kindOf_setValue [OF Entry, of x] by (simp add: wellFormedLine_def rewriteLine_def)
    qed (use w Entry in \<open>simp add: rewriteLine_def\<close>)
  qed (use w in \<open>simp_all add: rewriteLine_def\<close>)
  moreover have "wellFormedLine (entryLine e)" if e: "e \<in> set ?E" for e
  proof -
    have "lineEntry (entryLine e) = Some e" by (rule entryLine_entry [OF savable_printable [OF assms(1)] e])
    moreover have "fst e \<noteq> []" using e by (auto simp: appConfigFileEntries_def)
    ultimately show ?thesis by (auto simp: lineEntry_def wellFormedLine_def split: lineKind.splits)
  qed
  ultimately show ?thesis
    unfolding merged_file_lines [OF savable_printable [OF assms(1)]] using assms(2) by auto
qed

lemma merged_config:
  assumes old: "parseAppConfig data = Inr cfg" and nxt: "savable nxt"
  defines "chg \<equiv> changedAppConfigKeys cfg nxt"
  assumes short: "\<forall>raw \<in> set (scanRaw (mergeAppConfigContent data nxt chg)). length raw < 64 * 1024"
  shows "parseAppConfig (mergeAppConfigContent data nxt chg) = Inr nxt"
proof -
  let ?E = "appConfigFileEntries nxt" and ?es = "List.map_filter lineEntry (scanRaw data)"
  let ?es' = "List.map_filter lineEntry (scanRaw (mergeAppConfigContent data nxt chg))"
  note o = parseAppConfig_entries [OF old]
  have known: "\<forall>k \<in> fst ` set ?es. map_of ?E k \<noteq> None"
    using applyAll_known [OF o(1)] entries_keys [of cfg _ nxt] by fastforce
  have dist: "distinct (map fst ?es')" by (rule merged_distinct [OF nxt o(2) known])
  have printed: "settled k v = v" "accepted k v" if "map_of ?E k = Some v" for k v
    using that nxt settled_printed accepted_printed by (auto simp: savable_def)
  have "accepted k v" if kv: "(k, v) \<in> set ?es'" for k v
  proof -
    have "map_of ?es' k = Some v" using kv dist by simp
    then have "map_of ?es k = Some v \<or> map_of ?E k = Some v"
      unfolding merged_lookup [OF nxt] by (auto split: option.splits if_splits)
    then show ?thesis using applyAll_accepted [OF o(1)] printed(2) by (auto dest: map_of_SomeD)
  qed
  then obtain final where final: "applyAll ?es' defaultAppConfig = Inr final" using accepted_applyAll by blast
  have "map_of (appConfigFileEntries final) k = map_of ?E k" for k
  proof (cases "map_of ?E k")
    case None
    then show ?thesis using entries_keys by metis
  next
    case (Some v)
    note f = applyAll_settled [OF final dist, of k] and c = applyAll_settled [OF o(1,2), of k]
    show ?thesis
      using f c Some printed(1) [OF Some] changedAppConfigKeys_iff [of k cfg nxt]
      unfolding merged_lookup [OF nxt] chg_def by (auto split: option.splits if_splits)
  qed
  moreover have "wordSized final" "wordSized nxt"
    using applyAll_wordSized [OF final] valid_wordSized defaultAppConfig_valid nxt by (auto simp: savable_def)
  ultimately have "final = nxt" by (intro entries_inj) (auto simp: fun_eq_iff)
  moreover have "parseConfigLines 1 [] defaultAppConfig (scanRaw (mergeAppConfigContent data nxt chg)) = Inr final"
    using merged_wellFormed [OF nxt] o(3) short by (intro parseConfigLines_complete [OF final dist]) auto
  ultimately show ?thesis using nxt by (simp add: parseAppConfig_def savable_def)
qed

lemma store_update_file:
  assumes "store_update readErr writeErr next0 s = Inr t"
    and "normalizeTrustedReverseProxyList (ServerTrustedReverseProxy next0) = Inr p"
  shows "fileText t = mergeAppConfigContent (fileText s) (next0\<lparr>ServerTrustedReverseProxy := p\<rparr>)
           (changedAppConfigKeys (store_cfg s) (next0\<lparr>ServerTrustedReverseProxy := p\<rparr>))"
  using assms by (auto simp: store_update_def Let_def fileText_def split: option.splits if_splits)

text \<open>Every accepted update of a consistent store ends in the settings that were asked for.\<close>

lemma store_update_result:
  assumes "storeConsistent s" and "store_update readErr writeErr next0 s = Inr t"
    and "normalizeTrustedReverseProxyList (ServerTrustedReverseProxy next0) = Inr p"
    and "normalizeTrustedReverseProxyList p = Inr p"
  shows "storeConsistent t \<and> store_cfg t = next0\<lparr>ServerTrustedReverseProxy := p\<rparr>"
proof -
  let ?nxt = "next0\<lparr>ServerTrustedReverseProxy := p\<rparr>"
  let ?content = "mergeAppConfigContent (fileText s) ?nxt (changedAppConfigKeys (store_cfg s) ?nxt)"
  have valid: "validateAppConfig ?nxt = None" and new: "parseAppConfig ?content = Inr (store_cfg t)"
    using assms(2,3) by (auto simp: store_update_def Let_def fileText_def split: option.splits if_splits)
  have saved: "fileText t = ?content" using assms(2,3) by (rule store_update_file)
  have "parseAppConfig ?content = Inr ?nxt"
    by (rule merged_config)
      (use assms(1,4) valid parseAppConfig_entries(3) [OF new] in \<open>auto simp: storeConsistent_def savable_def\<close>)
  then show ?thesis using new saved by (simp add: storeConsistent_def)
qed

lemma store_update_succeeds:
  assumes "storeConsistent s"
    and "normalizeTrustedReverseProxyList (ServerTrustedReverseProxy next0) = Inr p"
    and "savable (next0\<lparr>ServerTrustedReverseProxy := p\<rparr>)"
    and "\<forall>raw \<in> set (scanRaw (mergeAppConfigContent (fileText s) (next0\<lparr>ServerTrustedReverseProxy := p\<rparr>)
           (changedAppConfigKeys (store_cfg s) (next0\<lparr>ServerTrustedReverseProxy := p\<rparr>)))). length raw < 64 * 1024"
  shows "\<exists>t. store_update None None next0 s = Inr t \<and> storeConsistent t \<and> store_cfg t = next0\<lparr>ServerTrustedReverseProxy := p\<rparr>"
proof -
  let ?nxt = "next0\<lparr>ServerTrustedReverseProxy := p\<rparr>"
  let ?content = "mergeAppConfigContent (fileText s) ?nxt (changedAppConfigKeys (store_cfg s) ?nxt)"
  have new: "parseAppConfig ?content = Inr ?nxt"
    by (rule merged_config) (use assms in \<open>simp_all add: storeConsistent_def\<close>)
  let ?t = "if ?content \<noteq> fileText s then s\<lparr>store_file := Some ?content, store_cfg := ?nxt\<rparr> else s\<lparr>store_cfg := ?nxt\<rparr>"
  have "store_update None None next0 s = Inr ?t"
    using assms(2,3) new by (simp add: store_update_def savable_def Let_def fileText_def)
  moreover have "fileText ?t = ?content" by (auto simp: fileText_def)
  ultimately show ?thesis using new by (intro exI [of _ ?t]) (simp add: storeConsistent_def)
qed

text \<open>
  C19: the settings that are saved are the settings in effect. When the configuration in memory is
  what the file says, updating it to valid settings succeeds as long as the disk works and no line
  grows beyond the scanner's 64 KiB, whatever comments, blanks, order and line ends the file
  has. The configuration in memory afterwards is the one that was asked for, with the proxy
  list in normal form, and it is what the file says again.
\<close>

theorem config_update_takes_effect:
  assumes "storeConsistent s"
    and "normalizeTrustedReverseProxyList (ServerTrustedReverseProxy next0) = Inr p"
    and "savable (next0\<lparr>ServerTrustedReverseProxy := p\<rparr>)"
    and "\<forall>raw \<in> set (scanRaw (mergeAppConfigContent (fileText s) (next0\<lparr>ServerTrustedReverseProxy := p\<rparr>)
           (changedAppConfigKeys (store_cfg s) (next0\<lparr>ServerTrustedReverseProxy := p\<rparr>)))). length raw < 64 * 1024"
  shows "\<exists>t. store_update None None next0 s = Inr t \<and> storeConsistent t \<and> store_cfg t = next0\<lparr>ServerTrustedReverseProxy := p\<rparr>"
  using assms by (rule store_update_succeeds)

text \<open>A store for the example, and an update of its login limit.\<close>

lemma sampleStore_consistent: "storeConsistent sampleStore"
  using sampleStore_parses by (simp add: storeConsistent_def fileText_def sampleStore_def)

definition sampleNext :: appConfig where
  "sampleNext = defaultAppConfig\<lparr>WebLoginMaxTries := 3\<rparr>"

lemma sampleNext_savable: "savable sampleNext" "ServerTrustedReverseProxy sampleNext = []"
  by code_simp+

definition shortLines :: "nat \<Rightarrow> string \<Rightarrow> bool" where
  "shortLines n text \<longleftrightarrow> (\<forall>raw \<in> set (scanRaw text). length raw \<le> n)"

lemma length_setValue: "length (setValue v raw) \<le> length raw + length v + 1"
proof -
  have "length (lineText raw) \<le> length raw" by (simp add: lineText_def TrimSuffix_def)
  then show ?thesis by (auto simp: setValue_def split: option.splits)
qed

lemma merged_shortLines:
  assumes "savable cfg" and "\<forall>e \<in> set (appConfigFileEntries cfg). length (entryLine e) \<le> n" and "shortLines m text"
  shows "shortLines (m + n) (mergeAppConfigContent text cfg chg)"
proof -
  let ?E = "appConfigFileEntries cfg"
  have v: "length v < n" if "map_of ?E k = Some v" for k v
    using assms(2) map_of_SomeD [OF that] by (fastforce simp: entryLine_def)
  have "length (setValue x raw) \<le> length raw + n" if "map_of ?E k = Some x" for k x raw
    using v [OF that] length_setValue [of x raw] by linarith
  then have re: "length (rewriteLine ?E chg raw) \<le> length raw + n" for raw
    by (auto simp: rewriteLine_def split: lineKind.splits option.splits)
  have "length (rewriteLine ?E chg raw) \<le> m + n" if "raw \<in> set (scanRaw text)" for raw
    using re [of raw] that assms(3) by (force simp: shortLines_def)
  moreover have "length (entryLine e) \<le> m + n" if "e \<in> set ?E" for e using assms(2) that by force
  ultimately show ?thesis
    unfolding shortLines_def merged_file_lines [OF savable_printable [OF assms(1)]] by auto
qed

lemma sample_short:
  "\<forall>raw \<in> set (scanRaw (mergeAppConfigContent (fileText sampleStore) sampleNext chg)). length raw < 64 * 1024"
proof -
  have scan: "scanRaw (fileText sampleStore) = [''# mine'']" and "kindOf ''# mine'' = Blank" by code_simp+
  then have same: "map (rewriteLine E chg) (scanRaw (fileText sampleStore)) = [''# mine'']" for E
    by (simp add: rewriteLine_def)
  have "\<forall>e \<in> set (appConfigFileEntries sampleNext). length (entryLine e) < 64 * 1024"
    by (simp add: appConfigFileEntries_def sampleNext_def defaultAppConfig_def entryLine_def Itoa_def natDigits.simps)
  then show ?thesis
    unfolding merged_file_lines [OF savable_printable [OF sampleNext_savable(1)]] same by auto
qed

theorem config_update_takes_effect_witness:
  "\<exists>t. store_update None None sampleNext sampleStore = Inr t \<and> storeConsistent t \<and> store_cfg t = sampleNext"
proof -
  have proxy: "normalizeTrustedReverseProxyList (ServerTrustedReverseProxy sampleNext) = Inr []"
    using sampleNext_savable by (simp add: savable_def)
  have same: "sampleNext\<lparr>ServerTrustedReverseProxy := []\<rparr> = sampleNext" using sampleNext_savable(2) by simp
  from config_update_takes_effect [OF sampleStore_consistent proxy] show ?thesis
    unfolding same using sampleNext_savable(1) sample_short by blast
qed

end
