(* ===== verification/Service_Config.thy ===== *)
theory Service_Config
  imports Config_Roundtrip Sleep_Wake User_Admin
begin

text \<open>
  The handlers of \<^verbatim>\<open>first_run.go\<close>: whether the first run is completed, completing it, and reading and
  changing the service configuration, with what a change means for the login limiter, the
  history index and the sleep timer.
\<close>

section \<open>State and requests\<close>

text \<open>
  \<open>sc_historyChanged\<close> is the channel that wakes the history indexer: \<open>None\<close> is no channel,
  otherwise whether its one place is taken.
\<close>

record serviceState =
  sc_store :: appConfigStore
  sc_limiter :: "loginLimiter option"
  sc_historyChanged :: "bool option"
  sc_engine :: engineState

definition notifyHistoryIntervalChanged :: "bool option \<Rightarrow> bool option" where
  "notifyHistoryIntervalChanged ch = map_option (\<lambda>_. True) ch"

text \<open>The body of a change: the fields that are present.\<close>

record serviceConfigRequest =
  rq_history :: "int option"
  rq_sleep :: "int option"
  rq_tries :: "int option"
  rq_overall :: "int option"
  rq_cooldown :: "int option"
  rq_proxy :: "string option"

definition orElse :: "'a option \<Rightarrow> 'a \<Rightarrow> 'a" where
  "orElse x y = (case x of Some v \<Rightarrow> v | None \<Rightarrow> y)"

definition patchedConfig :: "serviceConfigRequest \<Rightarrow> appConfig \<Rightarrow> appConfig res" where
  "patchedConfig req cfg =
     (let cfg1 = cfg\<lparr>HistoryIndexRefreshInterval := orElse (rq_history req) (HistoryIndexRefreshInterval cfg),
                     ClamAVSleepTimer := orElse (rq_sleep req) (ClamAVSleepTimer cfg),
                     WebLoginMaxTries := orElse (rq_tries req) (WebLoginMaxTries cfg),
                     WebLoginMaxTriesOverall := orElse (rq_overall req) (WebLoginMaxTriesOverall cfg),
                     WebLoginCooldownInterval := orElse (rq_cooldown req) (WebLoginCooldownInterval cfg)\<rparr>
      in case rq_proxy req of
           None \<Rightarrow> Inr cfg1
         | Some text \<Rightarrow> bind_res (normalizeTrustedReverseProxyList text)
             (\<lambda>trusted. Inr (cfg1\<lparr>ServerTrustedReverseProxy := trusted\<rparr>)))"

definition appConfigJSON :: "appConfig \<Rightarrow> json" where
  "appConfigJSON cfg =
     JObject [(''history_index_refresh_interval'', JNumber (HistoryIndexRefreshInterval cfg)),
       (''clamav_sleep_timer'', JNumber (ClamAVSleepTimer cfg)),
       (''web_firstrun_completed'', JNumber (WebFirstRunCompleted cfg)),
       (''web_login_max_tries'', JNumber (WebLoginMaxTries cfg)),
       (''web_login_max_tries_overall'', JNumber (WebLoginMaxTriesOverall cfg)),
       (''web_login_cooldown_interval'', JNumber (WebLoginCooldownInterval cfg)),
       (''server_trusted_reverseproxy'', JString (ServerTrustedReverseProxy cfg))]"

section \<open>Handlers\<close>

definition loginSettingsDiffer :: "appConfig \<Rightarrow> appConfig \<Rightarrow> bool" where
  "loginSettingsDiffer a b \<longleftrightarrow> WebLoginMaxTries a \<noteq> WebLoginMaxTries b \<or>
     WebLoginMaxTriesOverall a \<noteq> WebLoginMaxTriesOverall b \<or> WebLoginCooldownInterval a \<noteq> WebLoginCooldownInterval b"

text \<open>What follows a stored change from the configuration \<open>old\<close>, read before, to \<open>cfg\<close>.\<close>

definition announceConfig :: "appConfig \<Rightarrow> appConfig \<Rightarrow> serviceState \<Rightarrow> serviceState" where
  "announceConfig old cfg s =
     (let s1 = (if loginSettingsDiffer old cfg then s\<lparr>sc_limiter := map_option resetLocked (sc_limiter s)\<rparr> else s);
          s2 = (if HistoryIndexRefreshInterval old \<noteq> HistoryIndexRefreshInterval cfg
                then s1\<lparr>sc_historyChanged := notifyHistoryIntervalChanged (sc_historyChanged s1)\<rparr> else s1)
      in if ClamAVSleepTimer old \<noteq> ClamAVSleepTimer cfg
         then s2\<lparr>sc_engine := notifyClamAVSleepTimerChanged (sc_engine s2)\<rparr> else s2)"

text \<open>
  A change, from the moment the current configuration \<open>old\<close> has been read: another request may
  have stored a configuration in the meantime.
\<close>

definition patchServiceConfig ::
    "goerror option \<Rightarrow> goerror option \<Rightarrow> serviceConfigRequest \<Rightarrow> appConfig \<Rightarrow> serviceState \<Rightarrow> response \<times> serviceState" where
  "patchServiceConfig readErr writeErr req old s =
     (case patchedConfig req old of
        Inl e \<Rightarrow> (writeError StatusBadRequest e, s)
      | Inr cfg \<Rightarrow>
          (case store_update readErr writeErr cfg (sc_store s) of
             Inl e \<Rightarrow> (writeError StatusBadRequest e, s)
           | Inr store \<Rightarrow>
               (writeJSON StatusOK (appConfigJSON (store_cfg store)), announceConfig old cfg (s\<lparr>sc_store := store\<rparr>))))"

definition handleServiceConfig ::
    "httpMethod \<Rightarrow> actor option \<Rightarrow> goerror option \<Rightarrow> goerror option \<Rightarrow> serviceConfigRequest res \<Rightarrow> serviceState \<Rightarrow>
     response \<times> serviceState" where
  "handleServiceConfig method ctx readErr writeErr body s =
     (case requireAdminActor ctx of
        Inl e \<Rightarrow> (writeError StatusForbidden e, s)
      | Inr _ \<Rightarrow>
          (case method of
             MethodGet \<Rightarrow> (writeJSON StatusOK (appConfigJSON (store_cfg (sc_store s))), s)
           | MethodPatch \<Rightarrow>
               (case body of
                  Inl e \<Rightarrow> (writeError StatusBadRequest e, s)
                | Inr req \<Rightarrow> patchServiceConfig readErr writeErr req (store_cfg (sc_store s)) s)
           | MethodPut \<Rightarrow>
               (case body of
                  Inl e \<Rightarrow> (writeError StatusBadRequest e, s)
                | Inr req \<Rightarrow> patchServiceConfig readErr writeErr req (store_cfg (sc_store s)) s)
           | _ \<Rightarrow> (methodNotAllowed, s)))"

definition handleFirstRunStatus :: "httpMethod \<Rightarrow> serviceState \<Rightarrow> response" where
  "handleFirstRunStatus method s =
     (if method \<noteq> MethodGet then methodNotAllowed
      else writeJSON StatusOK (JObject [(''first_run'', JString
             (if WebFirstRunCompleted (store_cfg (sc_store s)) = 2 then ''completed'' else ''not_completed''))]))"

definition countActiveAdmins :: "userDB \<Rightarrow> nat" where
  "countActiveAdmins db = length (filter (\<lambda>u. usr_role u = ''admin'' \<and> usr_status u = ''active'') (db_users db))"

definition handleFirstRunComplete ::
    "httpMethod \<Rightarrow> actor option \<Rightarrow> faults \<Rightarrow> goerror option \<Rightarrow> goerror option \<Rightarrow> userDB \<Rightarrow> serviceState \<Rightarrow>
     response \<times> serviceState" where
  "handleFirstRunComplete method ctx faults readErr writeErr db s =
     (if method \<noteq> MethodPost then (methodNotAllowed, s)
      else case requireAdminActor ctx of
        Inl e \<Rightarrow> (writeError StatusForbidden e, s)
      | Inr _ \<Rightarrow>
          (case faults FirstRunCount of
             Some e \<Rightarrow> (writeError StatusInternalServerError e, s)
           | None \<Rightarrow>
               if countActiveAdmins db = 0
               then (writeError StatusConflict (ErrText ''an active administrator is required''), s)
               else (case store_update readErr writeErr ((store_cfg (sc_store s))\<lparr>WebFirstRunCompleted := 2\<rparr>) (sc_store s) of
                       Inl e \<Rightarrow> (writeError StatusInternalServerError e, s)
                     | Inr store \<Rightarrow>
                         (writeJSON StatusOK (JObject [(''status'', JString ''success''), (''first_run'', JString ''completed'')]),
                          s\<lparr>sc_store := store\<rparr>))))"

section \<open>Properties\<close>

lemma announceConfig_store [simp]: "sc_store (announceConfig old cfg s) = sc_store s"
  by (simp add: announceConfig_def Let_def)

lemma announceConfig_effects:
  "sc_limiter (announceConfig old cfg s) = (if loginSettingsDiffer old cfg then map_option resetLocked (sc_limiter s) else sc_limiter s)"
  "sc_historyChanged (announceConfig old cfg s) =
     (if HistoryIndexRefreshInterval old \<noteq> HistoryIndexRefreshInterval cfg then map_option (\<lambda>_. True) (sc_historyChanged s)
      else sc_historyChanged s)"
  "en_timer (sc_engine (announceConfig old cfg s)) =
     (if ClamAVSleepTimer old \<noteq> ClamAVSleepTimer cfg then map_option advance (en_timer (sc_engine s)) else en_timer (sc_engine s))"
  by (simp_all add: announceConfig_def Let_def notifyHistoryIntervalChanged_def notifyClamAVSleepTimerChanged_def)

text \<open>The proxy list of the changed configuration is a fixed point of normalisation.\<close>

definition normalProxies :: "serviceConfigRequest \<Rightarrow> appConfig \<Rightarrow> bool" where
  "normalProxies req old \<longleftrightarrow>
     (case patchedConfig req old of
        Inl _ \<Rightarrow> True
      | Inr cfg \<Rightarrow> normalizeTrustedReverseProxyList (ServerTrustedReverseProxy cfg) = Inr (ServerTrustedReverseProxy cfg))"

lemma patchServiceConfig_result:
  assumes "patchServiceConfig readErr writeErr req old s = (r, t)" and "storeConsistent (sc_store s)" and "normalProxies req old"
  shows "rsp_status r = StatusBadRequest \<and> t = s \<or>
    rsp_status r = StatusOK \<and>
    (\<exists>cfg. patchedConfig req old = Inr cfg \<and> store_cfg (sc_store t) = cfg \<and> storeConsistent (sc_store t) \<and>
       t = announceConfig old cfg (s\<lparr>sc_store := sc_store t\<rparr>))"
proof (cases "patchedConfig req old")
  case (Inr cfg)
  show ?thesis
  proof (cases "store_update readErr writeErr cfg (sc_store s)")
    case (Inr store)
    have p: "normalizeTrustedReverseProxyList (ServerTrustedReverseProxy cfg) = Inr (ServerTrustedReverseProxy cfg)"
      using assms(3) \<open>patchedConfig req old = Inr cfg\<close> by (simp add: normalProxies_def)
    have "storeConsistent store \<and> store_cfg store = cfg"
      using store_update_result [OF assms(2) Inr p p] by simp
    then show ?thesis using assms(1) Inr \<open>patchedConfig req old = Inr cfg\<close> by (auto simp: patchServiceConfig_def)
  qed (use assms(1) Inr in \<open>auto simp: patchServiceConfig_def\<close>)
qed (use assms(1) in \<open>auto simp: patchServiceConfig_def\<close>)

text \<open>
  a change of the service configuration does what it says. For an administrator, an accepted
  change leaves in memory and in the file the old configuration with exactly the given
  fields replaced; it empties the login limiter when a login setting changed, and wakes the
  history indexer and the sleep timer when their interval changed, and otherwise leaves them
  alone. A refused change leaves everything as it was, and nobody else changes anything.
\<close>

theorem service_config_change_exact:
  assumes "handleServiceConfig MethodPatch ctx readErr writeErr (Inr req) s = (r, t)"
    and "storeConsistent (sc_store s)" and "normalProxies req (store_cfg (sc_store s))"
  shows "rsp_status r \<noteq> StatusOK \<and> t = s \<or>
    rsp_status r = StatusOK \<and> (\<exists>who cfg. requireAdminActor ctx = Inr who \<and>
       patchedConfig req (store_cfg (sc_store s)) = Inr cfg \<and> store_cfg (sc_store t) = cfg \<and> storeConsistent (sc_store t) \<and>
       sc_limiter t = (if loginSettingsDiffer (store_cfg (sc_store s)) cfg then map_option resetLocked (sc_limiter s) else sc_limiter s) \<and>
       sc_historyChanged t =
         (if HistoryIndexRefreshInterval (store_cfg (sc_store s)) \<noteq> HistoryIndexRefreshInterval cfg
          then map_option (\<lambda>_. True) (sc_historyChanged s) else sc_historyChanged s) \<and>
       en_timer (sc_engine t) =
         (if ClamAVSleepTimer (store_cfg (sc_store s)) \<noteq> ClamAVSleepTimer cfg
          then map_option advance (en_timer (sc_engine s)) else en_timer (sc_engine s)))"
proof (cases "requireAdminActor ctx")
  case (Inl e)
  then show ?thesis using assms(1) by (auto simp: handleServiceConfig_def)
next
  case (Inr who)
  then have patch: "patchServiceConfig readErr writeErr req (store_cfg (sc_store s)) s = (r, t)"
    using assms(1) by (simp add: handleServiceConfig_def)
  from patchServiceConfig_result [OF this assms(2,3)] show ?thesis
  proof
    assume ok: "rsp_status r = StatusOK \<and>
      (\<exists>cfg. patchedConfig req (store_cfg (sc_store s)) = Inr cfg \<and> store_cfg (sc_store t) = cfg \<and> storeConsistent (sc_store t) \<and>
         t = announceConfig (store_cfg (sc_store s)) cfg (s\<lparr>sc_store := sc_store t\<rparr>))"
    then obtain cfg where cfg: "patchedConfig req (store_cfg (sc_store s)) = Inr cfg" "store_cfg (sc_store t) = cfg"
        "storeConsistent (sc_store t)" and t: "t = announceConfig (store_cfg (sc_store s)) cfg (s\<lparr>sc_store := sc_store t\<rparr>)" by blast
    have "sc_limiter t = (if loginSettingsDiffer (store_cfg (sc_store s)) cfg then map_option resetLocked (sc_limiter s) else sc_limiter s)"
      by (subst t) (simp add: announceConfig_effects)
    moreover have "sc_historyChanged t =
         (if HistoryIndexRefreshInterval (store_cfg (sc_store s)) \<noteq> HistoryIndexRefreshInterval cfg
          then map_option (\<lambda>_. True) (sc_historyChanged s) else sc_historyChanged s)"
      by (subst t) (simp add: announceConfig_effects)
    moreover have "en_timer (sc_engine t) =
         (if ClamAVSleepTimer (store_cfg (sc_store s)) \<noteq> ClamAVSleepTimer cfg
          then map_option advance (en_timer (sc_engine s)) else en_timer (sc_engine s))"
      by (subst t) (simp add: announceConfig_effects)
    ultimately show ?thesis using ok cfg Inr by blast
  qed simp
qed

text \<open>
  C40: of two changes that are made at the same time one is lost. Two requests that have both read
  the same configuration are both answered with 200, but afterwards the configuration is the
  one of the second request alone: whatever the first changed is undone, and when that was the
  sleep timer's interval, the timer is not told that it is back at its old value.
\<close>

theorem concurrent_config_changes_are_lost:
  assumes "storeConsistent (sc_store s)" and "normalProxies first (store_cfg (sc_store s))"
    and "normalProxies second (store_cfg (sc_store s))"
    and "patchServiceConfig None None first (store_cfg (sc_store s)) s = (r1, s1)" and "rsp_status r1 = StatusOK"
    and "patchServiceConfig None None second (store_cfg (sc_store s)) s1 = (r2, s2)" and "rsp_status r2 = StatusOK"
  shows "patchedConfig second (store_cfg (sc_store s)) = Inr (store_cfg (sc_store s2)) \<and>
    (rq_sleep second = None \<longrightarrow> ClamAVSleepTimer (store_cfg (sc_store s2)) = ClamAVSleepTimer (store_cfg (sc_store s)) \<and>
       en_timer (sc_engine s2) = en_timer (sc_engine s1))"
proof -
  let ?old = "store_cfg (sc_store s)"
  have c1: "storeConsistent (sc_store s1)" using patchServiceConfig_result [OF assms(4,1,2)] assms(5) by auto
  obtain cfg where cfg: "patchedConfig second ?old = Inr cfg" "store_cfg (sc_store s2) = cfg"
    and s2: "s2 = announceConfig ?old cfg (s1\<lparr>sc_store := sc_store s2\<rparr>)"
    using patchServiceConfig_result [OF assms(6) c1 assms(3)] assms(7) by auto
  have sleep: "ClamAVSleepTimer cfg = ClamAVSleepTimer ?old" if "rq_sleep second = None"
    using cfg(1) that by (auto simp: patchedConfig_def orElse_def Let_def split: option.splits)
  have "en_timer (sc_engine s2) = en_timer (sc_engine s1)" if "rq_sleep second = None"
    by (subst s2) (simp add: announceConfig_effects sleep [OF that])
  then show ?thesis using cfg sleep by auto
qed

section \<open>Worked examples\<close>

definition shortEntries :: "nat \<Rightarrow> appConfig \<Rightarrow> bool" where
  "shortEntries n cfg \<longleftrightarrow> (\<forall>e \<in> set (appConfigFileEntries cfg). length (entryLine e) \<le> n)"

lemma patchServiceConfig_accepts:
  assumes "patchedConfig req old = Inr cfg" and "savable cfg" and "shortEntries n cfg"
    and "storeConsistent (sc_store s)" and "shortLines m (fileText (sc_store s))" and "m + n < 64 * 1024"
  shows "rsp_status (fst (patchServiceConfig None None req old s)) = StatusOK \<and>
    shortLines (m + n) (fileText (sc_store (snd (patchServiceConfig None None req old s))))"
proof -
  let ?p = "ServerTrustedReverseProxy cfg"
  have p: "normalizeTrustedReverseProxyList ?p = Inr ?p" using assms(2) by (simp add: savable_def)
  have short: "shortLines (m + n) (mergeAppConfigContent (fileText (sc_store s)) cfg chg)" for chg
    using assms(2,3,5) by (intro merged_shortLines) (simp_all add: shortEntries_def)
  then have len: "\<forall>raw \<in> set (scanRaw (mergeAppConfigContent (fileText (sc_store s)) cfg chg)). length raw < 64 * 1024" for chg
    using assms(6) by (fastforce simp: shortLines_def)
  obtain store where store: "store_update None None cfg (sc_store s) = Inr store"
    using store_update_succeeds [OF assms(4) p] assms(2) len by auto
  then have "fileText store = mergeAppConfigContent (fileText (sc_store s)) cfg (changedAppConfigKeys (store_cfg (sc_store s)) cfg)"
    using store_update_file [OF _ p] by simp
  then show ?thesis using store assms(1) short by (simp add: patchServiceConfig_def)
qed

definition emptyRequest :: serviceConfigRequest where
  "emptyRequest = \<lparr> rq_history = None, rq_sleep = None, rq_tries = None, rq_overall = None, rq_cooldown = None, rq_proxy = None \<rparr>"

definition sampleService :: serviceState where
  "sampleService = \<lparr> sc_store = sampleStore, sc_limiter = Some newLoginLimiter, sc_historyChanged = Some False,
     sc_engine = sampleEngine False \<rparr>"

definition switchOff :: serviceConfigRequest where "switchOff = emptyRequest\<lparr>rq_sleep := Some 0\<rparr>"
definition longCooldown :: serviceConfigRequest where "longCooldown = emptyRequest\<lparr>rq_cooldown := Some 900\<rparr>"
definition sampleAdmin :: actor where "sampleAdmin = sampleUser\<lparr>Role := ''admin''\<rparr>"

lemma sample_patches:
  "patchedConfig switchOff defaultAppConfig = Inr (defaultAppConfig\<lparr>ClamAVSleepTimer := 0\<rparr>)"
  "patchedConfig longCooldown defaultAppConfig = Inr (defaultAppConfig\<lparr>WebLoginCooldownInterval := 900\<rparr>)"
  by (simp_all add: patchedConfig_def switchOff_def longCooldown_def emptyRequest_def orElse_def defaultAppConfig_def)

lemma sample_savable: "savable (defaultAppConfig\<lparr>ClamAVSleepTimer := 0\<rparr>)" "savable (defaultAppConfig\<lparr>WebLoginCooldownInterval := 900\<rparr>)"
  by code_simp+

lemma sample_entries:
  "shortEntries 100 (defaultAppConfig\<lparr>ClamAVSleepTimer := 0\<rparr>)" "shortEntries 100 (defaultAppConfig\<lparr>WebLoginCooldownInterval := 900\<rparr>)"
  by (simp_all add: shortEntries_def appConfigFileEntries_def defaultAppConfig_def entryLine_def Itoa_def natDigits.simps)

lemma sample_normal: "normalProxies switchOff defaultAppConfig" "normalProxies longCooldown defaultAppConfig"
  using sample_savable by (simp_all add: normalProxies_def sample_patches savable_def)

lemma sampleService_store: "store_cfg (sc_store sampleService) = defaultAppConfig" "storeConsistent (sc_store sampleService)"
  "shortLines 100 (fileText (sc_store sampleService))"
proof -
  have "scanRaw (fileText sampleStore) = [''# mine'']" by code_simp
  then show "shortLines 100 (fileText (sc_store sampleService))" by (simp add: sampleService_def shortLines_def)
qed (simp_all add: sampleService_def sampleStore_consistent, simp add: sampleStore_def)

theorem service_config_change_exact_witness:
  "rsp_status (fst (handleServiceConfig MethodPatch (Some sampleAdmin) None None (Inr switchOff) sampleService)) = StatusOK \<and>
   store_cfg (sc_store (snd (handleServiceConfig MethodPatch (Some sampleAdmin) None None (Inr switchOff) sampleService))) =
     defaultAppConfig\<lparr>ClamAVSleepTimer := 0\<rparr>"
proof -
  let ?out = "handleServiceConfig MethodPatch (Some sampleAdmin) None None (Inr switchOff) sampleService"
  have admin: "requireAdminActor (Some sampleAdmin) = Inr sampleAdmin" by code_simp
  have ok: "rsp_status (fst ?out) = StatusOK"
    using patchServiceConfig_accepts [OF sample_patches(1) sample_savable(1) sample_entries(1) sampleService_store(2,3)]
    by (simp add: handleServiceConfig_def admin sampleService_store(1))
  show ?thesis
    using service_config_change_exact [of "Some sampleAdmin" None None switchOff sampleService "fst ?out" "snd ?out"]
      sampleService_store(1,2) sample_normal(1) ok sample_patches(1) by auto
qed

theorem concurrent_config_changes_are_lost_witness:
  "\<exists>s1 s2. s1 = snd (patchServiceConfig None None switchOff defaultAppConfig sampleService) \<and>
     s2 = snd (patchServiceConfig None None longCooldown defaultAppConfig s1) \<and>
     store_cfg (sc_store s2) = defaultAppConfig\<lparr>WebLoginCooldownInterval := 900\<rparr>"
proof -
  let ?o1 = "patchServiceConfig None None switchOff defaultAppConfig sampleService"
  let ?o2 = "patchServiceConfig None None longCooldown defaultAppConfig (snd ?o1)"
  have first: "rsp_status (fst ?o1) = StatusOK" "shortLines (100 + 100) (fileText (sc_store (snd ?o1)))"
    using patchServiceConfig_accepts [OF sample_patches(1) sample_savable(1) sample_entries(1) sampleService_store(2,3)] by simp_all
  have "storeConsistent (sc_store (snd ?o1))"
    using patchServiceConfig_result [of None None switchOff defaultAppConfig sampleService "fst ?o1" "snd ?o1"]
      sampleService_store(2) sample_normal(1) first(1) by auto
  then have second: "rsp_status (fst ?o2) = StatusOK"
    using patchServiceConfig_accepts [OF sample_patches(2) sample_savable(2) sample_entries(2) _ first(2)] by simp
  have old: "store_cfg (sc_store sampleService) = defaultAppConfig" by (rule sampleService_store(1))
  show ?thesis
    using concurrent_config_changes_are_lost [of sampleService switchOff longCooldown "fst ?o1" "snd ?o1" "fst ?o2" "snd ?o2"]
      sampleService_store(2) sample_normal first(1) second sample_patches(2) by (auto simp: old)
qed

end
