(* ===== verification/History_Watch.thy ===== *)
theory History_Watch
  imports History_Index Service_Config
begin

text \<open>
  The two goroutines that keep the history index current (\<^verbatim>\<open>server/history_index.go\<close>):
  \<^verbatim>\<open>watchHistoryJobFiles\<close>, which turns file events into requests and starts the watcher again when it
  fails, and \<^verbatim>\<open>runHistoryIndexer\<close>, which collects the requests and refreshes the index after a pause,
  after watcher errors and periodically. Both are step functions over one shared state; the
  inductive relation \<open>indexStep\<close> interleaves them with the clock, the configuration requests and
  the shutdown, and a run lists its events with their instants, the newest first. Straight-line code
  takes no time; a refresh of the index takes as long as it likes.
\<close>

section \<open>Timers\<close>

text \<open>
  A Go timer: the instant it is going to fire at, while it is running, and whether its channel
  holds a tick. \<open>fireTimer\<close> is what the runtime does as time passes.
\<close>

record goTimer =
  tm_deadline :: "gotime option"
  tm_tick :: bool

definition NewTimer :: "gotime \<Rightarrow> duration \<Rightarrow> goTimer" where
  "NewTimer now d = \<lparr> tm_deadline = Some (now + d), tm_tick = False \<rparr>"

definition fireTimer :: "gotime \<Rightarrow> goTimer \<Rightarrow> goTimer" where
  "fireTimer now t =
     (case tm_deadline t of
        Some d \<Rightarrow> if d \<le> now then \<lparr> tm_deadline = None, tm_tick = True \<rparr> else t
      | None \<Rightarrow> t)"

definition StopTimer :: "goTimer \<Rightarrow> bool \<times> goTimer" where
  "StopTimer t = (tm_deadline t \<noteq> None, t\<lparr>tm_deadline := None\<rparr>)"

definition ResetTimer :: "gotime \<Rightarrow> duration \<Rightarrow> goTimer \<Rightarrow> goTimer" where
  "ResetTimer now d t = t\<lparr>tm_deadline := Some (now + d)\<rparr>"

definition stopAndDrain :: "goTimer \<Rightarrow> goTimer" where
  "stopAndDrain t = (case StopTimer t of (stopped, t1) \<Rightarrow> if stopped then t1 else t1\<lparr>tm_tick := False\<rparr>)"

text \<open>The retired timer and its replacement.\<close>

definition restartHistoryPeriodicTimer :: "gotime \<Rightarrow> goTimer \<Rightarrow> duration \<Rightarrow> goTimer \<times> goTimer" where
  "restartHistoryPeriodicTimer now timer interval = (stopAndDrain timer, NewTimer now interval)"

section \<open>State\<close>

record historyIndexRequest =
  req_path :: string
  req_full :: bool

definition historyIndexEventDebounce :: duration where "historyIndexEventDebounce = 150 * (Second div 1000)"
definition historyWatcherErrorRefreshCooldown :: duration where "historyWatcherErrorRefreshCooldown = 60 * Second"
definition historyWatchMaxConsecutiveRetryCount :: nat where "historyWatchMaxConsecutiveRetryCount = 10"
definition requestCapacity :: nat where "requestCapacity = 128"

text \<open>
  Where \<^verbatim>\<open>watchHistoryJobFiles\<close> stands: about to create a watcher, waiting until an instant before it
  tries again, at its \<^verbatim>\<open>select\<close>, sending a request, or finished.
\<close>

datatype watchPC = WatchInit | WatchDelay gotime | WatchSelect | WatchSend historyIndexRequest | WatchReturned

text \<open>
  The variables of both goroutines and what they share. \<open>ix_owed\<close> counts the configuration
  requests that have stored a new interval and have not yet sent their notification; \<open>ix_armed\<close>
  remembers the interval, in seconds, that the periodic timer was last started with.
\<close>

record indexSystem =
  ix_now :: gotime
  ix_cancelled :: bool
  ix_interval :: int
  ix_owed :: nat
  ix_intervalChanged :: bool
  ix_watcher :: watchPC
  ix_consecutiveFailures :: nat
  ix_requests :: "historyIndexRequest list"
  ix_running :: bool
  ix_db :: historyDB
  ix_pendingPaths :: "string list"
  ix_debounceTimer :: "goTimer option"
  ix_debounce :: bool
  ix_watcherErrorTimer :: "goTimer option"
  ix_watcherErrorRefresh :: bool
  ix_lastFullRefresh :: gotime
  ix_watcherErrorRefreshPending :: bool
  ix_periodicTimer :: goTimer
  ix_armed :: int

text \<open>The clock moves forward and the timers that are due fire.\<close>

definition elapse :: "nat \<Rightarrow> indexSystem \<Rightarrow> indexSystem" where
  "elapse d s =
     (let now = ix_now s + int d in
      s\<lparr>ix_now := now,
        ix_debounceTimer := map_option (fireTimer now) (ix_debounceTimer s),
        ix_watcherErrorTimer := map_option (fireTimer now) (ix_watcherErrorTimer s),
        ix_periodicTimer := fireTimer now (ix_periodicTimer s)\<rparr>)"

text \<open>What a step does that matters later on.\<close>

datatype indexEvent =
    Quiet
  | InitOk | InitFailed
  | Accepted string
  | Received string | Indexed "string list"
  | ErrorDeferred | ErrorRefresh
  | PeriodicRefresh bool
  | IntervalStored bool

section \<open>The watcher\<close>

text \<open>The operations of \<^verbatim>\<open>fsnotify\<close>; an event carries a set of them, as a bit mask.\<close>

datatype fsOp = FsCreate | FsWrite | FsRemove | FsRename | FsChmod

record fsEvent =
  ev_Name :: string
  ev_Op :: "fsOp list"

definition hasOp :: "fsEvent \<Rightarrow> fsOp list \<Rightarrow> bool" where
  "hasOp ev ops \<longleftrightarrow> list_ex (\<lambda>x. x \<in> set ops) (ev_Op ev)"

datatype watchAction = CloseWatch | IgnoreEvent | SendPath string

definition onWatchEvent :: "string \<Rightarrow> fsEvent \<Rightarrow> watchAction" where
  "onWatchEvent jobsDir ev =
     (if Clean (ev_Name ev) = Clean jobsDir \<and> hasOp ev [FsRemove, FsRename] then CloseWatch
      else if \<not> hasOp ev [FsCreate, FsWrite, FsRename, FsRemove] \<or> \<not> HasSuffix (Base (ev_Name ev)) ''.json''
      then IgnoreEvent
      else SendPath (Clean (ev_Name ev)))"

text \<open>What the goroutine meets: the result of creating a watcher, or the channel that is ready.\<close>

datatype watchInput =
    InitResult "goerror option"
  | WatchDone
  | RetryTimer
  | EventsClosed
  | WatchEvent fsEvent
  | ErrorsClosed
  | WatchError
  | RequestSent

definition watchStep :: "string \<Rightarrow> watchInput \<Rightarrow> indexSystem \<Rightarrow> (indexEvent \<times> indexSystem) option" where
  "watchStep jobsDir input s =
     (case ix_watcher s of
        WatchInit \<Rightarrow>
          (case input of
             InitResult (Some _) \<Rightarrow>
               (let failures = Suc (ix_consecutiveFailures s);
                    s1 = s\<lparr>ix_consecutiveFailures := failures\<rparr> in
                if historyWatchMaxConsecutiveRetryCount \<le> failures
                then Some (InitFailed, s1\<lparr>ix_watcher := WatchReturned\<rparr>)
                else Some (InitFailed, s1\<lparr>ix_watcher := WatchDelay (ix_now s + historyWatchRetryDelay (int failures))\<rparr>))
           | InitResult None \<Rightarrow> Some (InitOk, s\<lparr>ix_consecutiveFailures := 0, ix_watcher := WatchSelect\<rparr>)
           | _ \<Rightarrow> None)
      | WatchDelay deadline \<Rightarrow>
          (case input of
             WatchDone \<Rightarrow> if ix_cancelled s then Some (Quiet, s\<lparr>ix_watcher := WatchReturned\<rparr>) else None
           | RetryTimer \<Rightarrow> if deadline \<le> ix_now s then Some (Quiet, s\<lparr>ix_watcher := WatchInit\<rparr>) else None
           | _ \<Rightarrow> None)
      | WatchSelect \<Rightarrow>
          (case input of
             WatchDone \<Rightarrow> if ix_cancelled s then Some (Quiet, s\<lparr>ix_watcher := WatchReturned\<rparr>) else None
           | EventsClosed \<Rightarrow> Some (Quiet, s\<lparr>ix_watcher := WatchInit\<rparr>)
           | WatchEvent ev \<Rightarrow>
               (case onWatchEvent jobsDir ev of
                  CloseWatch \<Rightarrow> Some (Quiet, s\<lparr>ix_watcher := WatchInit\<rparr>)
                | IgnoreEvent \<Rightarrow> Some (Quiet, s)
                | SendPath p \<Rightarrow> Some (Accepted p, s\<lparr>ix_watcher := WatchSend \<lparr> req_path = p, req_full = False \<rparr>\<rparr>))
           | ErrorsClosed \<Rightarrow> Some (Quiet, s\<lparr>ix_watcher := WatchInit\<rparr>)
           | WatchError \<Rightarrow> Some (Quiet, s\<lparr>ix_watcher := WatchSend \<lparr> req_path = [], req_full = True \<rparr>\<rparr>)
           | _ \<Rightarrow> None)
      | WatchSend r \<Rightarrow>
          (case input of
             WatchDone \<Rightarrow> if ix_cancelled s then Some (Quiet, s\<lparr>ix_watcher := WatchReturned\<rparr>) else None
           | RequestSent \<Rightarrow>
               if length (ix_requests s) < requestCapacity
               then Some (Quiet, s\<lparr>ix_watcher := WatchSelect, ix_requests := ix_requests s @ [r]\<rparr>)
               else None
           | _ \<Rightarrow> None)
      | WatchReturned \<Rightarrow> None)"

section \<open>The indexer\<close>

text \<open>What a whole refresh meets, and how long it takes.\<close>

record indexWorld =
  iw_history :: historyWorld
  iw_took :: nat

definition runRefresh ::
    "string \<Rightarrow> string \<Rightarrow> indexWorld \<Rightarrow> indexSystem \<Rightarrow> goerror option \<times> indexSystem" where
  "runRefresh jobsDir logDir w s =
     (case refresh (iw_history w) jobsDir logDir (ix_db s) of
        (err, db) \<Rightarrow> (err, elapse (iw_took w) (s\<lparr>ix_db := db\<rparr>)))"

definition resetDebounce :: "indexSystem \<Rightarrow> indexSystem" where
  "resetDebounce s =
     s\<lparr>ix_debounceTimer := Some (case ix_debounceTimer s of
          None \<Rightarrow> NewTimer (ix_now s) historyIndexEventDebounce
        | Some t \<Rightarrow> ResetTimer (ix_now s) historyIndexEventDebounce (stopAndDrain t)),
       ix_debounce := True\<rparr>"

definition stopWatcherErrorTimer :: "indexSystem \<Rightarrow> indexSystem" where
  "stopWatcherErrorTimer s =
     (case ix_watcherErrorTimer s of
        None \<Rightarrow> s
      | Some _ \<Rightarrow> s\<lparr>ix_watcherErrorTimer := None, ix_watcherErrorRefresh := False\<rparr>)"

definition runWatcherErrorRefresh :: "string \<Rightarrow> string \<Rightarrow> indexWorld \<Rightarrow> indexSystem \<Rightarrow> indexSystem" where
  "runWatcherErrorRefresh jobsDir logDir w s =
     snd (runRefresh jobsDir logDir w
       (stopWatcherErrorTimer (s\<lparr>ix_lastFullRefresh := ix_now s, ix_watcherErrorRefreshPending := False\<rparr>)))"

definition scheduleWatcherErrorRefresh ::
    "string \<Rightarrow> string \<Rightarrow> indexWorld \<Rightarrow> indexSystem \<Rightarrow> indexEvent \<times> indexSystem" where
  "scheduleWatcherErrorRefresh jobsDir logDir w s =
     (let since = ix_now s - ix_lastFullRefresh s in
      if IsZero (ix_lastFullRefresh s) \<or> historyWatcherErrorRefreshCooldown \<le> since
      then (ErrorRefresh, runWatcherErrorRefresh jobsDir logDir w s)
      else
        (let s1 = s\<lparr>ix_watcherErrorRefreshPending := True\<rparr> in
         (ErrorDeferred,
          case ix_watcherErrorTimer s of
            None \<Rightarrow> s1\<lparr>ix_watcherErrorTimer := Some (NewTimer (ix_now s) (historyWatcherErrorRefreshCooldown - since)),
                       ix_watcherErrorRefresh := True\<rparr>
          | Some _ \<Rightarrow> s1)))"

text \<open>The refresh of the collected files: each meets a file system of its own and takes its time.\<close>

fun refreshPaths :: "string \<Rightarrow> string \<Rightarrow> (string \<times> indexWorld) list \<Rightarrow> indexSystem \<Rightarrow> indexSystem" where
  "refreshPaths jobsDir logDir [] s = s"
| "refreshPaths jobsDir logDir ((path, w) # rest) s =
     refreshPaths jobsDir logDir rest
       (elapse (iw_took w) (s\<lparr>ix_db := snd (refreshFileLocked (iw_history w) jobsDir logDir path (ix_db s))\<rparr>))"

definition intervalDuration :: "indexSystem \<Rightarrow> duration" where
  "intervalDuration s = ix_interval s * Second"

definition restartPeriodic :: "indexSystem \<Rightarrow> indexSystem" where
  "restartPeriodic s =
     s\<lparr>ix_periodicTimer := snd (restartHistoryPeriodicTimer (ix_now s) (ix_periodicTimer s) (intervalDuration s)),
       ix_armed := ix_interval s\<rparr>"

text \<open>
  The channel \<^verbatim>\<open>select\<close> takes. The argument of \<open>DebounceTick\<close> gives the order in which the map of
  pending paths is walked, and what each refresh meets.
\<close>

datatype loopChoice =
    LoopDone
  | IntervalSignal
  | TakeRequest indexWorld
  | DebounceTick "(string \<times> indexWorld) list"
  | WatcherErrorTick indexWorld
  | PeriodicTick indexWorld

definition takeTick :: "goTimer \<Rightarrow> goTimer option" where
  "takeTick t = (if tm_tick t then Some (t\<lparr>tm_tick := False\<rparr>) else None)"

definition onTakeRequest ::
    "string \<Rightarrow> string \<Rightarrow> indexWorld \<Rightarrow> indexSystem \<Rightarrow> (indexEvent \<times> indexSystem) option" where
  "onTakeRequest jobsDir logDir w s =
     (case ix_requests s of
        [] \<Rightarrow> None
      | r # rs \<Rightarrow>
          (let s1 = s\<lparr>ix_requests := rs\<rparr> in
           if req_full r then Some (scheduleWatcherErrorRefresh jobsDir logDir w s1)
           else Some (Received (req_path r),
                      resetDebounce (s1\<lparr>ix_pendingPaths := List.insert (req_path r) (ix_pendingPaths s)\<rparr>))))"

definition onDebounce ::
    "string \<Rightarrow> string \<Rightarrow> (string \<times> indexWorld) list \<Rightarrow> indexSystem \<Rightarrow> (indexEvent \<times> indexSystem) option" where
  "onDebounce jobsDir logDir paths s =
     (if \<not> ix_debounce s \<or> \<not> distinct (map fst paths) \<or> set (map fst paths) \<noteq> set (ix_pendingPaths s) then None
      else case Option.bind (ix_debounceTimer s) takeTick of
        None \<Rightarrow> None
      | Some t \<Rightarrow>
          Some (Indexed (map fst paths),
                refreshPaths jobsDir logDir paths
                  (s\<lparr>ix_debounceTimer := Some t, ix_pendingPaths := [], ix_debounce := False\<rparr>)))"

definition onWatcherErrorTick ::
    "string \<Rightarrow> string \<Rightarrow> indexWorld \<Rightarrow> indexSystem \<Rightarrow> (indexEvent \<times> indexSystem) option" where
  "onWatcherErrorTick jobsDir logDir w s =
     (if \<not> ix_watcherErrorRefresh s then None
      else case Option.bind (ix_watcherErrorTimer s) takeTick of
        None \<Rightarrow> None
      | Some _ \<Rightarrow>
          (let s1 = s\<lparr>ix_watcherErrorTimer := None, ix_watcherErrorRefresh := False\<rparr> in
           if ix_watcherErrorRefreshPending s
           then Some (ErrorRefresh, runWatcherErrorRefresh jobsDir logDir w s1)
           else Some (Quiet, s1)))"

definition onPeriodicTick ::
    "string \<Rightarrow> string \<Rightarrow> indexWorld \<Rightarrow> indexSystem \<Rightarrow> (indexEvent \<times> indexSystem) option" where
  "onPeriodicTick jobsDir logDir w s =
     (case takeTick (ix_periodicTimer s) of
        None \<Rightarrow> None
      | Some t \<Rightarrow>
          (case runRefresh jobsDir logDir w (s\<lparr>ix_periodicTimer := t\<rparr>) of
             (Some _, s1) \<Rightarrow> Some (PeriodicRefresh False, restartPeriodic s1)
           | (None, s1) \<Rightarrow>
               Some (PeriodicRefresh True,
                     restartPeriodic (stopWatcherErrorTimer
                       (s1\<lparr>ix_lastFullRefresh := ix_now s1, ix_watcherErrorRefreshPending := False\<rparr>)))))"

definition loopStep ::
    "string \<Rightarrow> string \<Rightarrow> loopChoice \<Rightarrow> indexSystem \<Rightarrow> (indexEvent \<times> indexSystem) option" where
  "loopStep jobsDir logDir choice s =
     (if \<not> ix_running s then None
      else case choice of
        LoopDone \<Rightarrow> if ix_cancelled s then Some (Quiet, s\<lparr>ix_running := False\<rparr>) else None
      | IntervalSignal \<Rightarrow>
          if ix_intervalChanged s then Some (Quiet, restartPeriodic (s\<lparr>ix_intervalChanged := False\<rparr>)) else None
      | TakeRequest w \<Rightarrow> onTakeRequest jobsDir logDir w s
      | DebounceTick paths \<Rightarrow> onDebounce jobsDir logDir paths s
      | WatcherErrorTick w \<Rightarrow> onWatcherErrorTick jobsDir logDir w s
      | PeriodicTick w \<Rightarrow> onPeriodicTick jobsDir logDir w s)"

section \<open>The system\<close>

text \<open>
  \<open>IntervalStored True\<close>: no other configuration request stored an interval between the moment this
  one read the configuration and the moment it stored its own.
\<close>

inductive indexStep :: "string \<Rightarrow> string \<Rightarrow> indexEvent \<Rightarrow> indexSystem \<Rightarrow> indexSystem \<Rightarrow> bool" for jobsDir logDir where
  Clock: "indexStep jobsDir logDir Quiet s (elapse d s)"
| Watch: "watchStep jobsDir input s = Some (e, t) \<Longrightarrow> indexStep jobsDir logDir e s t"
| Loop: "loopStep jobsDir logDir choice s = Some (e, t) \<Longrightarrow> indexStep jobsDir logDir e s t"
| Store: "validateAppConfig c = None \<Longrightarrow>
    indexStep jobsDir logDir (IntervalStored (old = ix_interval s)) s
      (s\<lparr>ix_interval := HistoryIndexRefreshInterval c,
         ix_owed := (if HistoryIndexRefreshInterval c \<noteq> old then Suc (ix_owed s) else ix_owed s)\<rparr>)"
| Notify: "ix_owed s = Suc n \<Longrightarrow>
    indexStep jobsDir logDir Quiet s (s\<lparr>ix_owed := n, ix_intervalChanged := (notifyHistoryIntervalChanged (Some (ix_intervalChanged s)) = Some True)\<rparr>)"
| Cancel: "indexStep jobsDir logDir Quiet s (s\<lparr>ix_cancelled := True\<rparr>)"

text \<open>The state in which \<^verbatim>\<open>runHistoryIndexer\<close> enters its loop.\<close>

definition indexInit :: "indexSystem \<Rightarrow> bool" where
  "indexInit s \<longleftrightarrow>
     0 < ix_now s \<and> \<not> ix_cancelled s \<and> 5 \<le> ix_interval s \<and> ix_owed s = 0 \<and> \<not> ix_intervalChanged s \<and>
     ix_watcher s = WatchInit \<and> ix_consecutiveFailures s = 0 \<and> ix_requests s = [] \<and> ix_running s \<and>
     ix_pendingPaths s = [] \<and> ix_debounceTimer s = None \<and> \<not> ix_debounce s \<and>
     ix_watcherErrorTimer s = None \<and> \<not> ix_watcherErrorRefresh s \<and> IsZero (ix_lastFullRefresh s) \<and>
     \<not> ix_watcherErrorRefreshPending s \<and> ix_periodicTimer s = NewTimer (ix_now s) (intervalDuration s) \<and>
     ix_armed s = ix_interval s"

inductive indexRun :: "string \<Rightarrow> string \<Rightarrow> (gotime \<times> indexEvent) list \<Rightarrow> indexSystem \<Rightarrow> bool" for jobsDir logDir where
  start: "indexInit s \<Longrightarrow> indexRun jobsDir logDir [] s"
| extend: "indexRun jobsDir logDir tr s \<Longrightarrow> indexStep jobsDir logDir e s t \<Longrightarrow>
    indexRun jobsDir logDir ((ix_now s, e) # tr) t"

section \<open>What a run owes\<close>

text \<open>
  Read off the events of a run: the paths that were accepted and not indexed since, the instant of the
  last request for a path, the first watcher error that is still waiting for its refresh, and the
  failed attempts in a row to create a watcher, the latest first.
\<close>

fun waiting :: "(gotime \<times> indexEvent) list \<Rightarrow> string set" where
  "waiting [] = {}"
| "waiting ((u, e) # tr) =
     (case e of Accepted p \<Rightarrow> insert p (waiting tr) | Indexed ps \<Rightarrow> waiting tr - set ps | _ \<Rightarrow> waiting tr)"

fun lastReceived :: "(gotime \<times> indexEvent) list \<Rightarrow> gotime option" where
  "lastReceived [] = None"
| "lastReceived ((u, e) # tr) = (case e of Received _ \<Rightarrow> Some u | _ \<Rightarrow> lastReceived tr)"

fun fullRefresh :: "indexEvent \<Rightarrow> bool" where
  "fullRefresh ErrorRefresh = True"
| "fullRefresh (PeriodicRefresh ok) = ok"
| "fullRefresh _ = False"

fun errorOwed :: "(gotime \<times> indexEvent) list \<Rightarrow> gotime option" where
  "errorOwed [] = None"
| "errorOwed ((u, e) # tr) =
     (if fullRefresh e then None
      else if e = ErrorDeferred then Some (case errorOwed tr of None \<Rightarrow> u | Some v \<Rightarrow> v)
      else errorOwed tr)"

fun failStreak :: "(gotime \<times> indexEvent) list \<Rightarrow> gotime list" where
  "failStreak [] = []"
| "failStreak ((u, e) # tr) = (case e of InitFailed \<Rightarrow> u # failStreak tr | InitOk \<Rightarrow> [] | _ \<Rightarrow> failStreak tr)"

section \<open>Timers that are going to fire\<close>

definition dueAt :: "gotime \<Rightarrow> gotime \<Rightarrow> goTimer \<Rightarrow> bool" where
  "dueAt now d t \<longleftrightarrow> t = \<lparr> tm_deadline = Some d, tm_tick = False \<rparr> \<or> d \<le> now \<and> t = \<lparr> tm_deadline = None, tm_tick = True \<rparr>"

lemma dueAt_new [simp]: "dueAt now (now + d) (NewTimer now d)"
  by (simp add: dueAt_def NewTimer_def)

lemma dueAt_new_iff: "dueAt now d (NewTimer now' k) \<longleftrightarrow> d = now' + k"
  by (auto simp: dueAt_def NewTimer_def)

lemma dueAt_fire: "dueAt now d t \<Longrightarrow> now \<le> now' \<Longrightarrow> dueAt now' d (fireTimer now' t)"
  by (auto simp: dueAt_def fireTimer_def split: if_splits)

lemma dueAt_fired: "dueAt now d t \<Longrightarrow> d \<le> now' \<Longrightarrow> takeTick (fireTimer now' t) \<noteq> None"
  by (auto simp: dueAt_def fireTimer_def takeTick_def)

lemma dueAt_takeTick: "dueAt now d t \<Longrightarrow> takeTick t = Some t' \<Longrightarrow> d \<le> now"
  by (auto simp: dueAt_def takeTick_def split: if_splits)

text \<open>The debounce timer between two uses: neither running nor holding a tick.\<close>

definition idle :: "goTimer \<Rightarrow> bool" where
  "idle t \<longleftrightarrow> t = \<lparr> tm_deadline = None, tm_tick = False \<rparr>"

lemma idle_fire [simp]: "idle t \<Longrightarrow> fireTimer now t = t"
  by (simp add: idle_def fireTimer_def)

lemma idle_takeTick: "dueAt now d t \<Longrightarrow> takeTick t = Some t' \<Longrightarrow> idle t'"
  by (auto simp: dueAt_def takeTick_def idle_def split: if_splits)

lemma dueAt_reset:
  "idle t \<Longrightarrow> dueAt now' (now' + k) (ResetTimer now' k (stopAndDrain t))"
  "dueAt now d t \<Longrightarrow> dueAt now' (now' + k) (ResetTimer now' k (stopAndDrain t))"
  by (auto simp: idle_def dueAt_def ResetTimer_def stopAndDrain_def StopTimer_def)

section \<open>What the steps leave alone\<close>

lemma elapse_simps [simp]:
  "ix_now (elapse d s) = ix_now s + int d"
  "ix_cancelled (elapse d s) = ix_cancelled s"
  "ix_interval (elapse d s) = ix_interval s"
  "ix_owed (elapse d s) = ix_owed s"
  "ix_intervalChanged (elapse d s) = ix_intervalChanged s"
  "ix_watcher (elapse d s) = ix_watcher s"
  "ix_consecutiveFailures (elapse d s) = ix_consecutiveFailures s"
  "ix_requests (elapse d s) = ix_requests s"
  "ix_running (elapse d s) = ix_running s"
  "ix_db (elapse d s) = ix_db s"
  "ix_pendingPaths (elapse d s) = ix_pendingPaths s"
  "ix_debounce (elapse d s) = ix_debounce s"
  "ix_watcherErrorRefresh (elapse d s) = ix_watcherErrorRefresh s"
  "ix_lastFullRefresh (elapse d s) = ix_lastFullRefresh s"
  "ix_watcherErrorRefreshPending (elapse d s) = ix_watcherErrorRefreshPending s"
  "ix_armed (elapse d s) = ix_armed s"
  "ix_debounceTimer (elapse d s) = map_option (fireTimer (ix_now s + int d)) (ix_debounceTimer s)"
  "ix_watcherErrorTimer (elapse d s) = map_option (fireTimer (ix_now s + int d)) (ix_watcherErrorTimer s)"
  "ix_periodicTimer (elapse d s) = fireTimer (ix_now s + int d) (ix_periodicTimer s)"
  by (simp_all add: elapse_def Let_def)

lemma watchStep_frame:
  assumes "watchStep jobsDir input s = Some (e, t)"
  shows "t = s\<lparr>ix_watcher := ix_watcher t, ix_consecutiveFailures := ix_consecutiveFailures t, ix_requests := ix_requests t\<rparr>"
  using assms
  by (auto simp: watchStep_def Let_def split: watchPC.splits watchInput.splits option.splits if_splits watchAction.splits)

lemma watchStep_event:
  assumes "watchStep jobsDir input s = Some (e, t)"
  shows "e \<in> {Quiet, InitOk, InitFailed} \<union> range Accepted"
  using assms
  by (auto simp: watchStep_def Let_def split: watchPC.splits watchInput.splits option.splits if_splits watchAction.splits)

lemma onDebounceD:
  assumes "onDebounce jobsDir logDir paths s = Some (e, t)"
  shows "ix_debounce s \<and> distinct (map fst paths) \<and> set (map fst paths) = set (ix_pendingPaths s) \<and> e = Indexed (map fst paths) \<and>
    (\<exists>tm tm'. ix_debounceTimer s = Some tm \<and> takeTick tm = Some tm' \<and>
       t = refreshPaths jobsDir logDir paths (s\<lparr>ix_debounceTimer := Some tm', ix_pendingPaths := [], ix_debounce := False\<rparr>))"
  using assms unfolding onDebounce_def by (cases "ix_debounceTimer s") (auto split: if_splits option.splits)

section \<open>Refreshes after watcher errors\<close>

definition errorInv :: "(gotime \<times> indexEvent) list \<Rightarrow> indexSystem \<Rightarrow> bool" where
  "errorInv tr s \<longleftrightarrow>
     0 < ix_now s \<and> 0 \<le> ix_lastFullRefresh s \<and> ix_lastFullRefresh s \<le> ix_now s \<and>
     (ix_watcherErrorRefreshPending s \<longleftrightarrow> errorOwed tr \<noteq> None) \<and>
     (ix_watcherErrorRefresh s \<longleftrightarrow> errorOwed tr \<noteq> None) \<and>
     (ix_watcherErrorTimer s = None \<longleftrightarrow> errorOwed tr = None) \<and>
     (\<forall>t. ix_watcherErrorTimer s = Some t \<longrightarrow>
        dueAt (ix_now s) (ix_lastFullRefresh s + historyWatcherErrorRefreshCooldown) t) \<and>
     (\<forall>(u, e) \<in> set tr. fullRefresh e \<longrightarrow> 0 < ix_lastFullRefresh s \<and> u \<le> ix_lastFullRefresh s) \<and>
     (\<forall>u. errorOwed tr = Some u \<longrightarrow> ix_lastFullRefresh s \<le> u)"

text \<open>The fields of the state that matter here, and the events that do not.\<close>

lemma errorInv_frame:
  assumes "errorInv tr s" and "\<not> fullRefresh e" and "e \<noteq> ErrorDeferred"
    and "ix_now t = ix_now s" and "ix_lastFullRefresh t = ix_lastFullRefresh s"
    and "ix_watcherErrorRefreshPending t = ix_watcherErrorRefreshPending s"
    and "ix_watcherErrorRefresh t = ix_watcherErrorRefresh s" and "ix_watcherErrorTimer t = ix_watcherErrorTimer s"
  shows "errorInv ((u, e) # tr) t"
  using assms by (simp add: errorInv_def)

lemma errorInv_elapse [intro]: "errorInv tr s \<Longrightarrow> errorInv tr (elapse d s)"
  by (auto simp: errorInv_def intro: dueAt_fire)

lemma errorInv_other:
  "errorInv tr s \<Longrightarrow> errorInv tr (s\<lparr>ix_db := db\<rparr>)"
  "errorInv tr s \<Longrightarrow> errorInv tr (s\<lparr>ix_debounceTimer := x, ix_pendingPaths := ps, ix_debounce := b\<rparr>)"
  "errorInv tr s \<Longrightarrow> errorInv tr (s\<lparr>ix_periodicTimer := p\<rparr>)"
  "errorInv tr s \<Longrightarrow> errorInv tr (restartPeriodic s)"
  "errorInv tr s \<Longrightarrow> errorInv tr (s\<lparr>ix_requests := rs\<rparr>)"
  by (simp_all add: errorInv_def restartPeriodic_def)

lemma errorInv_quiet: "errorInv tr s \<Longrightarrow> \<not> fullRefresh e \<Longrightarrow> e \<noteq> ErrorDeferred \<Longrightarrow> errorInv ((u, e) # tr) s"
  by (simp add: errorInv_def)

lemma errorInv_runRefresh: "errorInv tr s \<Longrightarrow> runRefresh jobsDir logDir w s = (err, t) \<Longrightarrow> errorInv tr t"
  by (auto simp: runRefresh_def intro: errorInv_other split: prod.splits)

lemma errorInv_refreshPaths: "errorInv tr s \<Longrightarrow> errorInv tr (refreshPaths jobsDir logDir paths s)"
  by (induction jobsDir logDir paths s rule: refreshPaths.induct) (auto intro: errorInv_other)

lemma errorInv_full:
  assumes "errorInv tr s" and "fullRefresh e" and "u \<le> ix_now s"
  shows "errorInv ((u, e) # tr) (stopWatcherErrorTimer (s\<lparr>ix_lastFullRefresh := ix_now s, ix_watcherErrorRefreshPending := False\<rparr>))"
  using assms by (cases "ix_watcherErrorTimer s") (fastforce simp: errorInv_def stopWatcherErrorTimer_def)+

lemma errorInv_runWatcherErrorRefresh:
  assumes "errorInv tr s"
  shows "errorInv ((ix_now s, ErrorRefresh) # tr) (runWatcherErrorRefresh jobsDir logDir w s)"
  unfolding runWatcherErrorRefresh_def
  by (rule errorInv_runRefresh [OF errorInv_full [OF assms]]) (auto intro: prod.collapse [symmetric])

lemma errorInv_schedule:
  assumes "errorInv tr s" and "scheduleWatcherErrorRefresh jobsDir logDir w s = (e, t)"
  shows "errorInv ((ix_now s, e) # tr) t"
proof (cases "IsZero (ix_lastFullRefresh s) \<or> historyWatcherErrorRefreshCooldown \<le> ix_now s - ix_lastFullRefresh s")
  case True
  then show ?thesis
    using assms errorInv_runWatcherErrorRefresh [OF assms(1)] by (auto simp: scheduleWatcherErrorRefresh_def)
next
  case False
  then show ?thesis
    using assms
    by (cases "ix_watcherErrorTimer s")
      (auto simp: scheduleWatcherErrorRefresh_def errorInv_def Let_def dueAt_new_iff split: option.splits)
qed

lemma errorInv_tick:
  assumes "errorInv tr s" and "onWatcherErrorTick jobsDir logDir w s = Some (e, t)"
  shows "errorInv ((ix_now s, e) # tr) t \<and> e = ErrorRefresh \<and>
    ix_lastFullRefresh s + historyWatcherErrorRefreshCooldown \<le> ix_now s"
proof -
  let ?s1 = "s\<lparr>ix_watcherErrorTimer := None, ix_watcherErrorRefresh := False\<rparr>"
  obtain tm tm' where tm: "ix_watcherErrorTimer s = Some tm" "takeTick tm = Some tm'"
    using assms(2) by (auto simp: onWatcherErrorTick_def bind_eq_Some_conv split: if_splits option.splits)
  then have late: "ix_lastFullRefresh s + historyWatcherErrorRefreshCooldown \<le> ix_now s"
    using assms(1) dueAt_takeTick by (fastforce simp: errorInv_def)
  have "stopWatcherErrorTimer (?s1\<lparr>ix_lastFullRefresh := ix_now ?s1, ix_watcherErrorRefreshPending := False\<rparr>) =
      stopWatcherErrorTimer (s\<lparr>ix_lastFullRefresh := ix_now s, ix_watcherErrorRefreshPending := False\<rparr>)"
    using tm by (cases s) (simp add: stopWatcherErrorTimer_def)
  then have "runWatcherErrorRefresh jobsDir logDir w ?s1 = runWatcherErrorRefresh jobsDir logDir w s"
    by (simp only: runWatcherErrorRefresh_def)
  moreover have "ix_watcherErrorRefreshPending s" "ix_watcherErrorRefresh s"
    using assms(1) tm(1) unfolding errorInv_def by auto
  ultimately have "e = ErrorRefresh" "t = runWatcherErrorRefresh jobsDir logDir w s"
    using assms(2) tm by (simp_all add: onWatcherErrorTick_def)
  then show ?thesis using late errorInv_runWatcherErrorRefresh [OF assms(1)] by simp
qed

lemma errorInv_periodic:
  assumes "errorInv tr s" and "onPeriodicTick jobsDir logDir w s = Some (e, t)"
  shows "errorInv ((ix_now s, e) # tr) t"
proof -
  obtain tm err s1 where r: "runRefresh jobsDir logDir w (s\<lparr>ix_periodicTimer := tm\<rparr>) = (err, s1)"
    and t: "(e, t) = (case err of None \<Rightarrow> (PeriodicRefresh True, restartPeriodic (stopWatcherErrorTimer
              (s1\<lparr>ix_lastFullRefresh := ix_now s1, ix_watcherErrorRefreshPending := False\<rparr>)))
            | Some _ \<Rightarrow> (PeriodicRefresh False, restartPeriodic s1))"
    using assms(2) by (auto simp: onPeriodicTick_def split: option.splits prod.splits)
  have inv: "errorInv tr s1" using errorInv_runRefresh [OF _ r] assms(1) errorInv_other(3) by blast
  moreover have "ix_now s \<le> ix_now s1" using r by (auto simp: runRefresh_def split: prod.splits)
  ultimately show ?thesis
    using t by (cases err) (simp_all add: errorInv_other(4) errorInv_full errorInv_quiet)
qed

lemma errorInv_loop:
  assumes "errorInv tr s" and "loopStep jobsDir logDir choice s = Some (e, t)"
  shows "errorInv ((ix_now s, e) # tr) t \<and>
    (e = ErrorRefresh \<longrightarrow> IsZero (ix_lastFullRefresh s) \<or> ix_lastFullRefresh s + historyWatcherErrorRefreshCooldown \<le> ix_now s)"
proof (cases choice)
  case LoopDone
  then show ?thesis using assms by (auto simp: loopStep_def errorInv_def split: if_splits)
next
  case IntervalSignal
  then show ?thesis using assms by (auto simp: loopStep_def errorInv_def restartPeriodic_def split: if_splits)
next
  case (TakeRequest w)
  then obtain r rs where rs: "ix_requests s = r # rs" and step: "onTakeRequest jobsDir logDir w s = Some (e, t)"
    using assms(2) by (auto simp: loopStep_def onTakeRequest_def split: if_splits list.splits)
  show ?thesis
  proof (cases "req_full r")
    case True
    then have "scheduleWatcherErrorRefresh jobsDir logDir w (s\<lparr>ix_requests := rs\<rparr>) = (e, t)"
      using step rs by (simp add: onTakeRequest_def)
    then show ?thesis
      using errorInv_schedule [OF errorInv_other(5) [OF assms(1)]]
      by (force simp: scheduleWatcherErrorRefresh_def Let_def split: if_splits)
  next
    case False
    then have "e = Received (req_path r)"
      "t = resetDebounce (s\<lparr>ix_requests := rs, ix_pendingPaths := List.insert (req_path r) (ix_pendingPaths s)\<rparr>)"
      using step rs by (simp_all add: onTakeRequest_def Let_def)
    then show ?thesis using errorInv_frame [OF assms(1), of e t] by (simp add: resetDebounce_def)
  qed
next
  case (DebounceTick paths)
  then have "onDebounce jobsDir logDir paths s = Some (e, t)" using assms(2) by (simp add: loopStep_def split: if_splits)
  note step = onDebounceD [OF this]
  then obtain x where t: "t = refreshPaths jobsDir logDir paths (s\<lparr>ix_debounceTimer := x, ix_pendingPaths := [], ix_debounce := False\<rparr>)"
    by blast
  have "errorInv tr t" unfolding t by (intro errorInv_refreshPaths errorInv_other assms)
  then show ?thesis using step by (auto simp: errorInv_quiet)
next
  case (WatcherErrorTick w)
  then show ?thesis using assms errorInv_tick by (auto simp: loopStep_def split: if_splits)
next
  case (PeriodicTick w)
  then have "onPeriodicTick jobsDir logDir w s = Some (e, t)" using assms(2) by (auto simp: loopStep_def split: if_splits)
  moreover from this have "e \<noteq> ErrorRefresh" by (auto simp: onPeriodicTick_def split: option.splits prod.splits)
  ultimately show ?thesis using assms(1) errorInv_periodic by simp
qed

lemma errorInv_step:
  assumes "indexStep jobsDir logDir e s t" and "errorInv tr s"
  shows "errorInv ((ix_now s, e) # tr) t \<and>
    (e = ErrorRefresh \<longrightarrow> IsZero (ix_lastFullRefresh s) \<or> ix_lastFullRefresh s + historyWatcherErrorRefreshCooldown \<le> ix_now s)"
  using assms(1)
proof cases
  case (Clock d)
  then show ?thesis using errorInv_elapse [OF errorInv_quiet [OF assms(2)]] by simp
next
  case (Watch input)
  have "ix_now t = ix_now s" "ix_lastFullRefresh t = ix_lastFullRefresh s"
    "ix_watcherErrorRefreshPending t = ix_watcherErrorRefreshPending s"
    "ix_watcherErrorRefresh t = ix_watcherErrorRefresh s" "ix_watcherErrorTimer t = ix_watcherErrorTimer s"
    by (subst watchStep_frame [OF Watch], simp)+
  then show ?thesis using errorInv_frame [OF assms(2)] watchStep_event [OF Watch] by auto
next
  case (Loop choice)
  then show ?thesis using errorInv_loop [OF assms(2)] by blast
next
  case (Store c old)
  then show ?thesis using assms(2) by (simp add: errorInv_def)
next
  case (Notify n)
  then show ?thesis using assms(2) by (simp add: errorInv_def)
next
  case Cancel
  then show ?thesis using assms(2) by (simp add: errorInv_def)
qed

lemma errorInv_run: "indexRun jobsDir logDir tr s \<Longrightarrow> errorInv tr s"
proof (induction rule: indexRun.induct)
  case (start s)
  then show ?case by (simp add: indexInit_def errorInv_def IsZero_def)
next
  case (extend tr s e t)
  then show ?case using errorInv_step by blast
qed

section \<open>Requests for single files\<close>

definition debounceInv :: "(gotime \<times> indexEvent) list \<Rightarrow> indexSystem \<Rightarrow> bool" where
  "debounceInv tr s \<longleftrightarrow>
     (ix_debounce s \<longleftrightarrow> ix_pendingPaths s \<noteq> []) \<and>
     (\<forall>t. ix_debounceTimer s = Some t \<longrightarrow>
        idle t \<or> (\<exists>u. lastReceived tr = Some u \<and> dueAt (ix_now s) (u + historyIndexEventDebounce) t)) \<and>
     (ix_pendingPaths s \<noteq> [] \<longrightarrow> (\<exists>t u. ix_debounceTimer s = Some t \<and> lastReceived tr = Some u \<and>
        dueAt (ix_now s) (u + historyIndexEventDebounce) t))"

definition pathInv :: "(gotime \<times> indexEvent) list \<Rightarrow> indexSystem \<Rightarrow> bool" where
  "pathInv tr s \<longleftrightarrow>
     ix_cancelled s \<or>
     (\<forall>p \<in> waiting tr. p \<in> set (ix_pendingPaths s) \<or>
        \<lparr> req_path = p, req_full = False \<rparr> \<in> set (ix_requests s) \<or> ix_watcher s = WatchSend \<lparr> req_path = p, req_full = False \<rparr>)"

text \<open>A step that touches neither the pending paths nor their timer.\<close>

definition sameDebounce :: "indexSystem \<Rightarrow> indexSystem \<Rightarrow> bool" where
  "sameDebounce s t \<longleftrightarrow>
     ix_now s \<le> ix_now t \<and> ix_debounce t = ix_debounce s \<and> ix_pendingPaths t = ix_pendingPaths s \<and>
     (ix_debounceTimer t = ix_debounceTimer s \<or>
      ix_debounceTimer t = map_option (fireTimer (ix_now t)) (ix_debounceTimer s))"

lemma dueAt_later: "dueAt now d t \<Longrightarrow> now \<le> now' \<Longrightarrow> dueAt now' d t"
  by (auto simp: dueAt_def)

lemma debounceInv_same:
  assumes "debounceInv tr s" and "sameDebounce s t" and "\<forall>p. e \<noteq> Received p"
  shows "debounceInv ((u, e) # tr) t"
proof -
  have last: "lastReceived ((u, e) # tr) = lastReceived tr" using assms(3) by (cases e) simp_all
  show ?thesis
    using assms(1, 2) unfolding debounceInv_def sameDebounce_def last
    by (cases "ix_debounceTimer s") (auto intro: dueAt_later dueAt_fire)
qed

lemma stopWatcherErrorTimer_frame [simp]:
  "ix_now (stopWatcherErrorTimer s) = ix_now s"
  "ix_cancelled (stopWatcherErrorTimer s) = ix_cancelled s"
  "ix_interval (stopWatcherErrorTimer s) = ix_interval s"
  "ix_owed (stopWatcherErrorTimer s) = ix_owed s"
  "ix_intervalChanged (stopWatcherErrorTimer s) = ix_intervalChanged s"
  "ix_watcher (stopWatcherErrorTimer s) = ix_watcher s"
  "ix_consecutiveFailures (stopWatcherErrorTimer s) = ix_consecutiveFailures s"
  "ix_requests (stopWatcherErrorTimer s) = ix_requests s"
  "ix_running (stopWatcherErrorTimer s) = ix_running s"
  "ix_db (stopWatcherErrorTimer s) = ix_db s"
  "ix_pendingPaths (stopWatcherErrorTimer s) = ix_pendingPaths s"
  "ix_debounceTimer (stopWatcherErrorTimer s) = ix_debounceTimer s"
  "ix_debounce (stopWatcherErrorTimer s) = ix_debounce s"
  "ix_periodicTimer (stopWatcherErrorTimer s) = ix_periodicTimer s"
  "ix_armed (stopWatcherErrorTimer s) = ix_armed s"
  by (simp_all add: stopWatcherErrorTimer_def split: option.splits)

lemmas loop_defs = onTakeRequest_def scheduleWatcherErrorRefresh_def runWatcherErrorRefresh_def runRefresh_def
  onWatcherErrorTick_def onPeriodicTick_def restartPeriodic_def Let_def

text \<open>
  What a step of the loop does to the part of the state that is not about watcher errors: nothing but
  the clock (\<open>Clocked\<close>), unless it takes a request for a file or refreshes the pending files.
\<close>

definition otherFields :: "indexSystem \<Rightarrow> indexSystem \<Rightarrow> bool" where
  "otherFields s t \<longleftrightarrow>
     ix_cancelled t = ix_cancelled s \<and> ix_interval t = ix_interval s \<and> ix_owed t = ix_owed s \<and>
     ix_watcher t = ix_watcher s \<and> ix_consecutiveFailures t = ix_consecutiveFailures s \<and> ix_now s \<le> ix_now t"

lemma refreshPaths_fields:
  "otherFields s (refreshPaths jobsDir logDir paths s) \<and>
   ix_requests (refreshPaths jobsDir logDir paths s) = ix_requests s \<and>
   ix_running (refreshPaths jobsDir logDir paths s) = ix_running s \<and>
   ix_intervalChanged (refreshPaths jobsDir logDir paths s) = ix_intervalChanged s \<and>
   ix_armed (refreshPaths jobsDir logDir paths s) = ix_armed s \<and>
   ix_pendingPaths (refreshPaths jobsDir logDir paths s) = ix_pendingPaths s \<and>
   ix_debounce (refreshPaths jobsDir logDir paths s) = ix_debounce s"
  by (induction jobsDir logDir paths s rule: refreshPaths.induct) (simp_all add: otherFields_def)

lemma loopStep_cases:
  assumes "loopStep jobsDir logDir choice s = Some (e, t)"
  obtains (request) r rs where "ix_requests s = r # rs" "\<not> req_full r" "e = Received (req_path r)"
      "t = resetDebounce (s\<lparr>ix_requests := rs, ix_pendingPaths := List.insert (req_path r) (ix_pendingPaths s)\<rparr>)"
  | (files) paths where "onDebounce jobsDir logDir paths s = Some (e, t)"
  | (other) "sameDebounce s t" "otherFields s t" "\<forall>p. e \<noteq> Received p" "\<forall>ps. e \<noteq> Indexed ps"
      "\<forall>p. e \<noteq> Accepted p" "e \<noteq> InitOk" "e \<noteq> InitFailed" "\<forall>b. e \<noteq> IntervalStored b"
      "{r \<in> set (ix_requests s). \<not> req_full r} \<subseteq> set (ix_requests t)"
      "ix_running t \<or> ix_cancelled s"
      "ix_armed t = ix_armed s \<and> ix_intervalChanged t = ix_intervalChanged s \<and>
         ix_periodicTimer t \<in> {ix_periodicTimer s, fireTimer (ix_now t) (ix_periodicTimer s)} \<or>
       ix_armed t = ix_interval t \<and> ix_periodicTimer t = NewTimer (ix_now t) (intervalDuration t)"
proof (cases choice)
  case LoopDone
  then show ?thesis
    using assms by (intro other) (auto simp: loopStep_def sameDebounce_def otherFields_def split: if_splits)
next
  case IntervalSignal
  then show ?thesis
    using assms
    by (intro other)
      (auto simp: loopStep_def sameDebounce_def otherFields_def restartPeriodic_def restartHistoryPeriodicTimer_def
         intervalDuration_def split: if_splits)
next
  case (TakeRequest w)
  then have run: "ix_running s" and step: "onTakeRequest jobsDir logDir w s = Some (e, t)"
    using assms by (auto simp: loopStep_def split: if_splits)
  obtain r rs where rs: "ix_requests s = r # rs" using step by (auto simp: onTakeRequest_def split: list.splits)
  show ?thesis
  proof (cases "req_full r")
    case True
    then have "scheduleWatcherErrorRefresh jobsDir logDir w (s\<lparr>ix_requests := rs\<rparr>) = (e, t)"
      using step rs by (simp add: onTakeRequest_def)
    then have "sameDebounce s t \<and> otherFields s t \<and> e \<in> {ErrorRefresh, ErrorDeferred} \<and> ix_requests t = rs \<and> ix_running t \<and>
        ix_armed t = ix_armed s \<and> ix_intervalChanged t = ix_intervalChanged s \<and>
        ix_periodicTimer t \<in> {ix_periodicTimer s, fireTimer (ix_now t) (ix_periodicTimer s)}"
      using run
      by (auto simp: scheduleWatcherErrorRefresh_def runWatcherErrorRefresh_def runRefresh_def Let_def sameDebounce_def
          otherFields_def split: if_splits option.splits prod.splits)
    then show ?thesis using True rs by (intro other) auto
  next
    case False
    then show ?thesis using step rs by (intro request) (auto simp: onTakeRequest_def Let_def)
  qed
next
  case (DebounceTick paths)
  then show ?thesis using assms by (intro files) (simp add: loopStep_def split: if_splits)
next
  case (WatcherErrorTick w)
  then have "ix_running s" and "onWatcherErrorTick jobsDir logDir w s = Some (e, t)"
    using assms by (auto simp: loopStep_def split: if_splits)
  then have "sameDebounce s t \<and> otherFields s t \<and> e \<in> {ErrorRefresh, Quiet} \<and> ix_requests t = ix_requests s \<and> ix_running t \<and>
      ix_armed t = ix_armed s \<and> ix_intervalChanged t = ix_intervalChanged s \<and>
      ix_periodicTimer t \<in> {ix_periodicTimer s, fireTimer (ix_now t) (ix_periodicTimer s)}"
    by (auto simp: onWatcherErrorTick_def runWatcherErrorRefresh_def runRefresh_def Let_def sameDebounce_def
        otherFields_def split: if_splits option.splits prod.splits)
  then show ?thesis by (intro other) auto
next
  case (PeriodicTick w)
  then have "ix_running s" and "onPeriodicTick jobsDir logDir w s = Some (e, t)"
    using assms by (auto simp: loopStep_def split: if_splits)
  then have "sameDebounce s t \<and> otherFields s t \<and> e \<in> range PeriodicRefresh \<and> ix_requests t = ix_requests s \<and> ix_running t \<and>
      ix_armed t = ix_interval t \<and> ix_periodicTimer t = NewTimer (ix_now t) (intervalDuration t)"
    by (auto simp: onPeriodicTick_def runRefresh_def restartPeriodic_def restartHistoryPeriodicTimer_def intervalDuration_def
        sameDebounce_def otherFields_def split: if_splits option.splits prod.splits)
  then show ?thesis by (intro other) auto
qed

lemma refreshPaths_idle:
  "ix_debounceTimer s = Some tm \<Longrightarrow> idle tm \<Longrightarrow> ix_debounceTimer (refreshPaths jobsDir logDir paths s) = Some tm"
  by (induction jobsDir logDir paths s rule: refreshPaths.induct) simp_all

lemma debounceInv_loop:
  assumes "debounceInv tr s" and "loopStep jobsDir logDir choice s = Some (e, t)"
  shows "debounceInv ((ix_now s, e) # tr) t"
  using assms(2)
proof (cases rule: loopStep_cases)
  case (request r rs)
  have "\<exists>tm. ix_debounceTimer t = Some tm \<and> dueAt (ix_now s) (ix_now s + historyIndexEventDebounce) tm"
    using assms(1) request(4) unfolding debounceInv_def resetDebounce_def
    by (cases "ix_debounceTimer s") (auto intro: dueAt_reset)
  moreover have "ix_pendingPaths t \<noteq> []" "ix_debounce t" "ix_now t = ix_now s"
    using request(4) by (auto simp: resetDebounce_def List.insert_def)
  ultimately show ?thesis using request(3) by (auto simp: debounceInv_def)
next
  case (files paths)
  note step = onDebounceD [OF files]
  then obtain tm tm' where tm: "ix_debounceTimer s = Some tm" "takeTick tm = Some tm'" and
    t: "t = refreshPaths jobsDir logDir paths (s\<lparr>ix_debounceTimer := Some tm', ix_pendingPaths := [], ix_debounce := False\<rparr>)" by blast
  have "\<not> idle tm" using tm(2) by (auto simp: idle_def takeTick_def)
  then have idle: "idle tm'" using assms(1) tm idle_takeTick unfolding debounceInv_def by blast
  have "ix_debounceTimer t = Some tm'" unfolding t by (rule refreshPaths_idle) (simp_all add: idle)
  moreover have "ix_pendingPaths t = []" "\<not> ix_debounce t"
    using refreshPaths_fields unfolding t by simp_all
  ultimately show ?thesis using idle by (simp add: debounceInv_def)
next
  case other
  then show ?thesis using debounceInv_same [OF assms(1)] by blast
qed

lemma pathInv_loop:
  assumes "pathInv tr s" and "loopStep jobsDir logDir choice s = Some (e, t)"
  shows "pathInv ((u, e) # tr) t"
  using assms(2)
proof (cases rule: loopStep_cases)
  case (request r rs)
  then show ?thesis using assms(1) by (fastforce simp: pathInv_def resetDebounce_def)
next
  case (files paths)
  note step = onDebounceD [OF files]
  then obtain x where
    t: "t = refreshPaths jobsDir logDir paths (s\<lparr>ix_debounceTimer := x, ix_pendingPaths := [], ix_debounce := False\<rparr>)" by blast
  have "ix_cancelled t = ix_cancelled s" "ix_requests t = ix_requests s" "ix_watcher t = ix_watcher s"
    using refreshPaths_fields unfolding t by (simp_all add: otherFields_def)
  then show ?thesis using assms(1) step by (auto simp: pathInv_def)
next
  case other
  have "waiting ((u, e) # tr) = waiting tr" using other by (cases e) simp_all
  moreover have "ix_pendingPaths t = ix_pendingPaths s" "ix_cancelled t = ix_cancelled s" "ix_watcher t = ix_watcher s"
    using other by (simp_all add: sameDebounce_def otherFields_def)
  moreover have "\<lparr>req_path = p, req_full = False\<rparr> \<in> set (ix_requests t)"
    if "\<lparr>req_path = p, req_full = False\<rparr> \<in> set (ix_requests s)" for p
    using that other(9) by auto
  ultimately show ?thesis using assms(1) unfolding pathInv_def by metis
qed

lemma pathInv_watch:
  assumes "pathInv tr s" and "watchStep jobsDir input s = Some (e, t)"
  shows "pathInv ((u, e) # tr) t"
  using assms
  by (auto simp: pathInv_def watchStep_def Let_def
      split: watchPC.splits watchInput.splits option.splits if_splits watchAction.splits)

lemma sameDebounce_watch:
  assumes "watchStep jobsDir input s = Some (e, t)"
  shows "sameDebounce s t"
  unfolding sameDebounce_def by (subst (1 2 3 4 5 6) watchStep_frame [OF assms]) simp

lemma pathInv_quiet:
  assumes "pathInv tr s" and "\<forall>p. e \<noteq> Accepted p" and "\<forall>ps. e \<noteq> Indexed ps" and "ix_cancelled s \<Longrightarrow> ix_cancelled t"
    and "ix_pendingPaths t = ix_pendingPaths s" and "ix_requests t = ix_requests s" and "ix_watcher t = ix_watcher s"
  shows "pathInv ((u, e) # tr) t"
proof -
  have "waiting ((u, e) # tr) = waiting tr" using assms(2, 3) by (cases e) simp_all
  then show ?thesis using assms(1, 4-) by (auto simp: pathInv_def)
qed

lemma fileInv_step:
  assumes "indexStep jobsDir logDir e s t" and "debounceInv tr s" and "pathInv tr s"
  shows "debounceInv ((ix_now s, e) # tr) t \<and> pathInv ((ix_now s, e) # tr) t"
  using assms(1)
proof cases
  case (Clock d)
  have "sameDebounce s t" using Clock by (simp add: sameDebounce_def)
  then show ?thesis using debounceInv_same [OF assms(2)] pathInv_quiet [OF assms(3)] Clock by simp
next
  case (Watch input)
  have "\<forall>p. e \<noteq> Received p" using watchStep_event [OF Watch] by auto
  then show ?thesis
    using debounceInv_same [OF assms(2) sameDebounce_watch [OF Watch]] pathInv_watch [OF assms(3) Watch] by blast
next
  case (Loop choice)
  then show ?thesis using debounceInv_loop [OF assms(2)] pathInv_loop [OF assms(3)] by blast
next
  case (Store c old)
  then show ?thesis
    using debounceInv_same [OF assms(2), of t e] pathInv_quiet [OF assms(3), of e t] by (simp add: sameDebounce_def)
next
  case (Notify n)
  then show ?thesis
    using debounceInv_same [OF assms(2), of t e] pathInv_quiet [OF assms(3), of e t] by (simp add: sameDebounce_def)
next
  case Cancel
  then show ?thesis
    using debounceInv_same [OF assms(2), of t e] pathInv_quiet [OF assms(3), of e t] by (simp add: sameDebounce_def)
qed

lemma fileInv_run: "indexRun jobsDir logDir tr s \<Longrightarrow> debounceInv tr s \<and> pathInv tr s"
proof (induction rule: indexRun.induct)
  case (start s)
  then show ?case by (simp add: indexInit_def debounceInv_def pathInv_def)
next
  case (extend tr s e t)
  then show ?case using fileInv_step by blast
qed

section \<open>The periodic refresh\<close>

definition periodicInv :: "(gotime \<times> indexEvent) list \<Rightarrow> indexSystem \<Rightarrow> bool" where
  "periodicInv tr s \<longleftrightarrow>
     (ix_running s \<or> ix_cancelled s) \<and>
     (\<exists>d. dueAt (ix_now s) d (ix_periodicTimer s) \<and> d \<le> ix_now s + ix_armed s * Second) \<and>
     (ix_armed s = ix_interval s \<or> ix_intervalChanged s \<or> 0 < ix_owed s \<or> IntervalStored False \<in> snd ` set tr)"

lemma periodicInv_same:
  assumes "periodicInv tr s" and "ix_running s \<or> ix_cancelled s \<Longrightarrow> ix_running t \<or> ix_cancelled t" and "ix_now s \<le> ix_now t"
    and "ix_periodicTimer t \<in> {ix_periodicTimer s, fireTimer (ix_now t) (ix_periodicTimer s)}" and "ix_armed t = ix_armed s"
    and "ix_armed s = ix_interval s \<or> ix_intervalChanged s \<or> 0 < ix_owed s \<or> IntervalStored False \<in> snd ` set tr \<Longrightarrow>
      ix_armed t = ix_interval t \<or> ix_intervalChanged t \<or> 0 < ix_owed t \<or> IntervalStored False \<in> snd ` set ((u, e) # tr)"
  shows "periodicInv ((u, e) # tr) t"
proof -
  obtain d where d: "dueAt (ix_now s) d (ix_periodicTimer s)" "d \<le> ix_now s + ix_armed s * Second"
    using assms(1) by (auto simp: periodicInv_def)
  then have "dueAt (ix_now t) d (ix_periodicTimer t)"
    using assms(4) dueAt_later [OF _ assms(3)] dueAt_fire [OF _ assms(3)] by auto
  moreover have "d \<le> ix_now t + ix_armed t * Second" using d(2) assms(3, 5) by simp
  ultimately show ?thesis using assms(1, 2, 6) unfolding periodicInv_def by blast
qed

lemma periodicInv_elapse: "periodicInv tr s \<Longrightarrow> periodicInv tr (elapse d s)"
proof -
  assume "periodicInv tr s"
  moreover obtain k where "dueAt (ix_now s) k (ix_periodicTimer s)" "k \<le> ix_now s + ix_armed s * Second"
    using \<open>periodicInv tr s\<close> by (auto simp: periodicInv_def)
  moreover from this have "dueAt (ix_now s + int d) k (fireTimer (ix_now s + int d) (ix_periodicTimer s))"
    by (simp add: dueAt_fire)
  moreover have "k \<le> ix_now s + int d + ix_armed s * Second" using calculation(3) by linarith
  ultimately show ?thesis unfolding periodicInv_def elapse_simps by blast
qed

lemma periodicInv_loop:
  assumes "periodicInv tr s" and "loopStep jobsDir logDir choice s = Some (e, t)"
  shows "periodicInv ((u, e) # tr) t"
  using assms(2)
proof (cases rule: loopStep_cases)
  case (request r rs)
  then show ?thesis by (intro periodicInv_same [OF assms(1)]) (auto simp: resetDebounce_def)
next
  case (files paths)
  then obtain x where
    t: "t = refreshPaths jobsDir logDir paths (s\<lparr>ix_debounceTimer := x, ix_pendingPaths := [], ix_debounce := False\<rparr>)"
    using onDebounceD [OF files] by blast
  have "periodicInv ((u, e) # tr) (refreshPaths jobsDir logDir ps s')" if "periodicInv ((u, e) # tr) s'" for ps s'
    using that
  proof (induction jobsDir logDir ps s' rule: refreshPaths.induct)
    case (2 jobsDir logDir path w rest s')
    show ?case unfolding refreshPaths.simps by (rule 2(1), rule periodicInv_elapse) (use 2(2) in \<open>simp add: periodicInv_def\<close>)
  qed simp
  moreover have "periodicInv ((u, e) # tr) (s\<lparr>ix_debounceTimer := x, ix_pendingPaths := [], ix_debounce := False\<rparr>)"
    by (rule periodicInv_same [OF assms(1)]) auto
  ultimately show ?thesis unfolding t by blast
next
  case other
  show ?thesis
  proof (cases "ix_armed t = ix_interval t \<and> ix_periodicTimer t = NewTimer (ix_now t) (intervalDuration t)")
    case True
    then show ?thesis using other(2, 10) by (auto simp: periodicInv_def otherFields_def dueAt_new_iff intervalDuration_def)
  next
    case False
    then show ?thesis
      using other(2, 10, 11) by (intro periodicInv_same [OF assms(1)]) (auto simp: otherFields_def)
  qed
qed

lemma periodicInv_step:
  assumes "indexStep jobsDir logDir e s t" and "periodicInv tr s"
  shows "periodicInv ((u, e) # tr) t"
  using assms(1)
proof cases
  case (Clock d)
  then show ?thesis by (intro periodicInv_same [OF assms(2)]) auto
next
  case (Watch input)
  show ?thesis by (subst watchStep_frame [OF Watch], rule periodicInv_same [OF assms(2)]) auto
next
  case (Loop choice)
  then show ?thesis using periodicInv_loop [OF assms(2)] by blast
next
  case (Store c old)
  then show ?thesis by (intro periodicInv_same [OF assms(2)]) auto
next
  case (Notify n)
  then show ?thesis by (intro periodicInv_same [OF assms(2)]) (auto simp: notifyHistoryIntervalChanged_def)
next
  case Cancel
  then show ?thesis by (intro periodicInv_same [OF assms(2)]) auto
qed

lemma periodicInv_run: "indexRun jobsDir logDir tr s \<Longrightarrow> periodicInv tr s"
proof (induction rule: indexRun.induct)
  case (start s)
  then show ?case by (auto simp: indexInit_def periodicInv_def dueAt_new_iff intervalDuration_def)
next
  case (extend tr s e t)
  then show ?case using periodicInv_step by blast
qed

section \<open>Restarting the watcher\<close>

text \<open>Failed attempts in a row, the latest first: each waits for the delay that the ones before it prescribe.\<close>

fun spaced :: "gotime list \<Rightarrow> bool" where
  "spaced [] = True"
| "spaced [u] = True"
| "spaced (v # u # us) = (u + historyWatchRetryDelay (int (length (u # us))) \<le> v \<and> spaced (u # us))"

definition watchInv :: "(gotime \<times> indexEvent) list \<Rightarrow> indexSystem \<Rightarrow> bool" where
  "watchInv tr s \<longleftrightarrow>
     ix_consecutiveFailures s = length (failStreak tr) \<and> spaced (failStreak tr) \<and>
     length (failStreak tr) \<le> historyWatchMaxConsecutiveRetryCount \<and>
     (case ix_watcher s of
        WatchReturned \<Rightarrow> length (failStreak tr) = historyWatchMaxConsecutiveRetryCount \<or> ix_cancelled s
      | WatchInit \<Rightarrow> length (failStreak tr) < historyWatchMaxConsecutiveRetryCount \<and>
          (case failStreak tr of [] \<Rightarrow> True | u # us \<Rightarrow> u + historyWatchRetryDelay (int (length (u # us))) \<le> ix_now s)
      | WatchDelay d \<Rightarrow> length (failStreak tr) < historyWatchMaxConsecutiveRetryCount \<and>
          (case failStreak tr of [] \<Rightarrow> False | u # us \<Rightarrow> d = u + historyWatchRetryDelay (int (length (u # us))))
      | _ \<Rightarrow> failStreak tr = [])"

lemma watchInv_watch:
  assumes "watchInv tr s" and "watchStep jobsDir input s = Some (e, t)"
  shows "watchInv ((ix_now s, e) # tr) t"
  using assms
  by (cases "failStreak tr")
    (auto simp: watchInv_def watchStep_def Let_def historyWatchMaxConsecutiveRetryCount_def
      split: watchPC.splits watchInput.splits option.splits if_splits watchAction.splits)

lemma watchInv_same:
  assumes "watchInv tr s" and "ix_watcher t = ix_watcher s" and "ix_consecutiveFailures t = ix_consecutiveFailures s"
    and "ix_cancelled s \<Longrightarrow> ix_cancelled t" and "ix_now s \<le> ix_now t" and "e \<noteq> InitOk" and "e \<noteq> InitFailed"
  shows "watchInv ((u, e) # tr) t"
proof -
  have "failStreak ((u, e) # tr) = failStreak tr" using assms(6, 7) by (cases e) simp_all
  then show ?thesis
    using assms(1-5) by (cases "failStreak tr") (auto simp: watchInv_def split: watchPC.splits)
qed

lemma watchInv_loop:
  assumes "watchInv tr s" and "loopStep jobsDir logDir choice s = Some (e, t)"
  shows "watchInv ((u, e) # tr) t"
  using assms(2)
proof (cases rule: loopStep_cases)
  case (request r rs)
  then show ?thesis by (intro watchInv_same [OF assms(1)]) (auto simp: resetDebounce_def)
next
  case (files paths)
  note step = onDebounceD [OF files]
  then obtain x where
    "t = refreshPaths jobsDir logDir paths (s\<lparr>ix_debounceTimer := x, ix_pendingPaths := [], ix_debounce := False\<rparr>)" by blast
  then show ?thesis
    using step refreshPaths_fields [of "s\<lparr>ix_debounceTimer := x, ix_pendingPaths := [], ix_debounce := False\<rparr>"]
    by (intro watchInv_same [OF assms(1)]) (auto simp: otherFields_def)
next
  case other
  then show ?thesis by (intro watchInv_same [OF assms(1)]) (auto simp: otherFields_def)
qed

lemma watchInv_step:
  assumes "indexStep jobsDir logDir e s t" and "watchInv tr s"
  shows "watchInv ((ix_now s, e) # tr) t"
  using assms(1)
proof cases
  case (Clock d)
  then show ?thesis by (intro watchInv_same [OF assms(2)]) auto
next
  case (Watch input)
  then show ?thesis by (rule watchInv_watch [OF assms(2)])
next
  case (Loop choice)
  then show ?thesis by (rule watchInv_loop [OF assms(2)])
next
  case (Store c old)
  then show ?thesis by (intro watchInv_same [OF assms(2)]) auto
next
  case (Notify n)
  then show ?thesis by (intro watchInv_same [OF assms(2)]) auto
next
  case Cancel
  then show ?thesis by (intro watchInv_same [OF assms(2)]) auto
qed

lemma watchInv_run: "indexRun jobsDir logDir tr s \<Longrightarrow> watchInv tr s"
proof (induction rule: indexRun.induct)
  case (start s)
  then show ?case by (simp add: indexInit_def watchInv_def historyWatchMaxConsecutiveRetryCount_def)
next
  case (extend tr s e t)
  then show ?case using watchInv_step by blast
qed

section \<open>What the refresh of a file does to the index\<close>

lemma cleanDir_path:
  assumes "cleanDir dir" and "goodComp n"
  shows "Clean dir = dir" and "Clean (filepath_Join dir n) = filepath_Join dir n" and "Dir (filepath_Join dir n) = dir"
proof -
  obtain cs where cs: "list_all goodComp cs" "dir = absPath cs" using assms(1) by (auto simp: cleanDir_def)
  have join: "filepath_Join dir n = absPath (cs @ [n])" using filepath_Join_absPath [OF cs(1) assms(2)] cs(2) by simp
  have good: "list_all goodComp (cs @ [n])" using cs(1) assms(2) by simp
  show "Clean dir = dir" using cs by simp
  show "Clean (filepath_Join dir n) = filepath_Join dir n" unfolding join by (rule Clean_absPath [OF good])
  show "Dir (filepath_Join dir n) = dir" unfolding join using Dir_absPath [OF cs(1) assms(2)] cs(2) by simp
qed

text \<open>What the index should hold for a file after an event: what the file holds now, nothing when it is gone.\<close>

definition eventView ::
    "historyWorld \<Rightarrow> string \<Rightarrow> (string \<rightharpoonup> (jobRow \<times> detectionItem list)) \<Rightarrow> string \<Rightarrow> (jobRow \<times> detectionItem list) option" where
  "eventView w logDir old p =
     (case hw_Stat w p of
        Inl e \<Rightarrow> if is_not_exist e then None else old p
      | Inr fi \<Rightarrow> fileView w logDir p fi)"

definition jobFile :: "string \<Rightarrow> string \<Rightarrow> bool" where
  "jobFile dir p \<longleftrightarrow> (\<exists>n. goodComp n \<and> HasSuffix n ''.json'' \<and> p = filepath_Join dir n)"

lemma refreshFile_view:
  assumes inv: "historyInv dir db" and dir: "cleanDir dir" and nf: "noFaults w" and p: "jobFile dir p"
  shows "historyView (snd (refreshFileLocked w dir logDir p db)) = (historyView db)(p := eventView w logDir (historyView db) p)"
    and "historyInv dir (snd (refreshFileLocked w dir logDir p db))"
proof -
  obtain n where n: "goodComp n" "HasSuffix n ''.json''" and pn: "p = filepath_Join dir n" using p by (auto simp: jobFile_def)
  note path = cleanDir_path [OF dir n(1), folded pn]
  have base: "Base p = n" using dir n(1) by (simp add: pn)
  have del: "historyView (deleteByFile p db) = (historyView db)(p := None)" "historyInv dir (deleteByFile p db)"
    using deleteJobs_view [OF inv, of "\<lambda>q. q = p"] by (auto simp: deleteByFile_def)
  have "hw_fault w DeleteMissing = None" using nf by (simp add: noFaults_def)
  then show "historyView (snd (refreshFileLocked w dir logDir p db)) = (historyView db)(p := eventView w logDir (historyView db) p)"
    and "historyInv dir (snd (refreshFileLocked w dir logDir p db))"
    using del inv indexCurrent_view [OF inv dir nf n(1), folded pn] path base n(2)
    by (auto simp: refreshFileLocked_def Let_def eventView_def split: sum.splits)
qed

lemma refreshPaths_view:
  assumes "cleanDir dir" and "historyInv dir (ix_db s)"
    and "\<forall>(p, w) \<in> set ws. noFaults (iw_history w) \<and> jobFile dir p" and "distinct (map fst ws)"
  shows "historyInv dir (ix_db (refreshPaths dir logDir ws s)) \<and>
    (\<forall>p. historyView (ix_db (refreshPaths dir logDir ws s)) p =
      (case map_of ws p of None \<Rightarrow> historyView (ix_db s) p | Some w \<Rightarrow> eventView (iw_history w) logDir (historyView (ix_db s)) p))"
  using assms(2-)
proof (induction ws arbitrary: s)
  case (Cons x ws)
  obtain p w where x: "x = (p, w)" by (cases x)
  let ?db = "snd (refreshFileLocked (iw_history w) dir logDir p (ix_db s))"
  let ?t = "elapse (iw_took w) (s\<lparr>ix_db := ?db\<rparr>)"
  have "noFaults (iw_history w)" "jobFile dir p" using Cons.prems(2) x by auto
  note view = refreshFile_view [OF Cons.prems(1) assms(1) this, where logDir = logDir]
  have IH: "historyInv dir (ix_db (refreshPaths dir logDir ws ?t)) \<and>
    (\<forall>q. historyView (ix_db (refreshPaths dir logDir ws ?t)) q =
      (case map_of ws q of None \<Rightarrow> historyView ?db q | Some w' \<Rightarrow> eventView (iw_history w') logDir (historyView ?db) q))"
  proof -
    have db: "ix_db ?t = ?db" by simp
    show ?thesis using Cons.IH [of ?t, unfolded db] Cons.prems(2, 3) view(2) by simp
  qed
  have "map_of ws p = None" using Cons.prems(3) x by (simp add: map_of_eq_None_iff)
  moreover have "eventView w' logDir (historyView ?db) q = eventView w' logDir (historyView (ix_db s)) q" if "q \<noteq> p" for w' q
    using that by (cases "hw_Stat w' q") (simp_all add: view(1) eventView_def)
  moreover have "historyView (ix_db (refreshPaths dir logDir (x # ws) s)) q = (case map_of ws q of None \<Rightarrow> historyView ?db q |
      Some w' \<Rightarrow> eventView (iw_history w') logDir (historyView ?db) q)" for q using IH x by simp
  moreover have "historyView ?db q = (if q = p then eventView (iw_history w) logDir (historyView (ix_db s)) p else historyView (ix_db s) q)" for q
    by (simp add: view(1))
  ultimately have "historyView (ix_db (refreshPaths dir logDir (x # ws) s)) q =
      (case map_of (x # ws) q of None \<Rightarrow> historyView (ix_db s) q | Some w \<Rightarrow> eventView (iw_history w) logDir (historyView (ix_db s)) q)" for q
    by (cases "q = p"; cases "map_of ws q") (simp_all add: x)
  then show ?case using IH x by simp
qed simp

section \<open>Properties\<close>

text \<open>The index holds for the given files what each holds now, and the rest of it is unchanged.\<close>

definition indexShows :: "string \<Rightarrow> (string \<times> indexWorld) list \<Rightarrow> historyDB \<Rightarrow> historyDB \<Rightarrow> bool" where
  "indexShows logDir ws old new \<longleftrightarrow>
     (\<forall>p. historyView new p =
        (case map_of ws p of None \<Rightarrow> historyView old p | Some w \<Rightarrow> eventView (iw_history w) logDir (historyView old) p))"

lemma debounce_enabled:
  assumes "debounceInv tr s" and "ix_running s" and "ix_pendingPaths s \<noteq> []"
  obtains u where "lastReceived tr = Some u"
    and "\<And>d ws. u + historyIndexEventDebounce \<le> ix_now s + int d \<Longrightarrow> distinct (map fst ws) \<Longrightarrow>
      set (map fst ws) = set (ix_pendingPaths s) \<Longrightarrow>
      \<exists>s'. loopStep jobsDir logDir (DebounceTick ws) (elapse d s) = Some (Indexed (map fst ws), refreshPaths jobsDir logDir ws s') \<and>
           ix_db s' = ix_db s"
proof -
  obtain tm u where tm: "ix_debounceTimer s = Some tm" and u: "lastReceived tr = Some u"
    and due: "dueAt (ix_now s) (u + historyIndexEventDebounce) tm" and "ix_debounce s"
    using assms(1, 3) unfolding debounceInv_def by blast
  show thesis
  proof (rule that [OF u])
    fix d and ws :: "(string \<times> indexWorld) list"
    assume late: "u + historyIndexEventDebounce \<le> ix_now s + int d"
      and ws: "distinct (map fst ws)" "set (map fst ws) = set (ix_pendingPaths s)"
    obtain tm' where "takeTick (fireTimer (ix_now s + int d) tm) = Some tm'" using dueAt_fired [OF due late] by blast
    then show "\<exists>s'. loopStep jobsDir logDir (DebounceTick ws) (elapse d s) = Some (Indexed (map fst ws), refreshPaths jobsDir logDir ws s') \<and>
        ix_db s' = ix_db s"
      using assms(2) ws tm \<open>ix_debounce s\<close>
      by (intro exI [of _ "elapse d s\<lparr>ix_debounceTimer := Some tm', ix_pendingPaths := [], ix_debounce := False\<rparr>"])
        (auto simp: loopStep_def onDebounce_def)
  qed
qed

text \<open>
  C25: no event about a job file is forgotten, and it reaches the index. In every run that is not
  shutting down, a path the watcher accepted and that was not indexed since is still being sent,
  queued or pending. While paths are pending, the indexer refreshes all of them once 150 milliseconds
  have passed since it took the last request; without database errors the index
  then holds for each of them what its file holds (nothing when the file is gone), and is unchanged for
  every other file.
\<close>

theorem accepted_files_reach_index:
  assumes "indexRun jobsDir logDir tr s" and "\<not> ix_cancelled s"
  shows "waiting tr \<subseteq> {p. p \<in> set (ix_pendingPaths s) \<or> \<lparr> req_path = p, req_full = False \<rparr> \<in> set (ix_requests s) \<or>
            ix_watcher s = WatchSend \<lparr> req_path = p, req_full = False \<rparr>} \<and>
    (ix_pendingPaths s \<noteq> [] \<longrightarrow> (\<exists>u. lastReceived tr = Some u \<and>
      (\<forall>d ws. u + historyIndexEventDebounce \<le> ix_now s + int d \<and>
              distinct (map fst ws) \<and> set (map fst ws) = set (ix_pendingPaths s) \<longrightarrow>
         (\<exists>t. loopStep jobsDir logDir (DebounceTick ws) (elapse d s) = Some (Indexed (map fst ws), t) \<and>
            (cleanDir jobsDir \<and> historyInv jobsDir (ix_db s) \<and>
             (\<forall>(p, w) \<in> set ws. noFaults (iw_history w) \<and> jobFile jobsDir p) \<longrightarrow>
               historyInv jobsDir (ix_db t) \<and> indexShows logDir ws (ix_db s) (ix_db t))))))"
proof (intro conjI impI)
  have inv: "debounceInv tr s" "pathInv tr s" using fileInv_run [OF assms(1)] by auto
  have run: "ix_running s" using periodicInv_run [OF assms(1)] assms(2) by (simp add: periodicInv_def)
  show "waiting tr \<subseteq> {p. p \<in> set (ix_pendingPaths s) \<or> \<lparr> req_path = p, req_full = False \<rparr> \<in> set (ix_requests s) \<or>
            ix_watcher s = WatchSend \<lparr> req_path = p, req_full = False \<rparr>}"
    using inv(2) assms(2) by (auto simp: pathInv_def)
  assume "ix_pendingPaths s \<noteq> []"
  note pending = this
  show "\<exists>u. lastReceived tr = Some u \<and>
      (\<forall>d ws. u + historyIndexEventDebounce \<le> ix_now s + int d \<and>
              distinct (map fst ws) \<and> set (map fst ws) = set (ix_pendingPaths s) \<longrightarrow>
         (\<exists>t. loopStep jobsDir logDir (DebounceTick ws) (elapse d s) = Some (Indexed (map fst ws), t) \<and>
            (cleanDir jobsDir \<and> historyInv jobsDir (ix_db s) \<and>
             (\<forall>(p, w) \<in> set ws. noFaults (iw_history w) \<and> jobFile jobsDir p) \<longrightarrow>
               historyInv jobsDir (ix_db t) \<and> indexShows logDir ws (ix_db s) (ix_db t))))"
  proof (rule debounce_enabled [OF inv(1) run pending])
    fix u
    assume u: "lastReceived tr = Some u" and enabled: "\<And>d ws. u + historyIndexEventDebounce \<le> ix_now s + int d \<Longrightarrow>
      distinct (map fst ws) \<Longrightarrow> set (map fst ws) = set (ix_pendingPaths s) \<Longrightarrow>
      \<exists>s'. loopStep jobsDir logDir (DebounceTick ws) (elapse d s) = Some (Indexed (map fst ws), refreshPaths jobsDir logDir ws s') \<and>
           ix_db s' = ix_db s"
    show ?thesis
    proof (rule exI [of _ u], intro conjI allI impI u)
      fix d and ws :: "(string \<times> indexWorld) list"
      assume "u + historyIndexEventDebounce \<le> ix_now s + int d \<and> distinct (map fst ws) \<and> set (map fst ws) = set (ix_pendingPaths s)"
      then have ws: "distinct (map fst ws)" and "\<exists>s'. loopStep jobsDir logDir (DebounceTick ws) (elapse d s) =
          Some (Indexed (map fst ws), refreshPaths jobsDir logDir ws s') \<and> ix_db s' = ix_db s" using enabled by blast+
      then obtain s' where "loopStep jobsDir logDir (DebounceTick ws) (elapse d s) =
          Some (Indexed (map fst ws), refreshPaths jobsDir logDir ws s')" and db: "ix_db s' = ix_db s" by blast
      then show "\<exists>t. loopStep jobsDir logDir (DebounceTick ws) (elapse d s) = Some (Indexed (map fst ws), t) \<and>
            (cleanDir jobsDir \<and> historyInv jobsDir (ix_db s) \<and>
             (\<forall>(p, w) \<in> set ws. noFaults (iw_history w) \<and> jobFile jobsDir p) \<longrightarrow>
               historyInv jobsDir (ix_db t) \<and> indexShows logDir ws (ix_db s) (ix_db t))"
        using refreshPaths_view [of jobsDir s' ws logDir, unfolded db] ws by (auto simp: indexShows_def)
    qed
  qed
qed

text \<open>
  refreshes of the whole index that watcher errors cause are at least a minute apart from
  each other, and from every periodic refresh that succeeded before, however many errors the watcher reports.
\<close>

theorem error_refreshes_spaced:
  assumes "indexRun jobsDir logDir ((v, ErrorRefresh) # tr) s" and "(u, e) \<in> set tr" and "fullRefresh e"
  shows "u + 60 * Second \<le> v"
  using assms(1)
proof cases
  case (extend s0)
  have inv: "errorInv tr s0" by (rule errorInv_run [OF extend(2)])
  then have "0 < ix_lastFullRefresh s0" "u \<le> ix_lastFullRefresh s0"
    using assms(2, 3) by (auto simp: errorInv_def)
  then show ?thesis
    using errorInv_step [OF extend(3) inv] extend(1) by (auto simp: IsZero_def historyWatcherErrorRefreshCooldown_def)
qed


lemma spaced_total:
  assumes "spaced [a, b, c, d, e, f, g, h, i, j]"
  shows "j + 375 * Second \<le> a"
proof -
  have delay: "historyWatchRetryDelay 1 = 5 * Second" "historyWatchRetryDelay 2 = 10 * Second"
    "historyWatchRetryDelay 3 = 20 * Second" "historyWatchRetryDelay 4 = 40 * Second" "historyWatchRetryDelay 5 = 60 * Second"
    "historyWatchRetryDelay 6 = 60 * Second" "historyWatchRetryDelay 7 = 60 * Second" "historyWatchRetryDelay 8 = 60 * Second"
    "historyWatchRetryDelay 9 = 60 * Second"
    by (simp_all add: historyWatchRetryDelay_exponential Second_def)
  show ?thesis using assms by (simp add: delay)
qed

text \<open>
  the watcher gives up only after ten failed attempts in a row to create it, the last at least
  375 seconds after the first, with the delays between them that the retry rule prescribes; it never makes an
  eleventh attempt, and it ends for no other reason than this and the shutdown.
\<close>

theorem watcher_gives_up_after_ten:
  assumes "indexRun jobsDir logDir tr s"
  shows "length (failStreak tr) \<le> 10 \<and> spaced (failStreak tr) \<and>
    (length (failStreak tr) = 10 \<longrightarrow> ix_watcher s = WatchReturned \<and>
       last (failStreak tr) + 375 * Second \<le> hd (failStreak tr)) \<and>
    (ix_watcher s = WatchReturned \<longrightarrow> length (failStreak tr) = 10 \<or> ix_cancelled s)"
proof -
  have inv: "watchInv tr s" by (rule watchInv_run [OF assms])
  have "last (failStreak tr) + 375 * Second \<le> hd (failStreak tr)" if ten: "length (failStreak tr) = 10"
  proof -
    obtain a b c d e f g h i j where streak: "failStreak tr = [a, b, c, d, e, f, g, h, i, j]"
      using ten by (auto simp: eval_nat_numeral length_Suc_conv)
    have "spaced (failStreak tr)" using inv by (simp add: watchInv_def)
    from spaced_total [OF this [unfolded streak]] show ?thesis by (simp add: streak)
  qed
  then show ?thesis
    using inv by (auto simp: watchInv_def historyWatchMaxConsecutiveRetryCount_def split: watchPC.splits)
qed

section \<open>Sample runs\<close>

text \<open>Scripts: a run given by the choices made in it.\<close>

datatype scriptStep = ByClock nat | ByWatcher watchInput | ByLoop loopChoice

definition scriptStep :: "string \<Rightarrow> string \<Rightarrow> scriptStep \<Rightarrow> indexSystem \<Rightarrow> (indexEvent \<times> indexSystem) option" where
  "scriptStep jobsDir logDir c s =
     (case c of
        ByClock d \<Rightarrow> Some (Quiet, elapse d s)
      | ByWatcher input \<Rightarrow> watchStep jobsDir input s
      | ByLoop choice \<Rightarrow> loopStep jobsDir logDir choice s)"

fun runScript ::
    "string \<Rightarrow> string \<Rightarrow> scriptStep list \<Rightarrow> (gotime \<times> indexEvent) list \<times> indexSystem \<Rightarrow>
     ((gotime \<times> indexEvent) list \<times> indexSystem) option" where
  "runScript jobsDir logDir [] r = Some r"
| "runScript jobsDir logDir (c # cs) (tr, s) =
     (case scriptStep jobsDir logDir c s of
        None \<Rightarrow> None
      | Some (e, t) \<Rightarrow> runScript jobsDir logDir cs ((ix_now s, e) # tr, t))"

lemma runScript_run:
  "runScript jobsDir logDir cs (tr, s) = Some (tr', t) \<Longrightarrow> indexRun jobsDir logDir tr s \<Longrightarrow> indexRun jobsDir logDir tr' t"
proof (induction cs arbitrary: tr s)
  case (Cons c cs)
  then obtain e u where step: "scriptStep jobsDir logDir c s = Some (e, u)"
    and rest: "runScript jobsDir logDir cs ((ix_now s, e) # tr, u) = Some (tr', t)"
    by (auto split: option.splits)
  have "indexStep jobsDir logDir e s u"
    using step by (cases c) (auto simp: scriptStep_def intro: indexStep.intros)
  then show ?case using Cons.IH [OF rest] Cons.prems(2) indexRun.extend by blast
qed simp

definition sampleIndexer :: indexSystem where
  "sampleIndexer = \<lparr> ix_now = 1, ix_cancelled = False, ix_interval = 60, ix_owed = 0, ix_intervalChanged = False,
     ix_watcher = WatchInit, ix_consecutiveFailures = 0, ix_requests = [], ix_running = True, ix_db = exampleDB,
     ix_pendingPaths = [], ix_debounceTimer = None, ix_debounce = False, ix_watcherErrorTimer = None,
     ix_watcherErrorRefresh = False, ix_lastFullRefresh = 0, ix_watcherErrorRefreshPending = False,
     ix_periodicTimer = NewTimer 1 (60 * Second), ix_armed = 60 \<rparr>"

lemma sampleIndexer_run: "indexRun jobsDir logDir [] sampleIndexer"
  by (rule indexRun.start) (simp add: indexInit_def sampleIndexer_def intervalDuration_def IsZero_def)

definition brokenWorld :: indexWorld where
  "brokenWorld = \<lparr> iw_history = exampleWorld\<lparr>hw_ReadDir := Inl (ErrText [])\<rparr>, iw_took = 0 \<rparr>"

definition failingScript :: "scriptStep list" where
  "failingScript = concat (map (\<lambda>d. [ByWatcher (InitResult (Some (ErrText []))), ByClock d, ByWatcher RetryTimer])
       [5000000000, 10000000000, 20000000000, 40000000000, 60000000000, 60000000000, 60000000000, 60000000000, 60000000000]) @
     [ByWatcher (InitResult (Some (ErrText [])))]"

definition errorScript :: "scriptStep list" where
  "errorScript = [ByWatcher (InitResult None), ByWatcher WatchError, ByWatcher RequestSent, ByLoop (TakeRequest brokenWorld),
     ByWatcher WatchError, ByWatcher RequestSent, ByLoop (TakeRequest brokenWorld)]"

lemmas script_simps = scriptStep_def watchStep_def loopStep_def sampleIndexer_def
  historyWatchMaxConsecutiveRetryCount_def requestCapacity_def historyWatchRetryDelay_exponential Second_def
  onTakeRequest_def scheduleWatcherErrorRefresh_def runWatcherErrorRefresh_def stopWatcherErrorTimer_def runRefresh_def
  IsZero_def historyWatcherErrorRefreshCooldown_def onWatcherErrorTick_def elapse_def Let_def NewTimer_def fireTimer_def takeTick_def
  brokenWorld_def refresh_def refreshLocked_def loadIndexedMtimesLocked_def atSite_def exampleWorld_def

lemma failingScript_run:
  "\<exists>tr s. runScript jobsDir logDir failingScript ([], sampleIndexer) = Some (tr, s) \<and> length (failStreak tr) = 10"
  by (simp add: failingScript_def script_simps)

lemma errorScript_run:
  "\<exists>tr s. runScript jobsDir logDir (errorScript @ [ByClock 60000000000, ByLoop (WatcherErrorTick brokenWorld)]) ([], sampleIndexer) =
     Some ((60000000001, ErrorRefresh) # tr, s) \<and> (1, ErrorRefresh) \<in> set tr"
  by (simp add: errorScript_def script_simps)

lemma errorScript_owed:
  "\<exists>tr s. runScript jobsDir logDir errorScript ([], sampleIndexer) = Some (tr, s) \<and> errorOwed tr = Some 1 \<and>
     \<not> ix_cancelled s \<and> ix_now s = 1 \<and> ix_armed s = 60"
  by (simp add: errorScript_def script_simps)

theorem watcher_gives_up_after_ten_witness:
  "\<exists>tr s. indexRun ''/jobs'' ''/logs'' tr s \<and> length (failStreak tr) = 10 \<and> ix_watcher s = WatchReturned \<and>
     last (failStreak tr) + 375 * Second \<le> hd (failStreak tr)"
proof -
  obtain tr s where "runScript ''/jobs'' ''/logs'' failingScript ([], sampleIndexer) = Some (tr, s)"
    and ten: "length (failStreak tr) = 10" using failingScript_run by blast
  then have run: "indexRun ''/jobs'' ''/logs'' tr s" using runScript_run sampleIndexer_run by blast
  show ?thesis using watcher_gives_up_after_ten [OF run] ten run by blast
qed

theorem error_refreshes_spaced_witness:
  "\<exists>tr s. indexRun ''/jobs'' ''/logs'' ((60000000001, ErrorRefresh) # tr) s \<and> (1, ErrorRefresh) \<in> set tr \<and>
     1 + 60 * Second \<le> 60000000001"
proof -
  obtain tr s where "runScript ''/jobs'' ''/logs'' (errorScript @ [ByClock 60000000000, ByLoop (WatcherErrorTick brokenWorld)])
        ([], sampleIndexer) = Some ((60000000001, ErrorRefresh) # tr, s)"
    and early: "(1, ErrorRefresh) \<in> set tr" using errorScript_run by blast
  then have run: "indexRun ''/jobs'' ''/logs'' ((60000000001, ErrorRefresh) # tr) s" using runScript_run sampleIndexer_run by blast
  show ?thesis using error_refreshes_spaced [OF run early] run early by auto
qed


definition changedWorld :: indexWorld where
  "changedWorld = \<lparr> iw_history = exampleWorld\<lparr>hw_Stat := (\<lambda>_. Inr \<lparr> fi_mode = ModeRegular, fi_size = 9,
     fi_mtime = 62135596800 * Second + 7 \<rparr>)\<rparr>, iw_took = 0 \<rparr>"

definition eventScript :: "scriptStep list" where
  "eventScript = [ByWatcher (InitResult None),
     ByWatcher (WatchEvent \<lparr> ev_Name = ''/jobs/manual-1700000001.json'', ev_Op = [FsWrite] \<rparr>),
     ByWatcher RequestSent, ByLoop (TakeRequest brokenWorld)]"

lemma eventScript_run:
  "\<exists>s. runScript ''/jobs'' ''/logs'' eventScript ([], sampleIndexer) =
      Some ([(1, Received ''/jobs/manual-1700000001.json''), (1, Quiet),
             (1, Accepted ''/jobs/manual-1700000001.json''), (1, InitOk)], s) \<and>
    ix_pendingPaths s = [''/jobs/manual-1700000001.json''] \<and> \<not> ix_cancelled s \<and> ix_now s = 1 \<and> ix_db s = exampleDB"
proof -
  have "onWatchEvent ''/jobs'' \<lparr> ev_Name = ''/jobs/manual-1700000001.json'', ev_Op = [FsWrite] \<rparr> =
      SendPath ''/jobs/manual-1700000001.json''" by code_simp
  then show ?thesis by (simp add: eventScript_def script_simps resetDebounce_def List.insert_def)
qed

theorem accepted_files_reach_index_witness:
  "\<exists>tr s t. indexRun ''/jobs'' ''/logs'' tr s \<and> ''/jobs/manual-1700000001.json'' \<in> waiting tr \<and>
     loopStep ''/jobs'' ''/logs'' (DebounceTick [(''/jobs/manual-1700000001.json'', changedWorld)]) (elapse 150000000 s) =
       Some (Indexed [''/jobs/manual-1700000001.json''], t) \<and>
     historyView (ix_db t) ''/jobs/manual-1700000001.json'' =
       eventView (iw_history changedWorld) ''/logs'' (historyView exampleDB) ''/jobs/manual-1700000001.json'' \<and>
     historyView (ix_db t) ''/jobs/cron-1600000000.json'' = historyView exampleDB ''/jobs/cron-1600000000.json''"
proof -
  let ?p = "''/jobs/manual-1700000001.json''"
  let ?ws = "[(?p, changedWorld)]"
  let ?tr = "[(1, Received ?p), (1, Quiet), (1, Accepted ?p), (1, InitOk)]"
  obtain s where "runScript ''/jobs'' ''/logs'' eventScript ([], sampleIndexer) = Some (?tr, s)"
    and s: "ix_pendingPaths s = [?p]" "\<not> ix_cancelled s" "ix_now s = 1" "ix_db s = exampleDB" using eventScript_run by blast
  then have run: "indexRun ''/jobs'' ''/logs'' ?tr s" using runScript_run sampleIndexer_run by blast
  have jf: "jobFile ''/jobs'' ?p" unfolding jobFile_def by (rule exI [of _ "''manual-1700000001.json''"]) code_simp
  have nf: "noFaults (iw_history changedWorld)" by (simp add: noFaults_def changedWorld_def exampleWorld_def)
  have "filepath_Join ''/jobs'' ''cron-1600000000.json'' = ''/jobs/cron-1600000000.json''" "version3JobIDPattern ''cron-1600000000''"
    "validUserID ''abcdefg1''" by code_simp+
  then have inv: "historyInv ''/jobs'' exampleDB" by (simp add: historyInv_def exampleDB_def)
  obtain t where t: "loopStep ''/jobs'' ''/logs'' (DebounceTick ?ws) (elapse 150000000 s) = Some (Indexed [?p], t)"
    and shows_: "indexShows ''/logs'' ?ws exampleDB (ix_db t)"
    using accepted_files_reach_index [OF run s(2), THEN conjunct2] s jf nf inv exampleDir
    by (auto simp: historyIndexEventDebounce_def Second_def dest!: spec [of _ 150000000] spec [of _ ?ws])
  then show ?thesis using run by (intro exI [of _ ?tr] exI [of _ s] exI [of _ t]) (auto simp: indexShows_def)
qed

end
