(* ===== verification/App_Log.thy ===== *)
theory App_Log
  imports Auth_Handlers Config_Roundtrip
begin

text \<open>
  The application log (\<^verbatim>\<open>server/internal/applog/logger.go\<close>): log levels, the masking of secrets, and the
  file that is rotated by size. The file system is a map from paths to contents; what a system call
  answers beyond that is the argument \<open>logWorld\<close>. Nothing else writes to the log files, and their
  sizes stay far below the 64-bit limit. The layout of a line (\<^verbatim>\<open>slog.NewTextHandler\<close>) is an argument.
\<close>

section \<open>Levels\<close>

datatype logLevel = LevelDebug | LevelInfo | LevelWarn | LevelError

definition levelNumber :: "logLevel \<Rightarrow> int" where
  "levelNumber l = (case l of LevelDebug \<Rightarrow> -4 | LevelInfo \<Rightarrow> 0 | LevelWarn \<Rightarrow> 4 | LevelError \<Rightarrow> 8)"

definition parseLevel :: "string \<Rightarrow> logLevel res" where
  "parseLevel value =
     (let v = ToLower (TrimSpace value) in
      if v = ''debug'' then Inr LevelDebug
      else if v = ''info'' then Inr LevelInfo
      else if v = ''warn'' then Inr LevelWarn
      else if v = ''error'' then Inr LevelError
      else Inl (ErrText (''unsupported log level '' @ value)))"

section \<open>Secrets\<close>

definition maskedSecret :: string where "maskedSecret = ''********''"

text \<open>
  \<^verbatim>\<open>[]rune(value)\<close>, each rune as the bytes \<^verbatim>\<open>string\<close> writes for it: its own, and those of U+FFFD
  for a byte that starts no encoding.
\<close>

definition replacementBytes :: string where
  "replacementBytes = [char_of (0xEF :: nat), char_of (0xBF :: nat), char_of (0xBD :: nat)]"

function runes :: "string \<Rightarrow> string list" where
  "runes s =
     (if s = [] then []
      else (if decodeRune s = (0xFFFD, 1) then replacementBytes else take (snd (decodeRune s)) s) #
           runes (drop (snd (decodeRune s)) s))"
  by pat_completeness auto
termination
  by (relation "measure length") (auto dest: decodeRune_width)

declare runes.simps [simp del]

definition MaskSecret :: "string \<Rightarrow> string" where
  "MaskSecret value =
     (if value = [] then []
      else let rs = runes value in
        if length rs \<le> 8 then maskedSecret
        else concat (take 4 rs) @ maskedSecret @ concat (drop (length rs - 4) rs))"

text \<open>
  Attributes: a string, a value of another kind with the text it prints as (\<open>AnyValue\<close> for errors,
  structures and the like, \<open>ScalarValue\<close> for numbers, times and booleans), or a value that
  \<^verbatim>\<open>Secret\<close> marked.
\<close>

datatype attrValue = StringValue string | AnyValue string | ScalarValue string | SecretValue string

record attr =
  attr_Key :: string
  attr_Value :: attrValue

definition Secret :: "string \<Rightarrow> string \<Rightarrow> attr" where
  "Secret key value = \<lparr> attr_Key = key, attr_Value = SecretValue value \<rparr>"

text \<open>
  The characters of a key. Beyond ASCII, \<^verbatim>\<open>unicode.IsLetter\<close>, \<^verbatim>\<open>unicode.IsDigit\<close> and
  \<^verbatim>\<open>unicode.ToLower\<close> are the arguments \<open>isLD\<close> and \<open>lower\<close>.
\<close>

function codePoints :: "string \<Rightarrow> nat list" where
  "codePoints s = (if s = [] then [] else fst (decodeRune s) # codePoints (drop (snd (decodeRune s)) s))"
  by pat_completeness auto
termination
  by (relation "measure length") (auto dest: decodeRune_width)

declare codePoints.simps [simp del]

definition keyRune :: "(nat \<Rightarrow> bool) \<Rightarrow> (nat \<Rightarrow> nat) \<Rightarrow> nat \<Rightarrow> nat" where
  "keyRune isLD lower r =
     (if 65 \<le> r \<and> r \<le> 90 then r + 32
      else if 97 \<le> r \<and> r \<le> 122 \<or> 48 \<le> r \<and> r \<le> 57 then r
      else if r < 128 then 95
      else if isLD r then lower r else 95)"

text \<open>\<^verbatim>\<open>strings.FieldsFunc\<close> with the underscore as separator.\<close>

fun keyParts :: "nat list \<Rightarrow> nat list \<Rightarrow> nat list list" where
  "keyParts cur [] = (if cur = [] then [] else [cur])"
| "keyParts cur (r # rs) =
     (if r = 95 then (if cur = [] then keyParts [] rs else cur # keyParts [] rs) else keyParts (cur @ [r]) rs)"

definition sensitiveParts :: "string list" where
  "sensitiveParts = [''password'', ''passwd'', ''token'', ''secret'', ''cookie'', ''authorization'', ''session'']"

definition sensitiveKey :: "(nat \<Rightarrow> bool) \<Rightarrow> (nat \<Rightarrow> nat) \<Rightarrow> string \<Rightarrow> bool" where
  "sensitiveKey isLD lower key0 =
     (let key = map (keyRune isLD lower) (codePoints key0) in
      list_ex (\<lambda>part. part \<in> set (map (map byte) sensitiveParts)) (keyParts [] key) \<or>
      (\<exists>word \<in> {''api_key'', ''access_key''}. length word \<le> length key \<and> drop (length key - length word) key = map byte word))"

definition redactAttr :: "(nat \<Rightarrow> bool) \<Rightarrow> (nat \<Rightarrow> nat) \<Rightarrow> attr \<Rightarrow> attr" where
  "redactAttr isLD lower a =
     (case attr_Value a of
        SecretValue secret \<Rightarrow> a\<lparr>attr_Value := StringValue (MaskSecret secret)\<rparr>
      | v \<Rightarrow>
          if \<not> sensitiveKey isLD lower (attr_Key a) then a
          else a\<lparr>attr_Value := StringValue (case v of
                 StringValue s \<Rightarrow> MaskSecret s | AnyValue s \<Rightarrow> MaskSecret s | _ \<Rightarrow> maskedSecret)\<rparr>)"

section \<open>The rotating file\<close>

record rotatingWriter =
  rw_path :: string
  rw_maxSize :: int
  rw_maxFiles :: nat
  rw_file :: bool
  rw_size :: int

record logDisk =
  ld_files :: "string \<rightharpoonup> string"
  ld_stderr :: string

record logWorld =
  lw_mkdir :: "goerror option"
  lw_open :: "goerror option"
  lw_stat :: "goerror option"
  lw_regular :: bool
  lw_close :: "goerror option"
  lw_trunc :: "goerror option"
  lw_remove :: "goerror option"
  lw_rename :: "nat \<Rightarrow> goerror option"
  lw_written :: nat
  lw_write :: "goerror option"

type_synonym logState = "rotatingWriter \<times> logDisk"

definition contents :: "logDisk \<Rightarrow> string \<Rightarrow> string" where
  "contents d p = (case ld_files d p of None \<Rightarrow> [] | Some c \<Rightarrow> c)"

text \<open>\<^verbatim>\<open>fmt.Sprintf("%s.%d", path, index)\<close>; index 0 stands for the active file.\<close>

definition rotatedName :: "string \<Rightarrow> nat \<Rightarrow> string" where
  "rotatedName path index = (if index = 0 then path else path @ ''.'' @ Itoa (int index))"

definition rw_open :: "logWorld \<Rightarrow> logState \<Rightarrow> goerror option \<times> logState" where
  "rw_open w s =
     (case s of (rw, d) \<Rightarrow>
        case lw_open w of
          Some e \<Rightarrow> (Some e, s)
        | None \<Rightarrow>
            (let d1 = d\<lparr>ld_files := (ld_files d)(rw_path rw \<mapsto> contents d (rw_path rw))\<rparr> in
             case lw_stat w of
               Some e \<Rightarrow> (Some e, rw, d1)
             | None \<Rightarrow>
                 if \<not> lw_regular w then (Some (ErrText (''log path is not a regular file: '' @ rw_path rw)), rw, d1)
                 else (None, rw\<lparr>rw_file := True, rw_size := int (length (contents d (rw_path rw)))\<rparr>, d1)))"

definition newRotatingWriter :: "logWorld \<Rightarrow> string \<Rightarrow> int \<Rightarrow> nat \<Rightarrow> logDisk \<Rightarrow> logState res" where
  "newRotatingWriter w path maxSize maxFiles d =
     (case lw_mkdir w of
        Some e \<Rightarrow> Inl e
      | None \<Rightarrow>
          (case rw_open w (\<lparr> rw_path = path, rw_maxSize = maxSize, rw_maxFiles = maxFiles, rw_file = False, rw_size = 0 \<rparr>, d) of
             (Some e, _) \<Rightarrow> Inl e
           | (None, s) \<Rightarrow> Inr s))"

text \<open>\<^verbatim>\<open>os.Rename\<close>; \<open>index\<close> is that of the source. A missing source is not an error here.\<close>

definition renameLog :: "logWorld \<Rightarrow> string \<Rightarrow> nat \<Rightarrow> logDisk \<Rightarrow> goerror option \<times> logDisk" where
  "renameLog w path index d =
     (case lw_rename w index of
        Some e \<Rightarrow> if is_not_exist e then (None, d) else (Some e, d)
      | None \<Rightarrow>
          (case ld_files d (rotatedName path index) of
             None \<Rightarrow> (None, d)
           | Some c \<Rightarrow> (None, d\<lparr>ld_files := (ld_files d)(rotatedName path index := None, rotatedName path (Suc index) \<mapsto> c)\<rparr>)))"

text \<open>The renames from \<open>index\<close> down to 1, and then the one of the active file.\<close>

fun shiftLogs :: "logWorld \<Rightarrow> string \<Rightarrow> nat \<Rightarrow> logDisk \<Rightarrow> goerror option \<times> logDisk" where
  "shiftLogs w path 0 d = renameLog w path 0 d"
| "shiftLogs w path (Suc index) d =
     (case renameLog w path (Suc index) d of
        (Some e, d1) \<Rightarrow> (Some e, d1)
      | (None, d1) \<Rightarrow> shiftLogs w path index d1)"

definition rw_rotate :: "logWorld \<Rightarrow> logState \<Rightarrow> goerror option \<times> logState" where
  "rw_rotate w s =
     (case s of (rw, d) \<Rightarrow>
        case lw_close w of
          Some e \<Rightarrow> (Some e, s)
        | None \<Rightarrow>
            (let rw1 = rw\<lparr>rw_file := False\<rparr> in
             if rw_maxFiles rw = 1 then
               (case lw_trunc w of
                  Some e \<Rightarrow> (Some e, snd (rw_open w (rw1, d)))
                | None \<Rightarrow> (None, rw1\<lparr>rw_file := True, rw_size := 0\<rparr>, d\<lparr>ld_files := (ld_files d)(rw_path rw \<mapsto> [])\<rparr>))
             else
               (case (case lw_remove w of
                        Some e \<Rightarrow> if is_not_exist e then (None, d) else (Some e, d)
                      | None \<Rightarrow> (None, d\<lparr>ld_files := (ld_files d)(rotatedName (rw_path rw) (rw_maxFiles rw - 1) := None)\<rparr>)) of
                  (Some e, d1) \<Rightarrow> (Some e, snd (rw_open w (rw1, d1)))
                | (None, d1) \<Rightarrow>
                    (case shiftLogs w (rw_path rw) (rw_maxFiles rw - 2) d1 of
                       (Some e, d2) \<Rightarrow> (Some e, snd (rw_open w (rw1, d2)))
                     | (None, d2) \<Rightarrow> rw_open w (rw1, d2)))))"

definition fallback :: "string \<Rightarrow> goerror \<Rightarrow> logState \<Rightarrow> (nat \<times> goerror option) \<times> logState" where
  "fallback data err s =
     ((length data, None), fst s,
      (snd s)\<lparr>ld_stderr := ld_stderr (snd s) @ ''application logger failure: '' @ errText err @ [LF] @ data\<rparr>)"

definition appendLog :: "logWorld \<Rightarrow> string \<Rightarrow> logState \<Rightarrow> (nat \<times> goerror option) \<times> logState" where
  "appendLog w data s =
     (case s of (rw, d) \<Rightarrow>
        let n = (if lw_write w = None then length data else min (lw_written w) (length data));
            s1 = (rw\<lparr>rw_size := rw_size rw + int n\<rparr>,
                  d\<lparr>ld_files := (ld_files d)(rw_path rw \<mapsto> contents d (rw_path rw) @ take n data)\<rparr>)
        in case lw_write w of
             Some e \<Rightarrow> fallback (drop n data) (wrapErr ''write application log'' e) s1
           | None \<Rightarrow> ((n, None), s1))"

definition rw_Write :: "logWorld \<Rightarrow> string \<Rightarrow> logState \<Rightarrow> (nat \<times> goerror option) \<times> logState" where
  "rw_Write w data s =
     (if \<not> rw_file (fst s) then fallback data (ErrText ''log file is closed'') s
      else if 0 < rw_size (fst s) \<and> rw_size (fst s) + int (length data) > rw_maxSize (fst s) then
        (case rw_rotate w s of
           (Some e, s1) \<Rightarrow> fallback data (wrapErr ''rotate application log'' e) s1
         | (None, s1) \<Rightarrow> appendLog w data s1)
      else appendLog w data s)"

definition rw_Close :: "logWorld \<Rightarrow> logState \<Rightarrow> goerror option \<times> logState" where
  "rw_Close w s = (if \<not> rw_file (fst s) then (None, s) else (lw_close w, (fst s)\<lparr>rw_file := False\<rparr>, snd s))"

section \<open>What the files hold\<close>

definition slot :: "rotatingWriter \<Rightarrow> logDisk \<Rightarrow> nat \<Rightarrow> string" where
  "slot rw d k = contents d (rotatedName (rw_path rw) k)"

text \<open>The log as one text, the oldest file first: the files with index below \<open>n\<close>.\<close>

fun logUpTo :: "rotatingWriter \<Rightarrow> logDisk \<Rightarrow> nat \<Rightarrow> string" where
  "logUpTo rw d 0 = []"
| "logUpTo rw d (Suc n) = slot rw d n @ logUpTo rw d n"

definition logText :: "logState \<Rightarrow> string" where
  "logText s = logUpTo (fst s) (snd s) (rw_maxFiles (fst s))"

definition logInv :: "logState \<Rightarrow> bool" where
  "logInv s \<longleftrightarrow>
     0 < rw_maxFiles (fst s) \<and> rw_maxFiles (fst s) < 2 ^ 63 \<and>
     (rw_file (fst s) \<longrightarrow> rw_size (fst s) = int (length (slot (fst s) (snd s) 0)))"

text \<open>A rename or a removal reports a missing file only when the file is missing.\<close>

definition honest :: "logWorld \<Rightarrow> bool" where
  "honest w \<longleftrightarrow> (\<forall>e. lw_remove w = Some e \<longrightarrow> \<not> is_not_exist e) \<and> (\<forall>k e. lw_rename w k = Some e \<longrightarrow> \<not> is_not_exist e)"

lemma rotatedName_inject:
  assumes "j < 2 ^ 63" and "k < 2 ^ 63"
  shows "rotatedName p j = rotatedName p k \<longleftrightarrow> j = k"
proof -
  have b: "- (2 ^ 63) \<le> int i \<and> int i < 2 ^ 63" if "i < 2 ^ 63" for i :: nat
    using that by (simp add: nat_less_iff [symmetric] flip: of_nat_less_iff)
  show ?thesis using Itoa_inj [of "int j" "int k"] b [OF assms(1)] b [OF assms(2)] by (auto simp: rotatedName_def)
qed

lemma slot_update:
  assumes "j < 2 ^ 63" and "k < 2 ^ 63"
  shows "slot rw (d\<lparr>ld_files := (ld_files d)(rotatedName (rw_path rw) j := x)\<rparr>) k =
    (if j = k then case x of None \<Rightarrow> [] | Some c \<Rightarrow> c else slot rw d k)"
  using rotatedName_inject [OF assms(2, 1), of "rw_path rw"] by (auto simp: slot_def contents_def)

lemma slot_fields [simp]:
  "slot (rw\<lparr>rw_file := b\<rparr>) d = slot rw d" "slot (rw\<lparr>rw_size := n\<rparr>) d = slot rw d" "slot rw (d\<lparr>ld_stderr := e\<rparr>) = slot rw d"
  by (simp_all add: slot_def contents_def fun_eq_iff)

lemma logUpTo_cong: "(\<And>k. k < n \<Longrightarrow> slot rw d k = slot rw' d' k) \<Longrightarrow> logUpTo rw d n = logUpTo rw' d' n"
  by (induction n) auto

text \<open>One rename into an empty slot moves the contents.\<close>

lemma renameLog_slots:
  assumes "renameLog w (rw_path rw) i d = (err, d')" and "honest w" and "slot rw d (Suc i) = []"
    and "Suc i < 2 ^ 63" and "k < 2 ^ 63"
  shows "slot rw d' k = (if err \<noteq> None then slot rw d k else if k = Suc i then slot rw d i else if k = i then [] else slot rw d k)"
proof (cases "lw_rename w i")
  case (Some e)
  then show ?thesis using assms(1, 2) by (auto simp: renameLog_def honest_def split: if_splits)
next
  case None
  show ?thesis
  proof (cases "ld_files d (rotatedName (rw_path rw) i)")
    case None
    then show ?thesis using assms(1, 3) \<open>lw_rename w i = None\<close> by (auto simp: renameLog_def slot_def contents_def)
  next
    case (Some c)
    then have d': "d' = (d\<lparr>ld_files := (ld_files d)(rotatedName (rw_path rw) i := None)\<rparr>)
        \<lparr>ld_files := (ld_files (d\<lparr>ld_files := (ld_files d)(rotatedName (rw_path rw) i := None)\<rparr>))
           (rotatedName (rw_path rw) (Suc i) := Some c)\<rparr>" and "err = None"
      using assms(1) None by (auto simp: renameLog_def)
    moreover have "slot rw d i = c" using Some by (simp add: slot_def contents_def)
    ultimately show ?thesis using assms(4, 5) by (simp only: d' slot_update Suc_lessD) auto
  qed
qed

lemma shiftLogs_slots:
  assumes "shiftLogs w (rw_path rw) i d = (err, d')" and "honest w" and "slot rw d (Suc i) = []" and "Suc i < 2 ^ 63"
  shows "logUpTo rw d' (Suc (Suc i)) = logUpTo rw d (Suc (Suc i)) \<and>
    (\<forall>k. Suc i < k \<and> k < 2 ^ 63 \<longrightarrow> slot rw d' k = slot rw d k) \<and>
    (err = None \<longrightarrow> slot rw d' 0 = [])"
  using assms(1, 3, 4)
proof (induction i arbitrary: d)
  case 0
  then have r: "renameLog w (rw_path rw) 0 d = (err, d')" by simp
  note slots = renameLog_slots [OF r assms(2) 0(2, 3)]
  show ?case using slots 0(2, 3) by (auto simp: le_Suc_eq)
next
  case (Suc i)
  obtain err1 d1 where r: "renameLog w (rw_path rw) (Suc i) d = (err1, d1)" by (cases "renameLog w (rw_path rw) (Suc i) d")
  note slots = renameLog_slots [OF r assms(2) Suc.prems(2, 3)]
  show ?case
  proof (cases err1)
    case (Some e)
    then have "d' = d1" "err = Some e" using Suc.prems(1) r by auto
    moreover have "slot rw d1 k = slot rw d k" if "k < 2 ^ 63" for k using slots [OF that] Some by simp
    ultimately show ?thesis using Suc.prems(3) by (auto intro!: logUpTo_cong)
  next
    case None
    then have s: "shiftLogs w (rw_path rw) i d1 = (err, d')" using Suc.prems(1) r by simp
    have moved: "slot rw d1 k = (if k = Suc (Suc i) then slot rw d (Suc i) else if k = Suc i then [] else slot rw d k)"
      if "k < 2 ^ 63" for k using slots [OF that] None by simp
    have small: "k < 2 ^ 63" if "k \<le> Suc (Suc i)" for k using that Suc.prems(3) by simp
    have IH: "logUpTo rw d' (Suc (Suc i)) = logUpTo rw d1 (Suc (Suc i))"
      "\<forall>k. Suc i < k \<and> k < 2 ^ 63 \<longrightarrow> slot rw d' k = slot rw d1 k"
      "err = None \<longrightarrow> slot rw d' 0 = []"
      using Suc.IH [OF s] moved small [of "Suc i"] by auto
    have low: "logUpTo rw d1 (Suc i) = logUpTo rw d (Suc i)" using moved small by (intro logUpTo_cong) auto
    have "logUpTo rw d' (Suc (Suc (Suc i))) = logUpTo rw d (Suc (Suc (Suc i)))"
    proof -
      have "logUpTo rw d1 (Suc (Suc i)) = logUpTo rw d (Suc i)" using moved [of "Suc i"] small [of "Suc i"] low by simp
      moreover have "slot rw d' (Suc (Suc i)) = slot rw d (Suc i)" using IH(2) moved small [of "Suc (Suc i)"] by simp
      ultimately show ?thesis
        unfolding logUpTo.simps(2) [of rw d' "Suc (Suc i)"] logUpTo.simps(2) [of rw d "Suc (Suc i)"]
        using IH(1) Suc.prems(2) by simp
    qed
    moreover have "\<forall>k. Suc (Suc i) < k \<and> k < 2 ^ 63 \<longrightarrow> slot rw d' k = slot rw d k"
      using IH(2) moved by auto
    ultimately show ?thesis using IH(3) by blast
  qed
qed

lemma shiftLogs_bound:
  assumes "shiftLogs w (rw_path rw) i d = (err, d')" and "honest w" and "slot rw d (Suc i) = []" and "Suc i < m" and "m \<le> 2 ^ 63"
    and "\<forall>k < m. length (slot rw d k) \<le> B"
  shows "\<forall>k < m. length (slot rw d' k) \<le> B"
  using assms(1, 3, 4, 6)
proof (induction i arbitrary: d)
  case 0
  then have r: "renameLog w (rw_path rw) 0 d = (err, d')" by simp
  show ?case using renameLog_slots [OF r assms(2) 0(2)] 0(3, 4) assms(5) by auto
next
  case (Suc i)
  obtain err1 d1 where r: "renameLog w (rw_path rw) (Suc i) d = (err1, d1)" by (cases "renameLog w (rw_path rw) (Suc i) d")
  have slots: "slot rw d1 k = (if err1 \<noteq> None then slot rw d k else if k = Suc (Suc i) then slot rw d (Suc i)
      else if k = Suc i then [] else slot rw d k)" if "k < m" for k
    using renameLog_slots [OF r assms(2) Suc.prems(2)] Suc.prems(3) assms(5) that by simp
  then have bound: "\<forall>k < m. length (slot rw d1 k) \<le> B" using Suc.prems(3, 4) by auto
  show ?case
  proof (cases err1)
    case None
    then have "shiftLogs w (rw_path rw) i d1 = (err, d')" "slot rw d1 (Suc i) = []"
      using Suc.prems(1, 3) r slots by auto
    then show ?thesis using Suc.IH bound Suc.prems(3) by simp
  next
    case (Some e)
    then show ?thesis using Suc.prems(1) r bound by auto
  qed
qed

lemma shiftLogs_frame:
  assumes "shiftLogs w path i d = (err, d')"
  shows "ld_stderr d' = ld_stderr d \<and> (\<forall>p. p \<notin> rotatedName path ` {..Suc i} \<longrightarrow> ld_files d' p = ld_files d p)"
proof -
  have r: "ld_stderr d' = ld_stderr d \<and> (\<forall>p. p \<noteq> rotatedName path i \<and> p \<noteq> rotatedName path (Suc i) \<longrightarrow> ld_files d' p = ld_files d p)"
    if "renameLog w path i d = (err, d')" for i d err d'
    using that by (auto simp: renameLog_def split: option.splits if_splits)
  show ?thesis
    using assms
  proof (induction i arbitrary: d)
    case 0
    then show ?case using r [of 0 d err d'] by (auto simp: atMost_Suc)
  next
    case (Suc i)
    obtain err1 d1 where s: "renameLog w path (Suc i) d = (err1, d1)" by (cases "renameLog w path (Suc i) d")
    show ?case
    proof (cases err1)
      case None
      then have "shiftLogs w path i d1 = (err, d')" using Suc.prems s by simp
      from Suc.IH [OF this] r [OF s] show ?thesis by (auto simp: image_iff)
    next
      case (Some e)
      then show ?thesis using Suc.prems s r [OF s] by (auto simp: image_iff)
    qed
  qed
qed

section \<open>Opening, rotating and writing\<close>

lemma contents_create [simp]: "contents (d\<lparr>ld_files := (ld_files d)(p \<mapsto> contents d p)\<rparr>) q = contents d q"
  by (auto simp: contents_def)

lemma rw_open_effect:
  assumes "rw_open w (rw, d) = (err, rw', d')"
  shows "slot rw d' = slot rw d \<and> ld_stderr d' = ld_stderr d \<and>
    rw_path rw' = rw_path rw \<and> rw_maxSize rw' = rw_maxSize rw \<and> rw_maxFiles rw' = rw_maxFiles rw \<and>
    (err = None \<longrightarrow> rw_file rw' \<and> rw_size rw' = int (length (slot rw d 0))) \<and>
    (err \<noteq> None \<longrightarrow> rw' = rw) \<and> (\<forall>p. p \<noteq> rw_path rw \<longrightarrow> ld_files d' p = ld_files d p)"
proof (cases "lw_open w")
  case (Some e)
  then show ?thesis using assms by (auto simp: rw_open_def)
next
  case None
  then show ?thesis
    using assms
    by (cases "lw_stat w") (auto simp: rw_open_def Let_def slot_def rotatedName_def fun_eq_iff split: if_splits)
qed

text \<open>
  What a rotation and a write may do to the state: the settings stay, files other than the log's own stay,
  and a file grows only by what is written.
\<close>

definition sameSettings :: "rotatingWriter \<Rightarrow> rotatingWriter \<Rightarrow> bool" where
  "sameSettings rw rw' \<longleftrightarrow>
     rw_path rw' = rw_path rw \<and> rw_maxSize rw' = rw_maxSize rw \<and> rw_maxFiles rw' = rw_maxFiles rw"

lemma slot_path: "rw_path rw' = rw_path rw \<Longrightarrow> slot rw' d = slot rw d"
  by (simp add: slot_def fun_eq_iff)

lemma logUpTo_path: "rw_path rw' = rw_path rw \<Longrightarrow> logUpTo rw' d n = logUpTo rw d n"
  by (rule logUpTo_cong) (simp add: slot_def)

lemma reopen_effect:
  assumes "snd (rw_open w (rw\<lparr>rw_file := False\<rparr>, d)) = (rw', d')"
  shows "sameSettings rw rw'" and "slot rw d' = slot rw d" and "ld_stderr d' = ld_stderr d"
    and "rw_file rw' \<Longrightarrow> rw_size rw' = int (length (slot rw d' 0))"
    and "\<And>p. p \<noteq> rw_path rw \<Longrightarrow> ld_files d' p = ld_files d p"
proof -
  let ?rw = "rw\<lparr>rw_file := False\<rparr>"
  obtain err where o: "rw_open w (?rw, d) = (err, rw', d')" using assms by (metis prod.collapse)
  have path: "rw_path ?rw = rw_path rw" by simp
  note e = rw_open_effect [OF o]
  show "sameSettings rw rw'" using e by (simp add: sameSettings_def)
  show same: "slot rw d' = slot rw d" using e slot_path [OF path] by simp
  show "ld_stderr d' = ld_stderr d" using e by simp
  show "rw_size rw' = int (length (slot rw d' 0))" if "rw_file rw'"
    using that e same slot_path [OF path] by (cases err) auto
  show "ld_files d' p = ld_files d p" if "p \<noteq> rw_path rw" for p using e that by simp
qed

text \<open>The oldest file a rotation may drop.\<close>

definition oldest :: "logState \<Rightarrow> string" where
  "oldest s = slot (fst s) (snd s) (rw_maxFiles (fst s) - 1)"

lemma logText_oldest: "logInv (rw, d) \<Longrightarrow> logText (rw, d) = oldest (rw, d) @ logUpTo rw d (rw_maxFiles rw - 1)"
  by (cases "rw_maxFiles rw") (auto simp: logInv_def logText_def oldest_def)

lemma removeOldest_slots:
  assumes "n < 2 ^ 63" and "k < 2 ^ 63"
  shows "slot rw (d\<lparr>ld_files := (ld_files d)(rotatedName (rw_path rw) n := None)\<rparr>) k = (if k = n then [] else slot rw d k)"
  using slot_update [OF assms, of rw d None] by auto

text \<open>A rotation keeps the text of the log but for the oldest file, and when it succeeds the active file is empty.\<close>

definition rotated :: "logState \<Rightarrow> logState \<Rightarrow> bool" where
  "rotated s t \<longleftrightarrow>
     sameSettings (fst s) (fst t) \<and> logInv t \<and> ld_stderr (snd t) = ld_stderr (snd s) \<and>
     (\<exists>dropped kept. dropped \<in> {[], oldest s} \<and> logText s = dropped @ kept \<and> logText t = kept) \<and>
     (\<forall>B. (\<forall>k < rw_maxFiles (fst s). length (slot (fst s) (snd s) k) \<le> B) \<longrightarrow>
          (\<forall>k < rw_maxFiles (fst s). length (slot (fst s) (snd t) k) \<le> B)) \<and>
     (\<forall>p. p \<notin> rotatedName (rw_path (fst s)) ` {..<rw_maxFiles (fst s)} \<longrightarrow> ld_files (snd t) p = ld_files (snd s) p)"

lemma rotatedI:
  assumes "sameSettings rw rw'" and "logInv (rw, d)" and "rw_file rw' \<Longrightarrow> rw_size rw' = int (length (slot rw d' 0))"
    and "ld_stderr d' = ld_stderr d" and "dropped \<in> {[], oldest (rw, d)}" and "logText (rw, d) = dropped @ logUpTo rw d' (rw_maxFiles rw)"
    and "\<And>B. \<forall>k < rw_maxFiles rw. length (slot rw d k) \<le> B \<Longrightarrow> \<forall>k < rw_maxFiles rw. length (slot rw d' k) \<le> B"
    and "\<And>p. p \<notin> rotatedName (rw_path rw) ` {..<rw_maxFiles rw} \<Longrightarrow> ld_files d' p = ld_files d p"
  shows "rotated (rw, d) (rw', d')"
proof -
  have path: "rw_path rw' = rw_path rw" and files: "rw_maxFiles rw' = rw_maxFiles rw" using assms(1) by (simp_all add: sameSettings_def)
  have "logText (rw', d') = logUpTo rw d' (rw_maxFiles rw)" by (simp add: logText_def files logUpTo_path [OF path])
  moreover have "logInv (rw', d')" using assms(2, 3) files slot_path [OF path] by (simp add: logInv_def)
  ultimately show ?thesis using assms(1, 4-8) unfolding rotated_def by auto
qed

lemma rotated_refl: "logInv (rw, d) \<Longrightarrow> rotated (rw, d) (rw, d)"
  by (rule rotatedI [where dropped = "[]"]) (auto simp: sameSettings_def logInv_def logText_def)

lemma rotated_reopen:
  assumes inv: "logInv (rw, d)" and o: "snd (rw_open w (rw\<lparr>rw_file := False\<rparr>, d1)) = u" and "ld_stderr d1 = ld_stderr d"
    and "dropped \<in> {[], oldest (rw, d)}" and "logText (rw, d) = dropped @ logUpTo rw d1 (rw_maxFiles rw)"
    and "\<And>B. \<forall>k < rw_maxFiles rw. length (slot rw d k) \<le> B \<Longrightarrow> \<forall>k < rw_maxFiles rw. length (slot rw d1 k) \<le> B"
    and others: "\<And>p. p \<notin> rotatedName (rw_path rw) ` {..<rw_maxFiles rw} \<Longrightarrow> ld_files d1 p = ld_files d p"
  shows "rotated (rw, d) u"
proof -
  obtain rw' d' where u: "u = (rw', d')" by (cases u)
  note r = reopen_effect [OF o [unfolded u]]
  have "rw_path rw \<in> rotatedName (rw_path rw) ` {..<rw_maxFiles rw}"
    using inv by (auto simp: logInv_def rotatedName_def intro!: image_eqI [of _ _ 0])
  then have "ld_files d' p = ld_files d p" if "p \<notin> rotatedName (rw_path rw) ` {..<rw_maxFiles rw}" for p
    using r(5) [of p] others [OF that] that by metis
  moreover have "logUpTo rw d' (rw_maxFiles rw) = logUpTo rw d1 (rw_maxFiles rw)" by (rule logUpTo_cong) (simp add: r(2))
  ultimately show ?thesis
    unfolding u using r(2, 3) assms(3-6) by (intro rotatedI [OF r(1) inv r(4), where dropped = dropped]) auto
qed

text \<open>The only file: it is truncated.\<close>

lemma truncate_effect:
  assumes "logInv (rw, d)" and "rw_maxFiles rw = 1"
  shows "rotated (rw, d) (rw\<lparr>rw_file := True, rw_size := 0\<rparr>, d\<lparr>ld_files := (ld_files d)(rw_path rw \<mapsto> [])\<rparr>)"
proof (rule rotatedI [where dropped = "oldest (rw, d)"])
  let ?d' = "d\<lparr>ld_files := (ld_files d)(rw_path rw \<mapsto> [])\<rparr>"
  have empty: "slot rw ?d' 0 = []" by (simp add: slot_def contents_def rotatedName_def)
  show "rw_size (rw\<lparr>rw_file := True, rw_size := 0\<rparr>) = int (length (slot rw ?d' 0))" by (simp add: empty)
  show "logText (rw, d) = oldest (rw, d) @ logUpTo rw ?d' (rw_maxFiles rw)"
    using assms(2) empty by (simp add: logText_def oldest_def)
  show "\<forall>k < rw_maxFiles rw. length (slot rw ?d' k) \<le> B" for B using assms(2) empty by simp
  show "ld_files ?d' p = ld_files d p" if "p \<notin> rotatedName (rw_path rw) ` {..<rw_maxFiles rw}" for p
    using that assms(2) by (auto simp: rotatedName_def)
qed (use assms in \<open>auto simp: sameSettings_def\<close>)

text \<open>Several files: the oldest is removed and the others move up, as far as the renames succeed.\<close>

lemma shift_effect:
  assumes "logInv (rw, d)" and m: "rw_maxFiles rw = Suc (Suc m)" and "honest w"
    and s: "shiftLogs w (rw_path rw) m (d\<lparr>ld_files := (ld_files d)(rotatedName (rw_path rw) (Suc m) := None)\<rparr>) = (err, d2)"
  shows "rotated (rw, d) (snd (rw_open w (rw\<lparr>rw_file := False\<rparr>, d2)))" and "err = None \<Longrightarrow> slot rw d2 0 = []"
proof -
  let ?d1 = "d\<lparr>ld_files := (ld_files d)(rotatedName (rw_path rw) (Suc m) := None)\<rparr>"
  have n: "rw_maxFiles rw < 2 ^ 63" using assms(1) by (simp add: logInv_def)
  have slots1: "slot rw ?d1 k = (if k = Suc m then [] else slot rw d k)" if "k < 2 ^ 63" for k
    using removeOldest_slots [of "Suc m" k rw d] that n m by simp
  have e1: "slot rw ?d1 (Suc m) = []" using slots1 n m by simp
  have shift: "logUpTo rw d2 (rw_maxFiles rw) = logUpTo rw ?d1 (rw_maxFiles rw)" "err = None \<longrightarrow> slot rw d2 0 = []"
    using shiftLogs_slots [OF s assms(3) e1] n m by simp_all
  show "slot rw d2 0 = []" if "err = None" using shift(2) that by simp
  show "rotated (rw, d) (snd (rw_open w (rw\<lparr>rw_file := False\<rparr>, d2)))"
  proof (rule rotated_reopen [OF assms(1) refl, where dropped = "oldest (rw, d)"])
    have "logUpTo rw ?d1 (Suc m) = logUpTo rw d (Suc m)" using slots1 n m by (intro logUpTo_cong) auto
    then show "logText (rw, d) = oldest (rw, d) @ logUpTo rw d2 (rw_maxFiles rw)"
      using logText_oldest [OF assms(1)] e1 m shift(1) by simp
    show "\<forall>k < rw_maxFiles rw. length (slot rw d2 k) \<le> B" if "\<forall>k < rw_maxFiles rw. length (slot rw d k) \<le> B" for B
      by (rule shiftLogs_bound [OF s assms(3) e1]) (use that slots1 n m in auto)
    show "ld_files d2 p = ld_files d p" if "p \<notin> rotatedName (rw_path rw) ` {..<rw_maxFiles rw}" for p
      using shiftLogs_frame [OF s] that m by (auto simp: lessThan_Suc_atMost)
  qed (use shiftLogs_frame [OF s] in auto)
qed

lemma rw_rotate_effect:
  assumes "rw_rotate w (rw, d) = (err, t)" and "honest w" and "logInv (rw, d)" and "rw_file rw"
  shows "rotated (rw, d) t \<and> (err = None \<longrightarrow> rw_file (fst t) \<and> slot (fst t) (snd t) 0 = [])"
proof (cases "lw_close w")
  case (Some e)
  then have t: "t = (rw, d)" "err = Some e" using assms(1) by (auto simp: rw_rotate_def)
  then show ?thesis using rotated_refl [OF assms(3)] by simp
next
  case close: None
  let ?rw1 = "rw\<lparr>rw_file := False\<rparr>"
  have unchanged: "rotated (rw, d) (snd (rw_open w (?rw1, d)))"
    by (rule rotated_reopen [OF assms(3) refl, where dropped = "[]"]) (auto simp: logText_def)
  show ?thesis
  proof (cases "rw_maxFiles rw = 1")
    case True
    then show ?thesis
      using assms(1) close unchanged truncate_effect [OF assms(3) True]
      by (cases "lw_trunc w") (auto simp: rw_rotate_def slot_def contents_def rotatedName_def)
  next
    case False
    define m where "m = rw_maxFiles rw - 2"
    have "0 < rw_maxFiles rw" using assms(3) by (simp add: logInv_def)
    then have m: "rw_maxFiles rw = Suc (Suc m)" using False m_def by arith
    show ?thesis
    proof (cases "lw_remove w")
      case (Some e)
      then show ?thesis using assms(1, 2) close False unchanged by (auto simp: rw_rotate_def honest_def)
    next
      case None
      let ?d1 = "d\<lparr>ld_files := (ld_files d)(rotatedName (rw_path rw) (Suc m) := None)\<rparr>"
      obtain err2 d2 where s: "shiftLogs w (rw_path rw) m ?d1 = (err2, d2)" by (cases "shiftLogs w (rw_path rw) m ?d1")
      note shift = shift_effect [OF assms(3) m assms(2) s]
      show ?thesis
      proof (cases err2)
        case (Some e)
        then show ?thesis using assms(1) close False None s m shift(1) by (auto simp: rw_rotate_def)
      next
        case noerr: None
        obtain rw' d' where u: "t = (rw', d')" by (cases t)
        have o: "rw_open w (?rw1, d2) = (err, rw', d')"
          using assms(1) close False None s m noerr u by (simp add: rw_rotate_def)
        then have "slot rw' d' 0 = []" if "err = None"
          using shift(2) noerr rw_open_effect [OF o] slot_path [of rw' rw d'] by simp
        then show ?thesis using shift(1) o rw_open_effect [OF o] by (auto simp: u)
      qed
    qed
  qed
qed

text \<open>A write to the open file, once there is room or the file is empty.\<close>

definition fileBound :: "rotatingWriter \<Rightarrow> logDisk \<Rightarrow> nat \<Rightarrow> bool" where
  "fileBound rw d B \<longleftrightarrow> (\<forall>k < rw_maxFiles rw. length (slot rw d k) \<le> B)"

lemma slot_append:
  assumes "k < 2 ^ 63"
  shows "slot rw (d\<lparr>ld_files := (ld_files d)(rw_path rw \<mapsto> contents d (rw_path rw) @ x)\<rparr>) k =
    (if k = 0 then slot rw d 0 @ x else slot rw d k)"
  using slot_update [of 0 k rw d "Some (contents d (rw_path rw) @ x)"] assms by (auto simp: rotatedName_def slot_def)

lemma logUpTo_append:
  assumes "\<And>k. k < 2 ^ 63 \<Longrightarrow> slot rw d' k = (if k = 0 then slot rw d 0 @ x else slot rw d k)" and "0 < n" and "n < 2 ^ 63"
  shows "logUpTo rw d' n = logUpTo rw d n @ x"
  using assms(2, 3)
proof (induction n)
  case (Suc n)
  then show ?case using assms(1) [of n] by (cases n) auto
qed simp

text \<open>
  What a write may do: the bytes of the record go to the log, in order, and where the log fails, to the
  standard error after a message; the log loses at most its oldest file.
\<close>

definition keepsLog :: "string \<Rightarrow> logState \<Rightarrow> nat \<times> goerror option \<Rightarrow> logState \<Rightarrow> bool" where
  "keepsLog data s r t \<longleftrightarrow>
     snd r = None \<and>
     (\<exists>k dropped kept. k \<le> length data \<and> dropped \<in> {[], oldest s} \<and> logText s = dropped @ kept \<and>
        logText t = kept @ take k data \<and>
        (if k = length data \<and> ld_stderr (snd t) = ld_stderr (snd s) then fst r = length data
         else \<exists>message. ld_stderr (snd t) = ld_stderr (snd s) @ message @ drop k data))"

lemma appendLog_effect:
  assumes "appendLog w data (rw, d) = (r, rw', d')" and "logInv (rw, d)" and "rw_file rw"
  shows "sameSettings rw rw'" and "logInv (rw', d')" and "snd r = None"
    and "\<exists>k \<le> length data. logText (rw', d') = logText (rw, d) @ take k data \<and>
      (if lw_write w = None then k = length data \<and> ld_stderr d' = ld_stderr d \<and> fst r = length data
       else \<exists>message. message \<noteq> [] \<and> ld_stderr d' = ld_stderr d @ message @ drop k data)"
    and "fileBound rw d B \<Longrightarrow> length (slot rw d 0) + length data \<le> B \<Longrightarrow> fileBound rw d' B"
    and "\<And>p. p \<noteq> rw_path rw \<Longrightarrow> ld_files d' p = ld_files d p"
proof -
  define n where "n = (if lw_write w = None then length data else min (lw_written w) (length data))"
  let ?d1 = "d\<lparr>ld_files := (ld_files d)(rw_path rw \<mapsto> contents d (rw_path rw) @ take n data)\<rparr>"
  have rw': "rw' = rw\<lparr>rw_size := rw_size rw + int n\<rparr>" and files: "ld_files d' = ld_files ?d1" and ok: "snd r = None"
    and err: "if lw_write w = None then n = length data \<and> ld_stderr d' = ld_stderr d \<and> fst r = length data
       else \<exists>message. message \<noteq> [] \<and> ld_stderr d' = ld_stderr d @ message @ drop n data"
    using assms(1) by (auto simp: appendLog_def fallback_def Let_def n_def [symmetric] split: option.splits) (auto simp: n_def)
  have size: "n \<le> length data" by (simp add: n_def)
  have slots: "slot rw d' k = (if k = 0 then slot rw d 0 @ take n data else slot rw d k)" if "k < 2 ^ 63" for k
    using slot_append [OF that, of rw d "take n data"] files by (simp add: slot_def contents_def)
  have N: "0 < rw_maxFiles rw" "rw_maxFiles rw < 2 ^ 63" using assms(2) by (simp_all add: logInv_def)
  have path: "rw_path rw' = rw_path rw" "rw_maxFiles rw' = rw_maxFiles rw" by (simp_all add: rw')
  show "sameSettings rw rw'" by (simp add: sameSettings_def rw')
  show "logInv (rw', d')"
    using assms(2, 3) slots [of 0] size N by (simp add: logInv_def path slot_path [OF path(1)] rw')
  show "snd r = None" by (rule ok)
  have "logText (rw', d') = logText (rw, d) @ take n data"
    using logUpTo_append [OF slots N] by (simp add: logText_def path logUpTo_path [OF path(1)])
  then show "\<exists>k \<le> length data. logText (rw', d') = logText (rw, d) @ take k data \<and>
      (if lw_write w = None then k = length data \<and> ld_stderr d' = ld_stderr d \<and> fst r = length data
       else \<exists>message. message \<noteq> [] \<and> ld_stderr d' = ld_stderr d @ message @ drop k data)"
    using size err by blast
  show "fileBound rw d' B" if "fileBound rw d B" "length (slot rw d 0) + length data \<le> B"
    using that slots N size by (auto simp: fileBound_def)
  show "ld_files d' p = ld_files d p" if "p \<noteq> rw_path rw" for p using that files by simp
qed

section \<open>Properties of the log file\<close>

definition logFiles :: "rotatingWriter \<Rightarrow> string set" where
  "logFiles rw = rotatedName (rw_path rw) ` {..<rw_maxFiles rw}"

text \<open>A write went well, seen from the state \<open>s\<close> it started in.\<close>

definition writeOk :: "string \<Rightarrow> logState \<Rightarrow> nat \<times> goerror option \<Rightarrow> logState \<Rightarrow> bool" where
  "writeOk data s r t \<longleftrightarrow>
     sameSettings (fst s) (fst t) \<and> logInv t \<and> keepsLog data s r t \<and>
     (\<forall>B. fileBound (fst s) (snd s) B \<and> nat (rw_maxSize (fst s)) \<le> B \<and> length data \<le> B \<longrightarrow> fileBound (fst s) (snd t) B) \<and>
     (\<forall>p. p \<notin> logFiles (fst s) \<longrightarrow> ld_files (snd t) p = ld_files (snd s) p)"

lemma fallback_after:
  assumes "rotated s s1" and "fallback data e s1 = (r, t)"
  shows "writeOk data s r t"
proof -
  obtain rw1 d1 where s1: "s1 = (rw1, d1)" by (cases s1)
  let ?message = "''application logger failure: '' @ errText e @ [LF]"
  have r: "r = (length data, None)" and t: "t = (rw1, d1\<lparr>ld_stderr := ld_stderr d1 @ ?message @ data\<rparr>)"
    using assms(2) by (auto simp: fallback_def s1)
  have same: "logText t = logText s1" unfolding logText_def t s1 by (auto intro: logUpTo_cong)
  obtain dropped kept where "dropped \<in> {[], oldest s}" "logText s = dropped @ kept" "logText s1 = kept"
    using assms(1) by (auto simp: rotated_def)
  moreover have "ld_stderr (snd t) = ld_stderr (snd s) @ ?message @ drop 0 data"
    using assms(1) by (simp add: t s1 rotated_def)
  ultimately have "keepsLog data s r t"
    unfolding keepsLog_def r using same by (intro conjI exI [of _ 0] exI [of _ dropped] exI [of _ kept]) auto
  then show ?thesis
    using assms(1) by (auto simp: writeOk_def rotated_def t s1 logInv_def fileBound_def logFiles_def)
qed

lemma append_after:
  assumes "rotated s s1" and "rw_file (fst s1)" and "appendLog w data s1 = (r, t)"
    and room: "slot (fst s1) (snd s1) 0 = [] \<or> rw_size (fst s1) + int (length data) \<le> rw_maxSize (fst s1)"
  shows "writeOk data s r t"
proof -
  obtain rw d rw1 d1 rw' d' where s: "s = (rw, d)" "s1 = (rw1, d1)" "t = (rw', d')" by (cases s; cases s1; cases t)
  have inv: "logInv (rw1, d1)" and set: "sameSettings rw rw1" using assms(1) by (simp_all add: rotated_def s)
  have path: "rw_path rw1 = rw_path rw" "rw_maxFiles rw1 = rw_maxFiles rw" "rw_maxSize rw1 = rw_maxSize rw"
    using set by (simp_all add: sameSettings_def)
  note a = appendLog_effect [OF assms(3) [unfolded s] inv]
  have file1: "rw_file rw1" using assms(2) by (simp add: s)
  obtain k where k: "k \<le> length data" "logText t = logText s1 @ take k data"
    "if lw_write w = None then k = length data \<and> ld_stderr d' = ld_stderr d1 \<and> fst r = length data
       else \<exists>message. message \<noteq> [] \<and> ld_stderr d' = ld_stderr d1 @ message @ drop k data"
    using a(4) [OF file1] by (auto simp: s)
  obtain dropped kept where "dropped \<in> {[], oldest s}" "logText s = dropped @ kept" "logText s1 = kept" "ld_stderr d1 = ld_stderr d"
    using assms(1) by (auto simp: rotated_def s)
  then have "keepsLog data s r t"
    unfolding keepsLog_def using k a(3) [OF file1]
    by (intro conjI exI [of _ k] exI [of _ dropped] exI [of _ kept]) (auto simp: s split: if_splits)
  moreover have "fileBound rw d' B" if "fileBound rw d B" "nat (rw_maxSize rw) \<le> B" "length data \<le> B" for B
  proof -
    have b1: "fileBound rw1 d1 B"
      using assms(1) that(1) slot_path [OF path(1)] by (auto simp: rotated_def s fileBound_def path)
    have "int (length (slot rw1 d1 0)) + int (length data) \<le> int B"
      using room inv file1 that(2, 3) path(3) by (auto simp: s logInv_def)
    then show ?thesis using a(5) [OF file1 b1] slot_path [OF path(1)] by (simp add: fileBound_def path)
  qed
  moreover have "ld_files d' p = ld_files d p" if out: "p \<notin> logFiles rw" for p
  proof -
    have "rw_path rw \<in> logFiles rw"
      using inv path by (auto simp: logInv_def logFiles_def rotatedName_def intro!: image_eqI [of _ _ 0])
    then show ?thesis using a(6) [OF file1, of p] assms(1) out path by (auto simp: rotated_def s logFiles_def)
  qed
  moreover have "sameSettings rw rw'" using a(1) [OF file1] set by (simp add: sameSettings_def)
  ultimately show ?thesis using a(2) [OF file1] by (simp add: writeOk_def s)
qed

lemma rw_Write_effect:
  assumes "rw_Write w data (rw, d) = (r, t)" and "honest w" and "logInv (rw, d)"
  shows "writeOk data (rw, d) r t"
proof (cases "rw_file rw")
  case False
  then show ?thesis using assms(1) by (intro fallback_after [OF rotated_refl [OF assms(3)]]) (simp add: rw_Write_def)
next
  case True
  show ?thesis
  proof (cases "0 < rw_size rw \<and> rw_size rw + int (length data) > rw_maxSize rw")
    case full: True
    obtain err s1 where rot: "rw_rotate w (rw, d) = (err, s1)" by (cases "rw_rotate w (rw, d)")
    note e = rw_rotate_effect [OF rot assms(2, 3) True]
    show ?thesis
    proof (cases err)
      case None
      then show ?thesis
        using assms(1) True full rot e by (intro append_after [of "(rw, d)" s1]) (auto simp: rw_Write_def)
    next
      case (Some x)
      then show ?thesis
        using assms(1) True full rot e by (intro fallback_after [of "(rw, d)" s1]) (auto simp: rw_Write_def)
    qed
  next
    case False
    then have "slot rw d 0 = [] \<or> rw_size rw + int (length data) \<le> rw_maxSize rw"
      using assms(3) True by (auto simp: logInv_def)
    then show ?thesis
      using assms(1) True False by (intro append_after [OF rotated_refl [OF assms(3)]]) (auto simp: rw_Write_def)
  qed
qed

text \<open>A sequence of records, each written in a world of its own.\<close>

fun runWrites :: "(logWorld \<times> string) list \<Rightarrow> logState \<Rightarrow> logState" where
  "runWrites [] s = s"
| "runWrites ((w, data) # rest) s = runWrites rest (snd (rw_Write w data s))"

lemma logUpTo_length: "\<forall>k < n. length (slot rw d k) \<le> B \<Longrightarrow> length (logUpTo rw d n) \<le> n * B"
  by (induction n) fastforce+

lemma runWrites_effect:
  assumes "logInv (rw, d)" and "\<forall>(w, data) \<in> set records. honest w \<and> length data \<le> B"
    and "fileBound rw d B" and "nat (rw_maxSize rw) \<le> B"
  shows "sameSettings rw (fst (runWrites records (rw, d))) \<and> fileBound rw (snd (runWrites records (rw, d))) B \<and>
    (\<forall>p. p \<notin> logFiles rw \<longrightarrow> ld_files (snd (runWrites records (rw, d))) p = ld_files d p)"
  using assms
proof (induction records arbitrary: rw d)
  case (Cons x records)
  obtain w data where x: "x = (w, data)" by (cases x)
  obtain r rw1 d1 where W: "rw_Write w data (rw, d) = (r, rw1, d1)" by (metis surj_pair)
  have ok: "writeOk data (rw, d) r (rw1, d1)" using rw_Write_effect [OF W] Cons.prems x by auto
  have set: "rw_path rw1 = rw_path rw" "rw_maxFiles rw1 = rw_maxFiles rw" "rw_maxSize rw1 = rw_maxSize rw"
    using ok by (simp_all add: writeOk_def sameSettings_def)
  have same: "fileBound rw1 e B \<longleftrightarrow> fileBound rw e B" "logFiles rw1 = logFiles rw" for e
    by (simp_all add: fileBound_def logFiles_def set slot_path [OF set(1)])
  have "fileBound rw d1 B" using ok Cons.prems x by (auto simp: writeOk_def)
  then have "sameSettings rw1 (fst (runWrites records (rw1, d1))) \<and> fileBound rw1 (snd (runWrites records (rw1, d1))) B \<and>
      (\<forall>p. p \<notin> logFiles rw1 \<longrightarrow> ld_files (snd (runWrites records (rw1, d1))) p = ld_files d1 p)"
    using ok Cons.prems x same(1) set by (intro Cons.IH) (auto simp: writeOk_def)
  then show ?case using ok x W same set by (auto simp: sameSettings_def writeOk_def)
qed (simp add: sameSettings_def)


text \<open>
  C32: the log stays within its limits. After any sequence of writes, with any failures, every one of the configured
  number of files is at most as large as the size limit or the longest record, so the whole log is bounded
  by the product; and the writer never touches any other file, a log file with a
  higher number left by a larger limit included.
\<close>

theorem log_files_bounded:
  assumes "logInv (rw, d)" and "\<forall>(w, data) \<in> set records. honest w \<and> length data \<le> B"
    and "fileBound rw d B" and "nat (rw_maxSize rw) \<le> B"
  shows "fileBound rw (snd (runWrites records (rw, d))) B \<and>
    length (logUpTo rw (snd (runWrites records (rw, d))) (rw_maxFiles rw)) \<le> rw_maxFiles rw * B \<and>
    (\<forall>p. p \<notin> logFiles rw \<longrightarrow> ld_files (snd (runWrites records (rw, d))) p = ld_files d p)"
  using runWrites_effect [OF assms] logUpTo_length by (simp add: fileBound_def)

definition calmWorld :: logWorld where
  "calmWorld = \<lparr> lw_mkdir = None, lw_open = None, lw_stat = None, lw_regular = True, lw_close = None, lw_trunc = None,
     lw_remove = None, lw_rename = (\<lambda>_. None), lw_written = 0, lw_write = None \<rparr>"

definition sampleWriter :: rotatingWriter where
  "sampleWriter = \<lparr> rw_path = ''/log/a'', rw_maxSize = 4, rw_maxFiles = 2, rw_file = True, rw_size = 3 \<rparr>"

definition sampleDisk :: logDisk where
  "sampleDisk = \<lparr> ld_files = [''/log/a'' \<mapsto> ''new'', ''/log/a.1'' \<mapsto> ''old''], ld_stderr = [] \<rparr>"

lemma sampleLog: "logInv (sampleWriter, sampleDisk)" "honest calmWorld" "fileBound sampleWriter sampleDisk 4"
proof -
  have "rotatedName ''/log/a'' 1 = ''/log/a.1''" by code_simp
  then show "fileBound sampleWriter sampleDisk 4"
    by (auto simp: fileBound_def sampleWriter_def sampleDisk_def slot_def contents_def rotatedName_def less_Suc_eq numeral_2_eq_2)
qed (simp_all add: logInv_def sampleWriter_def sampleDisk_def slot_def contents_def rotatedName_def honest_def calmWorld_def)


theorem log_files_bounded_witness:
  "fileBound sampleWriter (snd (runWrites [(calmWorld, ''next'')] (sampleWriter, sampleDisk))) 4 \<and>
   ld_files (snd (runWrites [(calmWorld, ''next'')] (sampleWriter, sampleDisk))) ''/log/a.2'' = None"
proof -
  have "rotatedName ''/log/a'' 1 = ''/log/a.1''" by code_simp
  then have "''/log/a.2'' \<notin> logFiles sampleWriter"
    by (auto simp: logFiles_def sampleWriter_def rotatedName_def less_Suc_eq numeral_2_eq_2)
  then show ?thesis
    using log_files_bounded [OF sampleLog(1), of "[(calmWorld, ''next'')]" 4] sampleLog(2, 3)
    by (simp add: sampleWriter_def sampleDisk_def)
qed

section \<open>The logger\<close>

record logConfig =
  lc_Path :: string
  lc_MaxSize :: int
  lc_MaxFiles :: int
  lc_Level :: string

record appLogger =
  lg_level :: logLevel
  lg_writer :: logState

definition NewLogger :: "logWorld \<Rightarrow> logConfig \<Rightarrow> logDisk \<Rightarrow> appLogger res" where
  "NewLogger w cfg d =
     (if TrimSpace (lc_Path cfg) = [] then Inl (ErrText ''log file path is required'')
      else if lc_MaxSize cfg \<le> 0 then Inl (ErrText ''log file max size must be positive'')
      else if lc_MaxFiles cfg \<le> 0 then Inl (ErrText ''log file count must be positive'')
      else bind_res (parseLevel (lc_Level cfg)) (\<lambda>level.
        bind_res (newRotatingWriter w (lc_Path cfg) (lc_MaxSize cfg) (nat (lc_MaxFiles cfg)) d) (\<lambda>s.
          Inr \<lparr> lg_level = level, lg_writer = s \<rparr>)))"

text \<open>
  What a call of a logger meets: the layout of a line, given the attributes after redaction, the text of the
  time, and the answers of the file system.
\<close>

record lineWorld =
  ln_layout :: "attr list \<Rightarrow> string"
  ln_time :: string
  ln_isLD :: "nat \<Rightarrow> bool"
  ln_lower :: "nat \<Rightarrow> nat"
  ln_disk :: logWorld

definition levelName :: "logLevel \<Rightarrow> string" where
  "levelName l = (case l of LevelDebug \<Rightarrow> ''DEBUG'' | LevelInfo \<Rightarrow> ''INFO'' | LevelWarn \<Rightarrow> ''WARN'' | LevelError \<Rightarrow> ''ERROR'')"

text \<open>\<^verbatim>\<open>Debug\<close>, \<^verbatim>\<open>Info\<close>, \<^verbatim>\<open>Warn\<close> and \<^verbatim>\<open>Error\<close>: the handler redacts its own attributes, too.\<close>

definition logAt :: "lineWorld \<Rightarrow> logLevel \<Rightarrow> string \<Rightarrow> attr list \<Rightarrow> appLogger \<Rightarrow> appLogger" where
  "logAt w level msg attrs lg =
     (if levelNumber level < levelNumber (lg_level lg) then lg
      else let builtin = [\<lparr> attr_Key = ''time'', attr_Value = ScalarValue (ln_time w) \<rparr>,
                          \<lparr> attr_Key = ''level'', attr_Value = AnyValue (levelName level) \<rparr>,
                          \<lparr> attr_Key = ''msg'', attr_Value = StringValue msg \<rparr>]
           in lg\<lparr>lg_writer := snd (rw_Write (ln_disk w)
                  (ln_layout w (map (redactAttr (ln_isLD w) (ln_lower w)) (builtin @ attrs))) (lg_writer lg))\<rparr>)"

definition CloseLogger :: "logWorld \<Rightarrow> appLogger option \<Rightarrow> goerror option \<times> appLogger option" where
  "CloseLogger w lg =
     (case lg of
        None \<Rightarrow> (None, None)
      | Some l \<Rightarrow> (case rw_Close w (lg_writer l) of (err, s) \<Rightarrow> (err, Some (l\<lparr>lg_writer := s\<rparr>))))"

section \<open>Secrets do not reach the log\<close>

text \<open>
  Two secrets that look alike once masked: both empty, both of at most eight characters, or both longer with the same
  first four and last four characters.
\<close>

definition sameOutline :: "string \<Rightarrow> string \<Rightarrow> bool" where
  "sameOutline a b \<longleftrightarrow>
     (a = [] \<longleftrightarrow> b = []) \<and> (length (runes a) \<le> 8 \<longleftrightarrow> length (runes b) \<le> 8) \<and>
     (8 < length (runes a) \<longrightarrow> take 4 (runes a) = take 4 (runes b) \<and>
        drop (length (runes a) - 4) (runes a) = drop (length (runes b) - 4) (runes b))"

lemma MaskSecret_outline: "sameOutline a b \<Longrightarrow> MaskSecret a = MaskSecret b"
  by (auto simp: sameOutline_def MaskSecret_def Let_def)

text \<open>Attributes that differ only in a secret: marked by \<^verbatim>\<open>Secret\<close>, or under a sensitive key.\<close>

fun sameSecret :: "attrValue \<Rightarrow> attrValue \<Rightarrow> bool" where
  "sameSecret (StringValue a) (StringValue b) = sameOutline a b"
| "sameSecret (AnyValue a) (AnyValue b) = sameOutline a b"
| "sameSecret (ScalarValue a) (ScalarValue b) = True"
| "sameSecret _ _ = False"

definition alike :: "(nat \<Rightarrow> bool) \<Rightarrow> (nat \<Rightarrow> nat) \<Rightarrow> attr \<Rightarrow> attr \<Rightarrow> bool" where
  "alike isLD lower a b \<longleftrightarrow>
     a = b \<or>
     attr_Key a = attr_Key b \<and>
       ((\<exists>x y. attr_Value a = SecretValue x \<and> attr_Value b = SecretValue y \<and> sameOutline x y) \<or>
        sensitiveKey isLD lower (attr_Key a) \<and> sameSecret (attr_Value a) (attr_Value b))"

lemma redactAttr_alike:
  assumes "alike isLD lower a b"
  shows "redactAttr isLD lower a = redactAttr isLD lower b"
proof -
  obtain k v k' v' where ab: "a = \<lparr> attr_Key = k, attr_Value = v \<rparr>" "b = \<lparr> attr_Key = k', attr_Value = v' \<rparr>"
    by (cases a; cases b) auto
  show ?thesis
    using assms unfolding ab
    by (cases v; cases v') (auto simp: alike_def redactAttr_def MaskSecret_outline)
qed

lemma redact_map_alike:
  "list_all2 (alike isLD lower) as bs \<Longrightarrow> map (redactAttr isLD lower) as = map (redactAttr isLD lower) bs"
  by (induction rule: list_all2_induct) (auto dest: redactAttr_alike)

text \<open>
  C33: secrets do not reach the log. Whatever is logged, two records that differ only in values marked as
  secret, or in values under a key whose words name a password, token, cookie, session or the like, leave exactly
  the same files and the same standard error, as long as the secrets agree in what masking shows: nothing
  of a secret of at most eight characters but that it is not empty, and the first and last four characters of a longer one.
\<close>

theorem log_hides_secrets:
  assumes "list_all2 (alike (ln_isLD w) (ln_lower w)) attrs attrs'"
  shows "logAt w level msg attrs lg = logAt w level msg attrs' lg"
  using redact_map_alike [OF assms] by (simp add: logAt_def)

lemma decodeRune_ascii: "byte c < 128 \<Longrightarrow> decodeRune (c # s) = (byte c, 1)"
  by (simp add: decodeRune_def)

lemma runes_ascii: "list_all (\<lambda>c. byte c < 128) s \<Longrightarrow> runes s = map (\<lambda>c. [c]) s"
  by (induction s) (simp_all add: runes.simps decodeRune_ascii)

lemma codePoints_ascii: "list_all (\<lambda>c. byte c < 128) s \<Longrightarrow> codePoints s = map byte s"
  by (induction s) (simp_all add: codePoints.simps decodeRune_ascii)

definition sampleLine :: lineWorld where
  "sampleLine = \<lparr> ln_layout = (\<lambda>as. concat (map (\<lambda>a. attr_Key a @ (case attr_Value a of
       StringValue s \<Rightarrow> s | AnyValue s \<Rightarrow> s | ScalarValue s \<Rightarrow> s | SecretValue s \<Rightarrow> s)) as)),
     ln_time = [], ln_isLD = (\<lambda>_. False), ln_lower = id, ln_disk = calmWorld \<rparr>"

theorem log_hides_secrets_witness:
  "logAt sampleLine LevelError ''m'' [\<lparr> attr_Key = ''X-Api_Key'', attr_Value = StringValue ''one'' \<rparr>, Secret ''k'' ''two'']
     \<lparr> lg_level = LevelWarn, lg_writer = (sampleWriter, sampleDisk) \<rparr> =
   logAt sampleLine LevelError ''m'' [\<lparr> attr_Key = ''X-Api_Key'', attr_Value = StringValue ''other'' \<rparr>, Secret ''k'' ''three'']
     \<lparr> lg_level = LevelWarn, lg_writer = (sampleWriter, sampleDisk) \<rparr>"
proof (rule log_hides_secrets)
  have "sameOutline ''one'' ''other''" "sameOutline ''two'' ''three''"
    by (simp_all add: sameOutline_def runes_ascii)
  moreover have "sensitiveKey (\<lambda>_. False) id ''X-Api_Key''"
    by (simp add: sensitiveKey_def codePoints_ascii keyRune_def)
  ultimately show "list_all2 (alike (ln_isLD sampleLine) (ln_lower sampleLine))
      [\<lparr> attr_Key = ''X-Api_Key'', attr_Value = StringValue ''one'' \<rparr>, Secret ''k'' ''two'']
      [\<lparr> attr_Key = ''X-Api_Key'', attr_Value = StringValue ''other'' \<rparr>, Secret ''k'' ''three'']"
    by (simp add: sampleLine_def alike_def Secret_def)
qed

end
