(* ===== verification/Request_Log.thy ===== *)
theory Request_Log
  imports App_Log Login_Limiter
begin

text \<open>
  The request log (\<^verbatim>\<open>server/logging.go\<close>): the methods by which the server logs, the writer that
  remembers what a handler answered, the addresses of a request and the middleware \<^verbatim>\<open>logRequests\<close>.
\<close>

section \<open>Logging from the server\<close>

text \<open>\<^verbatim>\<open>debug\<close>, \<^verbatim>\<open>info\<close>, \<^verbatim>\<open>warn\<close> and \<^verbatim>\<open>error\<close>: nothing without a logger.\<close>

definition serverLog ::
    "lineWorld \<Rightarrow> logLevel \<Rightarrow> string \<Rightarrow> string \<Rightarrow> attr list \<Rightarrow> appLogger option \<Rightarrow> appLogger option" where
  "serverLog w level module message args logger =
     map_option (logAt w level message (\<lparr> attr_Key = ''module'', attr_Value = StringValue module \<rparr> # args)) logger"

section \<open>What a handler answers\<close>

text \<open>
  \<^verbatim>\<open>responseLogWriter\<close> around the writer of the server: the calls that reach the latter, which takes
  \<open>n\<close> of the bytes of a write.
\<close>

datatype writerCall = CallHeader nat | CallWrite string nat

record responseLogWriter =
  rl_status :: nat
  rl_bytes :: nat
  rl_inner :: "writerCall list"

definition newResponseLogWriter :: responseLogWriter where
  "newResponseLogWriter = \<lparr> rl_status = 0, rl_bytes = 0, rl_inner = [] \<rparr>"

definition rlWriteHeader :: "nat \<Rightarrow> responseLogWriter \<Rightarrow> responseLogWriter" where
  "rlWriteHeader status w =
     (if rl_status w \<noteq> 0 then w else w\<lparr>rl_status := status, rl_inner := rl_inner w @ [CallHeader status]\<rparr>)"

definition rlWrite :: "string \<Rightarrow> nat \<Rightarrow> responseLogWriter \<Rightarrow> responseLogWriter" where
  "rlWrite data n w =
     (let w1 = (if rl_status w = 0 then rlWriteHeader StatusOK w else w) in
      w1\<lparr>rl_inner := rl_inner w1 @ [CallWrite data n], rl_bytes := rl_bytes w1 + n\<rparr>)"

fun rlCall :: "writerCall \<Rightarrow> responseLogWriter \<Rightarrow> responseLogWriter" where
  "rlCall (CallHeader status) w = rlWriteHeader status w"
| "rlCall (CallWrite data n) w = rlWrite data n w"

section \<open>Addresses\<close>

definition requestIPs :: "string \<Rightarrow> string \<Rightarrow> string \<Rightarrow> string \<times> string \<times> string \<times> bool" where
  "requestIPs remoteAddr forwardedFor trustedProxy =
     (let peerIP = canonicalAddress remoteAddr in
      case addressIP (remoteHost remoteAddr) of
        None \<Rightarrow> (peerIP, peerIP, ''remote_addr'', False)
      | Some remote \<Rightarrow>
          if \<not> trustedProxyContains trustedProxy remote then (peerIP, peerIP, ''remote_addr'', False)
          else case addressIP (TrimSpace (hd (Split forwardedFor CHR '',''))) of
            Some ip \<Rightarrow> (peerIP, ipString ip, ''x_forwarded_for'', True)
          | None \<Rightarrow> (peerIP, peerIP, ''remote_addr'', True))"

section \<open>The middleware\<close>

record httpRequest =
  hr_Method :: string
  hr_Path :: string
  hr_RemoteAddr :: string
  hr_ForwardedFor :: string

definition requestLevel :: "string \<Rightarrow> nat \<Rightarrow> logLevel \<times> string" where
  "requestLevel meth status =
     (if 500 \<le> status then (LevelError, ''http request completed'')
      else if status = 401 \<or> status = 403 \<or> status = 429 then (LevelWarn, ''http request rejected'')
      else if meth = ''GET'' \<and> status < 400 then (LevelDebug, ''http request completed'')
      else (LevelInfo, ''http request completed''))"

definition requestAttrs :: "httpRequest \<Rightarrow> string \<Rightarrow> string \<Rightarrow> responseLogWriter \<Rightarrow> nat \<Rightarrow> string \<Rightarrow> attr list" where
  "requestAttrs r trustedProxy duration w status username =
     (case requestIPs (hr_RemoteAddr r) (hr_ForwardedFor r) trustedProxy of (peerIP, clientIP, source, trusted) \<Rightarrow>
        [\<lparr> attr_Key = ''module'', attr_Value = StringValue ''http'' \<rparr>,
         \<lparr> attr_Key = ''method'', attr_Value = StringValue (hr_Method r) \<rparr>,
         \<lparr> attr_Key = ''path'', attr_Value = StringValue (hr_Path r) \<rparr>,
         \<lparr> attr_Key = ''status'', attr_Value = ScalarValue (Itoa (int status)) \<rparr>,
         \<lparr> attr_Key = ''duration_ms'', attr_Value = ScalarValue duration \<rparr>,
         \<lparr> attr_Key = ''response_bytes'', attr_Value = ScalarValue (Itoa (int (rl_bytes w))) \<rparr>,
         \<lparr> attr_Key = ''peer_ip'', attr_Value = StringValue peerIP \<rparr>,
         \<lparr> attr_Key = ''client_ip'', attr_Value = StringValue clientIP \<rparr>,
         \<lparr> attr_Key = ''client_ip_source'', attr_Value = StringValue source \<rparr>,
         \<lparr> attr_Key = ''trusted_proxy'', attr_Value = ScalarValue (if trusted then ''true'' else ''false'') \<rparr>] @
        (if username \<noteq> [] then [\<lparr> attr_Key = ''user'', attr_Value = StringValue username \<rparr>] else []))"

text \<open>
  The handler is given by the calls it makes on the writer; \<open>username\<close> is what
  \<^verbatim>\<open>setRequestLogActor\<close> left in the request, empty when it was not called.
\<close>

definition logRequests ::
    "lineWorld \<Rightarrow> string \<Rightarrow> string \<Rightarrow> httpRequest \<Rightarrow> writerCall list \<Rightarrow> string \<Rightarrow> appLogger \<Rightarrow> responseLogWriter \<times> appLogger" where
  "logRequests w trustedProxy duration r calls username logger =
     (let wrapped = fold rlCall calls newResponseLogWriter;
          status = (if rl_status wrapped = 0 then StatusOK else rl_status wrapped) in
      case requestLevel (hr_Method r) status of (level, message) \<Rightarrow>
        (wrapped, logAt w level message (requestAttrs r trustedProxy duration wrapped status username) logger))"

section \<open>The log tells what the client got\<close>

fun isWrite :: "writerCall \<Rightarrow> bool" where
  "isWrite (CallWrite _ _) = True"
| "isWrite (CallHeader _) = False"

fun callBytes :: "writerCall \<Rightarrow> nat" where
  "callBytes (CallWrite _ n) = n"
| "callBytes (CallHeader _) = 0"

text \<open>The writer after some calls: nothing yet, or one header and then the writes.\<close>

definition writerInv :: "writerCall list \<Rightarrow> responseLogWriter \<Rightarrow> bool" where
  "writerInv calls w \<longleftrightarrow>
     rl_bytes w = sum_list (map callBytes calls) \<and>
     (if calls = [] then rl_status w = 0 \<and> rl_inner w = []
      else rl_status w \<noteq> 0 \<and> rl_inner w = CallHeader (rl_status w) # filter isWrite calls \<and>
        rl_status w = (case hd calls of CallHeader st \<Rightarrow> st | CallWrite _ _ \<Rightarrow> StatusOK))"

lemma rlCall_inv:
  assumes "writerInv calls w" and "c \<noteq> CallHeader 0"
  shows "writerInv (calls @ [c]) (rlCall c w)"
  using assms
  by (cases c; cases calls)
    (auto simp: writerInv_def rlWriteHeader_def rlWrite_def Let_def split: if_splits writerCall.splits)

lemma fold_rlCall_inv:
  "CallHeader 0 \<notin> set calls \<Longrightarrow> writerInv calls (fold rlCall calls newResponseLogWriter)"
proof (induction calls rule: rev_induct)
  case Nil
  then show ?case by (simp add: writerInv_def newResponseLogWriter_def)
next
  case (snoc c calls)
  then show ?case using rlCall_inv [of calls _ c] by auto
qed

text \<open>
  the request log is true. Whatever a handler does with its response writer, at most one header reaches the client,
  before every write; the writes pass through in order, and the logged status and number of bytes are those
  the client got, 200 when the handler sent nothing.
\<close>

theorem request_log_is_true:
  assumes "CallHeader 0 \<notin> set calls" and "logRequests w trustedProxy duration r calls username logger = (wrapped, logger')"
  shows "rl_inner wrapped = (if calls = [] then [] else CallHeader (rl_status wrapped) # filter isWrite calls) \<and>
    rl_bytes wrapped = sum_list (map callBytes calls) \<and>
    logger' = logAt w (fst (requestLevel (hr_Method r) (if calls = [] then StatusOK else rl_status wrapped)))
      (snd (requestLevel (hr_Method r) (if calls = [] then StatusOK else rl_status wrapped)))
      (requestAttrs r trustedProxy duration wrapped (if calls = [] then StatusOK else rl_status wrapped) username) logger"
proof -
  have "wrapped = fold rlCall calls newResponseLogWriter" using assms(2) by (auto simp: logRequests_def Let_def split: prod.splits)
  then have "writerInv calls wrapped" using fold_rlCall_inv [OF assms(1)] by simp
  then show ?thesis
    using assms(2) by (cases "calls = []") (auto simp: writerInv_def logRequests_def Let_def split: prod.splits)
qed

text \<open>
  C34: the client address in the request log is the one the login limiter counts by, for every remote address without
  surrounding spaces, every forwarding header and every list of trusted proxies; the header
  counts exactly when the log says so.
\<close>

theorem logged_client_is_limiter_client:
  assumes "TrimSpace remoteAddr = remoteAddr"
    and "requestIPs remoteAddr forwardedFor trustedProxy = (peerIP, clientIP, source, trusted)"
  shows "clientIP = requestClientIP remoteAddr forwardedFor trustedProxy \<and> peerIP = canonicalAddress remoteAddr \<and>
    (source = ''x_forwarded_for'' \<longrightarrow> trusted) \<and> (source = ''remote_addr'' \<longrightarrow> clientIP = peerIP)"
  using assms
  by (auto simp: requestIPs_def requestClientIP_def canonicalAddress_def Let_def split: option.splits if_splits)

theorem logged_client_is_limiter_client_witness:
  "\<exists>peerIP clientIP source trusted.
     requestIPs ''10.0.0.1:80'' ''192.0.2.7, 10.0.0.9'' ''10.0.0.1'' = (peerIP, clientIP, source, trusted) \<and>
     clientIP = requestClientIP ''10.0.0.1:80'' ''192.0.2.7, 10.0.0.9'' ''10.0.0.1'' \<and> peerIP = canonicalAddress ''10.0.0.1:80''"
proof -
  obtain peerIP clientIP source trusted where
    r: "requestIPs ''10.0.0.1:80'' ''192.0.2.7, 10.0.0.9'' ''10.0.0.1'' = (peerIP, clientIP, source, trusted)" by (metis surj_pair)
  have "TrimSpace ''10.0.0.1:80'' = ''10.0.0.1:80''" by code_simp
  from logged_client_is_limiter_client [OF this r] show ?thesis using r by blast
qed

theorem request_log_is_true_witness:
  "\<exists>wrapped logger'. logRequests sampleLine [] [] \<lparr> hr_Method = ''GET'', hr_Path = ''/'', hr_RemoteAddr = [], hr_ForwardedFor = [] \<rparr>
       [CallWrite ''ab'' 2, CallHeader 500] [] \<lparr> lg_level = LevelWarn, lg_writer = (sampleWriter, sampleDisk) \<rparr> = (wrapped, logger') \<and>
     rl_inner wrapped = [CallHeader (rl_status wrapped), CallWrite ''ab'' 2] \<and> rl_bytes wrapped = 2"
proof -
  obtain wrapped logger' where r: "logRequests sampleLine [] [] \<lparr> hr_Method = ''GET'', hr_Path = ''/'', hr_RemoteAddr = [], hr_ForwardedFor = [] \<rparr>
       [CallWrite ''ab'' 2, CallHeader 500] [] \<lparr> lg_level = LevelWarn, lg_writer = (sampleWriter, sampleDisk) \<rparr> = (wrapped, logger')"
    by (metis surj_pair)
  show ?thesis using request_log_is_true [OF _ r] r by simp
qed

end
