(* ===== verification/Routing.thy ===== *)
theory Routing
  imports Account_System "HOL-Library.AList"
begin

text \<open>
  How a request reaches a handler (\<^verbatim>\<open>server/main.go\<close>, \<^verbatim>\<open>server/http.go\<close>): the routes that \<^verbatim>\<open>run\<close>
  registers, the choice \<^verbatim>\<open>http.ServeMux\<close> makes among them, and the chain of middleware in front of it.
\<close>

section \<open>Routes\<close>

text \<open>
  A route is a pattern, by the segments between its slashes, and what serves it. A pattern that ends in a slash
  (\<open>rt_subtree\<close>) stands for everything below it. \<open>rt_admin\<close>: the handler is wrapped in \<^verbatim>\<open>adminOnly\<close>.
\<close>

record route =
  rt_segments :: "string list"
  rt_subtree :: bool
  rt_admin :: bool
  rt_handler :: string

definition HandleFunc :: "string list \<Rightarrow> bool \<Rightarrow> string \<Rightarrow> route" where
  "HandleFunc segs subtree h = \<lparr> rt_segments = segs, rt_subtree = subtree, rt_admin = False, rt_handler = h \<rparr>"

definition HandleAdmin :: "string list \<Rightarrow> string \<Rightarrow> route" where
  "HandleAdmin segs h = \<lparr> rt_segments = segs, rt_subtree = False, rt_admin = True, rt_handler = h \<rparr>"

definition routes :: "route list" where
  "routes =
     [HandleFunc [] True ''frontendHandler'',
      HandleFunc [''api'', ''status''] False ''handleStatus'',
      HandleFunc [''api'', ''first-run'', ''status''] False ''handleFirstRunStatus'',
      HandleFunc [''api'', ''first-run'', ''complete''] False ''handleFirstRunComplete'',
      HandleFunc [''api'', ''auth'', ''register''] False ''handleAuthRegister'',
      HandleFunc [''api'', ''auth'', ''login''] False ''handleAuthLogin'',
      HandleFunc [''api'', ''auth'', ''logout''] False ''handleAuthLogout'',
      HandleFunc [''api'', ''auth'', ''me''] False ''handleAuthMe'',
      HandleFunc [''api'', ''auth'', ''password''] False ''handleAuthPassword'',
      HandleFunc [''api'', ''auth'', ''account''] False ''handleAuthAccount'',
      HandleFunc [''api'', ''admin'', ''users''] False ''handleAdminUsers'',
      HandleFunc [''api'', ''admin'', ''users''] True ''handleAdminUser'',
      HandleFunc [''api'', ''config''] False ''handleServiceConfig'',
      HandleAdmin [''api'', ''clamav'', ''sleep''] ''handleClamAVSleep'',
      HandleAdmin [''api'', ''clamav'', ''wake''] ''handleClamAVWake'',
      HandleFunc [''api'', ''browse''] False ''handleBrowse'',
      HandleFunc [''api'', ''scans''] False ''handleScans'',
      HandleFunc [''api'', ''scans'', ''reorder''] False ''handleScanReorder'',
      HandleFunc [''api'', ''scans'', ''cancel''] False ''handleScanCancel'',
      HandleFunc [''api'', ''cron'', ''rules''] False ''handleCronRules'',
      HandleFunc [''api'', ''cron'', ''rules''] True ''handleCronRule'',
      HandleFunc [''api'', ''cron'', ''reload''] False ''handleCronReload'',
      HandleFunc [''api'', ''whitelist''] False ''handleWhitelist'',
      HandleFunc [''api'', ''results'', ''lookups''] False ''handleResultLookupStart'',
      HandleFunc [''api'', ''results'', ''lookups''] True ''handleResultLookup'',
      HandleFunc [''api'', ''results'', ''statistics'', ''lookups''] False ''handleHistoryStatisticsStart'',
      HandleFunc [''api'', ''results'', ''statistics'', ''lookups''] True ''handleHistoryStatisticsLookup'',
      HandleFunc [''api'', ''results'', ''detection''] False ''handleDetectionResult'',
      HandleFunc [''api'', ''results'', ''clean''] False ''handleResultsClean'',
      HandleFunc [''api'', ''quarantine'', ''lookups''] False ''handleQuarantineLookupStart'',
      HandleFunc [''api'', ''quarantine'', ''lookups''] True ''handleQuarantineLookup'',
      HandleFunc [''api'', ''quarantine'', ''delete''] True ''handleQuarantineDelete'',
      HandleFunc [''api'', ''quarantine'', ''recover''] True ''handleQuarantineRecover'',
      HandleFunc [''api'', ''quarantine'', ''clean''] False ''handleQuarantineClean'']"

section \<open>Choosing a route\<close>

text \<open>
  The path of a request, by its segments, each unescaped: an escaped slash or dot stays inside its
  segment. \<^verbatim>\<open>URL.Path\<close> is what they make together.
\<close>

definition urlPath :: "string list \<Rightarrow> string" where
  "urlPath segs = concat (map (\<lambda>s. ''/'' @ s) segs)"

definition routeMatches :: "string list \<Rightarrow> route \<Rightarrow> bool" where
  "routeMatches segs r \<longleftrightarrow>
     (if rt_subtree r then length (rt_segments r) < length segs \<and> take (length (rt_segments r)) segs = rt_segments r
      else segs = rt_segments r)"

text \<open>\<^verbatim>\<open>http.ServeMux\<close> takes the exact pattern, and otherwise the longest subtree.\<close>

definition moreSpecific :: "route \<Rightarrow> route \<Rightarrow> bool" where
  "moreSpecific a b \<longleftrightarrow>
     \<not> rt_subtree a \<and> rt_subtree b \<or> rt_subtree a = rt_subtree b \<and> length (rt_segments b) < length (rt_segments a)"

fun bestRoute :: "route option \<Rightarrow> route list \<Rightarrow> route option" where
  "bestRoute best [] = best"
| "bestRoute best (r # rs) =
     bestRoute (case best of None \<Rightarrow> Some r | Some b \<Rightarrow> if moreSpecific r b then Some r else Some b) rs"

datatype muxResult = MuxRedirect | MuxNotFound | MuxRoute route

text \<open>
  \<open>unclean\<close>: the escaped path is not in the form \<^verbatim>\<open>ServeMux\<close> expects, and it answers with a redirect. It
  does so, too, for the root of a subtree without its slash, unless a pattern matches that path exactly.
\<close>

definition muxHandler :: "bool \<Rightarrow> string list \<Rightarrow> muxResult" where
  "muxHandler unclean segs =
     (if unclean then MuxRedirect
      else if list_ex (\<lambda>r. rt_subtree r \<and> rt_segments r = segs) routes \<and>
              \<not> list_ex (\<lambda>r. \<not> rt_subtree r \<and> rt_segments r = segs) routes
      then MuxRedirect
      else case bestRoute None (filter (routeMatches segs) routes) of
        None \<Rightarrow> MuxNotFound
      | Some r \<Rightarrow> MuxRoute r)"

section \<open>The chain of handlers\<close>

definition contentSecurityPolicy :: string where
  "contentSecurityPolicy = ''default-src 'self'; base-uri 'self'; object-src 'none'; frame-ancestors 'none'; script-src 'self'; style-src 'self' 'unsafe-inline'; img-src 'self' data: https://img.shields.io; font-src 'self' data:; connect-src 'self'; form-action 'self'' @ [CHR 0x27]"

text \<open>\<^verbatim>\<open>Header().Set\<close>, one value per name.\<close>

type_synonym headers = "(string \<times> string) list"

definition setHeader :: "string \<Rightarrow> string \<Rightarrow> headers \<Rightarrow> headers" where
  "setHeader name value hs = AList.update name value hs"

definition securityHeaders :: "headers \<Rightarrow> headers" where
  "securityHeaders hs =
     setHeader ''Permissions-Policy'' ''camera=(), microphone=(), geolocation=(), payment=(), usb=()''
      (setHeader ''Referrer-Policy'' ''no-referrer''
       (setHeader ''Content-Security-Policy'' contentSecurityPolicy
        (setHeader ''X-Frame-Options'' ''DENY''
         (setHeader ''X-Content-Type-Options'' ''nosniff'' hs))))"

record webRequest =
  wr_segments :: "string list"
  wr_unclean :: bool
  wr_method :: string
  wr_origin :: string
  wr_host :: string
  wr_cookie :: "string option"

datatype chainResult = Refused response | Redirected | NotFound | Handled string "actor option"

text \<open>The handler the request reaches, with the actor in its context, or the answer that comes instead.\<close>

definition dispatch :: "webRequest \<Rightarrow> actor option \<Rightarrow> chainResult" where
  "dispatch req ctx =
     (case muxHandler (wr_unclean req) (wr_segments req) of
        MuxRedirect \<Rightarrow> Redirected
      | MuxNotFound \<Rightarrow> NotFound
      | MuxRoute r \<Rightarrow>
          if rt_admin r then
            (case adminOnly ctx of Some rsp \<Rightarrow> Refused rsp | None \<Rightarrow> Handled (rt_handler r) ctx)
          else Handled (rt_handler r) ctx)"

text \<open>
  \<^verbatim>\<open>securityHeaders(s.logRequests(s.requireAuth(mux)))\<close>: the headers set before the handler runs, what becomes of
  the request, and the user tables after it (the session may have been refreshed).
\<close>

definition serveChain ::
    "(string \<Rightarrow> string) \<Rightarrow> faults \<Rightarrow> (string \<Rightarrow> (string \<times> string) option) \<Rightarrow> webRequest \<Rightarrow> int \<Rightarrow> userDB \<Rightarrow>
     headers \<times> chainResult \<times> userDB" where
  "serveChain sha256 faults parseURL req now db =
     (let hs = securityHeaders [] in
      case requireAuth sha256 faults parseURL (urlPath (wr_segments req)) (wr_method req) (wr_origin req) (wr_host req)
             (wr_cookie req) now db of
        (Rejected rsp, db1) \<Rightarrow> (hs, Refused rsp, db1)
      | (Passed ctx, db1) \<Rightarrow>
          ((if ctx = None then hs else setHeader ''Cache-Control'' ''no-store'' hs), dispatch req ctx, db1))"

section \<open>Every API handler is guarded\<close>

definition publicHandlers :: "string list" where
  "publicHandlers = [''handleAuthLogin'', ''handleAuthRegister'', ''handleFirstRunStatus'']"

lemma bestRoute_mem: "bestRoute best rs = Some r \<Longrightarrow> r \<in> set rs \<or> best = Some r"
  by (induction rs arbitrary: best) (auto split: option.splits if_splits)

lemma muxHandler_route:
  assumes "muxHandler unclean segs = MuxRoute r"
  shows "r \<in> set routes" and "routeMatches segs r"
proof -
  have "bestRoute None (filter (routeMatches segs) routes) = Some r"
    using assms by (auto simp: muxHandler_def split: if_splits option.splits)
  then show "r \<in> set routes" "routeMatches segs r" using bestRoute_mem by fastforce+
qed

text \<open>A path that matches a pattern starts with the text of the pattern.\<close>

lemma urlPath_matches:
  assumes "routeMatches segs r"
  shows "if rt_subtree r then HasPrefix (urlPath segs) (urlPath (rt_segments r) @ ''/'')
         else urlPath segs = urlPath (rt_segments r)"
proof (cases "rt_subtree r")
  case True
  then obtain rest where rest: "segs = rt_segments r @ rest" "rest \<noteq> []"
    using assms unfolding routeMatches_def
    by (metis append_take_drop_id drop_eq_Nil linorder_not_le)
  then obtain x xs where "rest = x # xs" by (cases rest) auto
  then show ?thesis using True rest by (simp add: urlPath_def HasPrefix_def)
next
  case False
  then show ?thesis using assms by (simp add: routeMatches_def)
qed

definition guardedRoute :: "route \<Rightarrow> bool" where
  "guardedRoute r \<longleftrightarrow>
     (let p = urlPath (rt_segments r) @ (if rt_subtree r then ''/'' else []) in
      HasPrefix p ''/api/'' \<and>
      (if rt_subtree r then \<not> list_ex (\<lambda>q. HasPrefix q p) [''/api/auth/login'', ''/api/auth/register'', ''/api/first-run/status'']
       else p \<notin> {''/api/auth/login'', ''/api/auth/register'', ''/api/first-run/status''}))"

lemma routes_guarded:
  "list_all (\<lambda>r. rt_handler r = ''frontendHandler'' \<or> rt_handler r \<in> set publicHandlers \<or> guardedRoute r) routes"
  by code_simp

lemma HasPrefix_trans: "HasPrefix p q \<Longrightarrow> HasPrefix q r \<Longrightarrow> HasPrefix p r"
  unfolding HasPrefix_def by (metis min.absorb1 min.cobounded2 length_take take_take)

lemma guarded_path:
  assumes "guardedRoute r" and "routeMatches segs r"
  shows "HasPrefix (urlPath segs) ''/api/''" and "\<not> publicAPIPath (urlPath segs)"
  using urlPath_matches [OF assms(2)] assms(1) HasPrefix_trans
  by (auto simp: guardedRoute_def publicAPIPath_def Let_def split: if_splits)

lemma routes_admin:
  "list_all (\<lambda>r. rt_handler r \<in> {''handleClamAVSleep'', ''handleClamAVWake''} \<longrightarrow> rt_admin r) routes"
  by code_simp



end
