(* ===== verification/Databases.thy ===== *)
theory Databases
  imports History_Index User_Database App_Config
begin

text \<open>
  Opening the two databases (\<^verbatim>\<open>server/database.go\<close>). What matters of a database file is which tables it has,
  the declared columns of the table that is checked, and the rows. A statement that fails leaves the file as it was.
\<close>

section \<open>Opening a file\<close>

record sqliteWorld =
  sq_mkdir :: "goerror option"
  sq_open :: "goerror option"
  sq_pragma :: "string \<Rightarrow> goerror option"
  sq_schema :: "goerror option"
  sq_tableInfo :: "goerror option"
  sq_scan :: "goerror option"
  sq_rows :: "goerror option"
  sq_version :: "goerror option"
  sq_detections :: "goerror option"
  sq_record :: "goerror option"

definition pragmas :: "string list" where
  "pragmas = [''PRAGMA journal_mode=WAL'', ''PRAGMA foreign_keys=ON'', ''PRAGMA busy_timeout=5000'', ''PRAGMA synchronous=NORMAL'']"

fun runPragmas :: "sqliteWorld \<Rightarrow> string list \<Rightarrow> goerror option" where
  "runPragmas w [] = None"
| "runPragmas w (p # ps) =
     (case sq_pragma w p of Some e \<Rightarrow> Some (wrapErr ''initialize sqlite'' e) | None \<Rightarrow> runPragmas w ps)"

text \<open>The outcome, the file, and whether a handle is left open.\<close>

definition openSQLiteDatabase ::
    "sqliteWorld \<Rightarrow> ('f \<Rightarrow> goerror option \<times> 'f) \<Rightarrow> 'f \<Rightarrow> goerror option \<times> 'f \<times> bool" where
  "openSQLiteDatabase w initialize f =
     (case sq_mkdir w of
        Some e \<Rightarrow> (Some e, f, False)
      | None \<Rightarrow>
     (case sq_open w of
        Some e \<Rightarrow> (Some e, f, False)
      | None \<Rightarrow>
     (case runPragmas w pragmas of
        Some e \<Rightarrow> (Some e, f, False)
      | None \<Rightarrow>
     (case initialize f of
        (Some e, f1) \<Rightarrow> (Some e, f1, False)
      | (None, f1) \<Rightarrow> (None, f1, True)))))"

section \<open>The type of a column\<close>

text \<open>\<^verbatim>\<open>strings.EqualFold\<close> with a word of ASCII letters other than k and s.\<close>

definition EqualFold :: "string \<Rightarrow> string \<Rightarrow> bool" where
  "EqualFold s t \<longleftrightarrow> map (\<lambda>c. if isUpper c then char_of (byte c + 32) else c) s =
     map (\<lambda>c. if isUpper c then char_of (byte c + 32) else c) t"

text \<open>The rows of \<^verbatim>\<open>PRAGMA table_info\<close>: name and type; a scan may fail.\<close>

fun columnLoop :: "sqliteWorld \<Rightarrow> string \<Rightarrow> string \<Rightarrow> string \<Rightarrow> (string \<times> string) list \<Rightarrow> goerror option" where
  "columnLoop w table column wantType [] =
     (case sq_rows w of
        Some e \<Rightarrow> Some e
      | None \<Rightarrow> Some (ErrText (''column '' @ table @ ''.'' @ column @ '' is missing'')))"
| "columnLoop w table column wantType ((name, columnType) # rows) =
     (case sq_scan w of
        Some e \<Rightarrow> Some e
      | None \<Rightarrow>
          if name = column then
            (if \<not> EqualFold columnType wantType
             then Some (ErrText (''column '' @ table @ ''.'' @ column @ '' has type '' @ columnType @ '', want '' @ wantType))
             else None)
          else columnLoop w table column wantType rows)"

definition requireSQLiteColumnType ::
    "sqliteWorld \<Rightarrow> string \<Rightarrow> string \<Rightarrow> string \<Rightarrow> (string \<times> string) list \<Rightarrow> goerror option" where
  "requireSQLiteColumnType w table column wantType rows =
     (case sq_tableInfo w of Some e \<Rightarrow> Some e | None \<Rightarrow> columnLoop w table column wantType rows)"

section \<open>The user database\<close>

record userFile =
  uf_columns :: "(string \<times> string) list option"
  uf_versions :: "int list"
  uf_data :: userDB

definition usersColumns :: "(string \<times> string) list" where
  "usersColumns = [(''id'', ''TEXT''), (''username'', ''TEXT''), (''password_hash'', ''TEXT''), (''role'', ''TEXT''),
     (''timedock_account'', ''TEXT''), (''status'', ''TEXT''), (''created_at'', ''INTEGER''), (''updated_at'', ''INTEGER'')]"

definition orCreate :: "'a \<Rightarrow> 'a option \<Rightarrow> 'a option" where
  "orCreate fresh t = Some (case t of None \<Rightarrow> fresh | Some x \<Rightarrow> x)"

definition initializeUserDatabase :: "sqliteWorld \<Rightarrow> userFile \<Rightarrow> goerror option \<times> userFile" where
  "initializeUserDatabase w f =
     (case sq_schema w of
        Some e \<Rightarrow> (Some (wrapErr ''initialize user database'' e), f)
      | None \<Rightarrow>
          (let f1 = f\<lparr>uf_columns := orCreate usersColumns (uf_columns f)\<rparr> in
           case requireSQLiteColumnType w ''users'' ''id'' ''TEXT'' (the (uf_columns f1)) of
             Some e \<Rightarrow> (Some (wrapErr ''incompatible user database; recreate users.db'' e), f1)
           | None \<Rightarrow>
               (case sq_record w of
                  Some e \<Rightarrow> (Some (wrapErr ''record user database schema'' e), f1)
                | None \<Rightarrow> (None, if 2 \<in> set (uf_versions f1) then f1 else f1\<lparr>uf_versions := uf_versions f1 @ [2]\<rparr>))))"

definition openUserDatabase :: "sqliteWorld \<Rightarrow> userFile \<Rightarrow> goerror option \<times> userFile \<times> bool" where
  "openUserDatabase w f = openSQLiteDatabase w (initializeUserDatabase w) f"

section \<open>The history database\<close>

record historyFile =
  hf_columns :: "(string \<times> string) list option"
  hf_detections :: bool
  hf_data :: historyDB

definition historyColumns :: "(string \<times> string) list" where
  "historyColumns = [(''job_id'', ''TEXT''), (''job_type'', ''TEXT''), (''status'', ''TEXT''), (''result'', ''TEXT''),
     (''action'', ''TEXT''), (''started_at'', ''INTEGER''), (''finished_at'', ''INTEGER''), (''user_id'', ''TEXT''),
     (''json_file'', ''TEXT''), (''file_mtime_ns'', ''INTEGER''), (''indexed_at'', ''INTEGER'')]"

definition fileVersion :: "historyFile \<Rightarrow> int" where
  "fileVersion f = (if h_versions (hf_data f) = [] then 0 else Max (set (h_versions (hf_data f))))"

definition initializeHistoryDatabase :: "sqliteWorld \<Rightarrow> historyFile \<Rightarrow> goerror option \<times> historyFile" where
  "initializeHistoryDatabase w f =
     (case sq_schema w of
        Some e \<Rightarrow> (Some (wrapErr ''initialize history database'' e), f)
      | None \<Rightarrow>
     (let f1 = f\<lparr>hf_columns := orCreate historyColumns (hf_columns f)\<rparr> in
      case requireSQLiteColumnType w ''history_jobs'' ''user_id'' ''TEXT'' (the (hf_columns f1)) of
        Some e \<Rightarrow> (Some (wrapErr ''incompatible history database; recreate history.db'' e), f1)
      | None \<Rightarrow>
     (case sq_version w of
        Some e \<Rightarrow> (Some (wrapErr ''read history database schema'' e), f1)
      | None \<Rightarrow>
     (let f2 = f1\<lparr>hf_detections := True\<rparr> in
      if fileVersion f1 = 0 then
        (case sq_detections w of
           Some e \<Rightarrow> (Some (wrapErr ''initialize history detections'' e), f1)
         | None \<Rightarrow>
             (case sq_record w of
                Some e \<Rightarrow> (Some (wrapErr ''record history database schema'' e), f2)
              | None \<Rightarrow> (None, f2\<lparr>hf_data := (hf_data f2)\<lparr>h_versions := h_versions (hf_data f2) @ [3]\<rparr>\<rparr>)))
      else if 3 \<le> fileVersion f1 then
        (case sq_detections w of
           Some e \<Rightarrow> (Some (wrapErr ''initialize history detections'' e), f1)
         | None \<Rightarrow> (None, f2))
      else (None, f1)))))"

definition openHistoryDatabase :: "sqliteWorld \<Rightarrow> historyFile \<Rightarrow> goerror option \<times> historyFile \<times> bool" where
  "openHistoryDatabase w f = openSQLiteDatabase w (initializeHistoryDatabase w) f"

text \<open>
  The start of the server: the database is opened, and then its schema is upgraded, which creates the table of detections, too.
\<close>

definition startHistory ::
    "sqliteWorld \<Rightarrow> historyWorld \<Rightarrow> string \<Rightarrow> string \<Rightarrow> historyFile \<Rightarrow> bool res \<times> historyFile" where
  "startHistory w hw jobsDir logDir f =
     (case openHistoryDatabase w f of
        (Some e, f1, _) \<Rightarrow> (Inl (wrapErr ''open history database'' e), f1)
      | (None, f1, _) \<Rightarrow>
          (case upgradeSchema hw jobsDir logDir (hf_data f1) of
             (r, db) \<Rightarrow>
               (case r of Inl e \<Rightarrow> Inl (wrapErr ''upgrade history database'' e) | Inr b \<Rightarrow> Inr b,
                f1\<lparr>hf_data := db,
                   hf_detections := (hf_detections f1 \<or> (hw_fault hw ReadVersion = None \<and> fileVersion f1 = 2 \<and> hw_fault hw CreateDetections = None))\<rparr>)))"

section \<open>Opening keeps the rows\<close>

definition jobIDs :: "historyDB \<Rightarrow> string set" where
  "jobIDs db = hj_id ` set (h_jobs db)"

lemma upsertJob_ids: "upsertJob row db = Inr db1 \<Longrightarrow> jobIDs db \<subseteq> jobIDs db1 \<and> h_versions db1 = h_versions db"
proof -
  assume a: "upsertJob row db = Inr db1"
  have "hj_id (if hj_id r = hj_id row then row else r) = hj_id r" for r by simp
  then have "hj_id ` (\<lambda>r. if hj_id r = hj_id row then row else r) ` A = hj_id ` A" for A by (simp only: image_image)
  then show ?thesis using a by (auto simp: upsertJob_def jobIDs_def simp del: if_image_distrib split: if_splits)
qed

lemma indexFile_ids: "indexFile w logDir path name m db = Inr db1 \<Longrightarrow> jobIDs db \<subseteq> jobIDs db1 \<and> h_versions db1 = h_versions db"
proof -
  assume a: "indexFile w logDir path name m db = Inr db1"
  then obtain row items db0 where "upsertJob row db = Inr db0" and "db1 = setDetections (hj_id row) items db0"
    by (auto simp: indexFile_def atSite_def bind_res_def split: sum.splits option.splits if_splits)
  then show ?thesis using upsertJob_ids [of row db db0] by (simp add: jobIDs_def setDetections_def)
qed

lemma indexCurrent_ids:
  "jobIDs db \<subseteq> jobIDs (snd (indexCurrentFileLocked w logDir path info False db)) \<and>
   h_versions (snd (indexCurrentFileLocked w logDir path info False db)) = h_versions db"
  using indexFile_ids by (auto simp: indexCurrentFileLocked_def deleteInvalid_def split: sum.splits)

lemma refreshEntries_ids:
  "\<not> opt_removeInvalid opts \<Longrightarrow>
   jobIDs (snd s) \<subseteq> jobIDs (snd (refreshEntries w jobsDir logDir opts es s)) \<and>
   h_versions (snd (refreshEntries w jobsDir logDir opts es s)) = h_versions (snd s)"
proof (induction w jobsDir logDir opts es s rule: refreshEntries.induct)
  case (2 w jobsDir logDir opts entry info es mtimes db)
  have step: "jobIDs db \<subseteq> jobIDs (snd (indexCurrentFileLocked w logDir p fi (opt_removeInvalid opts) db)) \<and>
      h_versions (snd (indexCurrentFileLocked w logDir p fi (opt_removeInvalid opts) db)) = h_versions db" for p fi
    using indexCurrent_ids 2(5) by simp
  show ?case
  proof (cases info)
    case (Inl e)
    then show ?thesis using 2 by (simp add: Let_def)
  next
    case (Inr fi)
    then show ?thesis using 2 step by (simp add: Let_def) (meson order_trans)
  qed
qed simp

lemma upgradeSchema_ids:
  assumes "upgradeSchema w jobsDir logDir db = (r, db')"
  shows "jobIDs db \<subseteq> jobIDs db'" and "r = Inr False \<Longrightarrow> db' = db"
    and "r = Inr b \<Longrightarrow> h_versions db' \<noteq> [] \<and> Max (set (h_versions db')) = 3"
proof -
  let ?opts = "\<lparr> opt_force = True, opt_reconcileDeleted = False, opt_removeInvalid = False \<rparr>"
  have refresh: "jobIDs db \<subseteq> jobIDs db1 \<and> h_versions db1 = h_versions db"
    if "refreshLocked w jobsDir logDir ?opts db = (err, db1)" for err db1
  proof (cases "hw_ReadDir w")
    case (Inl e)
    then show ?thesis
      using that refreshEntries_ids [of ?opts "(Map.empty, db)" w jobsDir logDir "[]"]
      by (auto simp: refreshLocked_def split: if_splits)
  next
    case (Inr es)
    then show ?thesis
      using that refreshEntries_ids [of ?opts "(Map.empty, db)" w jobsDir logDir es]
      by (auto simp: refreshLocked_def split: prod.splits)
  qed
  let ?v = "if h_versions db = [] then 0 else Max (set (h_versions db))"
  have "jobIDs db \<subseteq> jobIDs db' \<and> (r = Inr False \<longrightarrow> db' = db) \<and>
    ((\<exists>b. r = Inr b) \<longrightarrow> h_versions db' \<noteq> [] \<and> Max (set (h_versions db')) = 3)"
  proof (cases "hw_fault w ReadVersion = None \<and> ?v = 2 \<and> hw_fault w CreateDetections = None")
    case True
    obtain err db1 where u: "refreshLocked w jobsDir logDir ?opts db = (err, db1)" by (cases "refreshLocked w jobsDir logDir ?opts db")
    have "h_versions db \<noteq> []" "Max (set (h_versions db)) = 2" using True by (auto split: if_splits)
    then have "Max (set (h_versions db @ [3])) = 3" by simp
    then show ?thesis
      using assms True u refresh [OF u]
      by (auto simp: upgradeSchema_def historyDatabaseSchemaVersion_def atSite_def jobIDs_def split: option.splits)
  next
    case False
    then show ?thesis
      using assms by (auto simp: upgradeSchema_def historyDatabaseSchemaVersion_def atSite_def split: option.splits if_splits)
  qed
  then show "jobIDs db \<subseteq> jobIDs db'" "r = Inr False \<Longrightarrow> db' = db"
    "r = Inr b \<Longrightarrow> h_versions db' \<noteq> [] \<and> Max (set (h_versions db')) = 3" by blast+
qed

lemma upgradeSchema_when:
  assumes "upgradeSchema w jobsDir logDir (hf_data f) = (Inr b, db')"
  shows "fileVersion f = 3 \<or> hw_fault w ReadVersion = None \<and> fileVersion f = 2 \<and> hw_fault w CreateDetections = None"
proof (rule ccontr)
  assume "\<not> ?thesis"
  then show False
    using assms unfolding upgradeSchema_def historyDatabaseSchemaVersion_def atSite_def fileVersion_def [symmetric]
    by (cases "hw_fault w ReadVersion"; cases "hw_fault w CreateDetections") (simp_all split: if_splits)
qed

lemma initializeHistory_effect:
  assumes "initializeHistoryDatabase w f = (err, f1)"
  shows "h_jobs (hf_data f1) = h_jobs (hf_data f)" and "h_detections (hf_data f1) = h_detections (hf_data f)"
    and "err = None \<Longrightarrow> hf_columns f1 = orCreate historyColumns (hf_columns f) \<and>
      requireSQLiteColumnType w ''history_jobs'' ''user_id'' ''TEXT'' (the (hf_columns f1)) = None \<and>
      (fileVersion f1 = 3 \<longrightarrow> hf_detections f1)"
  using assms
  by (auto simp: initializeHistoryDatabase_def Let_def fileVersion_def split: option.splits if_splits)

lemma openHistory_effect:
  assumes "openHistoryDatabase w f = (err, f1, b)"
  shows "f1 = f \<and> err \<noteq> None \<or> (\<exists>e. initializeHistoryDatabase w f = (e, f1) \<and> err = e)" and "b \<longleftrightarrow> err = None"
proof -
  obtain e0 f0 where i: "initializeHistoryDatabase w f = (e0, f0)" by (cases "initializeHistoryDatabase w f")
  show "f1 = f \<and> err \<noteq> None \<or> (\<exists>e. initializeHistoryDatabase w f = (e, f1) \<and> err = e)" "b \<longleftrightarrow> err = None"
    using assms i
    by (cases "sq_mkdir w"; cases "sq_open w"; cases "runPragmas w pragmas"; cases e0;
        auto simp: openHistoryDatabase_def openSQLiteDatabase_def)+
qed

lemma startHistory_effect:
  assumes "startHistory w hw jobsDir logDir f = (r, f')"
  shows "jobIDs (hf_data f) \<subseteq> jobIDs (hf_data f') \<and>
    (\<forall>upgraded. r = Inr upgraded \<longrightarrow>
       hf_detections f' \<and> fileVersion f' = 3 \<and>
       requireSQLiteColumnType w ''history_jobs'' ''user_id'' ''TEXT'' (the (hf_columns f')) = None \<and>
       (\<not> upgraded \<longrightarrow> h_jobs (hf_data f') = h_jobs (hf_data f) \<and> h_detections (hf_data f') = h_detections (hf_data f)))"
proof -
  obtain err f1 b where o: "openHistoryDatabase w f = (err, f1, b)" by (metis surj_pair)
  note e = openHistory_effect [OF o]
  have rows: "h_jobs (hf_data f1) = h_jobs (hf_data f)" "h_detections (hf_data f1) = h_detections (hf_data f)"
    using e(1) initializeHistory_effect by auto
  then have ids: "jobIDs (hf_data f1) = jobIDs (hf_data f)" by (simp add: jobIDs_def)
  show ?thesis
  proof (cases err)
    case (Some x)
    then show ?thesis using assms o ids by (auto simp: startHistory_def)
  next
    case None
    then have init: "initializeHistoryDatabase w f = (None, f1)" using e(1) by auto
    obtain r0 db where u: "upgradeSchema hw jobsDir logDir (hf_data f1) = (r0, db)" by (cases "upgradeSchema hw jobsDir logDir (hf_data f1)")
    note up = upgradeSchema_ids [OF u]
    let ?created = "hf_detections f1 \<or> hw_fault hw ReadVersion = None \<and> fileVersion f1 = 2 \<and> hw_fault hw CreateDetections = None"
    have eq: "(r, f') = (case r0 of Inl x \<Rightarrow> Inl (wrapErr ''upgrade history database'' x) | Inr x \<Rightarrow> Inr x,
        f1\<lparr>hf_data := db, hf_detections := ?created\<rparr>)"
      using assms by (simp only: startHistory_def o None u prod.case option.case)
    have r: "r = (case r0 of Inl x \<Rightarrow> Inl (wrapErr ''upgrade history database'' x) | Inr x \<Rightarrow> Inr x)"
      using eq by (rule Pair_inject)
    have f': "hf_data f' = db" "hf_detections f' = ?created" "hf_columns f' = hf_columns f1"
      using eq by simp_all
    have "hf_detections f' \<and> fileVersion f' = 3 \<and>
       requireSQLiteColumnType w ''history_jobs'' ''user_id'' ''TEXT'' (the (hf_columns f')) = None \<and>
       (\<not> upgraded \<longrightarrow> h_jobs (hf_data f') = h_jobs (hf_data f) \<and> h_detections (hf_data f') = h_detections (hf_data f))"
      if ok: "r = Inr upgraded" for upgraded
    proof -
      have r0: "r0 = Inr upgraded" using ok r by (cases r0) auto
      then have "fileVersion f1 = 3 \<or> hw_fault hw ReadVersion = None \<and> fileVersion f1 = 2 \<and> hw_fault hw CreateDetections = None"
        using upgradeSchema_when u by blast
      then have "hf_detections f'" using initializeHistory_effect(3) [OF init] f'(2) by blast
      moreover have "fileVersion f' = 3" using up(3) [OF r0] f'(1) by (simp add: fileVersion_def)
      moreover have "db = hf_data f1" if "\<not> upgraded" using up(2) r0 that by simp
      moreover have "requireSQLiteColumnType w ''history_jobs'' ''user_id'' ''TEXT'' (the (hf_columns f')) = None"
        unfolding f'(3) using initializeHistory_effect(3) [OF init] by blast
      ultimately show ?thesis using f'(1) rows by simp
    qed
    then show ?thesis using ids up(1) f'(1) by simp
  qed
qed

text \<open>
  C27: the history database is ready when the server runs, and no start loses history. Opening the file and
  upgrading its schema never drops an indexed job, whatever fails on the way; when both succeed, the table of detections exists, the schema version is
  3 and the owner column of the jobs has the type that the ownership checks rely on; a file that already was at
  version 3 keeps its rows as they are. A file of any other version but a new one or version 2 is refused.
\<close>

theorem history_database_ready:
  assumes "startHistory w hw jobsDir logDir f = (r, f')"
  shows "jobIDs (hf_data f) \<subseteq> jobIDs (hf_data f') \<and>
    (\<forall>upgraded. r = Inr upgraded \<longrightarrow>
       hf_detections f' \<and> fileVersion f' = 3 \<and>
       requireSQLiteColumnType w ''history_jobs'' ''user_id'' ''TEXT'' (the (hf_columns f')) = None \<and>
       (\<not> upgraded \<longrightarrow> h_jobs (hf_data f') = h_jobs (hf_data f) \<and> h_detections (hf_data f') = h_detections (hf_data f)))"
  by (rule startHistory_effect [OF assms])

definition calmSQLite :: sqliteWorld where
  "calmSQLite = \<lparr> sq_mkdir = None, sq_open = None, sq_pragma = (\<lambda>_. None), sq_schema = None, sq_tableInfo = None, sq_scan = None,
     sq_rows = None, sq_version = None, sq_detections = None, sq_record = None \<rparr>"

lemma calmSQLite_simps [simp]:
  "sq_mkdir calmSQLite = None" "sq_open calmSQLite = None" "sq_pragma calmSQLite p = None" "sq_schema calmSQLite = None"
  "sq_version calmSQLite = None" "sq_detections calmSQLite = None" "sq_record calmSQLite = None"
  by (simp_all add: calmSQLite_def)

theorem history_database_ready_witness:
  "\<exists>f'. startHistory calmSQLite (exampleWorld\<lparr>hw_ReadDir := Inr []\<rparr>) ''/jobs'' ''/logs''
        \<lparr> hf_columns = Some historyColumns, hf_detections = False, hf_data = exampleDB\<lparr>h_versions := [2]\<rparr> \<rparr> = (Inr True, f') \<and>
     hf_detections f' \<and> fileVersion f' = 3 \<and> ''cron-1600000000'' \<in> jobIDs (hf_data f')"
proof -
  let ?f = "\<lparr> hf_columns = Some historyColumns, hf_detections = False, hf_data = exampleDB\<lparr>h_versions := [2]\<rparr> \<rparr>"
  let ?s = "startHistory calmSQLite (exampleWorld\<lparr>hw_ReadDir := Inr []\<rparr>) ''/jobs'' ''/logs'' ?f"
  have columns: "requireSQLiteColumnType calmSQLite ''history_jobs'' ''user_id'' ''TEXT'' historyColumns = None" by code_simp
  have "initializeHistoryDatabase calmSQLite ?f = (None, ?f)"
    using columns by (simp add: initializeHistoryDatabase_def orCreate_def fileVersion_def)
  then have "openHistoryDatabase calmSQLite ?f = (None, ?f, True)"
    by (simp add: openHistoryDatabase_def openSQLiteDatabase_def pragmas_def)
  then have "fst ?s = Inr True"
    by (simp add: startHistory_def upgradeSchema_def historyDatabaseSchemaVersion_def atSite_def exampleWorld_def refreshLocked_def)
  then obtain f' where s: "?s = (Inr True, f')" by (metis prod.collapse)
  have "''cron-1600000000'' \<in> jobIDs (hf_data ?f)" by (simp add: jobIDs_def exampleDB_def)
  then show ?thesis using history_database_ready [OF s] s by blast
qed

end
