(* ===== verification/Startup.thy ===== *)
theory Startup
  imports App_Log Databases Login_Limiter
begin

text \<open>
  The life of the process (\<^verbatim>\<open>server/main.go\<close>, \<^verbatim>\<open>server/listeners.go\<close>, the address list of
  \<^verbatim>\<open>server/config.go\<close>): from reading the environment to the release of everything that was opened.
\<close>

section \<open>Listen addresses\<close>

text \<open>
  \<^verbatim>\<open>netip.ParseAddr\<close> followed by the test for a zone accepts what \<^verbatim>\<open>net.ParseIP\<close> accepts; an address
  and the IPv4 address mapped into it are one, as after \<^verbatim>\<open>Unmap\<close>.
\<close>

definition JoinHostPort :: "string \<Rightarrow> string \<Rightarrow> string" where
  "JoinHostPort host port =
     (if CHR '':'' \<in> set host \<or> CHR ''%'' \<in> set host then ''['' @ host @ '']:'' @ port else host @ '':'' @ port)"

definition isUnspecified :: "ip \<Rightarrow> bool" where
  "isUnspecified i \<longleftrightarrow> i = replicate 8 0 \<or> i = mapped4 (0, 0, 0, 0)"

fun listenLoop :: "nat \<Rightarrow> string \<Rightarrow> ip list \<Rightarrow> string list \<Rightarrow> string list \<Rightarrow> string list res" where
  "listenLoop count port seen addrs [] = Inr addrs"
| "listenLoop count port seen addrs (part # parts) =
     (case ParseIP (TrimSpace part) of
        None \<Rightarrow> Inl (ErrText (''SCANNER_ADDR contains invalid IP '' @ part))
      | Some i \<Rightarrow>
          if isUnspecified i \<and> count \<noteq> 1 then Inl (ErrText ''SCANNER_ADDR wildcard IP must be used alone'')
          else if i \<in> set seen then listenLoop count port seen addrs parts
          else listenLoop count port (i # seen) (addrs @ [JoinHostPort (ipString i) port]) parts)"

definition parseListenAddresses :: "string \<Rightarrow> string \<Rightarrow> string list res" where
  "parseListenAddresses value0 port =
     (let value = TrimSpace value0 in
      if value = [] \<or> value = ''any'' then Inr [JoinHostPort [] port]
      else let parts = Split value CHR '','' in listenLoop (length parts) port [] [] parts)"

section \<open>Listeners\<close>

text \<open>\<open>listen address\<close> is what \<^verbatim>\<open>net.Listen\<close> answers. The second component lists the listeners that are left open.\<close>

fun listenHTTP :: "(string \<Rightarrow> goerror option) \<Rightarrow> string list \<Rightarrow> string list \<Rightarrow> string list res \<times> string list" where
  "listenHTTP listen opened [] = (Inr opened, opened)"
| "listenHTTP listen opened (address # rest) =
     (case listen address of
        Some e \<Rightarrow> (Inl (wrapErr (''listen on '' @ address) e), foldl (\<lambda>live a. remove1 a live) opened opened)
      | None \<Rightarrow> listenHTTP listen (opened @ [address]) rest)"

section \<open>Serving\<close>

text \<open>
  The results of the serving goroutines in the order in which they arrive, \<open>None\<close> for a regular end; whether
  the shutdown signal or the first of them ends the wait; and the answers of \<^verbatim>\<open>Shutdown\<close> and
  \<^verbatim>\<open>Close\<close>. \<^verbatim>\<open>Join\<close> of errors is their list.
\<close>

record serveWorld =
  sw_results :: "goerror option list"
  sw_signal :: bool
  sw_shutdown :: "goerror option"
  sw_close :: "goerror option"

definition errList :: "goerror option \<Rightarrow> goerror list" where
  "errList e = (case e of None \<Rightarrow> [] | Some x \<Rightarrow> [x])"

text \<open>The reports, in order, the returned errors, and how many results were received.\<close>

definition serveHTTP :: "serveWorld \<Rightarrow> goerror list \<times> goerror list \<times> nat" where
  "serveHTTP w =
     (let first = (if sw_signal w then [] else take 1 (sw_results w));
          rest = drop (length first) (sw_results w);
          serveErr = concat (map errList first);
          shutdownErr = errList (map_option (wrapErr ''http shutdown'') (sw_shutdown w));
          closeErr = (if sw_shutdown w = None then [] else errList (map_option (wrapErr ''http force close'') (sw_close w)));
          restErr = concat (map errList rest)
      in (serveErr @ shutdownErr @ closeErr @ restErr, serveErr @ restErr @ shutdownErr, length first + length rest))"

section \<open>The process\<close>

text \<open>What \<^verbatim>\<open>run\<close> opens and closes, in order.\<close>

datatype resource = DefaultLogger | ConfiguredLogger | UserDatabase | HistoryDatabase | SignalContext | LookupRuntime | HTTPListeners

datatype action = Opened resource | Released resource | Served

text \<open>The files that outlive the process, and the answers its steps get.\<close>

record machine =
  pm_disk :: logDisk
  pm_config :: "string option"
  pm_users :: userFile
  pm_history :: historyFile

record startWorld =
  st_getenv :: "string \<Rightarrow> string"
  st_log1 :: logWorld
  st_log2 :: logWorld
  st_readErr :: "goerror option"
  st_writeErr :: "goerror option"
  st_users :: sqliteWorld
  st_history :: sqliteWorld
  st_index :: historyWorld
  st_refresh :: historyWorld
  st_listen :: "string \<Rightarrow> goerror option"
  st_serve :: serveWorld

type_synonym runResult = "goerror list \<times> machine \<times> action list"

text \<open>A function that returns runs its deferred calls, the last one first.\<close>

definition finish :: "goerror list \<Rightarrow> resource list \<Rightarrow> machine \<Rightarrow> action list \<Rightarrow> runResult" where
  "finish errs deferred m tr = (errs, m, tr @ map Released deferred)"

definition logSettings :: "config \<Rightarrow> appConfig \<Rightarrow> logConfig" where
  "logSettings cfg app =
     \<lparr> lc_Path = filepath_Join (LogDir cfg) ''clamavweb.log'', lc_MaxSize = LogFileMaxSize app,
       lc_MaxFiles = LogFileNum app, lc_Level = LogLevel app \<rparr>"

definition sameLogSettings :: "appConfig \<Rightarrow> appConfig \<Rightarrow> bool" where
  "sameLogSettings a b \<longleftrightarrow>
     LogFileMaxSize a = LogFileMaxSize b \<and> LogFileNum a = LogFileNum b \<and> LogLevel a = LogLevel b"

text \<open>
  From the databases on. \<^verbatim>\<open>serveHTTP\<close> owns the listeners: the shutdown of the server closes them.
\<close>

definition runServing :: "startWorld \<Rightarrow> config \<Rightarrow> resource list \<Rightarrow> machine \<Rightarrow> action list \<Rightarrow> runResult" where
  "runServing w cfg deferred m tr =
     (let tr1 = tr @ [Opened SignalContext, Opened LookupRuntime]; deferred1 = [LookupRuntime, SignalContext] @ deferred in
      case listenHTTP (st_listen w) [] (ListenAddrs cfg) of
        (Inl e, _) \<Rightarrow> finish [e] deferred1 m tr1
      | (Inr _, _) \<Rightarrow>
          (case serveHTTP (st_serve w) of (_, errs, _) \<Rightarrow>
             finish errs deferred1 m (tr1 @ [Opened HTTPListeners, Served, Released HTTPListeners])))"

definition runDatabases :: "startWorld \<Rightarrow> config \<Rightarrow> resource \<Rightarrow> machine \<Rightarrow> action list \<Rightarrow> runResult" where
  "runDatabases w cfg logger m tr =
     (case openUserDatabase (st_users w) (pm_users m) of
        (Some e, u, _) \<Rightarrow> finish [wrapErr ''open user database'' e] [logger] (m\<lparr>pm_users := u\<rparr>) tr
      | (None, u, _) \<Rightarrow>
     (case openHistoryDatabase (st_history w) (pm_history m) of
        (Some e, h, _) \<Rightarrow>
          finish [wrapErr ''open history database'' e] [UserDatabase, logger] (m\<lparr>pm_users := u, pm_history := h\<rparr>)
            (tr @ [Opened UserDatabase])
      | (None, _, _) \<Rightarrow>
     (let tr1 = tr @ [Opened UserDatabase, Opened HistoryDatabase]; deferred = [HistoryDatabase, UserDatabase, logger] in
      case startHistory (st_history w) (st_index w) (JobsDir cfg) (LogDir cfg) (pm_history m) of
        (Inl e, h) \<Rightarrow> finish [e] deferred (m\<lparr>pm_users := u, pm_history := h\<rparr>) tr1
      | (Inr upgraded, h) \<Rightarrow>
          (let h1 = (if upgraded then h
                     else h\<lparr>hf_data := snd (refresh (st_refresh w) (JobsDir cfg) (LogDir cfg) (hf_data h))\<rparr>) in
           runServing w cfg deferred (m\<lparr>pm_users := u, pm_history := h1\<rparr>) tr1))))"

definition run :: "startWorld \<Rightarrow> machine \<Rightarrow> runResult" where
  "run w m =
     (case loadConfig parseListenAddresses (st_getenv w) of
        Inl e \<Rightarrow> ([wrapErr ''load environment config'' e], m, [])
      | Inr cfg \<Rightarrow>
     (case NewLogger (st_log1 w) (logSettings cfg defaultAppConfig) (pm_disk m) of
        Inl e \<Rightarrow> ([wrapErr ''initialize application logger'' e], m, [])
      | Inr logger \<Rightarrow>
     (let m1 = m\<lparr>pm_disk := snd (lg_writer logger)\<rparr>; tr = [Opened DefaultLogger] in
      case ensureAndReload (st_readErr w) (st_writeErr w) \<lparr> store_file = pm_config m, store_cfg = defaultAppConfig \<rparr> of
        Inl e \<Rightarrow> finish [wrapErr ''load server config'' e] [DefaultLogger] m1 tr
      | Inr store \<Rightarrow>
     (let m2 = m1\<lparr>pm_config := store_file store\<rparr> in
      if sameLogSettings (store_cfg store) defaultAppConfig then runDatabases w cfg DefaultLogger m2 tr
      else case NewLogger (st_log2 w) (logSettings cfg (store_cfg store)) (pm_disk m2) of
        Inl e \<Rightarrow> finish [wrapErr ''apply application log configuration'' e] [DefaultLogger] m2 tr
      | Inr logger2 \<Rightarrow>
          runDatabases w cfg ConfiguredLogger (m2\<lparr>pm_disk := snd (lg_writer logger2)\<rparr>)
            (tr @ [Opened ConfiguredLogger, Released DefaultLogger])))))"

section \<open>Addresses and listeners\<close>

definition addressOf :: "string \<Rightarrow> ip \<Rightarrow> string" where
  "addressOf port i = JoinHostPort (ipString i) port"

lemma listenLoop_spec:
  assumes "listenLoop count port seen addrs parts = Inr out"
  shows "\<exists>ips. out = addrs @ map (addressOf port) ips \<and> distinct ips \<and> set ips \<inter> set seen = {} \<and>
    (\<forall>part \<in> set parts. \<exists>i \<in> set ips \<union> set seen. ParseIP (TrimSpace part) = Some i) \<and>
    (\<forall>i \<in> set ips. (isUnspecified i \<longrightarrow> count = 1) \<and> (\<exists>part \<in> set parts. ParseIP (TrimSpace part) = Some i))"
  using assms
proof (induction parts arbitrary: seen addrs)
  case Nil
  then show ?case by (intro exI [of _ "[]"]) simp
next
  case (Cons part parts)
  obtain i where i: "ParseIP (TrimSpace part) = Some i" and ok: "isUnspecified i \<longrightarrow> count = 1"
    using Cons.prems by (auto split: option.splits if_splits)
  show ?case
  proof (cases "i \<in> set seen")
    case True
    then have "listenLoop count port seen addrs parts = Inr out" using Cons.prems i ok by auto
    from Cons.IH [OF this] show ?thesis using i True by fastforce
  next
    case False
    then have "listenLoop count port (i # seen) (addrs @ [addressOf port i]) parts = Inr out"
      using Cons.prems i ok by (auto simp: addressOf_def)
    then obtain ips where "out = (addrs @ [addressOf port i]) @ map (addressOf port) ips" "distinct ips" "set ips \<inter> set (i # seen) = {}"
      "\<forall>part \<in> set parts. \<exists>j \<in> set ips \<union> set (i # seen). ParseIP (TrimSpace part) = Some j"
      "\<forall>j \<in> set ips. (isUnspecified j \<longrightarrow> count = 1) \<and> (\<exists>part \<in> set parts. ParseIP (TrimSpace part) = Some j)"
      using Cons.IH by blast
    then show ?thesis using i ok False by (intro exI [of _ "i # ips"]) auto
  qed
qed

lemma listenHTTP_spec:
  "listenHTTP listen opened addrs = (r, live) \<Longrightarrow>
   (case r of Inl _ \<Rightarrow> live = [] \<and> (\<exists>a \<in> set addrs. listen a \<noteq> None)
    | Inr ls \<Rightarrow> ls = opened @ addrs \<and> live = ls \<and> (\<forall>a \<in> set addrs. listen a = None))"
proof (induction listen opened addrs rule: listenHTTP.induct)
  case (2 listen opened address rest)
  have closed: "foldl (\<lambda>live a. remove1 a live) (xs @ ys) xs = ys" for xs ys :: "string list"
    by (induction xs) simp_all
  show ?case
  proof (cases "listen address")
    case None
    then show ?thesis using 2 by (auto split: sum.splits)
  next
    case (Some e)
    then show ?thesis using 2(2) closed [of opened "[]"] by auto
  qed
qed auto

section \<open>Nothing stays open\<close>

text \<open>
  What is open after some actions, the latest first; \<open>None\<close> when something is opened twice or released without being open, or
  when the service runs without what it needs.
\<close>

fun openAfter :: "resource list \<Rightarrow> action list \<Rightarrow> resource list option" where
  "openAfter xs [] = Some xs"
| "openAfter xs (Opened r # tr) = (if r \<in> set xs then None else openAfter (r # xs) tr)"
| "openAfter xs (Released r # tr) = (if r \<in> set xs then openAfter (remove1 r xs) tr else None)"
| "openAfter xs (Served # tr) =
     (if {UserDatabase, HistoryDatabase, SignalContext, LookupRuntime, HTTPListeners} \<subseteq> set xs \<and>
         (DefaultLogger \<in> set xs \<or> ConfiguredLogger \<in> set xs)
      then openAfter xs tr else None)"

lemma openAfter_append: "openAfter xs (a @ b) = Option.bind (openAfter xs a) (\<lambda>ys. openAfter ys b)"
  by (induction xs a rule: openAfter.induct) auto

definition loggers :: "resource set" where
  "loggers = {DefaultLogger, ConfiguredLogger}"

lemma runServing_balanced:
  assumes "runServing w cfg [HistoryDatabase, UserDatabase, l] m tr = (errs, m', tr')"
    and "openAfter [] tr = Some [HistoryDatabase, UserDatabase, l]" and "l \<in> loggers"
  shows "openAfter [] tr' = Some [] \<and> tr' \<noteq> [] \<and> last tr' = Released l"
  using assms
  by (auto simp: runServing_def finish_def openAfter_append loggers_def Let_def split: prod.splits sum.splits)

lemma runDatabases_balanced:
  assumes "runDatabases w cfg l m tr = (errs, m', tr')" and "openAfter [] tr = Some [l]" and "l \<in> loggers"
  shows "openAfter [] tr' = Some [] \<and> tr' \<noteq> [] \<and> last tr' = Released l"
proof -
  obtain ue u ub where U: "openUserDatabase (st_users w) (pm_users m) = (ue, u, ub)" by (metis surj_pair)
  obtain he h hb where H: "openHistoryDatabase (st_history w) (pm_history m) = (he, h, hb)" by (metis surj_pair)
  obtain sr sh where S: "startHistory (st_history w) (st_index w) (JobsDir cfg) (LogDir cfg) (pm_history m) = (sr, sh)" by (metis surj_pair)
  have two: "openAfter [] (tr @ [Opened UserDatabase, Opened HistoryDatabase]) = Some [HistoryDatabase, UserDatabase, l]"
    using assms(2, 3) by (auto simp: openAfter_append loggers_def)
  show ?thesis
  proof (cases ue)
    case (Some e)
    then show ?thesis using assms U by (auto simp: runDatabases_def finish_def openAfter_append loggers_def)
  next
    case u: None
    show ?thesis
    proof (cases he)
      case (Some e)
      then show ?thesis using assms u U H by (auto simp: runDatabases_def finish_def openAfter_append loggers_def)
    next
      case h: None
      show ?thesis
      proof (cases sr)
        case (Inl e)
        then show ?thesis using assms u h U H S two by (auto simp: runDatabases_def finish_def openAfter_append loggers_def)
      next
        case (Inr b)
        then obtain m1 where "runServing w cfg [HistoryDatabase, UserDatabase, l] m1 (tr @ [Opened UserDatabase, Opened HistoryDatabase]) = (errs, m', tr')"
          using assms(1) u h U H S by (auto simp: runDatabases_def Let_def)
        then show ?thesis using runServing_balanced two assms(3) by blast
      qed
    qed
  qed
qed


section \<open>The service starts only when everything is ready\<close>

lemma indexCurrent_versions: "h_versions (snd (indexCurrentFileLocked w logDir path info b db)) = h_versions db"
  using indexFile_ids
  by (auto simp: indexCurrentFileLocked_def deleteInvalid_def deleteByFile_def deleteJobs_def split: sum.splits)

lemma refreshEntries_versions: "h_versions (snd (refreshEntries w jobsDir logDir opts es s)) = h_versions (snd s)"
  by (induction w jobsDir logDir opts es s rule: refreshEntries.induct)
    (auto simp: Let_def indexCurrent_versions split: sum.splits)

lemma refresh_versions: "h_versions (snd (refresh w jobsDir logDir db)) = h_versions db"
proof -
  have e: "h_versions b = h_versions db" if "refreshEntries w jobsDir logDir opts es (m, db) = (a, b)" for opts es m a b
    using refreshEntries_versions [of w jobsDir logDir opts es "(m, db)"] that by simp
  show ?thesis
    by (auto simp: refresh_def refreshLocked_def deleteJobs_def e split: sum.splits prod.splits option.splits)
qed

lemma listenLoop_nonempty: "listenLoop count port seen addrs parts = Inr out \<Longrightarrow> addrs \<noteq> [] \<or> (parts \<noteq> [] \<and> seen = []) \<Longrightarrow> out \<noteq> []"
proof (induction parts arbitrary: seen addrs)
  case (Cons part parts)
  then show ?case by (auto split: option.splits if_splits)
qed simp

lemma parseListenAddresses_nonempty: "parseListenAddresses value port = Inr addrs \<Longrightarrow> addrs \<noteq> []"
proof -
  assume a: "parseListenAddresses value port = Inr addrs"
  have "Split s CHR '','' \<noteq> []" for s by simp
  then show ?thesis using a listenLoop_nonempty by (auto simp: parseListenAddresses_def Let_def split: if_splits)
qed

lemma runDatabases_served:
  assumes "runDatabases w cfg l m tr = (errs, m', tr')" and "Served \<in> set tr'" and "Served \<notin> set tr"
  shows "hf_detections (pm_history m') \<and> fileVersion (pm_history m') = 3 \<and> (\<forall>a \<in> set (ListenAddrs cfg). st_listen w a = None) \<and>
    errs = fst (snd (serveHTTP (st_serve w)))"
proof -
  obtain ue u ub where U: "openUserDatabase (st_users w) (pm_users m) = (ue, u, ub)" by (metis surj_pair)
  obtain he h0 hb where H: "openHistoryDatabase (st_history w) (pm_history m) = (he, h0, hb)" by (metis surj_pair)
  obtain sr h where S: "startHistory (st_history w) (st_index w) (JobsDir cfg) (LogDir cfg) (pm_history m) = (sr, h)" by (metis surj_pair)
  have ue: "ue = None" using assms U by (cases ue) (auto simp: runDatabases_def finish_def)
  have he: "he = None" using assms U H ue by (cases he) (auto simp: runDatabases_def finish_def)
  obtain b where b: "sr = Inr b" using assms U H S ue he by (cases sr) (auto simp: runDatabases_def finish_def)
  let ?h1 = "if b then h else h\<lparr>hf_data := snd (refresh (st_refresh w) (JobsDir cfg) (LogDir cfg) (hf_data h))\<rparr>"
  let ?tr1 = "tr @ [Opened UserDatabase, Opened HistoryDatabase]"
  have serve: "runServing w cfg [HistoryDatabase, UserDatabase, l] (m\<lparr>pm_users := u, pm_history := ?h1\<rparr>) ?tr1 = (errs, m', tr')"
    using assms(1) U H S ue he b by (simp add: runDatabases_def Let_def)
  obtain r ls where L: "listenHTTP (st_listen w) [] (ListenAddrs cfg) = (r, ls)" by (metis surj_pair)
  have "\<exists>x. r = Inr x" using serve L assms(2, 3) by (cases r) (auto simp: runServing_def finish_def Let_def)
  then have out: "errs = fst (snd (serveHTTP (st_serve w)))" "pm_history m' = ?h1"
    using serve L by (auto simp: runServing_def finish_def Let_def split: prod.splits)
  have "hf_detections h \<and> fileVersion h = 3" using startHistory_effect [OF S] b by blast
  then have "hf_detections ?h1 \<and> fileVersion ?h1 = 3" by (auto simp: fileVersion_def refresh_versions)
  then show ?thesis using out \<open>\<exists>x. r = Inr x\<close> listenHTTP_spec [OF L] by auto
qed

text \<open>
  the service starts only when everything is ready. It runs only if the environment gave a configuration with at least one
  listen address, every address of it could be bound, and the history database has the table of detections at schema version
  3; the process then ends with exactly the errors of the service.
\<close>

theorem service_starts_ready:
  assumes "run w m = (errs, m', tr)" and "Served \<in> set tr"
  shows "\<exists>cfg. loadConfig parseListenAddresses (st_getenv w) = Inr cfg \<and> ListenAddrs cfg \<noteq> [] \<and>
    (\<forall>a \<in> set (ListenAddrs cfg). st_listen w a = None) \<and>
    hf_detections (pm_history m') \<and> fileVersion (pm_history m') = 3 \<and> errs = fst (snd (serveHTTP (st_serve w)))"
proof -
  obtain cfg where cfg: "loadConfig parseListenAddresses (st_getenv w) = Inr cfg"
    using assms by (cases "loadConfig parseListenAddresses (st_getenv w)") (auto simp: run_def)
  obtain lg where lg: "NewLogger (st_log1 w) (logSettings cfg defaultAppConfig) (pm_disk m) = Inr lg"
    using assms cfg by (cases "NewLogger (st_log1 w) (logSettings cfg defaultAppConfig) (pm_disk m)") (auto simp: run_def)
  let ?reload = "ensureAndReload (st_readErr w) (st_writeErr w) \<lparr> store_file = pm_config m, store_cfg = defaultAppConfig \<rparr>"
  obtain st where st: "?reload = Inr st"
    using assms cfg lg by (cases ?reload) (auto simp: run_def finish_def)
  obtain l m0 tr0 where D: "runDatabases w cfg l m0 tr0 = (errs, m', tr)" and "Served \<notin> set tr0"
  proof (cases "sameLogSettings (store_cfg st) defaultAppConfig")
    case True
    then show ?thesis using assms(1) cfg lg st that by (auto simp: run_def Let_def)
  next
    case False
    let ?new = "NewLogger (st_log2 w) (logSettings cfg (store_cfg st)) (snd (lg_writer lg))"
    obtain lg2 where "?new = Inr lg2" using assms cfg lg st False by (cases ?new) (auto simp: run_def finish_def)
    then show ?thesis using assms(1) cfg lg st False that by (auto simp: run_def Let_def)
  qed
  moreover have "ListenAddrs cfg \<noteq> []"
    using cfg parseListenAddresses_nonempty by (auto simp: loadConfig_def Let_def bind_res_def split: sum.splits)
  ultimately show ?thesis using cfg runDatabases_served [OF D assms(2)] by blast
qed

text \<open>
  the listen addresses are exactly the configured ones. When \<^verbatim>\<open>SCANNER_ADDR\<close> is a list, every entry is an address, the service binds each address once, however it
  is written and often repeated, and a wildcard stands alone; binding is all or nothing: after a failure no listener is left open.
\<close>

theorem listen_addresses_exact:
  assumes "parseListenAddresses value port = Inr addrs" and "TrimSpace value \<notin> {[], ''any''}"
    and "listenHTTP listen [] addrs = (r, live)"
  shows "(\<exists>ips. addrs = map (addressOf port) ips \<and> distinct ips \<and>
      (Some ` set ips = ParseIP ` TrimSpace ` set (Split (TrimSpace value) CHR '','')) \<and>
      (\<forall>i \<in> set ips. isUnspecified i \<longrightarrow> length (Split (TrimSpace value) CHR '','') = 1)) \<and>
    (case r of Inl _ \<Rightarrow> live = [] \<and> (\<exists>a \<in> set addrs. listen a \<noteq> None)
     | Inr ls \<Rightarrow> ls = addrs \<and> live = addrs \<and> (\<forall>a \<in> set addrs. listen a = None))"
proof
  let ?parts = "Split (TrimSpace value) CHR '',''"
  have "listenLoop (length ?parts) port [] [] ?parts = Inr addrs"
    using assms(1, 2) by (simp add: parseListenAddresses_def Let_def)
  then obtain ips where "addrs = map (addressOf port) ips" "distinct ips"
    and parts: "\<forall>part \<in> set ?parts. \<exists>i \<in> set ips. ParseIP (TrimSpace part) = Some i"
    and ips: "\<forall>i \<in> set ips. (isUnspecified i \<longrightarrow> length ?parts = 1) \<and> (\<exists>part \<in> set ?parts. ParseIP (TrimSpace part) = Some i)"
    using listenLoop_spec by fastforce
  moreover have "Some ` set ips = ParseIP ` TrimSpace ` set ?parts"
    using parts ips by (force simp: image_iff)
  ultimately show "\<exists>ips. addrs = map (addressOf port) ips \<and> distinct ips \<and> Some ` set ips = ParseIP ` TrimSpace ` set ?parts \<and>
      (\<forall>i \<in> set ips. isUnspecified i \<longrightarrow> length ?parts = 1)" by blast
  show "case r of Inl _ \<Rightarrow> live = [] \<and> (\<exists>a \<in> set addrs. listen a \<noteq> None)
     | Inr ls \<Rightarrow> ls = addrs \<and> live = addrs \<and> (\<forall>a \<in> set addrs. listen a = None)"
    using listenHTTP_spec [OF assms(3)] by (auto split: sum.splits)
qed

lemma errList_Some: "e \<in> set (errList x) \<longleftrightarrow> x = Some e"
  by (auto simp: errList_def split: option.splits)

text \<open>
  the service waits for all its listeners and hides no error. Every goroutine's result is received before the databases are closed; every error of a
  listener and of the shutdown is reported and part of the returned one, and the returned error is empty exactly when all of them ended regularly.
\<close>

theorem serving_waits_for_all:
  assumes "serveHTTP w = (reports, errs, received)"
  shows "received = length (sw_results w) \<and> set errs \<subseteq> set reports \<and> (\<forall>e. Some e \<in> set (sw_results w) \<longrightarrow> e \<in> set errs) \<and>
    (errs = [] \<longleftrightarrow> set (sw_results w) \<subseteq> {None} \<and> sw_shutdown w = None)"
proof -
  let ?first = "if sw_signal w then [] else take 1 (sw_results w)"
  let ?rest = "drop (length ?first) (sw_results w)"
  have split: "?first @ ?rest = sw_results w" by (cases "sw_results w") simp_all
  have errs: "errs = concat (map errList (sw_results w)) @ errList (map_option (wrapErr ''http shutdown'') (sw_shutdown w))"
    using assms by (subst split [symmetric]) (auto simp: serveHTTP_def Let_def)
  have "received = length (?first @ ?rest)" and reports: "set errs \<subseteq> set reports"
    using assms by (auto simp: serveHTTP_def Let_def)
  then have "received = length (sw_results w)" using split by simp
  moreover have "\<forall>e. Some e \<in> set (sw_results w) \<longrightarrow> e \<in> set errs" by (auto simp: errs errList_Some)
  moreover have "errs = [] \<longleftrightarrow> set (sw_results w) \<subseteq> {None} \<and> sw_shutdown w = None"
    by (auto simp: errs errList_def split: option.splits)
  ultimately show ?thesis using reports by blast
qed

section \<open>A sample start\<close>

definition freshMachine :: machine where
  "freshMachine = \<lparr> pm_disk = \<lparr> ld_files = Map.empty, ld_stderr = [] \<rparr>, pm_config = None,
     pm_users = \<lparr> uf_columns = None, uf_versions = [], uf_data = emptyDB \<rparr>,
     pm_history = \<lparr> hf_columns = None, hf_detections = False, hf_data = exampleDB\<lparr>h_versions := [], h_jobs := []\<rparr> \<rparr> \<rparr>"

definition calmStart :: startWorld where
  "calmStart = \<lparr> st_getenv = (\<lambda>_. []), st_log1 = calmWorld, st_log2 = calmWorld, st_readErr = None, st_writeErr = None,
     st_users = calmSQLite, st_history = calmSQLite, st_index = exampleWorld, st_refresh = exampleWorld, st_listen = (\<lambda>_. None),
     st_serve = \<lparr> sw_results = [None], sw_signal = True, sw_shutdown = None, sw_close = None \<rparr> \<rparr>"

lemma calm_users: "\<exists>f. openUserDatabase calmSQLite (pm_users freshMachine) = (None, f, True)"
proof -
  have "requireSQLiteColumnType calmSQLite ''users'' ''id'' ''TEXT'' usersColumns = None" by code_simp
  then show ?thesis
    by (simp add: openUserDatabase_def openSQLiteDatabase_def initializeUserDatabase_def orCreate_def pragmas_def freshMachine_def)
qed

lemma calm_history:
  "\<exists>f. openHistoryDatabase calmSQLite (pm_history freshMachine) = (None, f, True) \<and> fileVersion f = 3"
proof -
  have "requireSQLiteColumnType calmSQLite ''history_jobs'' ''user_id'' ''TEXT'' historyColumns = None" by code_simp
  then show ?thesis
    by (simp add: openHistoryDatabase_def openSQLiteDatabase_def initializeHistoryDatabase_def orCreate_def pragmas_def freshMachine_def fileVersion_def)
qed

lemma calm_start: "\<exists>f. startHistory calmSQLite exampleWorld jobsDir logDir (pm_history freshMachine) = (Inr False, f)"
proof -
  obtain f where "openHistoryDatabase calmSQLite (pm_history freshMachine) = (None, f, True)" "fileVersion f = 3"
    using calm_history by blast
  then show ?thesis
    by (simp add: startHistory_def upgradeSchema_def historyDatabaseSchemaVersion_def atSite_def exampleWorld_def fileVersion_def [symmetric])
qed

lemma calm_config: "\<exists>cfg. loadConfig parseListenAddresses (\<lambda>_. []) = Inr cfg \<and> ListenAddrs cfg = ['':8080''] \<and> LogDir cfg = ''/log''"
proof -
  have [simp]: "TrimSpace [] = []" by code_simp
  show ?thesis by (simp add: loadConfig_def Let_def env_def parseYNFlag_def parseListenAddresses_def JoinHostPort_def)
qed

lemma calm_run: "\<exists>errs m' tr. run calmStart freshMachine = (errs, m', tr) \<and> Served \<in> set tr"
proof -
  obtain cfg where cfg: "loadConfig parseListenAddresses (\<lambda>_. []) = Inr cfg" "ListenAddrs cfg = ['':8080'']" "LogDir cfg = ''/log''"
    using calm_config by blast
  have "filepath_Join ''/log'' ''clamavweb.log'' = ''/log/clamavweb.log''" "TrimSpace ''/log/clamavweb.log'' = ''/log/clamavweb.log''"
    "parseLevel ''warn'' = Inr LevelWarn" by code_simp+
  then have "\<exists>lg. NewLogger calmWorld (logSettings cfg defaultAppConfig) (pm_disk freshMachine) = Inr lg"
    using cfg(3) by (simp add: NewLogger_def logSettings_def defaultAppConfig_def newRotatingWriter_def rw_open_def calmWorld_def)
  moreover have "\<exists>st. ensureAndReload None None \<lparr> store_file = pm_config freshMachine, store_cfg = defaultAppConfig \<rparr> = Inr st \<and> store_cfg st = defaultAppConfig"
    by (simp add: ensureAndReload_def freshMachine_def)
  ultimately obtain lg st where
    lg: "NewLogger calmWorld (logSettings cfg defaultAppConfig) (pm_disk freshMachine) = Inr lg"
    and st: "ensureAndReload None None \<lparr> store_file = pm_config freshMachine, store_cfg = defaultAppConfig \<rparr> = Inr st" "store_cfg st = defaultAppConfig" by blast
  obtain u where "openUserDatabase calmSQLite (pm_users freshMachine) = (None, u, True)" using calm_users by blast
  moreover obtain h where "openHistoryDatabase calmSQLite (pm_history freshMachine) = (None, h, True)" using calm_history by blast
  moreover obtain h2 where "startHistory calmSQLite exampleWorld (JobsDir cfg) (LogDir cfg) (pm_history freshMachine) = (Inr False, h2)"
    using calm_start by blast
  ultimately show ?thesis
    using cfg lg st
    by (simp add: run_def calmStart_def sameLogSettings_def runDatabases_def runServing_def finish_def serveHTTP_def errList_def Let_def)
qed


theorem service_starts_ready_witness:
  "\<exists>errs m' tr. run calmStart freshMachine = (errs, m', tr) \<and> fileVersion (pm_history m') = 3"
proof -
  obtain errs m' tr where r: "run calmStart freshMachine = (errs, m', tr)" "Served \<in> set tr" using calm_run by blast
  show ?thesis using service_starts_ready [OF r] r(1) by blast
qed

theorem serving_waits_for_all_witness:
  "\<exists>reports errs. serveHTTP (st_serve calmStart) = (reports, errs, 1) \<and> errs = []"
proof -
  obtain reports errs n where r: "serveHTTP (st_serve calmStart) = (reports, errs, n)" by (metis surj_pair)
  show ?thesis using serving_waits_for_all [OF r] r by (simp add: calmStart_def)
qed

theorem listen_addresses_exact_witness:
  "\<exists>addrs ips. parseListenAddresses ''10.0.0.1, 10.0.0.1'' ''80'' = Inr addrs \<and> addrs = map (addressOf ''80'') ips \<and> distinct ips \<and>
     listenHTTP (\<lambda>_. None) [] addrs = (Inr addrs, addrs)"
proof -
  let ?v = "''10.0.0.1, 10.0.0.1''"
  have "parseIPv4Fields ''10.0.0.1'' = Some (10, 0, 0, 1)" by code_simp
  then have p: "ParseIP ''10.0.0.1'' = Some (mapped4 (10, 0, 0, 1))" by (simp add: ParseIP_def)
  have "mapped4 (10, 0, 0, 1) ! 6 \<noteq> 0" "mapped4 (0, 0, 0, 0) ! 6 = 0" "replicate 8 0 ! 6 = (0 :: nat)" by (simp_all add: mapped4_def)
  then have u: "\<not> isUnspecified (mapped4 (10, 0, 0, 1))" unfolding isUnspecified_def by metis
  have t: "TrimSpace ?v = ?v" "Split ?v CHR '','' = [''10.0.0.1'', '' 10.0.0.1'']" "TrimSpace ''10.0.0.1'' = ''10.0.0.1''"
    "TrimSpace '' 10.0.0.1'' = ''10.0.0.1''" by code_simp+
  have "parseListenAddresses ?v ''80'' = Inr [JoinHostPort (ipString (mapped4 (10, 0, 0, 1))) ''80'']"
    using p u by (simp add: parseListenAddresses_def t)
  then obtain addrs where addrs: "parseListenAddresses ?v ''80'' = Inr addrs" by blast
  have v: "TrimSpace ?v \<notin> {[], ''any''}" using t(1) by simp
  obtain r live where l: "listenHTTP (\<lambda>_. None) [] addrs = (r, live)" by (metis surj_pair)
  note exact = listen_addresses_exact [OF addrs v l]
  have "r = Inr addrs" "live = addrs" using exact by (cases r; simp)+
  then show ?thesis using exact [THEN conjunct1] addrs l by blast
qed

end
