(* ===== verification/Browse.thy ===== *)
theory Browse
  imports Path_Guard App_Config "HOL-Library.Multiset"
begin

text \<open>
  The browse handler (\<^verbatim>\<open>handleBrowse\<close> of \<^verbatim>\<open>server/browse.go\<close>) on top of the path checks: the target, the listing with its order,
  and the link to the parent. \<^verbatim>\<open>sort.Slice\<close>, \<^verbatim>\<open>strings.ToLower\<close> on arbitrary names and the layout of times are arguments.
\<close>

record browseEntry =
  be_Name :: string
  be_Path :: string
  be_IsDir :: bool
  be_Size :: int
  be_Modified :: string

record browseTarget =
  bt_Path :: string
  bt_IsDir :: bool

record browseResponse =
  br_Path :: string
  br_Parent :: string
  br_Entries :: "browseEntry list"
  br_Roots :: "string list"
  br_Target :: browseTarget

record browseWorld =
  bw_sort :: "(browseEntry \<Rightarrow> browseEntry \<Rightarrow> bool) \<Rightarrow> browseEntry list \<Rightarrow> browseEntry list"
  bw_lower :: "string \<Rightarrow> string"
  bw_format :: "gotime \<Rightarrow> string"

definition entryLess :: "(string \<Rightarrow> string) \<Rightarrow> browseEntry \<Rightarrow> browseEntry \<Rightarrow> bool" where
  "entryLess lower a b =
     (if be_IsDir a \<noteq> be_IsDir b then be_IsDir a else strLess (lower (be_Name a)) (lower (be_Name b)))"

definition browseEntryOf :: "browseWorld \<Rightarrow> osview \<Rightarrow> string \<Rightarrow> direntry \<Rightarrow> browseEntry list" where
  "browseEntryOf w os path entry =
     (let full = filepath_Join path (de_name entry) in
      case os_Lstat os full of
        Inl _ \<Rightarrow> []
      | Inr info \<Rightarrow> [\<lparr> be_Name = de_name entry, be_Path = full, be_IsDir = (de_mode entry = ModeDir),
                       be_Size = fi_size info, be_Modified = bw_format w (fi_mtime info) \<rparr>])"

definition listEntries ::
    "browseWorld \<Rightarrow> osview \<Rightarrow> config \<Rightarrow> (string \<times> string) list \<Rightarrow> string \<Rightarrow> direntry list \<Rightarrow> browseEntry list" where
  "listEntries w os cfg devices path dirEntries =
     concat (map (browseEntryOf w os path) (filter (browseShows os cfg devices path) dirEntries))"

definition browseParent :: "osview \<Rightarrow> config \<Rightarrow> string \<Rightarrow> actor \<Rightarrow> string" where
  "browseParent os cfg path who =
     (if Dir path \<noteq> path \<and> (case safeBrowsePath os cfg (Dir path) who of Inl _ \<Rightarrow> False | Inr _ \<Rightarrow> True) then Dir path else [])"

text \<open>The status of a refusal with its error, or the answer.\<close>

definition browsePath ::
    "browseWorld \<Rightarrow> osview \<Rightarrow> config \<Rightarrow> actor \<Rightarrow> string \<Rightarrow> nat \<times> goerror + browseResponse" where
  "browsePath w os cfg who requested0 =
     (let requested = (if requested0 = [] then hd (BrowseRoots cfg) else requested0) in
      case safeBrowsePath os cfg requested who of
        Inl e \<Rightarrow> Inl (StatusBadRequest, e)
      | Inr (target, devices) \<Rightarrow>
     (case os_Stat os target of
        Inl e \<Rightarrow> Inl (StatusNotFound, e)
      | Inr info \<Rightarrow>
     (let isDir = (fi_mode info = ModeDir); path = (if isDir then target else Dir target) in
      case os_ReadDir os path of
        Inl e \<Rightarrow> Inl (StatusForbidden, e)
      | Inr dirEntries \<Rightarrow>
          Inr \<lparr> br_Path = path, br_Parent = browseParent os cfg path who,
                br_Entries = bw_sort w (entryLess (bw_lower w)) (listEntries w os cfg devices path dirEntries),
                br_Roots = BrowseRoots cfg, br_Target = \<lparr> bt_Path = target, bt_IsDir = isDir \<rparr> \<rparr>)))"

definition entryJSON :: "browseEntry \<Rightarrow> json" where
  "entryJSON e = JObject [(''name'', JString (be_Name e)), (''path'', JString (be_Path e)), (''is_dir'', JBool (be_IsDir e)),
     (''size'', JNumber (be_Size e)), (''modified'', JString (be_Modified e))]"

definition browseJSON :: "browseResponse \<Rightarrow> json" where
  "browseJSON r = JObject ([(''path'', JString (br_Path r))] @
     (if br_Parent r = [] then [] else [(''parent'', JString (br_Parent r))]) @
     [(''entries'', JArray (map entryJSON (br_Entries r))), (''roots'', JArray (map JString (br_Roots r))),
      (''target'', JObject [(''path'', JString (bt_Path (br_Target r))), (''is_dir'', JBool (bt_IsDir (br_Target r)))])])"

definition handleBrowse ::
    "browseWorld \<Rightarrow> osview \<Rightarrow> config \<Rightarrow> httpMethod \<Rightarrow> actor option \<Rightarrow> string \<Rightarrow> response" where
  "handleBrowse w os cfg meth ctx query =
     (if meth \<noteq> MethodGet then methodNotAllowed
      else case browsePath w os cfg (actorOrZero ctx) query of
        Inl (status, e) \<Rightarrow> writeError status e
      | Inr r \<Rightarrow> writeJSON StatusOK (browseJSON r))"

section \<open>What can be seen\<close>

text \<open>
  The paths an actor may see: below the browse root, and in TimeDock mode the root itself, the devices, and the
  account's directory on a device with everything below it.
\<close>

definition browsable :: "config \<Rightarrow> actor \<Rightarrow> string \<Rightarrow> bool" where
  "browsable cfg who p \<longleftrightarrow>
     (\<exists>cs. list_all goodComp cs \<and> p = absPath (''scan'' # cs) \<and>
        (IsTimeDock cfg \<longrightarrow> cs = [] \<or>
           (\<exists>dev. isTimeDockDeviceName dev \<and> (cs = [dev] \<or> (\<exists>rest. cs = dev # TimeDockAccount who # rest)))))"

lemma browsable_scan: "browsable cfg who (absPath [''scan''])"
  unfolding browsable_def by (rule exI [of _ "[]"]) simp

lemma deviceAccount_dirs:
  assumes "\<forall>da \<in> set devices. accountDirOf os account da" and "deviceAccount devices p \<noteq> []"
  obtains dev where "isTimeDockDeviceName dev" and "p = absPath [''scan'', dev]" and "deviceAccount devices p = absPath [''scan'', dev, account]"
proof -
  obtain a where a: "map_of devices p = Some a" "deviceAccount devices p = a"
    using assms(2) by (auto simp: deviceAccount_def split: option.splits)
  then have "accountDirOf os account (p, a)" using assms(1) map_of_SomeD by fastforce
  then show thesis using that a(2) by (auto simp: accountDirOf_def)
qed

lemma authorized_device:
  assumes "list_all goodComp cs" and "goodComp account" and dirs: "\<forall>da \<in> set devices. accountDirOf os account da"
    and ok: "authorizeTimeDockPath (absPath (''scan'' # cs)) devices = Inr ()"
  shows "\<exists>dev rest. cs = dev # account # rest \<and> isTimeDockDeviceName dev \<and> deviceAccount devices (absPath [''scan'', dev]) \<noteq> []"
proof -
  obtain d a where da: "(d, a) \<in> set devices" and w: "pathWithin (absPath (''scan'' # cs)) a"
    using ok by (auto simp: authorizeTimeDockPath_def list_ex_iff split: if_splits)
  then obtain dev where dev: "isTimeDockDeviceName dev" "d = absPath [''scan'', dev]" "a = absPath [''scan'', dev, account]"
    using dirs by (fastforce simp: accountDirOf_def)
  have "prefix [''scan'', dev, account] (''scan'' # cs)"
    using w dev assms(1, 2) isTimeDockDeviceName_good
    by (subst (asm) dev(3), subst (asm) pathWithin_absPath) (auto simp: goodComp_def)
  then obtain rest where cs: "cs = dev # account # rest" by (auto simp: prefix_def)
  obtain a' where a': "map_of devices d = Some a'" using da by (metis map_of_eq_None_iff fst_conv image_eqI not_None_eq)
  then have "accountDirOf os account (d, a')" using dirs map_of_SomeD by fastforce
  then have "a' \<noteq> []" by (auto simp: accountDirOf_def absPath_def)
  then show ?thesis using cs dev a' by (auto simp: deviceAccount_def)
qed

text \<open>What an accepted path is, with the devices that come with it.\<close>

lemma safeBrowsePath_shape:
  assumes roots: "BrowseRoots cfg = [''/scan'']" and acct: "IsTimeDock cfg \<longrightarrow> goodComp (TimeDockAccount who)"
    and ok: "safeBrowsePath os cfg input who = Inr (p, devices)"
  shows "\<exists>cs. p = absPath (''scan'' # cs) \<and> list_all goodComp cs \<and>
    (IsTimeDock cfg \<longrightarrow> (\<forall>da \<in> set devices. accountDirOf os (TimeDockAccount who) da)) \<and>
    (IsTimeDock cfg \<longrightarrow> cs = [] \<or> deviceAccount devices p \<noteq> [] \<or>
      (\<exists>dev rest. cs = dev # TimeDockAccount who # rest \<and> isTimeDockDeviceName dev \<and> deviceAccount devices (absPath [''scan'', dev]) \<noteq> []))"
proof -
  have safe: "safePath os cfg input = Inr p"
    using ok by (auto simp: safeBrowsePath_def Let_def split: if_splits sum.splits)
  then obtain cs where cs: "p = absPath (''scan'' # cs)" "list_all goodComp cs" using safePath_iff [OF roots] by auto
  show ?thesis
  proof (cases "IsTimeDock cfg")
    case False
    then show ?thesis using cs by blast
  next
    case True
    then have dev: "timeDockDeviceAccounts os cfg (TimeDockAccount who) = Inr devices"
      and auth: "p = Clean ''/scan'' \<or> deviceAccount devices p \<noteq> [] \<or> authorizeTimeDockPath p devices = Inr ()"
      using ok safe roots by (auto simp: safeBrowsePath_def Let_def split: if_splits)
    have dirs: "\<forall>da \<in> set devices. accountDirOf os (TimeDockAccount who) da"
      using timeDockDeviceAccounts_dirs [OF roots _ dev] acct True by simp
    have "cs = []" if "p = Clean ''/scan''"
      using that cs absPath_inject [of "''scan'' # cs" "[''scan'']"] by (simp add: Clean_scan goodComp_def)
    moreover have "\<exists>dev rest. cs = dev # TimeDockAccount who # rest \<and> isTimeDockDeviceName dev \<and> deviceAccount devices (absPath [''scan'', dev]) \<noteq> []"
      if a: "authorizeTimeDockPath p devices = Inr ()"
      by (rule authorized_device [OF cs(2) _ dirs a [unfolded cs(1)]]) (use acct True in simp)
    ultimately show ?thesis using cs dirs auth by blast
  qed
qed

text \<open>The directory that is listed: the target, or its parent when the target is a file.\<close>

definition listable :: "config \<Rightarrow> actor \<Rightarrow> (string \<times> string) list \<Rightarrow> string list \<Rightarrow> bool" where
  "listable cfg who devices cs \<longleftrightarrow>
     list_all goodComp cs \<and>
     (IsTimeDock cfg \<longrightarrow> cs = [] \<or> deviceAccount devices (absPath (''scan'' # cs)) \<noteq> [] \<or>
        (\<exists>dev rest. cs = dev # TimeDockAccount who # rest \<and> isTimeDockDeviceName dev))"

lemma listable_browsable:
  assumes "listable cfg who devices cs" and "IsTimeDock cfg \<Longrightarrow> \<forall>da \<in> set devices. accountDirOf os (TimeDockAccount who) da"
  shows "browsable cfg who (absPath (''scan'' # cs))"
proof (cases "IsTimeDock cfg \<and> deviceAccount devices (absPath (''scan'' # cs)) \<noteq> []")
  case True
  then obtain dev where "isTimeDockDeviceName dev" "absPath (''scan'' # cs) = absPath [''scan'', dev]"
    using deviceAccount_dirs assms(2) by metis
  then show ?thesis using True isTimeDockDeviceName_good unfolding browsable_def by (intro exI [of _ "[dev]"]) auto
next
  case False
  then show ?thesis using assms(1) unfolding browsable_def listable_def by blast
qed

lemma shown_browsable:
  assumes roots: "BrowseRoots cfg = [''/scan'']" and l: "listable cfg who devices cs"
    and acct: "IsTimeDock cfg \<longrightarrow> goodComp (TimeDockAccount who)"
    and dirs: "IsTimeDock cfg \<Longrightarrow> \<forall>da \<in> set devices. accountDirOf os (TimeDockAccount who) da"
    and s: "browseShows os cfg devices (absPath (''scan'' # cs)) e" and n: "goodComp (de_name e)"
  shows "browsable cfg who (filepath_Join (absPath (''scan'' # cs)) (de_name e))"
proof -
  have good: "list_all goodComp (''scan'' # cs)" using l by (simp add: listable_def goodComp_def)
  have full: "filepath_Join (absPath (''scan'' # cs)) (de_name e) = absPath (''scan'' # cs @ [de_name e])"
    using filepath_Join_absPath [OF good n] by simp
  let ?p = "absPath (''scan'' # cs)" and ?f = "filepath_Join (absPath (''scan'' # cs)) (de_name e)"
  consider (plain) "\<not> IsTimeDock cfg" | (root) "IsTimeDock cfg" "?p = Clean ''/scan''" "map_of devices ?f \<noteq> None"
    | (device) "IsTimeDock cfg" "deviceAccount devices ?p \<noteq> []" "?f = deviceAccount devices ?p"
    | (inside) "IsTimeDock cfg" "?p \<noteq> Clean ''/scan''" "deviceAccount devices ?p = []"
    using s roots by (auto simp: browseShows_def Let_def split: if_splits)
  then show ?thesis
  proof cases
    case plain
    then show ?thesis using good n unfolding browsable_def full by (intro exI [of _ "cs @ [de_name e]"]) auto
  next
    case root
    then obtain a where "(?f, a) \<in> set devices" using map_of_SomeD by fastforce
    then obtain dev where "isTimeDockDeviceName dev" "?f = absPath [''scan'', dev]"
      using dirs [OF root(1)] by (fastforce simp: accountDirOf_def)
    then show ?thesis using isTimeDockDeviceName_good unfolding browsable_def by (intro exI [of _ "[dev]"]) auto
  next
    case device
    then obtain dev where "isTimeDockDeviceName dev" "?f = absPath [''scan'', dev, TimeDockAccount who]"
      using deviceAccount_dirs dirs by metis
    then show ?thesis using isTimeDockDeviceName_good acct device(1) unfolding browsable_def
      by (intro exI [of _ "[dev, TimeDockAccount who]"]) auto
  next
    case inside
    then obtain dev rest where "cs = dev # TimeDockAccount who # rest" "isTimeDockDeviceName dev"
      using l by (auto simp: listable_def Clean_scan)
    then show ?thesis using good n unfolding browsable_def full by (intro exI [of _ "cs @ [de_name e]"]) auto
  qed
qed

lemma parent_listable:
  assumes "list_all goodComp cs" and "cs \<noteq> []" and acct: "IsTimeDock cfg \<longrightarrow> goodComp (TimeDockAccount who)"
    and dirs: "IsTimeDock cfg \<Longrightarrow> \<forall>da \<in> set devices. accountDirOf os (TimeDockAccount who) da"
    and td: "IsTimeDock cfg \<Longrightarrow> deviceAccount devices (absPath (''scan'' # cs)) \<noteq> [] \<or>
      (\<exists>dev rest. cs = dev # TimeDockAccount who # rest \<and> isTimeDockDeviceName dev \<and> deviceAccount devices (absPath [''scan'', dev]) \<noteq> [])"
  shows "Dir (absPath (''scan'' # cs)) = absPath (''scan'' # butlast cs) \<and> listable cfg who devices (butlast cs)"
proof -
  have good: "list_all goodComp (''scan'' # butlast cs)" "goodComp (last cs)"
    using assms(1, 2) by (auto simp: list_all_iff goodComp_def dest: in_set_butlastD)
  have "absPath (''scan'' # cs) = absPath ((''scan'' # butlast cs) @ [last cs])" using assms(2) by simp
  then have dir: "Dir (absPath (''scan'' # cs)) = absPath (''scan'' # butlast cs)" using Dir_absPath [OF good] by simp
  have "listable cfg who devices (butlast cs)"
  proof (cases "IsTimeDock cfg")
    case False
    then show ?thesis using good by (simp add: listable_def)
  next
    case True
    show ?thesis
    proof (cases "deviceAccount devices (absPath (''scan'' # cs)) \<noteq> []")
      case d: True
      then obtain dev where "isTimeDockDeviceName dev" "absPath (''scan'' # cs) = absPath [''scan'', dev]"
        using deviceAccount_dirs dirs [OF True] by metis
      then have "cs = [dev]"
        using assms(1) isTimeDockDeviceName_good absPath_inject [of "''scan'' # cs" "[''scan'', dev]"] by (auto simp: goodComp_def)
      then show ?thesis by (simp add: listable_def)
    next
      case False
      then obtain dev rest where "cs = dev # TimeDockAccount who # rest" "isTimeDockDeviceName dev"
        "deviceAccount devices (absPath [''scan'', dev]) \<noteq> []" using td [OF True] by auto
      then show ?thesis using good(1) by (cases rest) (auto simp: listable_def)
    qed
  qed
  then show ?thesis using dir by simp
qed

lemma Clean_Dir_absPath:
  assumes "list_all goodComp cs" and "cs \<noteq> []"
  shows "Clean (Dir (absPath cs)) = Dir (absPath cs)"
proof -
  have good: "list_all goodComp (butlast cs)" "goodComp (last cs)"
    using assms by (auto simp: list_all_iff dest: in_set_butlastD)
  then show ?thesis using Dir_absPath [OF good] assms(2) by simp
qed

section \<open>The contract of the listing\<close>

text \<open>\<^verbatim>\<open>sort.Slice\<close>: a permutation, in order when the comparison is a strict weak order.\<close>

definition weakOrder :: "('a \<Rightarrow> 'a \<Rightarrow> bool) \<Rightarrow> bool" where
  "weakOrder less' \<longleftrightarrow> (\<forall>a b c. (less' a b \<longrightarrow> less' b c \<longrightarrow> less' a c) \<and> \<not> less' a a \<and> (\<not> less' a b \<longrightarrow> \<not> less' b c \<longrightarrow> \<not> less' a c))"

definition sortsSlices :: "browseWorld \<Rightarrow> bool" where
  "sortsSlices w \<longleftrightarrow>
     (\<forall>less' xs. mset (bw_sort w less' xs) = mset xs \<and>
        (weakOrder less' \<longrightarrow> sorted_wrt (\<lambda>a b. \<not> less' b a) (bw_sort w less' xs)))"

lemma entryLess_weakOrder: "weakOrder (entryLess lower)"
proof -
  have "\<not> strLess x z" if "\<not> strLess x y" "\<not> strLess y z" for x y z
    using that strLess_total [of x y] strLess_total [of y z] strLess_trans [of x z y] strLess_trans [of z y x] strLess_trans by metis
  then show ?thesis unfolding weakOrder_def entryLess_def using strLess_trans strLess_irrefl by (smt (verit, best))
qed

lemma listEntries_mem:
  assumes "e \<in> set (listEntries w os cfg devices path es)"
  obtains d where "d \<in> set es" and "browseShows os cfg devices path d" and "be_Path e = filepath_Join path (de_name d)"
    and "be_Name e = de_name d" and "\<exists>info. os_Lstat os (be_Path e) = Inr info \<and> fi_mode info \<noteq> ModeSymlink"
proof -
  obtain d where d: "d \<in> set es" "browseShows os cfg devices path d" "e \<in> set (browseEntryOf w os path d)"
    using assms by (auto simp: listEntries_def)
  then obtain info where "os_Lstat os (filepath_Join path (de_name d)) = Inr info" "fi_mode info \<noteq> ModeSymlink"
    by (auto simp: browseShows_def Let_def split: sum.splits)
  then show thesis using that [OF d(1, 2)] d(3) by (simp add: browseEntryOf_def)
qed


definition insertionSort :: "('a \<Rightarrow> 'a \<Rightarrow> bool) \<Rightarrow> 'a list \<Rightarrow> 'a list" where
  "insertionSort less' xs = foldr (\<lambda>x ys. takeWhile (\<lambda>y. less' y x) ys @ x # dropWhile (\<lambda>y. less' y x) ys) xs []"

definition sampleBrowse :: browseWorld where
  "sampleBrowse = \<lparr> bw_sort = insertionSort, bw_lower = id, bw_format = (\<lambda>_. []) \<rparr>"

lemma insertionSort_sorts:
  "mset (insertionSort less' xs) = mset xs \<and> (weakOrder less' \<longrightarrow> sorted_wrt (\<lambda>a b. \<not> less' b a) (insertionSort less' xs))"
proof (induction xs)
  case (Cons x xs)
  let ?ys = "insertionSort less' xs" and ?P = "\<lambda>y. less' y x"
  have step: "insertionSort less' (x # xs) = takeWhile ?P ?ys @ x # dropWhile ?P ?ys" by (simp add: insertionSort_def)
  have ys: "takeWhile ?P ?ys @ dropWhile ?P ?ys = ?ys" by simp
  have "mset (takeWhile ?P ?ys) + mset (dropWhile ?P ?ys) = mset ?ys" by (metis mset_append ys)
  then have "mset (insertionSort less' (x # xs)) = mset (x # xs)" using Cons.IH unfolding step by simp
  moreover have "sorted_wrt (\<lambda>a b. \<not> less' b a) (insertionSort less' (x # xs))" if w: "weakOrder less'"
  proof -
    have sorted: "sorted_wrt (\<lambda>a b. \<not> less' b a) (takeWhile ?P ?ys @ dropWhile ?P ?ys)" using Cons.IH w ys by simp
    have low: "less' y x" if "y \<in> set (takeWhile ?P ?ys)" for y using that by (rule set_takeWhileD [THEN conjunct2])
    have asym: "\<not> less' x y" if "y \<in> set (takeWhile ?P ?ys)" for y using low [OF that] w unfolding weakOrder_def by metis
    have high: "\<not> less' y x" if y: "y \<in> set (dropWhile ?P ?ys)" for y
    proof (cases "dropWhile ?P ?ys")
      case (Cons z zs)
      then have "\<not> less' z x" using hd_dropWhile [of ?P ?ys] by simp
      moreover have "y = z \<or> \<not> less' y z" using sorted y Cons by (auto simp: sorted_wrt_append)
      ultimately show ?thesis using w unfolding weakOrder_def by metis
    next
      case Nil
      then show ?thesis using y by (metis list.set(1) empty_iff)
    qed
    show ?thesis
      using sorted asym high unfolding step sorted_wrt_append sorted_wrt.simps list.set by blast
  qed
  ultimately show ?case by blast
qed (simp add: insertionSort_def)


end
