(* ===== verification/Spec2Isabelle.thy ===== *)
theory Spec2Isabelle
  imports Prelude Go_Strings Go_Paths Go_Fields Net_IP Server_Config Identity Path_Guard
    Scan_Queue Queue_Runner Queue_System Scan_Handlers App_Config Login_Limiter Lookups
    Cron_Config Cron_Documents Cron_Handlers Passwords User_Database Auth_Handlers Whitelist Quarantine
    History_Index User_Admin User_Statements Results Lookup_Handlers Account_Deletion Account_System Deletion_Complete
    Engine_Status Sleep_Wake Config_Roundtrip Service_Config History_Watch App_Log
    Request_Log Routing Databases Startup Browse
begin

text \<open>
  ClamAV-Web: the server behind a web interface for the ClamAV scanner
  (\<^verbatim>\<open>src/server\<close>, package \<^verbatim>\<open>main\<close>). Users log in, browse the scan tree, queue scans that are run one at
  a time by a shell script, schedule scans by cron rules, and look up results, statistics and
  quarantined files. This development models the server's own logic in HOL and proves the
  properties it is written for.
\<close>

end
